(* ===== verification/Goldfive_Prelude.thy ===== *)
theory Goldfive_Prelude
  imports Main "HOL-Library.AList" "HOL-Library.Char_ord" "HOL-Library.List_Lexorder"
begin

text \<open>
  Shared vocabulary of the development.

  \<^item> Python dictionaries whose insertion order matters are association lists with distinct keys
    (\<open>dict\<close>); storing a key updates it in place or appends it, which is \<^const>\<open>AList.update\<close>, and
    popping a key is \<^const>\<open>AList.delete\<close>. Dictionaries of which only lookups are used are maps.
  \<^item> A raising computation is a value of the sum \<open>'e + 'a\<close> with \<open>Inl\<close> for the exception;
    \<open>ebind\<close> sequences two of them and \<open>emap\<close> runs one over a list, left to right.
\<close>

named_theorems gf_simps \<open>unfolding rules of the operations that only inspect their argument\<close>
named_theorems gf_frame \<open>fields an operation leaves alone\<close>

section \<open>Exceptions as values\<close>

datatype py_error =
    ValueError string
  | TypeError string
  | KeyError string
  | OverflowError string
  | PlanOwnershipViolation
  | AssertionError

fun ebind :: "'e + 'a \<Rightarrow> ('a \<Rightarrow> 'e + 'b) \<Rightarrow> 'e + 'b" where
  "ebind (Inl e) f = Inl e"
| "ebind (Inr x) f = f x"

fun emap :: "('a \<Rightarrow> 'e + 'b) \<Rightarrow> 'a list \<Rightarrow> 'e + 'b list" where
  "emap f [] = Inr []"
| "emap f (x # xs) = ebind (f x) (\<lambda>y. ebind (emap f xs) (\<lambda>ys. Inr (y # ys)))"

lemma ebind_cong [fundef_cong]:
  "m = m' \<Longrightarrow> (\<And>x. m' = Inr x \<Longrightarrow> f x = g x) \<Longrightarrow> ebind m f = ebind m' g"
  by (cases m') auto

lemma ebind_Inr_iff: "ebind m f = Inr y \<longleftrightarrow> (\<exists>x. m = Inr x \<and> f x = Inr y)"
  by (cases m) auto

lemma ebind_Inl_iff: "ebind m f = Inl e \<longleftrightarrow> m = Inl e \<or> (\<exists>x. m = Inr x \<and> f x = Inl e)"
  by (cases m) auto

lemma emap_total: "(\<And>x. x \<in> set xs \<Longrightarrow> f x = Inr (g x)) \<Longrightarrow> emap f xs = Inr (map g xs)"
  by (induction xs) auto

text \<open>A check that passes on to the next one: \<open>None\<close> means that no exception was raised.\<close>

lemma case_no_error [simp]:
  "(case x of None \<Rightarrow> y | Some e \<Rightarrow> Some e) = None \<longleftrightarrow> x = None \<and> y = None"
  by (cases x) auto

section \<open>Dictionaries\<close>

type_synonym ('k, 'v) dict = "('k \<times> 'v) list"

definition dict_ok :: "('k, 'v) dict \<Rightarrow> bool" where
  "dict_ok d \<longleftrightarrow> distinct (map fst d)"

text \<open>The comprehension \<open>{k: v for ...}\<close>: a repeated key keeps its first position and its last value.\<close>

definition dict_of :: "('k \<times> 'v) list \<Rightarrow> ('k, 'v) dict" where
  "dict_of kvs = foldl (\<lambda>d kv. AList.update (fst kv) (snd kv) d) [] kvs"

lemma dict_ok_Nil [simp]: "dict_ok []"
  by (simp add: dict_ok_def)

lemma dict_ok_update [simp]: "dict_ok d \<Longrightarrow> dict_ok (AList.update k v d)"
  by (simp add: dict_ok_def distinct_update)

lemma dict_ok_delete [simp]: "dict_ok d \<Longrightarrow> dict_ok (AList.delete k d)"
  by (simp add: dict_ok_def distinct_delete)

lemma foldl_update_conv:
  "map_of (foldl (\<lambda>d kv. AList.update (fst kv) (snd kv) d) d kvs) k =
     (case map_of (rev kvs) k of None \<Rightarrow> map_of d k | Some v \<Rightarrow> Some v)"
proof (induction kvs arbitrary: d)
  case (Cons kv kvs)
  then show ?case
    by (cases kv) (auto simp: update_conv' map_add_def split: option.splits)
qed simp

lemma map_of_dict_of: "map_of (dict_of kvs) k = map_of (rev kvs) k"
  by (simp add: dict_of_def foldl_update_conv split: option.splits)

lemma keys_dict_of: "fst ` set (dict_of kvs) = fst ` set kvs"
proof -
  have "dom (map_of (dict_of kvs)) = dom (map_of (rev kvs))"
    by (simp add: map_of_dict_of dom_def)
  then show ?thesis by (simp add: dom_map_of_conv_image_fst)
qed

lemma dict_ok_foldl_update:
  "dict_ok d \<Longrightarrow> dict_ok (foldl (\<lambda>d kv. AList.update (fst kv) (snd kv) d) d kvs)"
  by (induction kvs arbitrary: d) simp_all

lemma dict_ok_dict_of [simp]: "dict_ok (dict_of kvs)"
  by (simp add: dict_of_def dict_ok_foldl_update)

lemma foldl_update_fresh:
  assumes "distinct (map fst d @ map fst kvs)"
  shows "foldl (\<lambda>d kv. AList.update (fst kv) (snd kv) d) d kvs = d @ kvs"
  using assms
proof (induction kvs arbitrary: d)
  case (Cons kv kvs)
  have fresh: "AList.update (fst kv) (snd kv) d = d @ [kv]" if "fst kv \<notin> fst ` set d" for d
    using that by (induction d) auto
  from Cons.prems have notin: "fst kv \<notin> fst ` set d" by auto
  have "distinct (map fst (d @ [kv]) @ map fst kvs)" using Cons.prems by auto
  then show ?case using Cons.IH [of "d @ [kv]"] by (simp add: fresh [OF notin])
qed simp

lemma dict_of_distinct: "distinct (map fst kvs) \<Longrightarrow> dict_of kvs = kvs"
  unfolding dict_of_def using foldl_update_fresh [of "[]" kvs] by simp

lemma map_of_rev_distinct: "distinct (map fst kvs) \<Longrightarrow> map_of (rev kvs) = map_of kvs"
  by (rule map_of_eqI) (auto simp: rev_map [symmetric])

section \<open>Lists\<close>

text \<open>Python's slice \<open>xs[-n:]\<close> for a positive \<open>n\<close>.\<close>

definition last_n :: "nat \<Rightarrow> 'a list \<Rightarrow> 'a list" where
  "last_n n xs = drop (length xs - n) xs"

lemma length_last_n [simp]: "length (last_n n xs) = min n (length xs)"
  by (simp add: last_n_def)

lemma set_last_n: "set (last_n n xs) \<subseteq> set xs"
  by (simp add: last_n_def set_drop_subset)

lemma last_n_all: "length xs \<le> n \<Longrightarrow> last_n n xs = xs"
  by (simp add: last_n_def)

lemma find_map_of:
  "distinct (map f xs) \<Longrightarrow> find (\<lambda>x. f x = k) xs = map_of (map (\<lambda>x. (f x, x)) xs) k"
  by (induction xs) auto

lemma find_SomeD: "find P xs = Some x \<Longrightarrow> x \<in> set xs \<and> P x"
  by (auto simp: find_Some_iff)

lemma find_None_conv: "find P xs = None \<longleftrightarrow> (\<forall>x\<in>set xs. \<not> P x)"
  by (auto simp: find_None_iff)

end
