(* ===== verification/Python_Values.thy ===== *)
theory Python_Values
  imports Goldfive_Prelude
begin

text \<open>
  The Python values goldfive stores in \<open>Session.state\<close> and the built-in conversions the source
  applies to them. \<open>Session.state\<close> only ever holds JSON-serialisable data (\<open>state_store.py\<close>,
  \<open>signal_ledger.py\<close>: "JSON-serialisable dict"), so a value is \<open>None\<close>, a bool, an int, a str, a list
  or a str-keyed dict; \<open>truthy\<close>, \<open>py_str\<close> and \<open>py_int\<close> are \<open>bool(x)\<close>, \<open>str(x)\<close> and \<open>int(x)\<close>.
\<close>

datatype json =
    JNull
  | JBool bool
  | JInt int
  | JStr string
  | JList "json list"
  | JDict "(string \<times> json) list"

fun truthy :: "json \<Rightarrow> bool" where
  "truthy JNull = False"
| "truthy (JBool b) = b"
| "truthy (JInt n) = (n \<noteq> 0)"
| "truthy (JStr s) = (s \<noteq> [])"
| "truthy (JList xs) = (xs \<noteq> [])"
| "truthy (JDict d) = (d \<noteq> [])"

section \<open>str(x)\<close>

definition digit_char :: "nat \<Rightarrow> char" where
  "digit_char n = (if n < 10 then char_of (48 + n) else char_of (87 + n))"

fun show_nat :: "nat \<Rightarrow> string" where
  "show_nat n = (if n < 10 then [digit_char n] else show_nat (n div 10) @ [digit_char (n mod 10)])"

declare show_nat.simps [simp del]

definition show_int :: "int \<Rightarrow> string" where
  "show_int n = (if n < 0 then ''-'' @ show_nat (nat (- n)) else show_nat (nat n))"

text \<open>\<open>repr\<close> of a str: single quotes unless the text holds a single and no double quote.\<close>

definition printable :: "char \<Rightarrow> bool" where
  "printable c = (let n = (of_char c :: nat) in (32 \<le> n \<and> n < 127) \<or> (161 \<le> n \<and> n \<noteq> 173))"

definition repr_char :: "char \<Rightarrow> char \<Rightarrow> string" where
  "repr_char q c =
     (let n = (of_char c :: nat) in
      if c = q \<or> n = 92 then [char_of (92::nat), c]
      else if n = 10 then [char_of (92::nat), CHR ''n'']
      else if n = 13 then [char_of (92::nat), CHR ''r'']
      else if n = 9 then [char_of (92::nat), CHR ''t'']
      else if printable c then [c]
      else [char_of (92::nat), CHR ''x'', digit_char (n div 16), digit_char (n mod 16)])"

definition repr_str :: "string \<Rightarrow> string" where
  "repr_str s =
     (let sq = char_of (39::nat); dq = char_of (34::nat);
          q = (if sq \<in> set s \<and> dq \<notin> set s then dq else sq)
      in [q] @ concat (map (repr_char q) s) @ [q])"

fun join :: "string \<Rightarrow> string list \<Rightarrow> string" where
  "join sep [] = []"
| "join sep [x] = x"
| "join sep (x # y # ys) = x @ sep @ join sep (y # ys)"

fun repr_json :: "json \<Rightarrow> string" where
  "repr_json JNull = ''None''"
| "repr_json (JBool b) = (if b then ''True'' else ''False'')"
| "repr_json (JInt n) = show_int n"
| "repr_json (JStr s) = repr_str s"
| "repr_json (JList xs) = ''['' @ join '', '' (map repr_json xs) @ '']''"
| "repr_json (JDict d) =
     ''{'' @ join '', '' (map (\<lambda>kv. repr_str (fst kv) @ '': '' @ repr_json (snd kv)) d) @ ''}''"

fun py_str :: "json \<Rightarrow> string" where
  "py_str (JStr s) = s"
| "py_str v = repr_json v"

text \<open>The idiom \<open>str(x or "")\<close>.\<close>

definition str_or_empty :: "json \<Rightarrow> string" where
  "str_or_empty v = (if truthy v then py_str v else [])"

lemma str_or_empty_JStr [simp]: "str_or_empty (JStr s) = s"
  by (simp add: str_or_empty_def)

section \<open>int(x)\<close>

definition is_digit :: "char \<Rightarrow> bool" where
  "is_digit c = (let n = (of_char c :: nat) in 48 \<le> n \<and> n \<le> 57)"

definition is_space :: "char \<Rightarrow> bool" where
  "is_space c = (let n = (of_char c :: nat) in (9 \<le> n \<and> n \<le> 13) \<or> (28 \<le> n \<and> n \<le> 32) \<or> n = 133 \<or> n = 160)"

definition strip :: "string \<Rightarrow> string" where
  "strip s = rev (dropWhile is_space (rev (dropWhile is_space s)))"

text \<open>Decimal digits with single underscores between digits, as \<open>int\<close> accepts them.\<close>

fun digits_value :: "nat \<Rightarrow> string \<Rightarrow> nat option" where
  "digits_value acc [] = Some acc"
| "digits_value acc (c # cs) =
     (if is_digit c then digits_value (acc * 10 + (of_char c - 48)) cs
      else if c = CHR ''_'' then
        (case cs of d # ds \<Rightarrow> if is_digit d then digits_value (acc * 10 + (of_char d - 48)) ds else None
                  | [] \<Rightarrow> None)
      else None)"

definition unsigned_value :: "string \<Rightarrow> nat option" where
  "unsigned_value s = (case s of [] \<Rightarrow> None | c # cs \<Rightarrow> if is_digit c then digits_value 0 s else None)"

definition parse_int :: "string \<Rightarrow> int option" where
  "parse_int s =
     (case strip s of
        [] \<Rightarrow> None
      | c # cs \<Rightarrow>
          if c = CHR ''-'' then map_option (\<lambda>n. - int n) (unsigned_value cs)
          else if c = CHR ''+'' then map_option int (unsigned_value cs)
          else map_option int (unsigned_value (c # cs)))"

fun py_int :: "json \<Rightarrow> py_error + int" where
  "py_int (JInt n) = Inr n"
| "py_int (JBool b) = Inr (if b then 1 else 0)"
| "py_int (JStr s) =
     (case parse_int s of Some n \<Rightarrow> Inr n
      | None \<Rightarrow> Inl (ValueError (''invalid literal for int() with base 10: '' @ repr_str s)))"
| "py_int v = Inl (TypeError ''int() argument must be a string, a bytes-like object or a real number'')"

text \<open>A value looked up in a payload dictionary: \<open>data.get(key, default)\<close>.\<close>

definition jget :: "(string \<times> json) list \<Rightarrow> string \<Rightarrow> json \<Rightarrow> json" where
  "jget d k dflt = (case map_of d k of Some v \<Rightarrow> v | None \<Rightarrow> dflt)"

section \<open>str/int round trip\<close>

lemma digit_char_code: "n < 10 \<Longrightarrow> of_char (digit_char n) = 48 + n"
  by (simp add: digit_char_def of_char_of)

lemma is_digit_digit_char: "n < 10 \<Longrightarrow> is_digit (digit_char n)"
  by (simp add: is_digit_def digit_char_code)

lemma digits_value_append:
  "digits_value acc s = Some m \<Longrightarrow> n < 10 \<Longrightarrow> digits_value acc (s @ [digit_char n]) = Some (m * 10 + n)"
  by (induction acc s arbitrary: m rule: digits_value.induct)
     (auto simp: is_digit_digit_char digit_char_code split: if_splits list.splits)

lemma digits_value_show_nat: "digits_value 0 (show_nat n) = Some n"
proof (induction n rule: show_nat.induct)
  case (1 n)
  show ?case
  proof (cases "n < 10")
    case True
    then show ?thesis
      by (simp add: show_nat.simps [of n] is_digit_digit_char digit_char_code)
  next
    case False
    with 1 have "digits_value 0 (show_nat (n div 10)) = Some (n div 10)" by simp
    from digits_value_append [OF this, of "n mod 10"] False show ?thesis
      by (simp add: show_nat.simps [of n])
  qed
qed

lemma show_nat_digits: "\<forall>c\<in>set (show_nat n). is_digit c"
  by (induction n rule: show_nat.induct)
     (subst show_nat.simps, auto simp: is_digit_digit_char)

lemma show_nat_nonempty: "show_nat n \<noteq> []"
  by (subst show_nat.simps) simp

lemma strip_unspaced: "\<forall>c\<in>set s. \<not> is_space c \<Longrightarrow> strip s = s"
proof -
  assume s: "\<forall>c\<in>set s. \<not> is_space c"
  have keep: "dropWhile is_space t = t" if "\<forall>c\<in>set t. \<not> is_space c" for t
    using that by (cases t) auto
  show "strip s = s" using keep [of s] keep [of "rev s"] s by (simp add: strip_def)
qed

lemma digit_not_space: "is_digit c \<Longrightarrow> \<not> is_space c"
  by (auto simp: is_digit_def is_space_def Let_def)

lemma parse_int_show_int: "parse_int (show_int n) = Some n"
proof -
  have strip_nat: "strip (show_nat m) = show_nat m" for m
    using show_nat_digits digit_not_space by (intro strip_unspaced) blast
  have dash: "\<not> is_space (CHR ''-'')" "\<not> is_digit (CHR ''-'')" "\<not> is_digit (CHR ''+'')"
    by (simp_all add: is_space_def is_digit_def)
  have strip_neg: "strip (CHR ''-'' # show_nat m) = CHR ''-'' # show_nat m" for m
    using show_nat_digits digit_not_space dash by (intro strip_unspaced) auto
  have val: "unsigned_value (show_nat m) = Some m" for m
    using show_nat_digits [of m] show_nat_nonempty [of m] digits_value_show_nat [of m]
    by (cases "show_nat m") (auto simp: unsigned_value_def)
  show ?thesis
  proof (cases "n < 0")
    case True
    then show ?thesis by (simp add: parse_int_def show_int_def strip_neg val)
  next
    case False
    obtain c cs where c: "show_nat (nat n) = c # cs" using show_nat_nonempty by (cases "show_nat (nat n)") auto
    with show_nat_digits [of "nat n"] have "is_digit c" by simp
    then have "c \<noteq> CHR ''-''" "c \<noteq> CHR ''+''" using dash by auto
    then show ?thesis using False strip_nat [of "nat n"] val [of "nat n"]
      by (simp add: parse_int_def show_int_def c)
  qed
qed

end
