(* ===== verification/Plan_Types.thy ===== *)
theory Plan_Types
  imports Python_Values
begin

text \<open>
  The data model of \<open>goldfive/types.py\<close>: the task, drift and supersession enumerations, the frozen
  \<open>Task\<close>, \<open>TaskEdge\<close> and \<open>Plan\<close> dataclasses, and the derivation helpers, which are the only way
  the framework "mutates" a plan. The lemmas state what each helper changes and, more to the point,
  what it leaves alone: ids, order, edges and the status of every other task.
\<close>

section \<open>Enumerations\<close>

datatype TaskStatus = PENDING | RUNNING | COMPLETED | FAILED | CANCELLED | BLOCKED | NOT_NEEDED

definition is_terminal :: "TaskStatus \<Rightarrow> bool" where
  "is_terminal s \<longleftrightarrow> s \<in> set [COMPLETED, FAILED, CANCELLED, NOT_NEEDED]"

definition TERMINAL_TASK_STATUSES :: "TaskStatus set" where
  "TERMINAL_TASK_STATUSES = {COMPLETED, FAILED, CANCELLED, NOT_NEEDED}"

fun status_value :: "TaskStatus \<Rightarrow> string" where
  "status_value PENDING = ''PENDING''"
| "status_value RUNNING = ''RUNNING''"
| "status_value COMPLETED = ''COMPLETED''"
| "status_value FAILED = ''FAILED''"
| "status_value CANCELLED = ''CANCELLED''"
| "status_value BLOCKED = ''BLOCKED''"
| "status_value NOT_NEEDED = ''NOT_NEEDED''"

datatype DriftSeverity = INFO | WARNING | CRITICAL

fun severity_value :: "DriftSeverity \<Rightarrow> string" where
  "severity_value INFO = ''info''"
| "severity_value WARNING = ''warning''"
| "severity_value CRITICAL = ''critical''"

fun severity_rank :: "DriftSeverity \<Rightarrow> int" where
  "severity_rank INFO = 0"
| "severity_rank WARNING = 1"
| "severity_rank CRITICAL = 2"

datatype SupersessionKind = UNSPECIFIED | REPLACE | CORRECT

datatype TaskKind = FORECAST | OUTCOME | DISCOVERED

text \<open>The \<open>DriftKind\<close> members, in the order of the source.\<close>

datatype DriftKind =
    TOOL_ERROR | AGENT_REFUSAL | NEW_WORK_DISCOVERED | PLAN_DIVERGENCE | USER_STEER | USER_CANCEL
  | USER_PAUSE | TASK_FAILED_RECOVERABLE | TASK_FAILED_FATAL | CONTEXT_PRESSURE | DK_BLOCKED
  | WRONG_AGENT | AGENT_TRANSFER | MODEL_REFUSAL | STOPPED_EARLY | TOO_MANY_STEPS
  | GOAL_UNREACHABLE | TASK_TIMEOUT | REPEATED_FAILURE | UNEXPECTED_OUTPUT | SCHEMA_VIOLATION
  | HALLUCINATION_SUSPECTED | SAFETY_CONCERN | RESOURCE_EXHAUSTED | AMBIGUOUS_INTENT | CUSTOM
  | LOOPING_TOOL_CALL | LOOPING_REASONING | REASONING_CLUSTER_TIGHTENING | OFF_TOPIC
  | INTENT_DIVERGENCE | UNCERTAIN_PROGRESS | SELF_REPORTED_STUCK | CONFABULATION_RISK
  | RUNAWAY_DELEGATION | REFINE_VALIDATION_FAILED | GOAL_DRIFT | HUMAN_INTERVENTION_REQUIRED
  | LLM_CALL_TIMEOUT | JUSTIFIED_DEVIATION | CAPABILITY_MISMATCH

definition all_drift_kinds :: "DriftKind list" where
  "all_drift_kinds =
    [TOOL_ERROR, AGENT_REFUSAL, NEW_WORK_DISCOVERED, PLAN_DIVERGENCE, USER_STEER, USER_CANCEL,
     USER_PAUSE, TASK_FAILED_RECOVERABLE, TASK_FAILED_FATAL, CONTEXT_PRESSURE, DK_BLOCKED,
     WRONG_AGENT, AGENT_TRANSFER, MODEL_REFUSAL, STOPPED_EARLY, TOO_MANY_STEPS,
     GOAL_UNREACHABLE, TASK_TIMEOUT, REPEATED_FAILURE, UNEXPECTED_OUTPUT, SCHEMA_VIOLATION,
     HALLUCINATION_SUSPECTED, SAFETY_CONCERN, RESOURCE_EXHAUSTED, AMBIGUOUS_INTENT, CUSTOM,
     LOOPING_TOOL_CALL, LOOPING_REASONING, REASONING_CLUSTER_TIGHTENING, OFF_TOPIC,
     INTENT_DIVERGENCE, UNCERTAIN_PROGRESS, SELF_REPORTED_STUCK, CONFABULATION_RISK,
     RUNAWAY_DELEGATION, REFINE_VALIDATION_FAILED, GOAL_DRIFT, HUMAN_INTERVENTION_REQUIRED,
     LLM_CALL_TIMEOUT, JUSTIFIED_DEVIATION, CAPABILITY_MISMATCH]"

fun drift_kind_value :: "DriftKind \<Rightarrow> string" where
  "drift_kind_value TOOL_ERROR = ''tool_error''"
| "drift_kind_value AGENT_REFUSAL = ''agent_refusal''"
| "drift_kind_value NEW_WORK_DISCOVERED = ''new_work_discovered''"
| "drift_kind_value PLAN_DIVERGENCE = ''plan_divergence''"
| "drift_kind_value USER_STEER = ''user_steer''"
| "drift_kind_value USER_CANCEL = ''user_cancel''"
| "drift_kind_value USER_PAUSE = ''user_pause''"
| "drift_kind_value TASK_FAILED_RECOVERABLE = ''task_failed_recoverable''"
| "drift_kind_value TASK_FAILED_FATAL = ''task_failed_fatal''"
| "drift_kind_value CONTEXT_PRESSURE = ''context_pressure''"
| "drift_kind_value DK_BLOCKED = ''blocked''"
| "drift_kind_value WRONG_AGENT = ''wrong_agent''"
| "drift_kind_value AGENT_TRANSFER = ''agent_transfer''"
| "drift_kind_value MODEL_REFUSAL = ''model_refusal''"
| "drift_kind_value STOPPED_EARLY = ''stopped_early''"
| "drift_kind_value TOO_MANY_STEPS = ''too_many_steps''"
| "drift_kind_value GOAL_UNREACHABLE = ''goal_unreachable''"
| "drift_kind_value TASK_TIMEOUT = ''task_timeout''"
| "drift_kind_value REPEATED_FAILURE = ''repeated_failure''"
| "drift_kind_value UNEXPECTED_OUTPUT = ''unexpected_output''"
| "drift_kind_value SCHEMA_VIOLATION = ''schema_violation''"
| "drift_kind_value HALLUCINATION_SUSPECTED = ''hallucination_suspected''"
| "drift_kind_value SAFETY_CONCERN = ''safety_concern''"
| "drift_kind_value RESOURCE_EXHAUSTED = ''resource_exhausted''"
| "drift_kind_value AMBIGUOUS_INTENT = ''ambiguous_intent''"
| "drift_kind_value CUSTOM = ''custom''"
| "drift_kind_value LOOPING_TOOL_CALL = ''looping_tool_call''"
| "drift_kind_value LOOPING_REASONING = ''looping_reasoning''"
| "drift_kind_value REASONING_CLUSTER_TIGHTENING = ''reasoning_cluster_tightening''"
| "drift_kind_value OFF_TOPIC = ''off_topic''"
| "drift_kind_value INTENT_DIVERGENCE = ''intent_divergence''"
| "drift_kind_value UNCERTAIN_PROGRESS = ''uncertain_progress''"
| "drift_kind_value SELF_REPORTED_STUCK = ''self_reported_stuck''"
| "drift_kind_value CONFABULATION_RISK = ''confabulation_risk''"
| "drift_kind_value RUNAWAY_DELEGATION = ''runaway_delegation''"
| "drift_kind_value REFINE_VALIDATION_FAILED = ''refine_validation_failed''"
| "drift_kind_value GOAL_DRIFT = ''goal_drift''"
| "drift_kind_value HUMAN_INTERVENTION_REQUIRED = ''human_intervention_required''"
| "drift_kind_value LLM_CALL_TIMEOUT = ''llm_call_timeout''"
| "drift_kind_value JUSTIFIED_DEVIATION = ''justified_deviation''"
| "drift_kind_value CAPABILITY_MISMATCH = ''capability_mismatch''"

section \<open>Frozen records\<close>

record task =
  task_id :: string
  title :: string
  description :: string
  assignee_agent_id :: string
  status :: TaskStatus
  predicted_start_ms :: int
  predicted_duration_ms :: int
  bound_span_id :: string
  cancel_reason :: string
  supersedes :: string
  supersedes_kind :: SupersessionKind
  required_tools :: "string list"
  discovered :: bool
  task_discovery_identity_hash :: string
  task_kind :: TaskKind
  contributes_to :: string

record TaskEdge =
  from_task_id :: string
  to_task_id :: string

record plan =
  plan_id :: string
  plan_run_id :: string
  goal_ids :: "string list"
  tasks :: "task list"
  edges :: "TaskEdge list"
  summary :: string
  revision_reason :: string
  revision_kind :: string
  revision_severity :: string
  revision_index :: int
  revision_trigger_event_id :: string
  goldfive_pivot :: bool

text \<open>\<open>Task(id=..., title=...)\<close> and \<open>TaskEdge(a, b)\<close> with the dataclass defaults.\<close>

definition mk_task :: "string \<Rightarrow> string \<Rightarrow> task" where
  "mk_task i ti =
     \<lparr>task_id = i, title = ti, description = [], assignee_agent_id = [], status = PENDING,
      predicted_start_ms = 0, predicted_duration_ms = 0, bound_span_id = [], cancel_reason = [],
      supersedes = [], supersedes_kind = UNSPECIFIED, required_tools = [], discovered = False,
      task_discovery_identity_hash = [], task_kind = FORECAST, contributes_to = []\<rparr>"

definition mk_edge :: "string \<Rightarrow> string \<Rightarrow> TaskEdge" where
  "mk_edge a b = \<lparr>from_task_id = a, to_task_id = b\<rparr>"

text \<open>\<open>Plan.empty\<close>; the freshly minted uuid is the argument.\<close>

definition plan_empty :: "string \<Rightarrow> string \<Rightarrow> plan" where
  "plan_empty uuid rid =
     \<lparr>plan_id = uuid, plan_run_id = rid, goal_ids = [], tasks = [], edges = [], summary = [],
      revision_reason = [], revision_kind = [], revision_severity = [], revision_index = 0,
      revision_trigger_event_id = [], goldfive_pivot = False\<rparr>"

definition edge_pair :: "TaskEdge \<Rightarrow> string \<times> string" where
  "edge_pair e = (from_task_id e, to_task_id e)"

text \<open>\<open>{t.id: t for t in plan.tasks if t.id}\<close>, the index most functions of the source build first.\<close>

definition tasks_by_id :: "plan \<Rightarrow> (string, task) dict" where
  "tasks_by_id p = dict_of (map (\<lambda>t. (task_id t, t)) (filter (\<lambda>t. task_id t \<noteq> []) (tasks p)))"

section \<open>Derivation helpers\<close>

fun replace_first :: "string \<Rightarrow> (task \<Rightarrow> task) \<Rightarrow> task list \<Rightarrow> task list option" where
  "replace_first i f [] = None"
| "replace_first i f (t # ts) =
     (if task_id t = i then Some (f t # ts) else map_option (\<lambda>us. t # us) (replace_first i f ts))"

definition replace_task :: "plan \<Rightarrow> string \<Rightarrow> (task \<Rightarrow> task) \<Rightarrow> py_error + plan" where
  "replace_task p i changes =
     (case replace_first i changes (tasks p) of
        None \<Rightarrow> Inl (KeyError (''task_id '' @ repr_str i @ '' not in plan '' @ repr_str (plan_id p)))
      | Some ts \<Rightarrow> Inr (p\<lparr>tasks := ts\<rparr>))"

definition with_task_status :: "plan \<Rightarrow> string \<Rightarrow> TaskStatus \<Rightarrow> py_error + plan" where
  "with_task_status p i s = replace_task p i (\<lambda>t. t\<lparr>status := s\<rparr>)"

definition add_tasks :: "plan \<Rightarrow> task list \<Rightarrow> plan" where
  "add_tasks p new_tasks = p\<lparr>tasks := tasks p @ new_tasks\<rparr>"

text \<open>A caller passes an edge either as a \<open>TaskEdge\<close> or as a pair of ids.\<close>

definition replace_edges :: "plan \<Rightarrow> (string \<times> string + TaskEdge) list \<Rightarrow> plan" where
  "replace_edges p es =
     p\<lparr>edges := map (\<lambda>e. case e of Inr te \<Rightarrow> te | Inl (frm, dst) \<Rightarrow> mk_edge frm dst) es\<rparr>"

definition bump_revision ::
  "plan \<Rightarrow> int option \<Rightarrow> string option \<Rightarrow> string option \<Rightarrow> string option \<Rightarrow> string option \<Rightarrow> plan" where
  "bump_revision p idx kd sev rsn trig =
     p\<lparr>revision_index := (case idx of None \<Rightarrow> revision_index p + 1 | Some i \<Rightarrow> i),
       revision_kind := (case kd of None \<Rightarrow> revision_kind p | Some k \<Rightarrow> k),
       revision_severity := (case sev of None \<Rightarrow> revision_severity p | Some s \<Rightarrow> s),
       revision_reason := (case rsn of None \<Rightarrow> revision_reason p | Some r \<Rightarrow> r),
       revision_trigger_event_id := (case trig of None \<Rightarrow> revision_trigger_event_id p | Some t \<Rightarrow> t)\<rparr>"

definition plan_has_ledger_shape :: "plan \<Rightarrow> bool" where
  "plan_has_ledger_shape p \<longleftrightarrow> list_ex (\<lambda>t. task_kind t \<in> {OUTCOME, DISCOVERED}) (tasks p)"

text \<open>\<open>task_upstream_ready\<close>: the supersession map keeps the last replacement of an id.\<close>

definition replacement_of :: "plan \<Rightarrow> (string, task) dict" where
  "replacement_of p =
     (let by_id = tasks_by_id p in
      dict_of (map (\<lambda>t. (supersedes t, t))
        (filter (\<lambda>t. supersedes t \<noteq> [] \<and> map_of by_id (supersedes t) \<noteq> None) (tasks p))))"

fun upstream_edges_ready ::
  "(string, task) dict \<Rightarrow> (string, task) dict \<Rightarrow> string \<Rightarrow> TaskEdge list \<Rightarrow> bool" where
  "upstream_edges_ready by_id repl i [] = True"
| "upstream_edges_ready by_id repl i (e # es) =
     (if to_task_id e \<noteq> i then upstream_edges_ready by_id repl i es
      else (case map_of by_id (from_task_id e) of
              None \<Rightarrow> False
            | Some up \<Rightarrow>
                (let up' = (case map_of repl (task_id up) of Some r \<Rightarrow> r | None \<Rightarrow> up)
                 in if status up' \<noteq> COMPLETED then False
                    else upstream_edges_ready by_id repl i es)))"

definition task_upstream_ready :: "plan \<Rightarrow> string \<Rightarrow> bool" where
  "task_upstream_ready p i =
     (if i = [] then True else upstream_edges_ready (tasks_by_id p) (replacement_of p) i (edges p))"

text \<open>\<open>_find_task\<close>, which \<open>TaskStateMachine\<close>, \<open>DefaultSteerer\<close> and \<open>PlanReconciler\<close> each define alike.\<close>

definition plan_find :: "plan \<Rightarrow> string \<Rightarrow> task option" where
  "plan_find p i = (if i = [] then None else find (\<lambda>t. task_id t = i) (tasks p))"

section \<open>Enumerations: the two terminal sets agree, values identify members\<close>

lemma is_terminal_iff: "is_terminal s \<longleftrightarrow> s \<in> TERMINAL_TASK_STATUSES"
  by (cases s) (auto simp: is_terminal_def TERMINAL_TASK_STATUSES_def)

lemma terminal_simps [simp]:
  "COMPLETED \<in> TERMINAL_TASK_STATUSES" "FAILED \<in> TERMINAL_TASK_STATUSES"
  "CANCELLED \<in> TERMINAL_TASK_STATUSES" "NOT_NEEDED \<in> TERMINAL_TASK_STATUSES"
  "PENDING \<notin> TERMINAL_TASK_STATUSES" "RUNNING \<notin> TERMINAL_TASK_STATUSES"
  "BLOCKED \<notin> TERMINAL_TASK_STATUSES"
  by (auto simp: TERMINAL_TASK_STATUSES_def)

lemma set_all_drift_kinds: "k \<in> set all_drift_kinds"
  by (cases k) (simp_all add: all_drift_kinds_def)

lemma drift_kind_values_distinct: "distinct (map drift_kind_value all_drift_kinds)"
  by (simp add: all_drift_kinds_def)

lemma drift_kind_value_inject: "drift_kind_value a = drift_kind_value b \<longleftrightarrow> a = b"
  using drift_kind_values_distinct set_all_drift_kinds
  by (auto simp: distinct_map inj_on_def)

lemma drift_kind_value_nonempty [simp]: "drift_kind_value k \<noteq> []"
  by (cases k) simp_all

section \<open>Derivation helpers\<close>

lemma replace_first_None: "replace_first i f ts = None \<longleftrightarrow> i \<notin> task_id ` set ts"
  by (induction ts) auto

lemma replace_first_ids:
  "replace_first i f ts = Some us \<Longrightarrow> (\<And>t. task_id (f t) = task_id t) \<Longrightarrow> map task_id us = map task_id ts"
  by (induction ts arbitrary: us) (auto split: if_splits)

lemma replace_first_find:
  "replace_first i f ts = Some us \<Longrightarrow> (\<And>t. task_id (f t) = task_id t) \<Longrightarrow>
   find (\<lambda>t. task_id t = j) us =
     (if j = i then map_option f (find (\<lambda>t. task_id t = j) ts) else find (\<lambda>t. task_id t = j) ts)"
  by (induction ts arbitrary: us) (auto split: if_splits)

lemma replace_first_length: "replace_first i f ts = Some us \<Longrightarrow> length us = length ts"
  by (induction ts arbitrary: us) (auto split: if_splits)

lemma with_task_status_Inr:
  "with_task_status p i s = Inr q \<longleftrightarrow>
   (\<exists>ts. replace_first i (\<lambda>t. t\<lparr>status := s\<rparr>) (tasks p) = Some ts \<and> q = p\<lparr>tasks := ts\<rparr>)"
  by (auto simp: with_task_status_def replace_task_def split: option.splits)

lemma with_task_status_defined:
  "i \<in> task_id ` set (tasks p) \<Longrightarrow> \<exists>q. with_task_status p i s = Inr q"
  using replace_first_None [of i "\<lambda>t. t\<lparr>status := s\<rparr>" "tasks p"]
  by (auto simp: with_task_status_Inr)

lemma with_task_status_ids:
  "with_task_status p i s = Inr q \<Longrightarrow> map task_id (tasks q) = map task_id (tasks p)"
  by (auto simp: with_task_status_Inr dest: replace_first_ids)

lemma with_task_status_edges [simp]: "with_task_status p i s = Inr q \<Longrightarrow> edges q = edges p"
  by (auto simp: with_task_status_Inr)

lemma with_task_status_revision: "with_task_status p i s = Inr q \<Longrightarrow> revision_index q = revision_index p"
  by (auto simp: with_task_status_Inr)

lemma with_task_status_find:
  "with_task_status p i s = Inr q \<Longrightarrow>
   plan_find q j = (if j = i then map_option (\<lambda>t. t\<lparr>status := s\<rparr>) (plan_find p j) else plan_find p j)"
  by (auto simp: with_task_status_Inr plan_find_def replace_first_find)

lemma plan_find_SomeD: "plan_find p i = Some t \<Longrightarrow> t \<in> set (tasks p) \<and> task_id t = i \<and> i \<noteq> []"
  by (auto simp: plan_find_def dest: find_SomeD split: if_splits)

lemma plan_find_defined: "plan_find p i = Some t \<Longrightarrow> \<exists>q. with_task_status p i s = Inr q"
  using with_task_status_defined plan_find_SomeD by blast

lemma plan_find_None: "i \<noteq> [] \<Longrightarrow> plan_find p i = None \<longleftrightarrow> i \<notin> task_id ` set (tasks p)"
  by (auto simp: plan_find_def find_None_conv)

lemma plan_find_in_set:
  assumes "distinct (map task_id (tasks p))" "t \<in> set (tasks p)" "task_id t \<noteq> []"
  shows "plan_find p (task_id t) = Some t"
  using assms by (auto simp: plan_find_def find_map_of comp_def intro!: map_of_is_SomeI)

lemma tasks_by_id_distinct:
  assumes "distinct (map task_id (tasks p))"
  shows "tasks_by_id p = map (\<lambda>t. (task_id t, t)) (filter (\<lambda>t. task_id t \<noteq> []) (tasks p))"
  using assms unfolding tasks_by_id_def
  by (intro dict_of_distinct) (auto simp: comp_def distinct_map inj_on_def)

lemma tasks_by_id_lookup:
  assumes "distinct (map task_id (tasks p))"
  shows "map_of (tasks_by_id p) i = plan_find p i"
proof -
  have d: "distinct (map task_id (filter (\<lambda>t. task_id t \<noteq> []) (tasks p)))"
    using assms by (rule distinct_map_filter)
  have "find (\<lambda>t. task_id t = i) (filter (\<lambda>t. task_id t \<noteq> []) ts) =
        (if i = [] then None else find (\<lambda>t. task_id t = i) ts)" for ts
    by (induction ts) auto
  then show ?thesis
    by (simp only: tasks_by_id_distinct [OF assms] plan_find_def find_map_of [OF d, symmetric])
qed

lemma tasks_by_id_SomeD:
  "map_of (tasks_by_id p) i = Some t \<Longrightarrow> t \<in> set (tasks p) \<and> task_id t = i \<and> i \<noteq> []"
  by (auto simp: tasks_by_id_def map_of_dict_of rev_map [symmetric] dest!: map_of_SomeD)

lemma tasks_by_id_keys: "fst ` set (tasks_by_id p) = task_id ` set (tasks p) - {[]}"
  by (auto simp: tasks_by_id_def keys_dict_of image_image)

section \<open>Readiness\<close>

definition effective_upstream :: "plan \<Rightarrow> string \<Rightarrow> task option" where
  "effective_upstream p u =
     (case map_of (tasks_by_id p) u of
        None \<Rightarrow> None
      | Some up \<Rightarrow> (case map_of (replacement_of p) u of Some r \<Rightarrow> Some r | None \<Rightarrow> Some up))"

lemma task_upstream_ready_iff:
  "task_upstream_ready p i \<longleftrightarrow>
   (i = [] \<or> (\<forall>e\<in>set (edges p). to_task_id e = i \<longrightarrow>
       (\<exists>u. effective_upstream p (from_task_id e) = Some u \<and> status u = COMPLETED)))"
proof -
  have "upstream_edges_ready (tasks_by_id p) (replacement_of p) i es \<longleftrightarrow>
     (\<forall>e\<in>set es. to_task_id e = i \<longrightarrow>
       (\<exists>u. effective_upstream p (from_task_id e) = Some u \<and> status u = COMPLETED))" for es
  proof (induction es)
    case (Cons e es)
    show ?case
    proof (cases "map_of (tasks_by_id p) (from_task_id e)")
      case None
      then show ?thesis using Cons by (auto simp: effective_upstream_def)
    next
      case (Some up)
      then have "task_id up = from_task_id e" using tasks_by_id_SomeD by blast
      with Some show ?thesis using Cons
        by (auto simp: effective_upstream_def Let_def split: option.splits)
    qed
  qed simp
  then show ?thesis by (simp add: task_upstream_ready_def)
qed

end
