(* ===== verification/Plan_Dag.thy ===== *)
theory Plan_Dag
  imports Plan_Types
begin

text \<open>
  Kahn's algorithm as \<open>types.py\<close> runs it twice: with a stack of ready ids inside \<open>Plan.validate\<close>
  (rule 4), and stage by stage in \<open>Plan.topological_stages\<close>. Both keep a dictionary of in-degrees
  and one of children and share the inner loop \<open>relax\<close>. A dictionary lookup that would raise
  \<open>KeyError\<close> is the value \<open>Inl (KeyError k)\<close>; the lemmas show that it never happens.

  The locale \<open>kahn_graph\<close> holds the graph argument once: its invariant speaks of the placed and the
  ready ids only, so the stack loop and the stage loop both preserve it, and when nothing is ready
  the unplaced ids are exactly those on or behind a cycle.
\<close>

section \<open>The loops\<close>

fun indeg_of :: "(string, int) dict \<Rightarrow> (string \<times> string) list \<Rightarrow> py_error + (string, int) dict" where
  "indeg_of d [] = Inr d"
| "indeg_of d (e # es) =
     (case map_of d (snd e) of None \<Rightarrow> Inl (KeyError (snd e))
      | Some n \<Rightarrow> indeg_of (AList.update (snd e) (n + 1) d) es)"

fun children_of ::
  "(string, string list) dict \<Rightarrow> (string \<times> string) list \<Rightarrow> py_error + (string, string list) dict" where
  "children_of d [] = Inr d"
| "children_of d (e # es) =
     (case map_of d (fst e) of None \<Rightarrow> Inl (KeyError (fst e))
      | Some cs \<Rightarrow> children_of (AList.update (fst e) (cs @ [snd e]) d) es)"

fun relax :: "string list \<Rightarrow> (string, int) dict \<Rightarrow> string list \<Rightarrow> py_error + (string, int) dict \<times> string list" where
  "relax [] indeg ready = Inr (indeg, ready)"
| "relax (c # cs) indeg ready =
     (case map_of indeg c of
        None \<Rightarrow> Inl (KeyError c)
      | Some d \<Rightarrow> relax cs (AList.update c (d - 1) indeg) (if d - 1 = 0 then ready @ [c] else ready))"

text \<open>\<open>while ready: tid = ready.pop() ...\<close> of \<open>Plan.validate\<close>.\<close>

function place_all ::
  "(string, string list) dict \<Rightarrow> (string, int) dict \<Rightarrow> string list \<Rightarrow> string list \<Rightarrow> py_error + string list" where
  "place_all children indeg ready placed =
     (if ready = [] then Inr placed
      else
        (let tid = last ready; ready' = butlast ready in
         if tid \<in> set placed then place_all children indeg ready' placed
         else
           (case map_of children tid of
              None \<Rightarrow> Inl (KeyError tid)
            | Some cs \<Rightarrow>
                (case relax cs indeg ready' of
                   Inl e \<Rightarrow> Inl e
                 | Inr (indeg', ready'') \<Rightarrow> place_all children indeg' ready'' (placed @ [tid])))))"
  by pat_completeness auto
termination
proof (relation "measures [\<lambda>(ch, _, _, pl). card (fst ` set ch - set pl), \<lambda>(_, _, rd, _). length rd]",
       goal_cases)
  case 1
  show ?case by simp
next
  case 2
  then show ?case by simp
next
  case (3 ch indeg rd pl tid rd' cs r indeg' rd'')
  from 3 have "tid \<in> fst ` set ch" by (force dest: map_of_SomeD)
  with 3 have "fst ` set ch - set (pl @ [tid]) \<subset> fst ` set ch - set pl" by auto
  then have "card (fst ` set ch - set (pl @ [tid])) < card (fst ` set ch - set pl)"
    by (intro psubset_card_mono) auto
  then show ?case by simp
qed

declare place_all.simps [simp del]

text \<open>One stage of \<open>topological_stages\<close>: relax the children of every id of the stage, in order.\<close>

fun relax_stage ::
  "(string, string list) dict \<Rightarrow> string list \<Rightarrow> (string, int) dict \<Rightarrow> string list
    \<Rightarrow> py_error + (string, int) dict \<times> string list" where
  "relax_stage children [] indeg nxt = Inr (indeg, nxt)"
| "relax_stage children (tid # tids) indeg nxt =
     (case map_of children tid of
        None \<Rightarrow> Inl (KeyError tid)
      | Some cs \<Rightarrow>
          (case relax cs indeg nxt of
             Inl e \<Rightarrow> Inl e
           | Inr (indeg', nxt') \<Rightarrow> relax_stage children tids indeg' nxt'))"

text \<open>The number of ids whose in-degree is still positive: each new ready id lowers it.\<close>

definition positives :: "(string, int) dict \<Rightarrow> string set" where
  "positives indeg = {c. \<exists>d. map_of indeg c = Some d \<and> 0 < d}"

lemma keys_update: "fst ` set (AList.update c v d) = insert c (fst ` set d)"
  by (simp add: dom_map_of_conv_image_fst [symmetric] update_conv' dom_fun_upd)

lemma positives_decr:
  "map_of indeg c = Some d \<Longrightarrow> positives (AList.update c (d - 1) indeg) \<subseteq> positives indeg"
  by (auto simp: positives_def update_conv' split: if_splits)

lemma positives_zero:
  assumes "map_of indeg c = Some 1"
  shows "positives (AList.update c 0 indeg) \<subset> positives indeg"
proof -
  have "c \<in> positives indeg" using assms by (simp add: positives_def)
  moreover have "c \<notin> positives (AList.update c 0 indeg)" by (simp add: positives_def update_conv')
  ultimately show ?thesis using positives_decr [OF assms] by auto
qed

lemma relax_positives: "relax cs indeg rd = Inr (indeg', rd') \<Longrightarrow> positives indeg' \<subseteq> positives indeg"
proof (induction cs arbitrary: indeg rd)
  case (Cons c cs)
  then obtain d where d: "map_of indeg c = Some d" by (cases "map_of indeg c") auto
  from Cons.prems d have "positives indeg' \<subseteq> positives (AList.update c (d - 1) indeg)"
    by (intro Cons.IH) auto
  with positives_decr [OF d] show ?case by blast
qed simp

lemma relax_positives_strict:
  "relax cs indeg rd = Inr (indeg', rd') \<Longrightarrow> rd' \<noteq> rd \<Longrightarrow> positives indeg' \<subset> positives indeg"
proof (induction cs arbitrary: indeg rd)
  case (Cons c cs)
  then obtain d where d: "map_of indeg c = Some d" by (cases "map_of indeg c") auto
  show ?case
  proof (cases "d = 1")
    case True
    with Cons.prems d have "relax cs (AList.update c 0 indeg) (rd @ [c]) = Inr (indeg', rd')" by simp
    from relax_positives [OF this] positives_zero d True show ?thesis by blast
  next
    case False
    with Cons d have "positives indeg' \<subset> positives (AList.update c (d - 1) indeg)" by auto
    with positives_decr [OF d] show ?thesis by blast
  qed
qed simp

lemma relax_stage_positives:
  "relax_stage ch tids indeg nxt = Inr (indeg', nxt') \<Longrightarrow>
   positives indeg' \<subseteq> positives indeg \<and> (nxt' \<noteq> nxt \<longrightarrow> positives indeg' \<subset> positives indeg)"
proof (induction tids arbitrary: indeg nxt)
  case (Cons tid tids)
  then obtain cs where cs: "map_of ch tid = Some cs" by (cases "map_of ch tid") auto
  from Cons.prems cs obtain indeg1 nxt1 where r: "relax cs indeg nxt = Inr (indeg1, nxt1)"
    and rest: "relax_stage ch tids indeg1 nxt1 = Inr (indeg', nxt')"
    by (auto split: sum.splits)
  from Cons.IH [OF rest] relax_positives [OF r] relax_positives_strict [OF r] show ?case
    by (cases "nxt1 = nxt") blast+
qed simp

lemma finite_positives [simp]: "finite (positives indeg)"
  by (rule finite_subset [OF _ finite_dom_map_of [of indeg]]) (auto simp: positives_def)

text \<open>\<open>while ready: stage_ids = sorted(ready) ...\<close> of \<open>topological_stages\<close>, on ids.\<close>

function stage_loop ::
  "(string, string list) dict \<Rightarrow> (string, int) dict \<Rightarrow> string list \<Rightarrow> string list list \<Rightarrow> string list
    \<Rightarrow> py_error + string list list \<times> string list" where
  "stage_loop children indeg ready stages placed =
     (if ready = [] then Inr (stages, placed)
      else
        (let stage_ids = sort ready in
         (case relax_stage children stage_ids indeg [] of
            Inl e \<Rightarrow> Inl e
          | Inr (indeg', next_ready) \<Rightarrow>
              stage_loop children indeg' next_ready (stages @ [stage_ids]) (placed @ stage_ids))))"
  by pat_completeness auto
termination
proof (relation "measure (\<lambda>(_, indeg, rd, _, _). if rd = [] then 0 else Suc (card (positives indeg)))",
       goal_cases)
  case 1
  show ?case by simp
next
  case (2 ch indeg rd sts pl ids r indeg' nxt)
  from 2 have "relax_stage ch ids indeg [] = Inr (indeg', nxt)" by simp
  from relax_stage_positives [OF this]
  have "nxt \<noteq> [] \<Longrightarrow> card (positives indeg') < card (positives indeg)"
    by (auto intro: psubset_card_mono)
  with 2 show ?case by auto
qed

declare stage_loop.simps [simp del]

section \<open>\<open>Plan.topological_stages\<close>\<close>

text \<open>Edges with an unknown endpoint are skipped; what is never placed forms a trailing stage.\<close>

definition known_edges :: "plan \<Rightarrow> (string \<times> string) list" where
  "known_edges p =
     (let by_id = tasks_by_id p in
      filter (\<lambda>(a, b). map_of by_id a \<noteq> None \<and> map_of by_id b \<noteq> None) (map edge_pair (edges p)))"

definition topological_stages :: "plan \<Rightarrow> py_error + task list list" where
  "topological_stages p =
     (let by_id = tasks_by_id p; ids = map fst by_id in
      ebind (indeg_of (map (\<lambda>i. (i, 0)) ids) (known_edges p)) (\<lambda>indeg.
      ebind (children_of (map (\<lambda>i. (i, [])) ids) (known_edges p)) (\<lambda>children.
      ebind (stage_loop children indeg (map fst (filter (\<lambda>(_, d). d = 0) indeg)) [] []) (\<lambda>(stages, placed).
      ebind (emap (emap (\<lambda>i. case map_of by_id i of Some t \<Rightarrow> Inr t | None \<Rightarrow> Inl (KeyError i))) stages) (\<lambda>out.
      let leftover = map snd (filter (\<lambda>(i, _). i \<notin> set placed) by_id)
      in Inr (if leftover = [] then out else out @ [leftover]))))))"

section \<open>The dictionaries the loops start from\<close>

lemma map_of_const: "map_of (map (\<lambda>i. (i, v)) ids) k = (if k \<in> set ids then Some v else None)"
  by (induction ids) auto

lemma map_fst_update_known: "map_of d k \<noteq> None \<Longrightarrow> map fst (AList.update k v d) = map fst d"
  by (induction d) auto

lemma indeg_of_spec:
  assumes "\<forall>e\<in>set es. map_of d (snd e) \<noteq> None"
  shows "\<exists>d'. indeg_of d es = Inr d' \<and> map fst d' = map fst d \<and>
    (\<forall>v. map_of d' v = map_option (\<lambda>n. n + int (length (filter (\<lambda>e. snd e = v) es))) (map_of d v))"
  using assms
proof (induction es arbitrary: d)
  case (Cons e es)
  then obtain n where n: "map_of d (snd e) = Some n" by auto
  have "\<forall>e'\<in>set es. map_of (AList.update (snd e) (n + 1) d) (snd e') \<noteq> None"
    using Cons.prems by (auto simp: update_conv')
  from Cons.IH [OF this] show ?case using n
    by (auto simp: update_conv' map_fst_update_known option.map_comp comp_def algebra_simps)
qed (auto simp: option.map_ident)

lemma children_of_spec:
  assumes "\<forall>e\<in>set es. map_of d (fst e) \<noteq> None"
  shows "\<exists>d'. children_of d es = Inr d' \<and> map fst d' = map fst d \<and>
    (\<forall>v. map_of d' v = map_option (\<lambda>cs. cs @ map snd (filter (\<lambda>e. fst e = v) es)) (map_of d v))"
  using assms
proof (induction es arbitrary: d)
  case (Cons e es)
  then obtain cs where cs: "map_of d (fst e) = Some cs" by auto
  have "\<forall>e'\<in>set es. map_of (AList.update (fst e) (cs @ [snd e]) d) (fst e') \<noteq> None"
    using Cons.prems by (auto simp: update_conv')
  from Cons.IH [OF this] show ?case using cs
    by (auto simp: update_conv' map_fst_update_known option.map_comp comp_def)
qed (auto simp: option.map_ident)

text \<open>\<open>relax\<close> lowers each in-degree by the number of edges and reports the ids that reach zero, once.\<close>

lemma relax_spec:
  assumes "\<forall>c\<in>set cs. \<exists>d. map_of indeg c = Some d \<and> int (count_list cs c) \<le> d"
  shows "\<exists>indeg' new. relax cs indeg rd = Inr (indeg', rd @ new) \<and>
    (\<forall>c. map_of indeg' c = map_option (\<lambda>d. d - int (count_list cs c)) (map_of indeg c)) \<and>
    distinct new \<and> set new = {c \<in> set cs. map_of indeg c = Some (int (count_list cs c))}"
  using assms
proof (induction cs arbitrary: indeg rd)
  case Nil
  then show ?case by (auto simp: option.map_ident)
next
  case (Cons c cs)
  then obtain d where d: "map_of indeg c = Some d" and le: "int (count_list (c # cs) c) \<le> d" by auto
  let ?ind = "AList.update c (d - 1) indeg"
  let ?rd = "if d - 1 = 0 then rd @ [c] else rd"
  have "\<forall>x\<in>set cs. \<exists>d. map_of ?ind x = Some d \<and> int (count_list cs x) \<le> d"
    using Cons.prems d by (force simp: update_conv' split: if_splits)
  from Cons.IH [OF this, of ?rd] obtain indeg' new where
    r: "relax cs ?ind ?rd = Inr (indeg', ?rd @ new)" and
    m: "\<forall>x. map_of indeg' x = map_option (\<lambda>d. d - int (count_list cs x)) (map_of ?ind x)" and
    dn: "distinct new" and sn: "set new = {x \<in> set cs. map_of ?ind x = Some (int (count_list cs x))}"
    by blast
  let ?new = "if d - 1 = 0 then c # new else new"
  have "relax (c # cs) indeg rd = Inr (indeg', rd @ ?new)" using r d by simp
  moreover have "\<forall>x. map_of indeg' x = map_option (\<lambda>d. d - int (count_list (c # cs) x)) (map_of indeg x)"
    using m d by (auto simp: update_conv' option.map_comp comp_def)
  moreover have "c \<notin> set new" if "d - 1 = 0"
    using that sn le by (auto simp: update_conv' count_list_0_iff)
  then have "distinct ?new" using dn by auto
  moreover have "set ?new = {x \<in> set (c # cs). map_of indeg x = Some (int (count_list (c # cs) x))}"
  proof (rule set_eqI)
    fix x
    show "x \<in> set ?new \<longleftrightarrow> x \<in> {x \<in> set (c # cs). map_of indeg x = Some (int (count_list (c # cs) x))}"
    proof (cases "x = c")
      case True
      have in_new: "c \<in> set new \<longleftrightarrow> count_list cs c \<noteq> 0 \<and> d - 1 = int (count_list cs c)"
        by (simp add: sn update_conv' count_list_0_iff)
      have cnt: "int (count_list (c # cs) c) = int (count_list cs c) + 1" by simp
      have "x \<in> set ?new \<longleftrightarrow> d = int (count_list (c # cs) c)"
        using True in_new cnt le by (cases "d = 1") auto
      then show ?thesis using True d by simp
    next
      case False
      then show ?thesis using sn by (auto simp: update_conv')
    qed
  qed
  ultimately show ?case by blast
qed

section \<open>The graph argument\<close>

text \<open>\<open>pend es P v\<close>: how many edges into \<open>v\<close> still come from outside the placed ids \<open>P\<close>.\<close>

definition pend :: "(string \<times> string) list \<Rightarrow> string set \<Rightarrow> string \<Rightarrow> nat" where
  "pend es P v = length (filter (\<lambda>e. snd e = v \<and> fst e \<notin> P) es)"

definition kahn_inv ::
  "string list \<Rightarrow> (string \<times> string) list \<Rightarrow> string list \<Rightarrow> string set \<Rightarrow> (string, int) dict \<Rightarrow> bool" where
  "kahn_inv V es ready P indeg \<longleftrightarrow>
     (\<forall>v. map_of indeg v = (if v \<in> set V then Some (int (pend es P v)) else None)) \<and>
     distinct ready \<and> set ready = {v \<in> set V. v \<notin> P \<and> pend es P v = 0} \<and>
     P \<subseteq> set V \<and> (\<forall>(a, b)\<in>set es. b \<in> P \<longrightarrow> a \<in> P) \<and> acyclic (set es \<inter> P \<times> P)"

definition children_spec :: "string list \<Rightarrow> (string \<times> string) list \<Rightarrow> (string, string list) dict \<Rightarrow> bool" where
  "children_spec V es ch \<longleftrightarrow>
     (\<forall>v. map_of ch v = (if v \<in> set V then Some (map snd (filter (\<lambda>e. fst e = v) es)) else None))"

lemma pend_insert:
  "t \<notin> P \<Longrightarrow> pend es P v = pend es (insert t P) v + count_list (map snd (filter (\<lambda>e. fst e = t) es)) v"
  by (induction es) (auto simp: pend_def)

lemma pend_zero_iff: "pend es P v = 0 \<longleftrightarrow> (\<forall>a. (a, v) \<in> set es \<longrightarrow> a \<in> P)"
  by (force simp: pend_def filter_empty_conv)

lemma acyclic_add_top:
  assumes ac: "acyclic (E \<inter> P \<times> P)" and t: "t \<notin> P"
    and closed: "\<forall>(a, b)\<in>E. b \<in> P \<longrightarrow> a \<in> P" and preds: "\<forall>a. (a, t) \<in> E \<longrightarrow> a \<in> P"
  shows "acyclic (E \<inter> insert t P \<times> insert t P)"
proof -
  let ?R = "E \<inter> P \<times> P" and ?S = "E \<inter> insert t P \<times> insert t P"
  have sub: "?S \<subseteq> ?R \<union> P \<times> {t}" using t closed preds by auto
  have up: "b \<noteq> t \<and> (a, b) \<in> ?R\<^sup>+ \<or> b = t \<and> a \<in> P" if "(a, b) \<in> ?S\<^sup>+" for a b
    using that
  proof (induction rule: trancl_induct)
    case (base y)
    with sub t show ?case by blast
  next
    case (step y z)
    from step.hyps sub t have "(y, z) \<in> ?R \<or> (y \<in> P \<and> z = t)" "y \<noteq> t" by auto
    with step.IH have "(a, y) \<in> ?R\<^sup>+" by blast
    then have "a \<in> P" by (auto dest: tranclD)
    from \<open>(y, z) \<in> ?R \<or> (y \<in> P \<and> z = t)\<close> show ?case
    proof
      assume "(y, z) \<in> ?R"
      then show ?thesis using \<open>(a, y) \<in> ?R\<^sup>+\<close> t by (auto intro: trancl_into_trancl)
    qed (use \<open>a \<in> P\<close> in blast)
  qed
  show ?thesis
  proof (rule acyclicI, intro allI notI)
    fix x assume "(x, x) \<in> ?S\<^sup>+"
    from up [OF this] show False using ac t by (auto simp: acyclic_def)
  qed
qed

text \<open>Every edge into a stage comes from a strictly earlier stage.\<close>

definition staged :: "(string \<times> string) list \<Rightarrow> string list list \<Rightarrow> bool" where
  "staged es sts \<longleftrightarrow>
     (\<forall>k<length sts. \<forall>b\<in>set (sts ! k). \<forall>a. (a, b) \<in> set es \<longrightarrow> (\<exists>j<k. a \<in> set (sts ! j)))"

lemma staged_snoc:
  assumes "staged es sts" "\<forall>b\<in>set ids. \<forall>a. (a, b) \<in> set es \<longrightarrow> a \<in> set (concat sts)"
  shows "staged es (sts @ [ids])"
  unfolding staged_def
proof (intro allI impI ballI)
  fix k b a
  assume k: "k < length (sts @ [ids])" and b: "b \<in> set ((sts @ [ids]) ! k)" and e: "(a, b) \<in> set es"
  show "\<exists>j<k. a \<in> set ((sts @ [ids]) ! j)"
  proof (cases "k < length sts")
    case True
    with b have "b \<in> set (sts ! k)" by (simp add: nth_append)
    with assms(1) e True obtain j where "j < k" "a \<in> set (sts ! j)" unfolding staged_def by blast
    with True show ?thesis by (auto simp: nth_append intro!: exI [of _ j])
  next
    case False
    with k have "k = length sts" by simp
    with b e assms(2) have "a \<in> set (concat sts)" by simp
    then obtain st where "st \<in> set sts" "a \<in> set st" by auto
    then obtain j where "j < length sts" "a \<in> set (sts ! j)" by (metis in_set_conv_nth)
    with \<open>k = length sts\<close> show ?thesis by (auto simp: nth_append intro!: exI [of _ j])
  qed
qed

locale kahn_graph =
  fixes V :: "string list" and es :: "(string \<times> string) list"
  assumes distinct_V: "distinct V"
    and edges_V: "(a, b) \<in> set es \<Longrightarrow> a \<in> set V \<and> b \<in> set V"
begin

lemma init_indeg:
  "\<exists>indeg. indeg_of (map (\<lambda>i. (i, 0)) V) es = Inr indeg \<and>
     kahn_inv V es (map fst (filter (\<lambda>(_, d). d = 0) indeg)) {} indeg"
proof -
  have "\<forall>e\<in>set es. map_of (map (\<lambda>i. (i, 0)) V) (snd e) \<noteq> None"
    using edges_V by (force simp: map_of_const)
  from indeg_of_spec [OF this] obtain indeg where
    i: "indeg_of (map (\<lambda>i. (i, 0)) V) es = Inr indeg" and ks: "map fst indeg = V" and
    m: "\<forall>v. map_of indeg v = (if v \<in> set V then Some (int (pend es {} v)) else None)"
    by (auto simp: map_of_const pend_def comp_def)
  have d: "distinct (map fst indeg)" using ks distinct_V by simp
  have "set (map fst (filter (\<lambda>(_, d). d = 0) indeg)) = {v \<in> set V. pend es {} v = 0}"
  proof -
    have "(v, 0) \<in> set indeg \<longleftrightarrow> v \<in> set V \<and> pend es {} v = 0" for v
      using map_of_eq_Some_iff [OF d, of v 0] m by (auto split: if_splits)
    then show ?thesis by force
  qed
  then have "kahn_inv V es (map fst (filter (\<lambda>(_, d). d = 0) indeg)) {} indeg"
    using m d by (simp add: kahn_inv_def distinct_map_filter acyclic_def)
  with i show ?thesis by blast
qed

lemma init_children: "\<exists>ch. children_of (map (\<lambda>i. (i, [])) V) es = Inr ch \<and> children_spec V es ch"
proof -
  have "\<forall>e\<in>set es. map_of (map (\<lambda>i. (i, [])) V) (fst e) \<noteq> None"
    using edges_V by (force simp: map_of_const)
  from children_of_spec [OF this] show ?thesis by (auto simp: map_of_const children_spec_def)
qed

lemma kahn_step:
  assumes inv: "kahn_inv V es ready P indeg" and ch: "children_spec V es ch" and t: "t \<in> set ready"
  shows "\<exists>cs indeg' new. map_of ch t = Some cs \<and> relax cs indeg rd = Inr (indeg', rd @ new) \<and>
    set new \<inter> set ready = {} \<and> distinct new \<and>
    (\<forall>r. distinct r \<longrightarrow> set r = set ready - {t} \<union> set new \<longrightarrow> kahn_inv V es r (insert t P) indeg')"
proof -
  let ?cs = "map snd (filter (\<lambda>e. fst e = t) es)"
  from inv t have tV: "t \<in> set V" "t \<notin> P" "pend es P t = 0" by (auto simp: kahn_inv_def)
  have cs: "map_of ch t = Some ?cs" using ch tV by (simp add: children_spec_def)
  have m: "map_of indeg v = (if v \<in> set V then Some (int (pend es P v)) else None)" for v
    using inv by (simp add: kahn_inv_def)
  have pi: "pend es P v = pend es (insert t P) v + count_list ?cs v" for v using pend_insert tV(2) .
  have "\<forall>c\<in>set ?cs. \<exists>d. map_of indeg c = Some d \<and> int (count_list ?cs c) \<le> d"
    using edges_V by (auto simp: m pi)
  from relax_spec [OF this, of rd] obtain indeg' new where
    r: "relax ?cs indeg rd = Inr (indeg', rd @ new)" and
    m': "\<forall>c. map_of indeg' c = map_option (\<lambda>d. d - int (count_list ?cs c)) (map_of indeg c)" and
    dn: "distinct new" and sn: "set new = {c \<in> set ?cs. map_of indeg c = Some (int (count_list ?cs c))}"
    by blast
  have new: "set new = {v \<in> set V. pend es P v \<noteq> 0 \<and> pend es (insert t P) v = 0}"
    using sn edges_V by (force simp: m pi count_list_0_iff)
  have disj: "set new \<inter> set ready = {}" using inv new by (auto simp: kahn_inv_def)
  have "pend es P v = 0" if "v \<in> P" for v
    using that inv unfolding pend_zero_iff kahn_inv_def by blast
  then have notin: "v \<noteq> t \<and> v \<notin> P" if "pend es P v \<noteq> 0" for v using that tV(3) by auto
  have "kahn_inv V es q (insert t P) indeg'"
    if q: "distinct q" "set q = set ready - {t} \<union> set new" for q
  proof -
    have preds: "\<forall>a. (a, t) \<in> set es \<longrightarrow> a \<in> P" using tV(3) by (simp add: pend_zero_iff)
    have closed: "\<forall>(a, b)\<in>set es. b \<in> P \<longrightarrow> a \<in> P" and ac: "acyclic (set es \<inter> P \<times> P)"
      using inv by (auto simp: kahn_inv_def)
    have "set q = {v \<in> set V. v \<notin> insert t P \<and> pend es (insert t P) v = 0}"
    proof -
      have rdy: "set ready = {v \<in> set V. v \<notin> P \<and> pend es P v = 0}" using inv by (simp add: kahn_inv_def)
      have down: "pend es (insert t P) v = 0" if "pend es P v = 0" for v using pi [of v] that by simp
      show ?thesis unfolding q(2) rdy new using notin down by blast
    qed
    moreover have "\<forall>v. map_of indeg' v = (if v \<in> set V then Some (int (pend es (insert t P) v)) else None)"
      using m' by (auto simp: m pi)
    ultimately show ?thesis
      using q inv tV preds acyclic_add_top [OF ac tV(2) closed preds]
      by (auto simp: kahn_inv_def)
  qed
  with cs r disj dn show ?thesis by blast
qed

lemma place_all_spec:
  assumes "kahn_inv V es ready (set placed) indeg" "children_spec V es ch"
  shows "\<exists>pl indeg'. place_all ch indeg ready placed = Inr pl \<and> kahn_inv V es [] (set pl) indeg'"
  using assms
proof (induction ch indeg ready placed rule: place_all.induct)
  case (1 ch indeg ready placed)
  show ?case
  proof (cases "ready = []")
    case True
    with 1 show ?thesis by (auto simp: place_all.simps)
  next
    case False
    let ?t = "last ready"
    have t: "?t \<in> set ready" using False by simp
    with 1 have np: "?t \<notin> set placed" by (auto simp: kahn_inv_def)
    have dr: "distinct ready" using 1 by (auto simp: kahn_inv_def)
    have bl: "set (butlast ready) = set ready - {?t}" "distinct (butlast ready)"
      using dr False by (cases ready rule: rev_cases; auto simp: distinct_butlast)+
    obtain cs indeg' new where cs: "map_of ch ?t = Some cs"
      and r: "relax cs indeg (butlast ready) = Inr (indeg', butlast ready @ new)"
      and dis: "set new \<inter> set ready = {}" "distinct new"
      and inv: "\<forall>q. distinct q \<longrightarrow> set q = set ready - {?t} \<union> set new \<longrightarrow>
                  kahn_inv V es q (insert ?t (set placed)) indeg'"
      using kahn_step [OF 1(3,4) t, of "butlast ready"] by blast
    have "kahn_inv V es (butlast ready @ new) (set (placed @ [?t])) indeg'"
      using inv [rule_format, of "butlast ready @ new"] bl dis by auto
    from "1.IH"(2) [OF False refl refl np cs r _ this 1(4)] show ?thesis
      using False np cs r by (simp add: place_all.simps [of ch indeg ready placed] Let_def)
  qed
qed

lemma relax_stage_spec:
  assumes "kahn_inv V es (ids @ nxt) P indeg" "children_spec V es ch"
  shows "\<exists>indeg' nxt'. relax_stage ch ids indeg nxt = Inr (indeg', nxt') \<and>
    kahn_inv V es nxt' (P \<union> set ids) indeg'"
  using assms
proof (induction ids arbitrary: nxt P indeg)
  case (Cons t ids)
  obtain cs indeg' new where cs: "map_of ch t = Some cs" and r: "relax cs indeg nxt = Inr (indeg', nxt @ new)"
    and dis: "set new \<inter> set (t # ids @ nxt) = {}" "distinct new"
    and inv: "\<And>q. distinct q \<Longrightarrow> set q = set (t # ids @ nxt) - {t} \<union> set new \<Longrightarrow> kahn_inv V es q (insert t P) indeg'"
    using kahn_step [OF Cons.prems, of t nxt] by auto
  have "distinct (t # ids @ nxt)" using Cons.prems by (simp add: kahn_inv_def)
  then have "kahn_inv V es (ids @ (nxt @ new)) (insert t P) indeg'" using dis by (intro inv) auto
  from Cons.IH [OF this Cons.prems(2)] show ?case using cs r by (auto simp: Un_insert_left)
qed simp

lemma all_placed_iff_acyclic:
  assumes "kahn_inv V es [] P indeg"
  shows "P = set V \<longleftrightarrow> acyclic (set es)"
proof
  assume "P = set V"
  moreover have "set es \<subseteq> set V \<times> set V" using edges_V by auto
  ultimately show "acyclic (set es)" using assms by (auto simp: kahn_inv_def Int_absorb2)
next
  assume ac: "acyclic (set es)"
  have wf: "wf (set es)" using ac by (simp add: finite_acyclic_wf)
  show "P = set V"
  proof (rule ccontr)
    assume "P \<noteq> set V"
    with assms obtain v where "v \<in> set V - P" by (auto simp: kahn_inv_def)
    with wf obtain z where z: "z \<in> set V - P" and min: "\<And>y. (y, z) \<in> set es \<Longrightarrow> y \<notin> set V - P"
      by (rule wfE_min) blast
    from z assms have "pend es P z \<noteq> 0" by (auto simp: kahn_inv_def)
    then obtain a where "(a, z) \<in> set es" "a \<notin> P" by (auto simp: pend_zero_iff)
    with min edges_V show False by blast
  qed
qed

lemma stage_loop_spec:
  assumes "kahn_inv V es ready (set placed) indeg" "children_spec V es ch"
    and "placed = concat stages" "staged es stages" "distinct placed"
  shows "\<exists>sts pl. stage_loop ch indeg ready stages placed = Inr (sts, pl) \<and> pl = concat sts \<and>
    staged es sts \<and> distinct pl \<and> (\<exists>indeg'. kahn_inv V es [] (set pl) indeg')"
  using assms
proof (induction ch indeg ready stages placed rule: stage_loop.induct)
  case (1 ch indeg ready stages placed)
  show ?case
  proof (cases "ready = []")
    case True
    then show ?thesis using 1(2-) by (auto simp: stage_loop.simps)
  next
    case False
    let ?ids = "sort ready"
    have rdy: "set ready = {v \<in> set V. v \<notin> set placed \<and> pend es (set placed) v = 0}" "distinct ready"
      using 1(2) by (auto simp: kahn_inv_def)
    have "kahn_inv V es (?ids @ []) (set placed) indeg" using 1(2) by (simp add: kahn_inv_def)
    from relax_stage_spec [OF this 1(3)] obtain indeg' nxt where
      r: "relax_stage ch ?ids indeg [] = Inr (indeg', nxt)" and
      inv: "kahn_inv V es nxt (set (placed @ ?ids)) indeg'" by auto
    have "staged es (stages @ [?ids])"
      using 1(4,5) rdy by (intro staged_snoc) (auto simp: pend_zero_iff)
    moreover have "distinct (placed @ ?ids)" using 1(6) rdy by auto
    moreover have "placed @ ?ids = concat (stages @ [?ids])" using 1(4) by simp
    moreover have "stage_loop ch indeg ready stages placed = stage_loop ch indeg' nxt (stages @ [?ids]) (placed @ ?ids)"
      by (simp add: stage_loop.simps [of ch indeg ready stages placed] r False Let_def)
    ultimately show ?thesis using "1.IH" [OF False refl r refl inv 1(3)] by (simp only: simp_thms)
  qed
qed

end

section \<open>Plans as graphs\<close>

text \<open>The ids of a plan and its edges between known ids form such a graph, whatever the plan.\<close>

interpretation plan_graph: kahn_graph "map fst (tasks_by_id p)" "known_edges p" for p
proof
  show "distinct (map fst (tasks_by_id p))"
    using dict_ok_dict_of unfolding tasks_by_id_def dict_ok_def by blast
  show "a \<in> set (map fst (tasks_by_id p)) \<and> b \<in> set (map fst (tasks_by_id p))"
    if "(a, b) \<in> set (known_edges p)" for a b
    using that by (force simp: known_edges_def Let_def dest: map_of_SomeD)
qed

lemma stages_lookup:
  assumes "set ids \<subseteq> fst ` set by_id" "\<And>i t. map_of by_id i = Some t \<Longrightarrow> task_id t = i"
  shows "\<exists>ts. emap (\<lambda>i. case map_of by_id i of Some t \<Rightarrow> Inr t | None \<Rightarrow> Inl (KeyError i)) ids = Inr ts \<and>
     map task_id ts = ids \<and> set ts \<subseteq> ran (map_of by_id)"
  using assms(1)
proof (induction ids)
  case (Cons i ids)
  then obtain t where "map_of by_id i = Some t" by (metis imageE insert_subset list.set(2) map_of_eq_None_iff not_Some_eq)
  with Cons assms(2) show ?case by (force simp: ran_def)
qed simp

lemma stages_lookup_all:
  assumes "set (concat sts) \<subseteq> fst ` set by_id" "\<And>i t. map_of by_id i = Some t \<Longrightarrow> task_id t = i"
  shows "\<exists>out. emap (emap (\<lambda>i. case map_of by_id i of Some t \<Rightarrow> Inr t | None \<Rightarrow> Inl (KeyError i))) sts = Inr out \<and>
     map (map task_id) out = sts \<and> set (concat out) \<subseteq> ran (map_of by_id)"
  using assms(1)
proof (induction sts)
  case (Cons ids sts)
  from Cons.prems have "set ids \<subseteq> fst ` set by_id" by simp
  from stages_lookup [OF this assms(2)] obtain ts where
    "emap (\<lambda>i. case map_of by_id i of Some t \<Rightarrow> Inr t | None \<Rightarrow> Inl (KeyError i)) ids = Inr ts"
    "map task_id ts = ids" "set ts \<subseteq> ran (map_of by_id)" by blast
  with Cons show ?case by auto
qed simp

lemma leftover_ids:
  "\<forall>x\<in>set xs. task_id (snd x) = fst x \<Longrightarrow>
   map task_id (map snd (filter (\<lambda>(i, _). i \<notin> P) xs)) = filter (\<lambda>i. i \<notin> P) (map fst xs)"
  by (induction xs) auto

lemma topological_stages_spec:
  "\<exists>out sts left. topological_stages p = Inr out \<and>
     map (map task_id) out = sts @ (if left = [] then [] else [left]) \<and>
     set (concat out) \<subseteq> set (tasks p) \<and>
     staged (known_edges p) sts \<and> distinct (concat sts @ left) \<and>
     set (concat sts @ left) = fst ` set (tasks_by_id p) \<and>
     (left = [] \<longleftrightarrow> acyclic (set (known_edges p)))"
proof -
  let ?V = "map fst (tasks_by_id p)" and ?es = "known_edges p"
  obtain indeg where i: "indeg_of (map (\<lambda>i. (i, 0)) ?V) ?es = Inr indeg"
    and inv0: "kahn_inv ?V ?es (map fst (filter (\<lambda>(_, d). d = 0) indeg)) {} indeg"
    using plan_graph.init_indeg by blast
  obtain ch where c: "children_of (map (\<lambda>i. (i, [])) ?V) ?es = Inr ch" and chs: "children_spec ?V ?es ch"
    using plan_graph.init_children by blast
  obtain sts pl indeg' where l: "stage_loop ch indeg (map fst (filter (\<lambda>(_, d). d = 0) indeg)) [] [] = Inr (sts, pl)"
    and pl: "pl = concat sts" and st: "staged ?es sts" and dp: "distinct pl"
    and fin: "kahn_inv ?V ?es [] (set pl) indeg'"
  proof -
    have "staged ?es []" by (simp add: staged_def)
    with inv0 chs have "\<exists>sts pl. stage_loop ch indeg (map fst (filter (\<lambda>(_, d). d = 0) indeg)) [] [] = Inr (sts, pl) \<and>
       pl = concat sts \<and> staged ?es sts \<and> distinct pl \<and> (\<exists>indeg'. kahn_inv ?V ?es [] (set pl) indeg')"
      by (intro plan_graph.stage_loop_spec) simp_all
    then show thesis using that by blast
  qed
  have ids: "map_of (tasks_by_id p) k = Some t \<Longrightarrow> task_id t = k" for k t using tasks_by_id_SomeD by blast
  have plV: "set pl \<subseteq> fst ` set (tasks_by_id p)" using fin by (auto simp: kahn_inv_def)
  obtain out where o: "emap (emap (\<lambda>i. case map_of (tasks_by_id p) i of Some t \<Rightarrow> Inr t | None \<Rightarrow> Inl (KeyError i))) sts = Inr out"
    and om: "map (map task_id) out = sts" and oran: "set (concat out) \<subseteq> ran (map_of (tasks_by_id p))"
    using stages_lookup_all [of sts "tasks_by_id p"] plV pl ids by blast
  let ?lv = "map snd (filter (\<lambda>(i, _). i \<notin> set pl) (tasks_by_id p))"
  have d: "distinct ?V" by (rule plan_graph.distinct_V)
  have "\<forall>x\<in>set (tasks_by_id p). task_id (snd x) = fst x"
    using d ids by (metis map_of_eq_Some_iff prod.collapse)
  then have lids: "map task_id ?lv = filter (\<lambda>i. i \<notin> set pl) ?V" by (rule leftover_ids)
  have "topological_stages p = Inr (if ?lv = [] then out else out @ [?lv])"
    unfolding topological_stages_def Let_def by (simp add: i c l o del: map_map)
  moreover have "set ?lv \<subseteq> ran (map_of (tasks_by_id p))"
    using d by (force simp: ran_def map_of_eq_Some_iff)
  moreover have "ran (map_of (tasks_by_id p)) \<subseteq> set (tasks p)"
    using tasks_by_id_SomeD by (fastforce simp: ran_def)
  moreover have "filter (\<lambda>i. i \<notin> set pl) ?V = [] \<longleftrightarrow> acyclic (set ?es)"
    using plan_graph.all_placed_iff_acyclic [OF fin] plV by (auto simp: filter_empty_conv)
  moreover have "distinct (concat sts @ filter (\<lambda>i. i \<notin> set pl) ?V)"
    using dp pl d by auto
  moreover have "set (concat sts @ filter (\<lambda>i. i \<notin> set pl) ?V) = fst ` set (tasks_by_id p)"
    using plV pl by auto
  moreover have "map (map task_id) (if ?lv = [] then out else out @ [?lv]) =
      sts @ (if filter (\<lambda>i. i \<notin> set pl) ?V = [] then [] else [filter (\<lambda>i. i \<notin> set pl) ?V])"
  proof (cases "?lv = []")
    case True
    then have "filter (\<lambda>i. i \<notin> set pl) ?V = []" using lids by (metis list.simps(8))
    then show ?thesis using True om by simp
  next
    case False
    then have "filter (\<lambda>i. i \<notin> set pl) ?V \<noteq> []" using lids by (metis map_is_Nil_conv)
    then show ?thesis using False om lids by simp
  qed
  moreover have "set (concat (if ?lv = [] then out else out @ [?lv])) \<subseteq> set (tasks p)"
    using oran calculation(2,3) by (auto split: if_splits)
  ultimately show ?thesis using st by blast
qed

lemma staged_acyclic:
  assumes st: "staged es sts" and cov: "\<And>a b. (a, b) \<in> set es \<Longrightarrow> b \<in> set (concat sts)"
  shows "acyclic (set es)"
proof -
  define r where "r v = (LEAST k. k < length sts \<and> v \<in> set (sts ! k))" for v
  have "r a < r b" if "(a, b) \<in> set es" for a b
  proof -
    from cov [OF that] obtain st where "st \<in> set sts" "b \<in> set st" by auto
    then obtain k where "k < length sts \<and> b \<in> set (sts ! k)" by (metis in_set_conv_nth)
    then have rb: "r b < length sts \<and> b \<in> set (sts ! r b)" unfolding r_def by (rule LeastI)
    with st that obtain j where j: "j < r b" "a \<in> set (sts ! j)" unfolding staged_def by blast
    with rb have "j < length sts \<and> a \<in> set (sts ! j)" by simp
    then have "r a \<le> j" unfolding r_def by (rule Least_le)
    with j show ?thesis by simp
  qed
  then have "set es \<subseteq> measure r" by auto
  then show ?thesis using wf_acyclic wf_measure wf_subset by blast
qed

section \<open>Properties\<close>

text \<open>
  C28: \<open>Plan.topological_stages\<close> never raises, returns every task with an id exactly once, and its
  stages respect the plan's edges (each predecessor in a strictly earlier stage) exactly when the
  edges between known tasks form no cycle.
\<close>

theorem topological_stages_correct:
  "\<exists>out. topological_stages p = Inr out \<and>
     set (concat out) \<subseteq> set (tasks p) \<and>
     distinct (map task_id (concat out)) \<and>
     set (map task_id (concat out)) = task_id ` set (tasks p) - {[]} \<and>
     (staged (known_edges p) (map (map task_id) out) \<longleftrightarrow> acyclic (set (known_edges p)))"
proof -
  obtain out sts left where o: "topological_stages p = Inr out"
    and m: "map (map task_id) out = sts @ (if left = [] then [] else [left])"
    and sub: "set (concat out) \<subseteq> set (tasks p)"
    and st: "staged (known_edges p) sts" and d: "distinct (concat sts @ left)"
    and v: "set (concat sts @ left) = fst ` set (tasks_by_id p)"
    and ac: "left = [] \<longleftrightarrow> acyclic (set (known_edges p))"
    using topological_stages_spec [of p] by blast
  have ids: "map task_id (concat out) = concat sts @ left"
    using arg_cong [OF m, of concat] by (simp add: map_concat split: if_splits)
  have fwd: "staged (known_edges p) (map (map task_id) out) \<Longrightarrow> acyclic (set (known_edges p))"
  proof (erule staged_acyclic)
    fix a b assume "(a, b) \<in> set (known_edges p)"
    then have "b \<in> fst ` set (tasks_by_id p)" using plan_graph.edges_V [of a b p] by simp
    then show "b \<in> set (concat (map (map task_id) out))"
      using v ids by (metis map_concat)
  qed
  have "staged (known_edges p) (map (map task_id) out)" if "acyclic (set (known_edges p))"
    using that ac m st by simp
  with fwd have iff: "staged (known_edges p) (map (map task_id) out) \<longleftrightarrow> acyclic (set (known_edges p))" by blast
  have "distinct (map task_id (concat out))" using ids d by simp
  moreover have "set (map task_id (concat out)) = task_id ` set (tasks p) - {[]}"
    unfolding ids v by (rule tasks_by_id_keys)
  ultimately show ?thesis using o sub iff by blast
qed

end
