(* ===== verification/Plan_Validate.thy ===== *)
theory Plan_Validate
  imports Plan_Dag
begin

text \<open>
  \<open>Plan.validate\<close> of \<open>types.py\<close>, rule by rule in the order of the source. Each rule is a loop that
  raises at its first violation; \<open>None\<close> is "no exception". The lemmas give every rule its
  declarative reading and combine them into \<open>plan_ok\<close>, the contract of a validated plan.
\<close>

section \<open>The validator\<close>

datatype plan_error =
    EmptyTaskId
  | DuplicateTaskId string
  | UnknownFromTask string
  | UnknownToTask string
  | PlanKeyError string
  | PlanCycle "string list"
  | NonPendingAtCreation string TaskStatus
  | TerminalTaskMissing string
  | TerminalTaskRegressed string TaskStatus
  | TerminalEdgeMissing string string
  | UnexecutablePending string string TaskStatus
  | SelfSupersedes string
  | SupersedesUnknown string string
  | MutualSupersedes string string
  | ConsumersNotReedged string string "(string \<times> string) list"

text \<open>Rules 1 and 2: ids present and unique; the accumulator is the set \<open>seen\<close>.\<close>

fun check_ids :: "string list \<Rightarrow> task list \<Rightarrow> plan_error + string list" where
  "check_ids seen [] = Inr seen"
| "check_ids seen (t # ts) =
     (if task_id t = [] then Inl EmptyTaskId
      else if task_id t \<in> set seen then Inl (DuplicateTaskId (task_id t))
      else check_ids (seen @ [task_id t]) ts)"

text \<open>Rule 3: edges reference known tasks.\<close>

fun check_edges :: "string list \<Rightarrow> TaskEdge list \<Rightarrow> plan_error option" where
  "check_edges seen [] = None"
| "check_edges seen (e # es) =
     (if from_task_id e \<notin> set seen then Some (UnknownFromTask (from_task_id e))
      else if to_task_id e \<notin> set seen then Some (UnknownToTask (to_task_id e))
      else check_edges seen es)"

text \<open>Rule 4: no cycles. Whatever the stack loop cannot place lies on or behind a cycle.\<close>

definition check_cycles :: "string list \<Rightarrow> TaskEdge list \<Rightarrow> plan_error option" where
  "check_cycles seen es =
     (case indeg_of (map (\<lambda>i. (i, 0)) seen) (map edge_pair es) of
        Inl _ \<Rightarrow> Some (PlanKeyError ''indeg'')
      | Inr indeg \<Rightarrow>
          (case children_of (map (\<lambda>i. (i, [])) seen) (map edge_pair es) of
             Inl _ \<Rightarrow> Some (PlanKeyError ''children'')
           | Inr children \<Rightarrow>
               (case place_all children indeg (map fst (filter (\<lambda>(_, d). d = 0) indeg)) [] of
                  Inl _ \<Rightarrow> Some (PlanKeyError ''placed'')
                | Inr placed \<Rightarrow>
                    (let unplaced = filter (\<lambda>i. i \<notin> set placed) seen
                     in if unplaced \<noteq> [] then Some (PlanCycle (sort unplaced)) else None))))"

text \<open>Rule 5: at creation every task is PENDING.\<close>

fun check_creation :: "task list \<Rightarrow> plan_error option" where
  "check_creation [] = None"
| "check_creation (t # ts) =
     (if status t \<noteq> PENDING then Some (NonPendingAtCreation (task_id t) (status t)) else check_creation ts)"

text \<open>Rule 6: terminal tasks and the edges between them survive a revision.\<close>

fun check_terminal_tasks :: "(string, task) dict \<Rightarrow> task list \<Rightarrow> plan_error option" where
  "check_terminal_tasks new_by_id [] = None"
| "check_terminal_tasks new_by_id (t # ts) =
     (if status t \<notin> TERMINAL_TASK_STATUSES then check_terminal_tasks new_by_id ts
      else (case map_of new_by_id (task_id t) of
              None \<Rightarrow> Some (TerminalTaskMissing (task_id t))
            | Some n \<Rightarrow>
                if status n \<noteq> status t then Some (TerminalTaskRegressed (task_id t) (status n))
                else check_terminal_tasks new_by_id ts))"

definition terminal_ids :: "plan \<Rightarrow> string list" where
  "terminal_ids p = map task_id (filter (\<lambda>t. status t \<in> TERMINAL_TASK_STATUSES) (tasks p))"

fun check_terminal_edges :: "string list \<Rightarrow> (string \<times> string) list \<Rightarrow> TaskEdge list \<Rightarrow> plan_error option" where
  "check_terminal_edges term_ids new_edges [] = None"
| "check_terminal_edges term_ids new_edges (e # es) =
     (if from_task_id e \<in> set term_ids \<and> to_task_id e \<in> set term_ids \<and> edge_pair e \<notin> set new_edges
      then Some (TerminalEdgeMissing (from_task_id e) (to_task_id e))
      else check_terminal_edges term_ids new_edges es)"

definition check_preservation :: "plan \<Rightarrow> plan \<Rightarrow> plan_error option" where
  "check_preservation p prior =
     (case check_terminal_tasks (dict_of (map (\<lambda>t. (task_id t, t)) (tasks p))) (tasks prior) of
        Some e \<Rightarrow> Some e
      | None \<Rightarrow> check_terminal_edges (terminal_ids prior) (map edge_pair (edges p)) (edges prior))"

text \<open>Rule 7: no edge from an absorbing terminal task to a PENDING one.\<close>

definition UNREACHABLE_PREDECESSOR_STATUSES :: "TaskStatus set" where
  "UNREACHABLE_PREDECESSOR_STATUSES = {CANCELLED, FAILED, NOT_NEEDED}"

fun check_reachable :: "(string, task) dict \<Rightarrow> TaskEdge list \<Rightarrow> plan_error option" where
  "check_reachable by_id [] = None"
| "check_reachable by_id (e # es) =
     (case (map_of by_id (from_task_id e), map_of by_id (to_task_id e)) of
        (Some f, Some t) \<Rightarrow>
          if status f \<in> UNREACHABLE_PREDECESSOR_STATUSES \<and> status t = PENDING
          then Some (UnexecutablePending (from_task_id e) (to_task_id e) (status f))
          else check_reachable by_id es
      | _ \<Rightarrow> check_reachable by_id es)"

text \<open>Rule 8: corrective-predecessor topology of one task \<open>x\<close>, then of every task.\<close>

definition live_consumers :: "plan \<Rightarrow> (string, task) dict \<Rightarrow> string \<Rightarrow> string list" where
  "live_consumers prior new_by_id y =
     filter (\<lambda>z. case map_of new_by_id z of None \<Rightarrow> False | Some t \<Rightarrow> status t \<notin> TERMINAL_TASK_STATUSES)
       (map to_task_id (filter (\<lambda>e. from_task_id e = y) (edges prior)))"

definition check_topology :: "plan \<Rightarrow> plan \<Rightarrow> string \<Rightarrow> string \<Rightarrow> plan_error option" where
  "check_topology p prior x y =
     (let new_by_id = tasks_by_id p; new_edges = map edge_pair (edges p) in
      case map_of (tasks_by_id prior) y of
        None \<Rightarrow> None
      | Some y_prior \<Rightarrow>
          if status y_prior \<in> TERMINAL_TASK_STATUSES then None
          else if (case map_of new_by_id y of Some t \<Rightarrow> status t \<in> TERMINAL_TASK_STATUSES | None \<Rightarrow> False) then None
          else
            (let shape_a = (case map_of new_by_id y of Some t \<Rightarrow> status t = PENDING \<and> (x, y) \<in> set new_edges | None \<Rightarrow> False);
                 missing = filter (\<lambda>z. (x, z) \<notin> set new_edges) (live_consumers prior new_by_id y)
             in if shape_a \<or> missing = [] then None
                else Some (ConsumersNotReedged x y (map (\<lambda>z. (x, z)) missing))))"

definition check_supersedes1 :: "plan \<Rightarrow> plan \<Rightarrow> task \<Rightarrow> plan_error option" where
  "check_supersedes1 p prior x =
     (let y = strip (supersedes x); new_by_id = tasks_by_id p in
      if y = [] then None
      else if y = task_id x then Some (SelfSupersedes (task_id x))
      else if map_of (tasks_by_id prior) y = None \<and> map_of new_by_id y = None
        then Some (SupersedesUnknown (task_id x) y)
      else if (case map_of new_by_id y of Some other \<Rightarrow> strip (supersedes other) = task_id x | None \<Rightarrow> False)
        then Some (MutualSupersedes (task_id x) y)
      else check_topology p prior (task_id x) y)"

fun first_error :: "('a \<Rightarrow> plan_error option) \<Rightarrow> 'a list \<Rightarrow> plan_error option" where
  "first_error f [] = None"
| "first_error f (x # xs) = (case f x of Some e \<Rightarrow> Some e | None \<Rightarrow> first_error f xs)"

text \<open>\<open>Plan.validate(for_revision, prior=prior)\<close>.\<close>

definition validate :: "plan \<Rightarrow> bool \<Rightarrow> plan option \<Rightarrow> plan_error option" where
  "validate p for_revision prior =
     (case check_ids [] (tasks p) of
        Inl e \<Rightarrow> Some e
      | Inr seen \<Rightarrow>
      (case check_edges seen (edges p) of Some e \<Rightarrow> Some e | None \<Rightarrow>
      (case check_cycles seen (edges p) of Some e \<Rightarrow> Some e | None \<Rightarrow>
      (case (if for_revision then None else check_creation (tasks p)) of Some e \<Rightarrow> Some e | None \<Rightarrow>
      (case (if for_revision then (case prior of None \<Rightarrow> None | Some q \<Rightarrow> check_preservation p q) else None) of
         Some e \<Rightarrow> Some e | None \<Rightarrow>
      (case check_reachable (dict_of (map (\<lambda>t. (task_id t, t)) (tasks p))) (edges p) of Some e \<Rightarrow> Some e | None \<Rightarrow>
      (if for_revision then (case prior of None \<Rightarrow> None | Some q \<Rightarrow> first_error (check_supersedes1 p q) (tasks p))
       else None)))))))"

section \<open>The contract of a validated plan\<close>

definition edge_rel :: "plan \<Rightarrow> (string \<times> string) set" where
  "edge_rel p = edge_pair ` set (edges p)"

definition ids_ok :: "plan \<Rightarrow> bool" where
  "ids_ok p \<longleftrightarrow> distinct (map task_id (tasks p)) \<and> [] \<notin> task_id ` set (tasks p)"

definition dag_ok :: "plan \<Rightarrow> bool" where
  "dag_ok p \<longleftrightarrow> ids_ok p \<and> edge_rel p \<subseteq> task_id ` set (tasks p) \<times> task_id ` set (tasks p) \<and> acyclic (edge_rel p)"

definition preserves :: "plan \<Rightarrow> plan \<Rightarrow> bool" where
  "preserves p prior \<longleftrightarrow>
     (\<forall>t\<in>set (tasks prior). status t \<in> TERMINAL_TASK_STATUSES \<longrightarrow>
        (\<exists>n. plan_find p (task_id t) = Some n \<and> status n = status t)) \<and>
     (\<forall>(a, b)\<in>edge_rel prior. a \<in> set (terminal_ids prior) \<longrightarrow> b \<in> set (terminal_ids prior) \<longrightarrow> (a, b) \<in> edge_rel p)"

definition reachable_ok :: "plan \<Rightarrow> bool" where
  "reachable_ok p \<longleftrightarrow>
     (\<forall>(a, b)\<in>edge_rel p. \<forall>f t. plan_find p a = Some f \<longrightarrow> plan_find p b = Some t \<longrightarrow>
        status t = PENDING \<longrightarrow> status f \<notin> UNREACHABLE_PREDECESSOR_STATUSES)"

text \<open>
  \<open>x\<close> supersedes \<open>y\<close>: a known other task that does not supersede \<open>x\<close> back and, while \<open>y\<close> is live in
  both plans, either \<open>y\<close> itself waits on \<open>x\<close> or every live consumer of \<open>y\<close> is re-edged through \<open>x\<close>.
\<close>

definition live_in :: "plan \<Rightarrow> string \<Rightarrow> bool" where
  "live_in p i \<longleftrightarrow> (\<exists>t. map_of (tasks_by_id p) i = Some t \<and> status t \<notin> TERMINAL_TASK_STATUSES)"

definition terminal_in :: "plan \<Rightarrow> string \<Rightarrow> bool" where
  "terminal_in p i \<longleftrightarrow> (\<exists>t. map_of (tasks_by_id p) i = Some t \<and> status t \<in> TERMINAL_TASK_STATUSES)"

definition pending_in :: "plan \<Rightarrow> string \<Rightarrow> bool" where
  "pending_in p i \<longleftrightarrow> (\<exists>t. map_of (tasks_by_id p) i = Some t \<and> status t = PENDING)"

definition corrective_ok :: "plan \<Rightarrow> plan \<Rightarrow> string \<Rightarrow> string \<Rightarrow> bool" where
  "corrective_ok p prior x y \<longleftrightarrow>
     (live_in prior y \<longrightarrow> \<not> terminal_in p y \<longrightarrow>
       (pending_in p y \<and> (x, y) \<in> edge_rel p) \<or>
       (\<forall>z. (y, z) \<in> edge_rel prior \<longrightarrow> live_in p z \<longrightarrow> (x, z) \<in> edge_rel p))"

definition supersede_ok :: "plan \<Rightarrow> plan \<Rightarrow> task \<Rightarrow> bool" where
  "supersede_ok p prior x \<longleftrightarrow>
     (let y = strip (supersedes x) in y \<noteq> [] \<longrightarrow>
        y \<noteq> task_id x \<and>
        (map_of (tasks_by_id prior) y \<noteq> None \<or> map_of (tasks_by_id p) y \<noteq> None) \<and>
        (\<forall>t. map_of (tasks_by_id p) y = Some t \<longrightarrow> strip (supersedes t) \<noteq> task_id x) \<and>
        corrective_ok p prior (task_id x) y)"

definition plan_ok :: "plan \<Rightarrow> bool \<Rightarrow> plan option \<Rightarrow> bool" where
  "plan_ok p for_revision prior \<longleftrightarrow>
     dag_ok p \<and> reachable_ok p \<and>
     (\<not> for_revision \<longrightarrow> (\<forall>t\<in>set (tasks p). status t = PENDING)) \<and>
     (for_revision \<longrightarrow> (\<forall>q. prior = Some q \<longrightarrow>
        preserves p q \<and> (\<forall>x\<in>set (tasks p). supersede_ok p q x)))"

section \<open>Rule by rule\<close>

lemma check_ids_Inr:
  "check_ids seen ts = Inr out \<longleftrightarrow>
   out = seen @ map task_id ts \<and> [] \<notin> task_id ` set ts \<and> distinct (map task_id ts) \<and>
   set (map task_id ts) \<inter> set seen = {}"
  by (induction ts arbitrary: seen) auto

lemma check_edges_None:
  "check_edges seen es = None \<longleftrightarrow> edge_pair ` set es \<subseteq> set seen \<times> set seen"
  by (induction es) (auto simp: edge_pair_def)

lemma check_cycles_None:
  assumes "distinct seen" "edge_pair ` set es \<subseteq> set seen \<times> set seen"
  shows "check_cycles seen es = None \<longleftrightarrow> acyclic (edge_pair ` set es)"
proof -
  have kg: "kahn_graph seen (map edge_pair es)" using assms by unfold_locales auto
  obtain indeg where i: "indeg_of (map (\<lambda>i. (i, 0)) seen) (map edge_pair es) = Inr indeg"
    and inv: "kahn_inv seen (map edge_pair es) (map fst (filter (\<lambda>(_, d). d = 0) indeg)) (set []) indeg"
    using kahn_graph.init_indeg [OF kg] by auto
  obtain ch where c: "children_of (map (\<lambda>i. (i, [])) seen) (map edge_pair es) = Inr ch"
    and cs: "children_spec seen (map edge_pair es) ch" using kahn_graph.init_children [OF kg] by blast
  obtain pl indeg' where p: "place_all ch indeg (map fst (filter (\<lambda>(_, d). d = 0) indeg)) [] = Inr pl"
    and fin: "kahn_inv seen (map edge_pair es) [] (set pl) indeg'"
    using kahn_graph.place_all_spec [OF kg inv cs] by blast
  have "set pl \<subseteq> set seen" using fin by (simp add: kahn_inv_def)
  then have "filter (\<lambda>i. i \<notin> set pl) seen = [] \<longleftrightarrow> set pl = set seen" by (auto simp: filter_empty_conv)
  also have "\<dots> \<longleftrightarrow> acyclic (edge_pair ` set es)"
    using kahn_graph.all_placed_iff_acyclic [OF kg fin] by simp
  finally show ?thesis by (simp add: check_cycles_def i c p Let_def)
qed

lemma check_creation_None: "check_creation ts = None \<longleftrightarrow> (\<forall>t\<in>set ts. status t = PENDING)"
  by (induction ts) auto

lemma check_terminal_tasks_None:
  "check_terminal_tasks d ts = None \<longleftrightarrow>
   (\<forall>t\<in>set ts. status t \<in> TERMINAL_TASK_STATUSES \<longrightarrow> (\<exists>n. map_of d (task_id t) = Some n \<and> status n = status t))"
  by (induction ts) (auto split: option.splits)

lemma check_terminal_edges_None:
  "check_terminal_edges ti ne es = None \<longleftrightarrow>
   (\<forall>(a, b)\<in>edge_pair ` set es. a \<in> set ti \<longrightarrow> b \<in> set ti \<longrightarrow> (a, b) \<in> set ne)"
  by (induction es) (auto simp: edge_pair_def)

lemma check_reachable_None:
  "check_reachable d es = None \<longleftrightarrow>
   (\<forall>(a, b)\<in>edge_pair ` set es. \<forall>f t. map_of d a = Some f \<longrightarrow> map_of d b = Some t \<longrightarrow>
      status t = PENDING \<longrightarrow> status f \<notin> UNREACHABLE_PREDECESSOR_STATUSES)"
  by (induction es) (auto simp: edge_pair_def split: option.splits)

lemma first_error_None: "first_error f xs = None \<longleftrightarrow> (\<forall>x\<in>set xs. f x = None)"
  by (induction xs) (auto split: option.splits)

lemma all_by_id:
  assumes "ids_ok p"
  shows "map_of (dict_of (map (\<lambda>t. (task_id t, t)) (tasks p))) i = plan_find p i"
proof -
  have "filter (\<lambda>t. task_id t \<noteq> []) (tasks p) = tasks p"
    using assms by (force simp: ids_ok_def filter_id_conv)
  then show ?thesis
    using tasks_by_id_lookup [of p i] assms by (simp add: tasks_by_id_def ids_ok_def)
qed

lemma check_preservation_None: "ids_ok p \<Longrightarrow> check_preservation p q = None \<longleftrightarrow> preserves p q"
  by (auto simp: check_preservation_def preserves_def check_terminal_tasks_None
      check_terminal_edges_None all_by_id edge_rel_def)

lemma check_topology_None: "check_topology p q x y = None \<longleftrightarrow> corrective_ok p q x y"
proof -
  have live: "filter (\<lambda>z. (x, z) \<notin> set (map edge_pair (edges p))) (live_consumers q (tasks_by_id p) y) = [] \<longleftrightarrow>
      (\<forall>z. (y, z) \<in> edge_rel q \<longrightarrow> live_in p z \<longrightarrow> (x, z) \<in> edge_rel p)"
    by (force simp: live_consumers_def filter_empty_conv live_in_def edge_rel_def edge_pair_def split: option.splits)
  have a: "(case map_of (tasks_by_id p) y of Some t \<Rightarrow> status t = PENDING \<and> (x, y) \<in> set (map edge_pair (edges p)) | None \<Rightarrow> False)
      \<longleftrightarrow> pending_in p y \<and> (x, y) \<in> edge_rel p"
    by (auto simp: pending_in_def edge_rel_def split: option.splits)
  have t: "(case map_of (tasks_by_id p) y of Some t \<Rightarrow> status t \<in> TERMINAL_TASK_STATUSES | None \<Rightarrow> False) \<longleftrightarrow> terminal_in p y"
    by (auto simp: terminal_in_def split: option.splits)
  show ?thesis
    unfolding check_topology_def corrective_ok_def Let_def live a t
    by (cases "map_of (tasks_by_id q) y") (auto simp: live_in_def)
qed

lemma check_supersedes1_None: "check_supersedes1 p q x = None \<longleftrightarrow> supersede_ok p q x"
  by (auto simp: check_supersedes1_def supersede_ok_def Let_def check_topology_None
      simp del: not_None_eq split: option.splits)

lemma check_structure:
  "(\<exists>seen. check_ids [] (tasks p) = Inr seen \<and> check_edges seen (edges p) = None \<and>
     check_cycles seen (edges p) = None) \<longleftrightarrow> dag_ok p"
  by (auto simp: check_ids_Inr check_edges_None check_cycles_None dag_ok_def ids_ok_def edge_rel_def)

lemma validate_None:
  "validate p r prior = None \<longleftrightarrow> plan_ok p r prior"
proof (cases "dag_ok p")
  case True
  then obtain seen where s: "check_ids [] (tasks p) = Inr seen" "check_edges seen (edges p) = None"
    "check_cycles seen (edges p) = None" using check_structure by blast
  have ids: "ids_ok p" using True by (simp add: dag_ok_def)
  have reach: "check_reachable (dict_of (map (\<lambda>t. (task_id t, t)) (tasks p))) (edges p) = None \<longleftrightarrow> reachable_ok p"
    by (simp add: check_reachable_None reachable_ok_def all_by_id [OF ids] edge_rel_def)
  show ?thesis
    using True s reach
    by (cases r; cases prior)
       (simp_all add: validate_def plan_ok_def check_creation_None check_preservation_None [OF ids] first_error_None
         check_supersedes1_None conj_ac)
next
  case False
  have "dag_ok p" if "validate p r prior = None"
    using that by (subst check_structure [symmetric], cases "check_ids [] (tasks p)") (simp_all add: validate_def)
  with False show ?thesis by (auto simp: plan_ok_def)
qed

section \<open>Consequences\<close>

lemma plan_ok_ids: "plan_ok p r prior \<Longrightarrow> distinct (map task_id (tasks p)) \<and> [] \<notin> task_id ` set (tasks p)"
  by (simp add: plan_ok_def dag_ok_def ids_ok_def)

lemma effective_upstream_plain:
  assumes "\<forall>t\<in>set (tasks p). supersedes t = []"
  shows "effective_upstream p u = map_of (tasks_by_id p) u"
proof -
  have "replacement_of p = []" using assms by (simp add: replacement_of_def filter_False dict_of_def)
  then show ?thesis by (auto simp: effective_upstream_def split: option.splits)
qed

text \<open>A run of accepted revisions: each plan of the list passes the validator against the one before.\<close>

fun revised_through :: "plan \<Rightarrow> plan list \<Rightarrow> bool" where
  "revised_through p [] = True"
| "revised_through p (q # qs) = (validate q True (Some p) = None \<and> revised_through q qs)"

lemma revision_preserves:
  assumes "validate q True (Some p) = None" "t \<in> set (tasks p)" "status t \<in> TERMINAL_TASK_STATUSES"
  shows "\<exists>n\<in>set (tasks q). task_id n = task_id t \<and> status n = status t"
proof -
  from assms(1) have "preserves q p" by (simp add: validate_None plan_ok_def)
  with assms(2,3) obtain n where "plan_find q (task_id t) = Some n" "status n = status t"
    by (auto simp: preserves_def)
  then show ?thesis using plan_find_SomeD by blast
qed

section \<open>Properties\<close>

text \<open>
  C1: \<open>Plan.validate\<close> raises nothing exactly on the plans that satisfy the documented contract:
  non-empty unique ids, edges between known tasks, no cycle, only PENDING tasks at creation,
  terminal tasks and the edges between them preserved by a revision, no PENDING task behind a
  CANCELLED, FAILED or NOT_NEEDED one, and superseding tasks wired in before the superseded work.
\<close>

theorem validate_sound_complete: "validate p for_revision prior = None \<longleftrightarrow> plan_ok p for_revision prior"
  by (rule validate_None)

text \<open>
  C4: a validated plan is never stuck. If some task is PENDING, nothing is RUNNING or BLOCKED and no
  task supersedes another, then some PENDING task has all of its predecessors COMPLETED, so the
  readiness test lets it run.
\<close>

theorem validated_plan_progress:
  assumes val: "validate p r prior = None"
    and pend: "\<exists>t\<in>set (tasks p). status t = PENDING"
    and idle: "\<forall>t\<in>set (tasks p). status t \<noteq> RUNNING \<and> status t \<noteq> BLOCKED"
    and plain: "\<forall>t\<in>set (tasks p). supersedes t = []"
  shows "\<exists>t\<in>set (tasks p). status t = PENDING \<and> task_upstream_ready p (task_id t)"
proof -
  have ok: "plan_ok p r prior" using val by (simp add: validate_None)
  then have d: "distinct (map task_id (tasks p))" and ne: "[] \<notin> task_id ` set (tasks p)"
    using plan_ok_ids by blast+
  have "finite (edge_rel p)" by (simp add: edge_rel_def)
  then have "wf (edge_rel p)" using ok by (simp add: plan_ok_def dag_ok_def finite_acyclic_wf)
  moreover obtain i0 where "i0 \<in> task_id ` {t \<in> set (tasks p). status t = PENDING}" using pend by blast
  ultimately obtain z where z: "z \<in> task_id ` {t \<in> set (tasks p). status t = PENDING}"
    and min: "\<And>y. (y, z) \<in> edge_rel p \<Longrightarrow> y \<notin> task_id ` {t \<in> set (tasks p). status t = PENDING}"
    by (rule wfE_min) blast
  from z obtain t where t: "t \<in> set (tasks p)" "status t = PENDING" "task_id t = z" by auto
  have find: "plan_find p (task_id x) = Some x" if "x \<in> set (tasks p)" for x
    using plan_find_in_set [OF d that] that ne by force
  have "\<exists>u. effective_upstream p a = Some u \<and> status u = COMPLETED" if e: "(a, z) \<in> edge_rel p" for a
  proof -
    from e ok obtain f where f: "f \<in> set (tasks p)" "task_id f = a" by (auto simp: plan_ok_def dag_ok_def)
    have "status f \<notin> UNREACHABLE_PREDECESSOR_STATUSES"
      using ok e find [OF f(1)] find [OF t(1)] f t by (auto simp: plan_ok_def reachable_ok_def)
    moreover have "status f \<noteq> PENDING" using min [OF e] f by auto
    ultimately have "status f = COMPLETED"
      using idle f(1) by (cases "status f") (auto simp: UNREACHABLE_PREDECESSOR_STATUSES_def)
    then show ?thesis
      using find [OF f(1)] f by (simp add: effective_upstream_plain [OF plain] tasks_by_id_lookup [OF d])
  qed
  then have "\<exists>u. effective_upstream p (from_task_id e) = Some u \<and> status u = COMPLETED"
    if "e \<in> set (edges p)" "to_task_id e = z" for e
    using that by (metis edge_pair_def edge_rel_def image_eqI)
  then have "task_upstream_ready p (task_id t)"
    using t by (simp add: task_upstream_ready_iff)
  with t show ?thesis by blast
qed

definition two_task_plan :: plan where
  "two_task_plan = (plan_empty ''p'' ''r'')\<lparr>tasks := [(mk_task ''a'' ''A'')\<lparr>status := COMPLETED\<rparr>, mk_task ''b'' ''B''],
      edges := [mk_edge ''a'' ''b'']\<rparr>"

lemma two_task_plan_ok: "validate two_task_plan True None = None"
proof -
  have "acyclic {(''a'', ''b'')}" by (auto simp: acyclic_def dest: tranclD tranclD2)
  then show ?thesis
    by (simp add: validate_None plan_ok_def dag_ok_def ids_ok_def reachable_ok_def edge_rel_def edge_pair_def
        two_task_plan_def plan_empty_def mk_task_def mk_edge_def plan_find_def UNREACHABLE_PREDECESSOR_STATUSES_def)
qed

theorem validated_plan_progress_witness:
  "\<exists>t\<in>set (tasks two_task_plan). status t = PENDING \<and> task_upstream_ready two_task_plan (task_id t)"
  by (rule validated_plan_progress [OF two_task_plan_ok])
     (simp_all add: two_task_plan_def plan_empty_def mk_task_def mk_edge_def)

text \<open>
  Terminal tasks are history. However many validated revisions a plan goes through, a task that
  was terminal in some plan of the run is still there, under the same id and with the same terminal
  status, in every later plan: no revision drops it and none re-opens it.
\<close>

theorem terminal_tasks_survive_revisions:
  assumes "revised_through p qs" "t \<in> set (tasks p)" "status t \<in> TERMINAL_TASK_STATUSES" "q \<in> set qs"
  shows "\<exists>n\<in>set (tasks q). task_id n = task_id t \<and> status n = status t"
  using assms
proof (induction qs arbitrary: p t)
  case (Cons q' qs)
  from Cons.prems(1) have "validate q' True (Some p) = None" by simp
  from revision_preserves [OF this Cons.prems(2,3)]
  obtain n where n: "n \<in> set (tasks q')" "task_id n = task_id t" "status n = status t" by blast
  show ?case
  proof (cases "q = q'")
    case True
    with n show ?thesis by blast
  next
    case False
    with Cons.prems n have "\<exists>m\<in>set (tasks q). task_id m = task_id n \<and> status m = status n"
      by (intro Cons.IH [of q' n]) auto
    with n show ?thesis by simp
  qed
qed simp

theorem terminal_tasks_survive_revisions_witness:
  "\<exists>n\<in>set (tasks two_task_plan). task_id n = ''a'' \<and> status n = COMPLETED"
proof -
  have t: "(mk_task ''a'' ''A'')\<lparr>status := COMPLETED\<rparr> \<in> set (tasks two_task_plan)" by (simp add: two_task_plan_def)
  have "plan_ok two_task_plan True (Some two_task_plan)"
    using two_task_plan_ok
    by (simp add: validate_None plan_ok_def preserves_def supersede_ok_def strip_def edge_rel_def edge_pair_def
        two_task_plan_def plan_empty_def mk_task_def mk_edge_def plan_find_def terminal_ids_def)
  then have "revised_through two_task_plan [two_task_plan]" by (simp add: validate_None)
  from terminal_tasks_survive_revisions [OF this t, of two_task_plan] show ?thesis by (simp add: mk_task_def)
qed

end
