(* ===== verification/Control_Channel.thy ===== *)
theory Control_Channel
  imports Python_Values
begin

text \<open>
  \<open>src/goldfive/control.py\<close>: the control messages and the channel between external controllers and a
  runner. An \<open>asyncio.Queue\<close> is the list of the items put and not yet taken. A coroutine that would
  suspend on an empty queue is the outcome \<open>Waits\<close>, which leaves the channel as it is; a \<open>receive\<close>
  with a timeout gives up instead. The close sentinel of the outbox is \<open>None\<close>.
\<close>

datatype ControlKind =
    CK_PAUSE | CK_RESUME | CK_CANCEL | CK_REWIND_TO | CK_STEER | CK_APPROVE | CK_REJECT
  | CK_STATUS_QUERY | CK_INTERCEPT_TRANSFER | CK_INJECT_MESSAGE
  | CK_GOLDFIVE_STEER | CK_GOLDFIVE_PAUSE_ESCALATE

datatype AckResult = ACK_SUCCESS | ACK_FAILURE | ACK_UNSUPPORTED

record ControlMessage =
  msg_kind :: ControlKind
  msg_id :: string
  msg_payload :: "(string \<times> json) list"
  issued_at_ms :: int

record ControlAck =
  control_id :: string
  ack_result :: AckResult
  ack_detail :: string
  acked_at_ms :: int

record ControlChannel =
  inbox :: "ControlMessage list"
  outbox :: "ControlAck option list"
  closed :: bool

datatype 'a outcome = Delivered 'a | Nothing | Waits

definition channel_init :: ControlChannel where
  "channel_init = \<lparr>inbox = [], outbox = [], closed = False\<rparr>"

definition send :: "ControlMessage \<Rightarrow> ControlChannel \<Rightarrow> ControlChannel" where
  "send m c = c\<lparr>inbox := inbox c @ [m]\<rparr>"

definition receive :: "bool \<Rightarrow> ControlChannel \<Rightarrow> ControlMessage outcome \<times> ControlChannel" where
  "receive has_timeout c =
     (if closed c then (Nothing, c)
      else case inbox c of
             m # ms \<Rightarrow> (Delivered m, c\<lparr>inbox := ms\<rparr>)
           | [] \<Rightarrow> (if has_timeout then Nothing else Waits, c))"

definition ack :: "ControlAck \<Rightarrow> ControlChannel \<Rightarrow> ControlChannel" where
  "ack a c = c\<lparr>outbox := outbox c @ [Some a]\<rparr>"

text \<open>One step of the generator \<open>acks()\<close>: \<open>Nothing\<close> is the end of the iteration.\<close>

definition acks_next :: "ControlChannel \<Rightarrow> ControlAck outcome \<times> ControlChannel" where
  "acks_next c =
     (if closed c then (Nothing, c)
      else case outbox c of
             [] \<Rightarrow> (Waits, c)
           | None # q \<Rightarrow> (Nothing, c\<lparr>outbox := q\<rparr>)
           | Some a # q \<Rightarrow> (Delivered a, c\<lparr>outbox := q\<rparr>))"

text \<open>
  A generator already suspended in \<open>self._outbox.get()\<close> does not re-read \<open>_closed\<close>: it resumes with
  the next item of the queue.
\<close>

definition acks_resume :: "ControlChannel \<Rightarrow> ControlAck outcome \<times> ControlChannel" where
  "acks_resume c =
     (case outbox c of
        [] \<Rightarrow> (Waits, c)
      | None # q \<Rightarrow> (Nothing, c\<lparr>outbox := q\<rparr>)
      | Some a # q \<Rightarrow> (Delivered a, c\<lparr>outbox := q\<rparr>))"

definition close :: "ControlChannel \<Rightarrow> ControlChannel" where
  "close c = (if closed c then c else c\<lparr>closed := True, outbox := outbox c @ [None]\<rparr>)"

lemmas channel_defs = channel_init_def send_def receive_def ack_def acks_next_def acks_resume_def close_def

section \<open>A mailbox interface\<close>

text \<open>
  A schedule interleaves puts and takes; \<open>mrun\<close> gives the items taken, in order, and the mailbox
  after the schedule.
\<close>

datatype 'm mop = Put 'm | Take

fun mrun :: "('m \<Rightarrow> 'c \<Rightarrow> 'c) \<Rightarrow> ('c \<Rightarrow> 'm outcome \<times> 'c) \<Rightarrow> 'm mop list \<Rightarrow> 'c \<Rightarrow> 'm list \<times> 'c" where
  "mrun put get [] c = ([], c)"
| "mrun put get (Put m # ops) c = mrun put get ops (put m c)"
| "mrun put get (Take # ops) c =
     (case get c of
        (Delivered m, c') \<Rightarrow> (let (ms, c'') = mrun put get ops c' in (m # ms, c''))
      | (_, c') \<Rightarrow> mrun put get ops c')"

fun puts_of :: "'m mop list \<Rightarrow> 'm list" where
  "puts_of [] = []"
| "puts_of (Put m # ops) = m # puts_of ops"
| "puts_of (Take # ops) = puts_of ops"

text \<open>
  What the runner relies on, whatever the direction: items come out in the order they were put in,
  each once, as long as the mailbox is open.
\<close>

locale mailbox =
  fixes put :: "'m \<Rightarrow> 'c \<Rightarrow> 'c"
    and get :: "'c \<Rightarrow> 'm outcome \<times> 'c"
    and items :: "'c \<Rightarrow> 'm list"
    and is_open :: "'c \<Rightarrow> bool"
  assumes items_put: "is_open c \<Longrightarrow> items (put m c) = items c @ [m]"
    and open_put: "is_open c \<Longrightarrow> is_open (put m c)"
    and get_Cons: "is_open c \<Longrightarrow> items c = m # ms \<Longrightarrow>
      \<exists>c'. get c = (Delivered m, c') \<and> items c' = ms \<and> is_open c'"
    and get_Nil: "is_open c \<Longrightarrow> items c = [] \<Longrightarrow> get c = (Nothing, c) \<or> get c = (Waits, c)"
begin

lemma fifo:
  "is_open c \<Longrightarrow> mrun put get ops c = (ms, c') \<Longrightarrow> items c @ puts_of ops = ms @ items c' \<and> is_open c'"
proof (induction ops arbitrary: c ms)
  case (Cons op ops)
  show ?case
  proof (cases op)
    case (Put m)
    with Cons.prems have "mrun put get ops (put m c) = (ms, c')" by simp
    from Cons.IH [OF open_put [OF Cons.prems(1)] this] show ?thesis
      using Put items_put [OF Cons.prems(1)] by simp
  next
    case Take
    show ?thesis
    proof (cases "items c")
      case Nil
      then show ?thesis using Take Cons.prems Cons.IH [of c ms] get_Nil [of c] by auto
    next
      case (Cons x xs)
      from get_Cons [OF Cons.prems(1) this] obtain d where
        d: "get c = (Delivered x, d)" "items d = xs" "is_open d" by blast
      with Take Cons.prems obtain ns where "mrun put get ops d = (ns, c')" "ms = x # ns"
        by (auto split: prod.splits)
      with Cons.IH [OF d(3)] show ?thesis using Cons Take d(2) by simp
    qed
  qed
qed simp

end

interpretation inbound: mailbox send "receive has_timeout" inbox "\<lambda>c. \<not> closed c" for has_timeout
  by unfold_locales (auto simp: channel_defs)

text \<open>The acks an open channel still owes: nothing but real acks is queued before \<open>close\<close>.\<close>

definition pending_acks :: "ControlChannel \<Rightarrow> ControlAck list" where
  "pending_acks c = map the (outbox c)"

interpretation outbound: mailbox ack acks_next pending_acks "\<lambda>c. \<not> closed c \<and> None \<notin> set (outbox c)"
proof unfold_locales
  fix c :: ControlChannel and m ms
  assume c: "\<not> closed c \<and> None \<notin> set (outbox c)" and "pending_acks c = m # ms"
  then obtain a q where q: "outbox c = a # q" "m = the a" "ms = map the q"
    by (auto simp: pending_acks_def)
  with c obtain b where "a = Some b" by (cases a) auto
  with q c show "\<exists>c'. acks_next c = (Delivered m, c') \<and> pending_acks c' = ms \<and>
      \<not> closed c' \<and> None \<notin> set (outbox c')"
    by (auto simp: channel_defs pending_acks_def)
qed (auto simp: channel_defs pending_acks_def)

section \<open>Properties\<close>

text \<open>
  On a channel that stays open, the runner receives exactly the control messages that were sent,
  in the order they were sent and each once, under every interleaving of sends and receives; what was
  sent and not yet received is still in the inbox.
\<close>

theorem control_messages_fifo:
  "mrun send (receive has_timeout) ops channel_init = (received, c) \<Longrightarrow>
     puts_of ops = received @ inbox c \<and> \<not> closed c"
  using inbound.fifo [of channel_init has_timeout ops received c] by (simp add: channel_init_def)

definition pause_msg :: ControlMessage where
  "pause_msg = \<lparr>msg_kind = CK_PAUSE, msg_id = ''m1'', msg_payload = [], issued_at_ms = 0\<rparr>"

theorem control_messages_fifo_witness:
  "[pause_msg, pause_msg\<lparr>msg_kind := CK_RESUME\<rparr>] = [pause_msg] @ [pause_msg\<lparr>msg_kind := CK_RESUME\<rparr>]"
proof -
  have "mrun send (receive True) [Take, Put pause_msg, Put (pause_msg\<lparr>msg_kind := CK_RESUME\<rparr>), Take] channel_init =
      ([pause_msg], channel_init\<lparr>inbox := [pause_msg\<lparr>msg_kind := CK_RESUME\<rparr>]\<rparr>)"
    by (simp add: channel_defs)
  from control_messages_fifo [OF this] show ?thesis by simp
qed

text \<open>
  Closing is final and wakes the other side. After \<open>close\<close> the runner receives nothing, however
  many messages were queued; closing again changes nothing; and a bridge suspended in \<open>acks()\<close> on an
  empty outbox resumes with the end of the iteration.
\<close>

theorem close_final:
  "receive has_timeout (close c) = (Nothing, close c) \<and> close (close c) = close c \<and>
   acks_next (close c) = (Nothing, close c) \<and>
   (outbox c = [] \<and> \<not> closed c \<longrightarrow> fst (acks_resume (close c)) = Nothing)"
  by (auto simp: channel_defs)

theorem close_final_witness: "fst (acks_resume (close channel_init)) = Nothing"
  using close_final [of True channel_init] by (simp add: channel_init_def)

end
