(* ===== verification/Session_Types.thy ===== *)
theory Session_Types
  imports Plan_Types Control_Channel
begin

text \<open>
  \<open>DriftEvent\<close> and \<open>Session\<close> of \<open>src/goldfive/types.py\<close> with the sequence counters, the
  single-writer guard of \<open>Session.plan\<close> and the aggregated drift summary, and the source-attribution
  helpers of \<open>src/goldfive/drift_observer.py\<close> that read nothing but a drift.

  \<open>DriftEvent.raw\<close> is only ever inspected for a \<open>ControlMessage\<close>, so it is one or absent. Clock
  readings are integers; a Python float that callers supply is a \<open>pyfloat\<close>, the finite ones counted
  in units of \<open>2 ^ -1074\<close>, of which every finite double is a multiple. Freshly minted uuids are
  arguments. Dictionaries of which only lookups are used are maps.
\<close>

datatype pyfloat = Fin int | PosInf | NegInf | NaN

section \<open>Drift events\<close>

text \<open>\<open>DriftEvent.raw\<close>: a control message, or the facts of the tool-loop tracker as a dictionary.\<close>

datatype raw_value = RawControl ControlMessage | RawFacts "(string \<times> json) list"

record drift_event =
  drift_kind :: DriftKind
  drift_severity :: DriftSeverity
  drift_detail :: string
  drift_task :: string
  drift_agent :: string
  drift_raw :: "raw_value option"
  drift_id :: string
  trigger_input :: string
  authored_by :: string
  suppressed_by_user_steer :: bool
  observed_revision_index :: int
  note_to_agent :: string
  detector_name :: string
  judge_emitted :: bool

definition mk_drift :: "string \<Rightarrow> DriftKind \<Rightarrow> DriftSeverity \<Rightarrow> drift_event" where
  "mk_drift uuid k s =
     \<lparr>drift_kind = k, drift_severity = s, drift_detail = [], drift_task = [], drift_agent = [], drift_raw = None,
      drift_id = uuid, trigger_input = [], authored_by = [], suppressed_by_user_steer = False,
      observed_revision_index = 0, note_to_agent = [], detector_name = [], judge_emitted = False\<rparr>"

definition USER_AUTHORED_DRIFT_KINDS :: "DriftKind set" where
  "USER_AUTHORED_DRIFT_KINDS = {USER_STEER, USER_CANCEL, USER_PAUSE}"

definition resolve_authored_by :: "drift_event \<Rightarrow> string" where
  "resolve_authored_by d =
     (let explicit = strip (authored_by d) in
      if explicit \<noteq> [] then explicit
      else if drift_kind d \<in> USER_AUTHORED_DRIFT_KINDS then ''user'' else ''goldfive'')"

definition drift_annotation_id :: "drift_event \<Rightarrow> string" where
  "drift_annotation_id d =
     (case drift_raw d of Some (RawControl m) \<Rightarrow> str_or_empty (jget (msg_payload m) ''annotation_id'' (JStr [])) | _ \<Rightarrow> [])"

definition steer_dedupe_id :: "ControlMessage \<Rightarrow> string" where
  "steer_dedupe_id m =
     (if msg_kind m \<noteq> CK_STEER then []
      else let ann = str_or_empty (jget (msg_payload m) ''annotation_id'' (JStr []))
           in if ann \<noteq> [] then ann else msg_id m)"

text \<open>\<open>s.startswith(p)\<close> and \<open>s.partition(": ")\<close> (the text before and after the first occurrence).\<close>

fun starts_with :: "string \<Rightarrow> string \<Rightarrow> bool" where
  "starts_with [] s = True"
| "starts_with (p # ps) [] = False"
| "starts_with (p # ps) (c # cs) = (p = c \<and> starts_with ps cs)"

fun partition_at :: "string \<Rightarrow> string \<Rightarrow> (string \<times> string) option" where
  "partition_at sep [] = (if sep = [] then Some ([], []) else None)"
| "partition_at sep (c # cs) =
     (if starts_with sep (c # cs) then Some ([], drop (length sep) (c # cs))
      else map_option (\<lambda>(a, b). (c # a, b)) (partition_at sep cs))"

definition unpack_steer_context :: "drift_event \<Rightarrow> string \<times> string \<times> string" where
  "unpack_steer_context d =
     (case drift_raw d of
        Some (RawControl m) \<Rightarrow>
          (let body = str_or_empty (jget (msg_payload m) ''note'' (JStr []));
               author = strip (str_or_empty (jget (msg_payload m) ''author'' (JStr [])));
               ann = str_or_empty (jget (msg_payload m) ''annotation_id'' (JStr []))
           in (body, author, if ann \<noteq> [] then ann else msg_id m))
      | _ \<Rightarrow>
          (if starts_with ''by '' (drift_detail d)
           then (case partition_at '': '' (drift_detail d) of
                   Some (pre, tail) \<Rightarrow> (tail, strip (drop 3 pre), [])
                 | None \<Rightarrow> (drift_detail d, [], []))
           else (drift_detail d, [], [])))"

section \<open>Session\<close>

record Goal =
  goal_id :: string
  goal_summary :: string
  goal_source :: string

datatype refine_state = Succeeded | Failed

record RefineOutcome =
  refine_state :: refine_state
  fail_count :: nat

record session =
  session_id :: string
  run_id :: string
  goals :: "Goal list"
  session_plan :: "plan option"
  current_task_id :: string
  completed_results :: "string \<rightharpoonup> string"
  completed_outputs :: "string \<rightharpoonup> string"
  task_progress :: "string \<rightharpoonup> pyfloat"
  agent_notes :: "string \<rightharpoonup> string"
  refine_outcomes :: "string \<times> string \<rightharpoonup> RefineOutcome"
  last_addressed :: "string \<times> string \<rightharpoonup> int"
  task_last_progress_at :: "string \<rightharpoonup> int"
  last_observed_event_at :: int
  agent_turns_since_goal_check :: nat
  recent_events :: "(string \<times> json) list list"
  drift_events :: "drift_event list"
  last_goal_drift_check_ts :: int
  state :: "string \<rightharpoonup> json"
  current_agent_id :: string
  task_lineage :: "string \<rightharpoonup> string set"
  next_seq :: nat
  reasoning_turn :: nat
  supersede_flag :: bool

definition mk_session :: "string \<Rightarrow> session" where
  "mk_session rid =
     \<lparr>session_id = rid, run_id = rid, goals = [], session_plan = None, current_task_id = [], completed_results = Map.empty,
      completed_outputs = Map.empty, task_progress = Map.empty, agent_notes = Map.empty,
      refine_outcomes = Map.empty, last_addressed = Map.empty, task_last_progress_at = Map.empty,
      last_observed_event_at = 0, agent_turns_since_goal_check = 0, recent_events = [], drift_events = [],
      last_goal_drift_check_ts = 0, state = Map.empty, current_agent_id = [], task_lineage = Map.empty,
      next_seq = 0, reasoning_turn = 0, supersede_flag = False\<rparr>"

definition next_sequence :: "session \<Rightarrow> nat \<times> session" where
  "next_sequence s = (next_seq s, s\<lparr>next_seq := next_seq s + 1\<rparr>)"

definition mark_reasoning_turn :: "session \<Rightarrow> nat \<times> session" where
  "mark_reasoning_turn s = (reasoning_turn s + 1, s\<lparr>reasoning_turn := reasoning_turn s + 1\<rparr>)"

definition next_event_id :: "string \<Rightarrow> session \<Rightarrow> nat option \<Rightarrow> string \<times> session" where
  "next_event_id uuid s sequence =
     (let (n, s') = (case sequence of None \<Rightarrow> next_sequence s | Some n \<Rightarrow> (n, s))
      in (run_id s @ '':'' @ show_nat n @ '':'' @ take 8 uuid, s'))"

definition next_sequence_and_event_id :: "string \<Rightarrow> session \<Rightarrow> (nat \<times> string) \<times> session" where
  "next_sequence_and_event_id uuid s =
     (let (n, s1) = next_sequence s; (e, s2) = next_event_id uuid s1 (Some n) in ((n, e), s2))"

text \<open>
  \<open>set_session_plan\<close>: the first argument is the \<open>channel_processor_active\<close> flag of the calling
  context, the second the strict-ownership switch. The permissive mode logs and proceeds.
\<close>

definition set_session_plan :: "bool \<Rightarrow> bool \<Rightarrow> session \<Rightarrow> plan option \<Rightarrow> py_error + session" where
  "set_session_plan active strict s p =
     (if \<not> active \<and> strict then Inl PlanOwnershipViolation else Inr (s\<lparr>session_plan := p\<rparr>))"

section \<open>The drift summary\<close>

definition severity_weight :: "DriftSeverity \<Rightarrow> nat" where
  "severity_weight s = (case s of INFO \<Rightarrow> 1 | WARNING \<Rightarrow> 3 | CRITICAL \<Rightarrow> 10)"

record DriftSummary =
  by_kind :: "(DriftKind, nat) dict"
  by_severity :: "(DriftSeverity, nat) dict"
  summary_events :: "drift_event list"
  total_severity_weight :: nat

text \<open>\<open>d[k] = d.get(k, 0) + 1\<close>.\<close>

definition count_up :: "'k \<Rightarrow> ('k, nat) dict \<Rightarrow> ('k, nat) dict" where
  "count_up k d = AList.update k ((case map_of d k of None \<Rightarrow> 0 | Some n \<Rightarrow> n) + 1) d"

definition build_drift_summary :: "drift_event list \<Rightarrow> DriftSummary" where
  "build_drift_summary evs =
     (let (bk, bs, w) =
        foldl (\<lambda>(bk, bs, w) d. (count_up (drift_kind d) bk, count_up (drift_severity d) bs,
                                w + severity_weight (drift_severity d))) ([], [], 0) evs
      in \<lparr>by_kind = bk, by_severity = bs, summary_events = evs, total_severity_weight = w\<rparr>)"

definition drift_summary :: "session \<Rightarrow> DriftSummary" where
  "drift_summary s = build_drift_summary (drift_events s)"

lemma count_up_conv:
  "map_of (count_up k d) k' =
     (if k' = k then Some (Suc (case map_of d k of None \<Rightarrow> 0 | Some n \<Rightarrow> n)) else map_of d k')"
  by (simp add: count_up_def update_conv')

lemma foldl_count_up:
  "(case map_of (foldl (\<lambda>d x. count_up (f x) d) d xs) k of None \<Rightarrow> 0 | Some n \<Rightarrow> n) =
   (case map_of d k of None \<Rightarrow> 0 | Some n \<Rightarrow> n) + length (filter (\<lambda>x. f x = k) xs)"
  by (induction xs arbitrary: d) (auto simp: count_up_conv)

lemma foldl_count_up_dom:
  "dom (map_of (foldl (\<lambda>d x. count_up (f x) d) d xs)) = dom (map_of d) \<union> f ` set xs"
  by (induction xs arbitrary: d) (auto simp: count_up_conv dom_def split: if_splits)

lemma build_drift_summary_conv:
  "build_drift_summary evs =
     \<lparr>by_kind = foldl (\<lambda>d x. count_up (drift_kind x) d) [] evs,
      by_severity = foldl (\<lambda>d x. count_up (drift_severity x) d) [] evs,
      summary_events = evs, total_severity_weight = (\<Sum>d\<leftarrow>evs. severity_weight (drift_severity d))\<rparr>"
proof -
  have "foldl (\<lambda>(bk, bs, w) d. (count_up (drift_kind d) bk, count_up (drift_severity d) bs,
            w + severity_weight (drift_severity d))) (bk, bs, w) evs =
     (foldl (\<lambda>d x. count_up (drift_kind x) d) bk evs, foldl (\<lambda>d x. count_up (drift_severity x) d) bs evs,
      w + (\<Sum>d\<leftarrow>evs. severity_weight (drift_severity d)))" for bk bs w
    by (induction evs arbitrary: bk bs w) auto
  then show ?thesis by (simp add: build_drift_summary_def)
qed

lemma severity_count_sum:
  "length (filter (\<lambda>d. f d = INFO) evs) + 3 * length (filter (\<lambda>d. f d = WARNING) evs) +
   10 * length (filter (\<lambda>d. f d = CRITICAL) evs) = (\<Sum>d\<leftarrow>evs. severity_weight (f d))"
proof (induction evs)
  case (Cons d evs)
  then show ?case by (cases "f d") (simp_all add: severity_weight_def)
qed simp

section \<open>Properties\<close>

text \<open>
  The drift summary is exact. Each kind's and each severity's entry is the number of drifts of
  that kind or severity, a kind that never fired has no entry, and the total weight is the 1/3/10
  weighted sum of the per-severity counts.
\<close>

theorem drift_summary_exact:
  "(\<forall>k. map_of (by_kind (drift_summary s)) k =
      (let n = length (filter (\<lambda>d. drift_kind d = k) (drift_events s)) in if n = 0 then None else Some n)) \<and>
   total_severity_weight (drift_summary s) =
     (let n = (\<lambda>sev. case map_of (by_severity (drift_summary s)) sev of None \<Rightarrow> 0 | Some n \<Rightarrow> n)
      in n INFO + 3 * n WARNING + 10 * n CRITICAL)"
proof (intro conjI allI)
  fix k
  let ?f = "foldl (\<lambda>d x. count_up (drift_kind x) d) [] (drift_events s)"
  have "(case map_of ?f k of None \<Rightarrow> 0 | Some n \<Rightarrow> n) = length (filter (\<lambda>d. drift_kind d = k) (drift_events s))"
    using foldl_count_up [of drift_kind "[]" "drift_events s" k] by simp
  moreover have "k \<in> dom (map_of ?f) \<longleftrightarrow> k \<in> drift_kind ` set (drift_events s)"
    using foldl_count_up_dom [of drift_kind "[]" "drift_events s"] by simp
  ultimately show "map_of (by_kind (drift_summary s)) k =
      (let n = length (filter (\<lambda>d. drift_kind d = k) (drift_events s)) in if n = 0 then None else Some n)"
    by (auto simp: drift_summary_def build_drift_summary_conv Let_def filter_empty_conv split: option.splits)
next
  show "total_severity_weight (drift_summary s) =
     (let n = (\<lambda>sev. case map_of (by_severity (drift_summary s)) sev of None \<Rightarrow> 0 | Some n \<Rightarrow> n)
      in n INFO + 3 * n WARNING + 10 * n CRITICAL)"
    using foldl_count_up [of drift_severity "[]" "drift_events s"] severity_count_sum [of drift_severity "drift_events s"]
    by (simp add: drift_summary_def build_drift_summary_conv)
qed

end
