(* ===== verification/State_Store.thy ===== *)
theory State_Store
  imports Session_Types
begin

text \<open>
  The orchestration-state dictionary of \<open>src/goldfive/state_store.py\<close>: the guarded primitives
  \<open>write\<close>, \<open>clear\<close> and \<open>read\<close>, and the helpers over the current-plan, current-task, goals,
  active-steer, processed-steer and cancelled-call slots. \<open>Session.state\<close> is a map from keys to JSON
  values; a mutating helper returns the new map, or the exception of the namespace guard.
\<close>

type_synonym gstate = "string \<rightharpoonup> json"

definition GOLDFIVE_PREFIX :: string where "GOLDFIVE_PREFIX = ''goldfive.''"
definition KEY_CURRENT_PLAN_ID :: string where "KEY_CURRENT_PLAN_ID = ''goldfive.current_plan_id''"
definition KEY_CURRENT_TASK_ID :: string where "KEY_CURRENT_TASK_ID = ''goldfive.current_task_id''"
definition KEY_CURRENT_TASK_TITLE :: string where "KEY_CURRENT_TASK_TITLE = ''goldfive.current_task_title''"
definition KEY_CURRENT_TASK_REVISION :: string where "KEY_CURRENT_TASK_REVISION = ''goldfive.current_task_revision''"
definition KEY_GOALS_SUMMARY :: string where "KEY_GOALS_SUMMARY = ''goldfive.goals_summary''"
definition KEY_ACTIVE_STEER_BODY :: string where "KEY_ACTIVE_STEER_BODY = ''goldfive.active_steer.body''"
definition KEY_ACTIVE_STEER_AT_TURN :: string where "KEY_ACTIVE_STEER_AT_TURN = ''goldfive.active_steer.at_turn''"
definition KEY_ACTIVE_STEER_AUTHOR :: string where "KEY_ACTIVE_STEER_AUTHOR = ''goldfive.active_steer.author''"
definition KEY_ACTIVE_STEER_SOURCE :: string where "KEY_ACTIVE_STEER_SOURCE = ''goldfive.active_steer.source''"
definition KEY_PROCESSED_STEER_IDS :: string where "KEY_PROCESSED_STEER_IDS = ''goldfive.processed_steer_ids''"
definition KEY_CANCELLED_FUNCTION_CALL_IDS :: string where
  "KEY_CANCELLED_FUNCTION_CALL_IDS = ''goldfive.cancelled_function_call_ids''"
definition KEY_ACTIVE_DRIFTS :: string where "KEY_ACTIVE_DRIFTS = ''goldfive.active_drifts''"

definition PROCESSED_STEER_IDS_CAP :: nat where "PROCESSED_STEER_IDS_CAP = 256"

lemmas key_defs = KEY_CURRENT_PLAN_ID_def KEY_CURRENT_TASK_ID_def KEY_CURRENT_TASK_TITLE_def
  KEY_CURRENT_TASK_REVISION_def KEY_GOALS_SUMMARY_def KEY_ACTIVE_STEER_BODY_def
  KEY_ACTIVE_STEER_AT_TURN_def KEY_ACTIVE_STEER_AUTHOR_def KEY_ACTIVE_STEER_SOURCE_def
  KEY_PROCESSED_STEER_IDS_def KEY_CANCELLED_FUNCTION_CALL_IDS_def KEY_ACTIVE_DRIFTS_def

section \<open>Primitives\<close>

definition assert_goldfive_key :: "string \<Rightarrow> py_error + unit" where
  "assert_goldfive_key k =
     (if starts_with GOLDFIVE_PREFIX k then Inr ()
      else Inl (ValueError (''goldfive.state_store refuses to write non-goldfive key: '' @ repr_str k)))"

definition write_key :: "gstate \<Rightarrow> string \<Rightarrow> json \<Rightarrow> py_error + gstate" where
  "write_key st k v = ebind (assert_goldfive_key k) (\<lambda>_. Inr (st(k \<mapsto> v)))"

definition clear_key :: "gstate \<Rightarrow> string \<Rightarrow> py_error + gstate" where
  "clear_key st k = ebind (assert_goldfive_key k) (\<lambda>_. Inr (st(k := None)))"

text \<open>A stored \<open>None\<close> reads as the default.\<close>

definition read_key :: "gstate \<Rightarrow> string \<Rightarrow> json \<Rightarrow> json" where
  "read_key st k d = (case st k of None \<Rightarrow> d | Some JNull \<Rightarrow> d | Some v \<Rightarrow> v)"

section \<open>Plan and task pins\<close>

definition set_current_plan :: "gstate \<Rightarrow> plan option \<Rightarrow> py_error + gstate" where
  "set_current_plan st p =
     (case p of None \<Rightarrow> clear_key st KEY_CURRENT_PLAN_ID | Some p \<Rightarrow> write_key st KEY_CURRENT_PLAN_ID (JStr (plan_id p)))"

definition set_current_task :: "gstate \<Rightarrow> task option \<Rightarrow> py_error + gstate" where
  "set_current_task st t =
     (case t of
        None \<Rightarrow> ebind (clear_key st KEY_CURRENT_TASK_ID) (\<lambda>st. clear_key st KEY_CURRENT_TASK_TITLE)
      | Some t \<Rightarrow> ebind (write_key st KEY_CURRENT_TASK_ID (JStr (task_id t)))
                        (\<lambda>st. write_key st KEY_CURRENT_TASK_TITLE (JStr (title t))))"

definition clear_current_task :: "gstate \<Rightarrow> py_error + gstate" where
  "clear_current_task st =
     ebind (clear_key st KEY_CURRENT_TASK_ID) (\<lambda>st. ebind (clear_key st KEY_CURRENT_TASK_TITLE)
       (\<lambda>st. clear_key st KEY_CURRENT_TASK_REVISION))"

definition stamp_current_task_revision :: "gstate \<Rightarrow> json \<Rightarrow> py_error + gstate" where
  "stamp_current_task_revision st revision =
     write_key st KEY_CURRENT_TASK_REVISION (JInt (case py_int revision of Inl _ \<Rightarrow> 0 | Inr n \<Rightarrow> max 0 n))"

definition read_current_task_revision :: "gstate \<Rightarrow> int" where
  "read_current_task_revision st =
     (case py_int (read_key st KEY_CURRENT_TASK_REVISION (JInt 0)) of Inl _ \<Rightarrow> 0 | Inr n \<Rightarrow> max 0 n)"

definition pin_current_task :: "gstate \<Rightarrow> string" where
  "pin_current_task st = (case read_key st KEY_CURRENT_TASK_ID (JStr []) of JStr s \<Rightarrow> s | _ \<Rightarrow> [])"

definition set_pin_current_task :: "gstate \<Rightarrow> string \<Rightarrow> int option \<Rightarrow> string \<Rightarrow> py_error + gstate" where
  "set_pin_current_task st tid revision ti =
     (if tid = [] then Inr st
      else ebind (write_key st KEY_CURRENT_TASK_ID (JStr tid))
        (\<lambda>st. ebind (if ti \<noteq> [] then write_key st KEY_CURRENT_TASK_TITLE (JStr ti) else Inr st)
        (\<lambda>st. case revision of None \<Rightarrow> Inr st | Some r \<Rightarrow> stamp_current_task_revision st (JInt r))))"

section \<open>Goals summary\<close>

definition NL :: string where "NL = [char_of (10::nat)]"

definition format_goals_summary :: "Goal list \<Rightarrow> string" where
  "format_goals_summary gs =
     (if gs = [] then ''(no goals)''
      else join NL (map (\<lambda>g. ''- ['' @ (if goal_id g = [] then ''(no-id)'' else goal_id g) @ ''] '' @
                             (if goal_summary g = [] then ''(no summary)'' else goal_summary g)) gs))"

definition refresh_goals_summary :: "gstate \<Rightarrow> Goal list \<Rightarrow> py_error + gstate" where
  "refresh_goals_summary st gs = write_key st KEY_GOALS_SUMMARY (JStr (format_goals_summary gs))"

section \<open>Active steer\<close>

record ActiveSteer =
  steer_body :: string
  steer_at_turn :: int
  steer_author :: string
  steer_source :: string

definition set_active_steer :: "gstate \<Rightarrow> string \<Rightarrow> int \<Rightarrow> string \<Rightarrow> string \<Rightarrow> py_error + gstate" where
  "set_active_steer st body at_turn author source =
     ebind (write_key st KEY_ACTIVE_STEER_BODY (JStr body))
       (\<lambda>st. ebind (write_key st KEY_ACTIVE_STEER_AT_TURN (JInt at_turn))
       (\<lambda>st. ebind (write_key st KEY_ACTIVE_STEER_AUTHOR (JStr author))
       (\<lambda>st. write_key st KEY_ACTIVE_STEER_SOURCE (JStr source))))"

definition clear_active_steer :: "gstate \<Rightarrow> py_error + gstate" where
  "clear_active_steer st =
     ebind (clear_key st KEY_ACTIVE_STEER_BODY)
       (\<lambda>st. ebind (clear_key st KEY_ACTIVE_STEER_AT_TURN)
       (\<lambda>st. ebind (clear_key st KEY_ACTIVE_STEER_AUTHOR)
       (\<lambda>st. clear_key st KEY_ACTIVE_STEER_SOURCE)))"

definition get_active_steer :: "gstate \<Rightarrow> ActiveSteer option" where
  "get_active_steer st =
     (case read_key st KEY_ACTIVE_STEER_BODY (JStr []) of
        JStr body \<Rightarrow>
          if body = [] then None
          else Some \<lparr>steer_body = body,
                 steer_at_turn =
                   (let v = read_key st KEY_ACTIVE_STEER_AT_TURN (JInt 0)
                    in case py_int (if truthy v then v else JInt 0) of Inl _ \<Rightarrow> 0 | Inr n \<Rightarrow> n),
                 steer_author = str_or_empty (read_key st KEY_ACTIVE_STEER_AUTHOR (JStr [])),
                 steer_source = str_or_empty (read_key st KEY_ACTIVE_STEER_SOURCE (JStr []))\<rparr>
      | _ \<Rightarrow> None)"

section \<open>Processed steer ids and cancelled calls\<close>

fun json_list :: "json \<Rightarrow> json list option" where
  "json_list (JList xs) = Some xs"
| "json_list _ = None"

definition has_processed_steer_id :: "gstate \<Rightarrow> string \<Rightarrow> bool" where
  "has_processed_steer_id st sid =
     (if sid = [] then False
      else case json_list (read_key st KEY_PROCESSED_STEER_IDS (JList [])) of
             None \<Rightarrow> False
           | Some existing \<Rightarrow> JStr sid \<in> set existing)"

definition record_processed_steer_id :: "gstate \<Rightarrow> string \<Rightarrow> py_error + gstate" where
  "record_processed_steer_id st sid =
     (if sid = [] then Inr st
      else
        (let existing = (case json_list (read_key st KEY_PROCESSED_STEER_IDS (JList [])) of None \<Rightarrow> [] | Some xs \<Rightarrow> xs);
             merged = map py_str (filter truthy existing)
         in if sid \<in> set merged then Inr st
            else
              (let merged = merged @ [sid];
                   kept = (if PROCESSED_STEER_IDS_CAP < length merged
                           then drop (length merged - PROCESSED_STEER_IDS_CAP) merged else merged)
               in write_key st KEY_PROCESSED_STEER_IDS (JList (map JStr kept)))))"

fun append_unseen :: "json list \<Rightarrow> string list \<Rightarrow> json list" where
  "append_unseen merged [] = merged"
| "append_unseen merged (c # cs) =
     (if JStr c \<in> set merged then append_unseen merged cs else append_unseen (merged @ [JStr c]) cs)"

definition append_cancelled_function_call_ids :: "gstate \<Rightarrow> string list \<Rightarrow> py_error + gstate" where
  "append_cancelled_function_call_ids st call_ids =
     (let ids = filter (\<lambda>c. c \<noteq> []) call_ids in
      if ids = [] then Inr st
      else
        (let existing = (case json_list (read_key st KEY_CANCELLED_FUNCTION_CALL_IDS (JList [])) of
                           None \<Rightarrow> [] | Some xs \<Rightarrow> xs)
         in write_key st KEY_CANCELLED_FUNCTION_CALL_IDS (JList (append_unseen existing ids))))"

definition read_cancelled_function_call_ids :: "gstate \<Rightarrow> string list" where
  "read_cancelled_function_call_ids st =
     (case json_list (read_key st KEY_CANCELLED_FUNCTION_CALL_IDS (JList [])) of
        None \<Rightarrow> [] | Some xs \<Rightarrow> map py_str (filter truthy xs))"

section \<open>Rotation of the current-task pin\<close>

definition rotation_candidates :: "plan \<Rightarrow> string \<Rightarrow> task list" where
  "rotation_candidates p agent =
     filter (\<lambda>t. \<not> (agent \<noteq> [] \<and> assignee_agent_id t \<noteq> [] \<and> assignee_agent_id t \<noteq> agent) \<and>
                 status t \<in> {PENDING, RUNNING}) (tasks p)"

definition rotate_current_task_id :: "gstate \<Rightarrow> plan option \<Rightarrow> string \<Rightarrow> py_error + (string option \<times> gstate)" where
  "rotate_current_task_id st p agent =
     (let clear_all = ebind (clear_current_task st) (\<lambda>st. Inr (None, st)) in
      case p of
        None \<Rightarrow> clear_all
      | Some p \<Rightarrow>
          (case rotation_candidates p agent of
             [t] \<Rightarrow> ebind (set_current_task st (Some t))
                      (\<lambda>st. ebind (stamp_current_task_revision st (JInt (revision_index p)))
                      (\<lambda>st. Inr (if task_id t = [] then None else Some (task_id t), st)))
           | _ \<Rightarrow> clear_all))"

definition sync_current_task_from_transition :: "gstate \<Rightarrow> task option \<Rightarrow> TaskStatus \<Rightarrow> py_error + gstate" where
  "sync_current_task_from_transition st t dst =
     (case t of
        None \<Rightarrow> Inr st
      | Some t \<Rightarrow>
          if dst = RUNNING then set_current_task st (Some t)
          else if dst \<in> {COMPLETED, FAILED, CANCELLED, NOT_NEEDED} then
            (if read_key st KEY_CURRENT_TASK_ID (JStr []) = JStr (task_id t) then clear_current_task st else Inr st)
          else Inr st)"

section \<open>Namespace guard and frame\<close>

lemma goldfive_keys [simp]:
  "starts_with GOLDFIVE_PREFIX KEY_CURRENT_PLAN_ID" "starts_with GOLDFIVE_PREFIX KEY_CURRENT_TASK_ID"
  "starts_with GOLDFIVE_PREFIX KEY_CURRENT_TASK_TITLE" "starts_with GOLDFIVE_PREFIX KEY_CURRENT_TASK_REVISION"
  "starts_with GOLDFIVE_PREFIX KEY_GOALS_SUMMARY" "starts_with GOLDFIVE_PREFIX KEY_ACTIVE_STEER_BODY"
  "starts_with GOLDFIVE_PREFIX KEY_ACTIVE_STEER_AT_TURN" "starts_with GOLDFIVE_PREFIX KEY_ACTIVE_STEER_AUTHOR"
  "starts_with GOLDFIVE_PREFIX KEY_ACTIVE_STEER_SOURCE" "starts_with GOLDFIVE_PREFIX KEY_PROCESSED_STEER_IDS"
  "starts_with GOLDFIVE_PREFIX KEY_CANCELLED_FUNCTION_CALL_IDS" "starts_with GOLDFIVE_PREFIX KEY_ACTIVE_DRIFTS"
  by (simp_all add: key_defs GOLDFIVE_PREFIX_def)

lemma write_key_ok [simp]: "starts_with GOLDFIVE_PREFIX k \<Longrightarrow> write_key st k v = Inr (st(k \<mapsto> v))"
  by (simp add: write_key_def assert_goldfive_key_def)

lemma clear_key_ok [simp]: "starts_with GOLDFIVE_PREFIX k \<Longrightarrow> clear_key st k = Inr (st(k := None))"
  by (simp add: clear_key_def assert_goldfive_key_def)

lemma write_key_refused: "\<not> starts_with GOLDFIVE_PREFIX k \<Longrightarrow> \<exists>msg. write_key st k v = Inl (ValueError msg)"
  by (simp add: write_key_def assert_goldfive_key_def)

lemma read_key_upd [simp]: "read_key (st(k := Some v)) k d = (if v = JNull then d else v)"
  by (cases v) (simp_all add: read_key_def)

lemma read_key_None [simp]: "read_key (st(k := None)) k d = d"
  by (simp add: read_key_def)

lemma read_key_other [simp]: "k \<noteq> k' \<Longrightarrow> read_key (st(k := x)) k' d = read_key st k' d"
  by (simp add: read_key_def)

lemma read_key_empty [simp]: "read_key Map.empty k d = d"
  by (simp add: read_key_def)

definition pin_keys :: "string set" where
  "pin_keys = {KEY_CURRENT_TASK_ID, KEY_CURRENT_TASK_TITLE, KEY_CURRENT_TASK_REVISION}"

lemma pin_keys_distinct [simp]:
  "KEY_CURRENT_TASK_ID \<noteq> KEY_CURRENT_TASK_TITLE" "KEY_CURRENT_TASK_TITLE \<noteq> KEY_CURRENT_TASK_ID"
  "KEY_CURRENT_TASK_ID \<noteq> KEY_CURRENT_TASK_REVISION" "KEY_CURRENT_TASK_REVISION \<noteq> KEY_CURRENT_TASK_ID"
  "KEY_CURRENT_TASK_TITLE \<noteq> KEY_CURRENT_TASK_REVISION" "KEY_CURRENT_TASK_REVISION \<noteq> KEY_CURRENT_TASK_TITLE"
  by (simp_all add: key_defs)

lemma steer_keys_distinct [simp]:
  "KEY_ACTIVE_STEER_BODY \<noteq> KEY_ACTIVE_STEER_AT_TURN" "KEY_ACTIVE_STEER_BODY \<noteq> KEY_ACTIVE_STEER_AUTHOR"
  "KEY_ACTIVE_STEER_BODY \<noteq> KEY_ACTIVE_STEER_SOURCE" "KEY_ACTIVE_STEER_AT_TURN \<noteq> KEY_ACTIVE_STEER_BODY"
  "KEY_ACTIVE_STEER_AT_TURN \<noteq> KEY_ACTIVE_STEER_AUTHOR" "KEY_ACTIVE_STEER_AT_TURN \<noteq> KEY_ACTIVE_STEER_SOURCE"
  "KEY_ACTIVE_STEER_AUTHOR \<noteq> KEY_ACTIVE_STEER_BODY" "KEY_ACTIVE_STEER_AUTHOR \<noteq> KEY_ACTIVE_STEER_AT_TURN"
  "KEY_ACTIVE_STEER_AUTHOR \<noteq> KEY_ACTIVE_STEER_SOURCE" "KEY_ACTIVE_STEER_SOURCE \<noteq> KEY_ACTIVE_STEER_BODY"
  "KEY_ACTIVE_STEER_SOURCE \<noteq> KEY_ACTIVE_STEER_AT_TURN" "KEY_ACTIVE_STEER_SOURCE \<noteq> KEY_ACTIVE_STEER_AUTHOR"
  by (simp_all add: key_defs)

section \<open>Steer deduplication\<close>

text \<open>\<open>steer_ids st ids\<close>: the slot holds the non-empty ids \<open>ids\<close>, oldest first.\<close>

definition steer_ids :: "gstate \<Rightarrow> string list \<Rightarrow> bool" where
  "steer_ids st ids \<longleftrightarrow> read_key st KEY_PROCESSED_STEER_IDS (JList []) = JList (map JStr ids) \<and> [] \<notin> set ids"

lemma steer_ids_filter: "[] \<notin> set ids \<Longrightarrow> map py_str (filter truthy (map JStr ids)) = ids"
  by (induction ids) auto

lemma last_n_snoc: "0 < n \<Longrightarrow> last_n n (last_n n xs @ [y]) = last_n n (xs @ [y])"
  by (cases "length xs \<le> n") (simp_all add: last_n_def Suc_diff_le)

lemma record_processed_steer_id_spec:
  assumes "steer_ids st ids" "sid \<noteq> []" "length ids \<le> PROCESSED_STEER_IDS_CAP"
  shows "\<exists>st'. record_processed_steer_id st sid = Inr st' \<and>
    steer_ids st' (if sid \<in> set ids then ids else last_n PROCESSED_STEER_IDS_CAP (ids @ [sid]))"
proof -
  have "steer_ids (st(KEY_PROCESSED_STEER_IDS \<mapsto> JList (map JStr (last_n PROCESSED_STEER_IDS_CAP (ids @ [sid])))))
      (last_n PROCESSED_STEER_IDS_CAP (ids @ [sid]))"
    using assms set_last_n [of PROCESSED_STEER_IDS_CAP "ids @ [sid]"] by (auto simp: steer_ids_def)
  moreover have "last_n PROCESSED_STEER_IDS_CAP (ids @ [sid]) =
      (if PROCESSED_STEER_IDS_CAP < length (ids @ [sid])
       then drop (length (ids @ [sid]) - PROCESSED_STEER_IDS_CAP) (ids @ [sid]) else ids @ [sid])"
    by (simp add: last_n_def)
  moreover have "record_processed_steer_id st sid =
      (if sid \<in> set ids then Inr st
       else Inr (st(KEY_PROCESSED_STEER_IDS \<mapsto> JList (map JStr
         (if PROCESSED_STEER_IDS_CAP < length (ids @ [sid])
          then drop (length (ids @ [sid]) - PROCESSED_STEER_IDS_CAP) (ids @ [sid]) else ids @ [sid])))))"
  proof -
    have "read_key st KEY_PROCESSED_STEER_IDS (JList []) = JList (map JStr ids)" "[] \<notin> set ids"
      using assms(1) by (simp_all add: steer_ids_def)
    moreover from this(2) have "map py_str (filter truthy (map JStr ids)) = ids" by (rule steer_ids_filter)
    ultimately show ?thesis
      using assms(2) unfolding record_processed_steer_id_def Let_def
      by (simp only: json_list.simps option.case if_False write_key_ok goldfive_keys)
  qed
  ultimately show ?thesis using assms(1) by (cases "sid \<in> set ids") simp_all
qed

lemma has_processed_steer_id_iff: "steer_ids st ids \<Longrightarrow> has_processed_steer_id st sid \<longleftrightarrow> sid \<in> set ids"
  by (auto simp: has_processed_steer_id_def steer_ids_def)

fun record_all :: "gstate \<Rightarrow> string list \<Rightarrow> py_error + gstate" where
  "record_all st [] = Inr st"
| "record_all st (s # ss) = ebind (record_processed_steer_id st s) (\<lambda>st. record_all st ss)"

lemma record_all_spec:
  assumes "steer_ids st (last_n PROCESSED_STEER_IDS_CAP xs)" "distinct (xs @ ys)" "[] \<notin> set ys"
  shows "\<exists>st'. record_all st ys = Inr st' \<and> steer_ids st' (last_n PROCESSED_STEER_IDS_CAP (xs @ ys))"
  using assms
proof (induction ys arbitrary: st xs)
  case (Cons y ys)
  have "y \<notin> set (last_n PROCESSED_STEER_IDS_CAP xs)"
    using Cons.prems(2) set_last_n [of PROCESSED_STEER_IDS_CAP xs] by auto
  with record_processed_steer_id_spec [OF Cons.prems(1), of y] Cons.prems(3) obtain st1 where
    st1: "record_processed_steer_id st y = Inr st1"
    "steer_ids st1 (last_n PROCESSED_STEER_IDS_CAP (last_n PROCESSED_STEER_IDS_CAP xs @ [y]))" by auto
  have "steer_ids st1 (last_n PROCESSED_STEER_IDS_CAP (xs @ [y]))"
    using st1(2) last_n_snoc [of PROCESSED_STEER_IDS_CAP xs y] by (simp add: PROCESSED_STEER_IDS_CAP_def)
  from Cons.IH [OF this] Cons.prems st1(1) show ?case by auto
qed simp

section \<open>Properties\<close>

text \<open>
  Steer deduplication. After recording any sequence of distinct, non-empty steer ids in a fresh
  session, exactly the last 256 of them are recognised as already processed: a retry within the
  window is never applied twice, an unseen id is never dropped, and the slot never grows beyond 256.
\<close>

theorem steer_dedupe_window:
  assumes "distinct sids" "[] \<notin> set sids"
  shows "\<exists>st. record_all Map.empty sids = Inr st \<and>
    (\<forall>sid. has_processed_steer_id st sid \<longleftrightarrow> sid \<in> set (last_n 256 sids)) \<and>
    (\<exists>ids. read_key st KEY_PROCESSED_STEER_IDS (JList []) = JList ids \<and> length ids \<le> 256)"
proof -
  have "steer_ids Map.empty (last_n PROCESSED_STEER_IDS_CAP [])"
    by (simp add: steer_ids_def last_n_def)
  from record_all_spec [OF this] assms obtain st where
    st: "record_all Map.empty sids = Inr st" "steer_ids st (last_n PROCESSED_STEER_IDS_CAP sids)" by auto
  have "\<exists>ids. read_key st KEY_PROCESSED_STEER_IDS (JList []) = JList ids \<and> length ids \<le> 256"
    using st(2) by (simp add: steer_ids_def PROCESSED_STEER_IDS_CAP_def)
  then show ?thesis
    using st by (auto simp: has_processed_steer_id_iff PROCESSED_STEER_IDS_CAP_def)
qed

theorem steer_dedupe_window_witness:
  "\<exists>st. record_all Map.empty [''ann-1'', ''ann-2''] = Inr st \<and>
    has_processed_steer_id st ''ann-1'' \<and> \<not> has_processed_steer_id st ''ann-3''"
proof -
  have w: "last_n 256 [''ann-1'', ''ann-2''] = [''ann-1'', ''ann-2'']" by (rule last_n_all) simp
  have d: "distinct [''ann-1'', ''ann-2'']" "[] \<notin> set [''ann-1'', ''ann-2'']" by simp_all
  from steer_dedupe_window [OF d, unfolded w] obtain st where
    st: "record_all Map.empty [''ann-1'', ''ann-2''] = Inr st"
    "\<forall>sid. has_processed_steer_id st sid \<longleftrightarrow> sid \<in> set [''ann-1'', ''ann-2'']" by blast
  from st(2) have "has_processed_steer_id st ''ann-1''" "\<not> has_processed_steer_id st ''ann-3''" by simp_all
  with st(1) show ?thesis by blast
qed

text \<open>
  Pin rotation. \<open>rotate_current_task_id\<close> never raises; it moves the pin to the only PENDING or
  RUNNING task that is unassigned or the agent's own, stamping the plan's revision, and clears the
  pin, title and revision in every other case (no plan, no candidate, several candidates); no other
  state key changes.
\<close>

theorem rotate_current_task_spec:
  "\<exists>r st'. rotate_current_task_id st p agent = Inr (r, st') \<and>
     pin_current_task st' = (case r of None \<Rightarrow> [] | Some i \<Rightarrow> i) \<and>
     (\<forall>i. r = Some i \<longleftrightarrow> (\<exists>q t. p = Some q \<and> rotation_candidates q agent = [t] \<and> task_id t = i \<and> i \<noteq> [])) \<and>
     (\<forall>q. p = Some q \<and> r \<noteq> None \<longrightarrow> read_current_task_revision st' = max 0 (revision_index q)) \<and>
     (\<forall>k. k \<notin> pin_keys \<longrightarrow> st' k = st k)"
proof (cases "\<exists>q t. p = Some q \<and> rotation_candidates q agent = [t]")
  case True
  then obtain q t where q: "p = Some q" "rotation_candidates q agent = [t]" by blast
  then show ?thesis
    by (auto simp: rotate_current_task_id_def set_current_task_def stamp_current_task_revision_def
        pin_current_task_def read_current_task_revision_def pin_keys_def)
next
  case False
  let ?st = "st(KEY_CURRENT_TASK_ID := None, KEY_CURRENT_TASK_TITLE := None, KEY_CURRENT_TASK_REVISION := None)"
  have "rotate_current_task_id st p agent = Inr (None, ?st)"
    using False by (auto simp: rotate_current_task_id_def clear_current_task_def Let_def split: option.splits list.splits)
  then show ?thesis
    using False by (auto simp: pin_current_task_def pin_keys_def)
qed

theorem rotate_current_task_spec_witness:
  "\<exists>r st'. rotate_current_task_id Map.empty (Some (plan_empty ''p'' ''r''\<lparr>tasks := [mk_task ''a'' ''A'']\<rparr>)) ''w'' = Inr (r, st') \<and>
     r = Some ''a'' \<and> read_current_task_revision st' = 0"
proof -
  let ?p = "plan_empty ''p'' ''r''\<lparr>tasks := [mk_task ''a'' ''A'']\<rparr>"
  have c: "rotation_candidates ?p ''w'' = [mk_task ''a'' ''A'']"
    by (simp add: rotation_candidates_def plan_empty_def mk_task_def)
  obtain r st' where r: "rotate_current_task_id Map.empty (Some ?p) ''w'' = Inr (r, st')"
    "\<forall>i. r = Some i \<longleftrightarrow> (\<exists>q t. Some ?p = Some q \<and> rotation_candidates q ''w'' = [t] \<and> task_id t = i \<and> i \<noteq> [])"
    "\<forall>q. Some ?p = Some q \<and> r \<noteq> None \<longrightarrow> read_current_task_revision st' = max 0 (revision_index q)"
    using rotate_current_task_spec [of Map.empty "Some ?p" "''w''"] by blast
  have "r = Some ''a''" using r(2) c by (simp add: mk_task_def)
  with r show ?thesis by (simp add: plan_empty_def)
qed

text \<open>
  C36: the active-steer slots round-trip. What \<open>set_active_steer\<close> stores is what \<open>get_active_steer\<close>
  returns, an empty body reads as "no steer", and \<open>clear_active_steer\<close> removes it; neither raises.
\<close>

theorem active_steer_roundtrip:
  "\<exists>st1 st2. set_active_steer st body at_turn author source = Inr st1 \<and>
     get_active_steer st1 = (if body = [] then None else
       Some \<lparr>steer_body = body, steer_at_turn = at_turn, steer_author = author, steer_source = source\<rparr>) \<and>
     clear_active_steer st1 = Inr st2 \<and> get_active_steer st2 = None"
  by (simp add: set_active_steer_def clear_active_steer_def get_active_steer_def Let_def)

end
