(* ===== verification/Drift_Conditions.thy ===== *)
theory Drift_Conditions
  imports State_Store
begin

text \<open>
  Drift conditions (\<open>src/goldfive/state_store.py\<close>, "Drift conditions"): the in-flight occurrences of
  drift, stored as JSON dictionaries under \<open>goldfive.active_drifts\<close> and keyed by condition id.
  \<open>hashlib.sha1(...).hexdigest()\<close> is the parameter \<open>sha1\<close>.

  The locale \<open>json_record\<close> is the interface between a record type and the slot that stores a
  dictionary of its encodings; the drift conditions here and the signal ledger interpret it.
\<close>

section \<open>Records stored in a slot\<close>

definition enc_dict :: "('a \<Rightarrow> (string \<times> json) list) \<Rightarrow> (string, 'a) dict \<Rightarrow> (string \<times> (string \<times> json) list) list" where
  "enc_dict enc d = map (\<lambda>kx. (fst kx, enc (snd kx))) d"

definition slot_holds :: "('a \<Rightarrow> (string \<times> json) list) \<Rightarrow> gstate \<Rightarrow> string \<Rightarrow> (string, 'a) dict \<Rightarrow> bool" where
  "slot_holds enc st key d \<longleftrightarrow>
     read_key st key (JDict []) = JDict (map (\<lambda>kp. (fst kp, JDict (snd kp))) (enc_dict enc d)) \<and> dict_ok d"

lemma map_of_enc_dict: "map_of (enc_dict enc d) k = map_option enc (map_of d k)"
  by (induction d) (auto simp: enc_dict_def)

lemma enc_dict_Cons [simp]: "enc_dict enc (kx # d) = (fst kx, enc (snd kx)) # enc_dict enc d"
  by (simp add: enc_dict_def)

lemma enc_dict_update: "AList.update k (enc x) (enc_dict enc d) = enc_dict enc (AList.update k x d)"
  by (induction d) (auto simp: enc_dict_def)

lemma enc_dict_delete: "AList.delete k (enc_dict enc d) = enc_dict enc (AList.delete k d)"
  by (induction d) (auto simp: enc_dict_def AList.delete_eq)

locale json_record =
  fixes enc :: "'a \<Rightarrow> (string \<times> json) list"
    and dec :: "(string \<times> json) list \<Rightarrow> py_error + 'a"
    and ok :: "'a \<Rightarrow> bool"
  assumes dec_enc: "ok x \<Longrightarrow> dec (enc x) = Inr x"
begin

lemma decode_all:
  assumes "\<And>k x. (k, x) \<in> set d \<Longrightarrow> ok x"
  shows "emap (\<lambda>kp. dec (snd kp)) (enc_dict enc d) = Inr (map snd d)"
  using assms
proof (induction d)
  case (Cons kx d)
  then have "ok (snd kx)" "emap (\<lambda>kp. dec (snd kp)) (enc_dict enc d) = Inr (map snd d)"
    by (metis list.set_intros(1) prod.collapse, metis list.set_intros(2))
  then show ?case by (simp add: enc_dict_def dec_enc)
qed (simp add: enc_dict_def)

lemma decode_lookup:
  assumes "map_of d k = Some x" "\<And>k x. (k, x) \<in> set d \<Longrightarrow> ok x"
  shows "map_of (enc_dict enc d) k = Some (enc x)" "dec (enc x) = Inr x"
  using assms dec_enc [of x] map_of_SomeD [of d k x] by (auto simp: map_of_enc_dict)

end

section \<open>The condition record\<close>

definition LIFECYCLE_OPENED :: string where "LIFECYCLE_OPENED = ''opened''"
definition LIFECYCLE_ESCALATING :: string where "LIFECYCLE_ESCALATING = ''escalating''"
definition LIFECYCLE_RESOLVED :: string where "LIFECYCLE_RESOLVED = ''resolved''"
definition LIFECYCLE_HUMAN_INTERVENTION_REQUIRED :: string where
  "LIFECYCLE_HUMAN_INTERVENTION_REQUIRED = ''human_intervention_required''"

record Drift =
  condition_id :: string
  cond_kind :: "DriftKind option"
  cond_task :: string
  cond_agent :: string
  cond_turn :: string
  cond_severity :: "DriftSeverity option"
  prev_severity :: "DriftSeverity option"
  lifecycle :: string
  occurrences :: int

definition severity_to_str :: "DriftSeverity option \<Rightarrow> string" where
  "severity_to_str s = (case s of None \<Rightarrow> [] | Some s \<Rightarrow> severity_value s)"

definition severity_from_str :: "string \<Rightarrow> DriftSeverity option" where
  "severity_from_str name =
     (if name = [] then None else find (\<lambda>s. severity_value s = name) [INFO, WARNING, CRITICAL])"

definition kind_to_str :: "DriftKind option \<Rightarrow> string" where
  "kind_to_str k = (case k of None \<Rightarrow> [] | Some k \<Rightarrow> drift_kind_value k)"

definition kind_from_str :: "string \<Rightarrow> DriftKind option" where
  "kind_from_str name =
     (if name = [] then None else find (\<lambda>k. drift_kind_value k = name) all_drift_kinds)"

definition drift_to_dict :: "Drift \<Rightarrow> (string \<times> json) list" where
  "drift_to_dict d =
     [(''condition_id'', JStr (condition_id d)), (''kind'', JStr (kind_to_str (cond_kind d))),
      (''task_id'', JStr (cond_task d)), (''agent_id'', JStr (cond_agent d)), (''turn_id'', JStr (cond_turn d)),
      (''severity'', JStr (severity_to_str (cond_severity d))),
      (''prev_severity'', JStr (severity_to_str (prev_severity d))),
      (''lifecycle'', JStr (lifecycle d)), (''occurrences'', JInt (occurrences d))]"

definition drift_from_dict :: "(string \<times> json) list \<Rightarrow> py_error + Drift" where
  "drift_from_dict p =
     (let str = (\<lambda>k. str_or_empty (jget p k (JStr [])));
          lc = jget p ''lifecycle'' (JStr LIFECYCLE_OPENED);
          occ = jget p ''occurrences'' (JInt 1)
      in ebind (py_int (if truthy occ then occ else JInt 1)) (\<lambda>n.
           Inr \<lparr>condition_id = str ''condition_id'', cond_kind = kind_from_str (str ''kind''),
                cond_task = str ''task_id'', cond_agent = str ''agent_id'', cond_turn = str ''turn_id'',
                cond_severity = severity_from_str (str ''severity''),
                prev_severity = severity_from_str (str ''prev_severity''),
                lifecycle = (if truthy lc then py_str lc else LIFECYCLE_OPENED), occurrences = n\<rparr>))"

definition severity_order :: "DriftSeverity option \<Rightarrow> int" where
  "severity_order s = (case s of None \<Rightarrow> -1 | Some INFO \<Rightarrow> 0 | Some WARNING \<Rightarrow> 1 | Some CRITICAL \<Rightarrow> 2)"

definition max_severity :: "DriftSeverity option \<Rightarrow> DriftSeverity option \<Rightarrow> DriftSeverity option" where
  "max_severity a b = (if severity_order a \<ge> severity_order b then a else b)"

definition compute_condition_id ::
  "(string \<Rightarrow> string) \<Rightarrow> DriftKind \<Rightarrow> string \<Rightarrow> string \<Rightarrow> string \<Rightarrow> string" where
  "compute_condition_id sha1 k task agent turn =
     take 16 (sha1 (drift_kind_value k @ ''|'' @ task @ ''|'' @ agent @ ''|'' @ turn))"

section \<open>The active set\<close>

fun dict_payload :: "string \<times> json \<Rightarrow> (string \<times> (string \<times> json) list) list" where
  "dict_payload (k, JDict p) = [(k, p)]"
| "dict_payload _ = []"

definition read_active_drifts :: "gstate \<Rightarrow> (string \<times> (string \<times> json) list) list" where
  "read_active_drifts st =
     (case read_key st KEY_ACTIVE_DRIFTS (JDict []) of
        JDict raw \<Rightarrow> dict_of (concat (map dict_payload raw))
      | _ \<Rightarrow> [])"

definition write_active_drifts :: "gstate \<Rightarrow> (string \<times> (string \<times> json) list) list \<Rightarrow> py_error + gstate" where
  "write_active_drifts st ds = write_key st KEY_ACTIVE_DRIFTS (JDict (map (\<lambda>kp. (fst kp, JDict (snd kp))) ds))"

definition get_active_drift :: "gstate \<Rightarrow> string \<Rightarrow> py_error + Drift option" where
  "get_active_drift st cid =
     (if cid = [] then Inr None
      else case map_of (read_active_drifts st) cid of
             None \<Rightarrow> Inr None
           | Some p \<Rightarrow> ebind (drift_from_dict p) (\<lambda>d. Inr (Some d)))"

definition list_active_drifts :: "gstate \<Rightarrow> py_error + Drift list" where
  "list_active_drifts st = emap (\<lambda>kp. drift_from_dict (snd kp)) (read_active_drifts st)"

definition open_or_escalate_drift ::
  "(string \<Rightarrow> string) \<Rightarrow> gstate \<Rightarrow> DriftKind \<Rightarrow> string \<Rightarrow> string \<Rightarrow> string \<Rightarrow> DriftSeverity \<Rightarrow>
   py_error + Drift \<times> gstate" where
  "open_or_escalate_drift sha1 st k task agent turn sev =
     (let cid = compute_condition_id sha1 k task agent turn;
          active = read_active_drifts st
      in case map_of active cid of
           None \<Rightarrow>
             (let d = \<lparr>condition_id = cid, cond_kind = Some k, cond_task = task, cond_agent = agent,
                       cond_turn = turn, cond_severity = Some sev, prev_severity = None,
                       lifecycle = LIFECYCLE_OPENED, occurrences = 1\<rparr>
              in ebind (write_active_drifts st (AList.update cid (drift_to_dict d) active)) (\<lambda>st. Inr (d, st)))
         | Some p \<Rightarrow>
             ebind (drift_from_dict p) (\<lambda>e.
               let d = \<lparr>condition_id = cid, cond_kind = Some k, cond_task = cond_task e,
                        cond_agent = cond_agent e, cond_turn = cond_turn e,
                        cond_severity = max_severity (cond_severity e) (Some sev),
                        prev_severity = cond_severity e,
                        lifecycle = LIFECYCLE_ESCALATING, occurrences = occurrences e + 1\<rparr>
               in ebind (write_active_drifts st (AList.update cid (drift_to_dict d) active)) (\<lambda>st. Inr (d, st))))"

definition resolve_drift :: "gstate \<Rightarrow> string \<Rightarrow> py_error + Drift option \<times> gstate" where
  "resolve_drift st cid =
     (if cid = [] then Inr (None, st)
      else
        (let active = read_active_drifts st in
         case map_of active cid of
           None \<Rightarrow> Inr (None, st)
         | Some p \<Rightarrow>
             ebind (drift_from_dict p) (\<lambda>d.
             ebind (write_active_drifts st (AList.delete cid active)) (\<lambda>st.
               Inr (Some (d\<lparr>prev_severity := None, lifecycle := LIFECYCLE_RESOLVED\<rparr>), st)))))"

definition drift_matches ::
  "string option \<Rightarrow> string set option \<Rightarrow> string option \<Rightarrow> DriftKind set option \<Rightarrow> Drift \<Rightarrow> bool" where
  "drift_matches task agents turn kinds d \<longleftrightarrow>
     (case task of None \<Rightarrow> True | Some t \<Rightarrow> cond_task d = t) \<and>
     (case agents of None \<Rightarrow> True | Some A \<Rightarrow> cond_agent d \<in> A) \<and>
     (case turn of None \<Rightarrow> True | Some t \<Rightarrow> cond_turn d = t) \<and>
     (case kinds of None \<Rightarrow> True | Some K \<Rightarrow> (case cond_kind d of None \<Rightarrow> False | Some k \<Rightarrow> k \<in> K))"

text \<open>The loop of \<open>resolve_drifts_matching\<close> over a snapshot of the active ids.\<close>

fun resolve_loop ::
  "(Drift \<Rightarrow> bool) \<Rightarrow> (string \<times> (string \<times> json) list) list \<Rightarrow> (string \<times> (string \<times> json) list) list \<Rightarrow>
   py_error + Drift list \<times> (string \<times> (string \<times> json) list) list" where
  "resolve_loop P [] active = Inr ([], active)"
| "resolve_loop P ((cid, p) # todo) active =
     ebind (drift_from_dict p) (\<lambda>d.
       if P d
       then ebind (resolve_loop P todo (AList.delete cid active)) (\<lambda>(rs, act).
              Inr (d\<lparr>prev_severity := None, lifecycle := LIFECYCLE_RESOLVED\<rparr> # rs, act))
       else resolve_loop P todo active)"

definition resolve_drifts_matching ::
  "gstate \<Rightarrow> string option \<Rightarrow> string set option \<Rightarrow> string option \<Rightarrow> DriftKind set option \<Rightarrow>
   py_error + Drift list \<times> gstate" where
  "resolve_drifts_matching st task agents turn kinds =
     (let active = read_active_drifts st in
      ebind (resolve_loop (drift_matches task agents turn kinds) active active) (\<lambda>(rs, act).
        if rs = [] then Inr ([], st)
        else ebind (write_active_drifts st act) (\<lambda>st. Inr (rs, st))))"

definition escalate_drift_to_human_intervention :: "gstate \<Rightarrow> string \<Rightarrow> py_error + Drift option \<times> gstate" where
  "escalate_drift_to_human_intervention st cid =
     (if cid = [] then Inr (None, st)
      else
        (let active = read_active_drifts st in
         case map_of active cid of
           None \<Rightarrow> Inr (None, st)
         | Some p \<Rightarrow>
             ebind (drift_from_dict p) (\<lambda>d.
             ebind (write_active_drifts st (AList.delete cid active)) (\<lambda>st.
               Inr (Some (d\<lparr>prev_severity := cond_severity d, cond_severity := Some CRITICAL,
                           lifecycle := LIFECYCLE_HUMAN_INTERVENTION_REQUIRED\<rparr>), st)))))"

section \<open>Encoding round trip\<close>

text \<open>The records the helpers store: a positive count and a non-empty lifecycle.\<close>

definition drift_ok :: "Drift \<Rightarrow> bool" where
  "drift_ok d \<longleftrightarrow> occurrences d \<noteq> 0 \<and> lifecycle d \<noteq> []"

lemma severity_roundtrip: "severity_from_str (severity_to_str s) = s"
proof (cases s)
  case (Some x)
  then show ?thesis by (cases x) (simp_all add: severity_from_str_def severity_to_str_def)
qed (simp add: severity_from_str_def severity_to_str_def)

lemma kind_roundtrip: "kind_from_str (kind_to_str k) = k"
proof (cases k)
  case (Some x)
  then show ?thesis by (cases x) (simp_all add: kind_from_str_def kind_to_str_def all_drift_kinds_def)
qed (simp add: kind_from_str_def kind_to_str_def)

lemma drift_dict_roundtrip: "drift_ok d \<Longrightarrow> drift_from_dict (drift_to_dict d) = Inr d"
  by (cases d) (simp add: drift_ok_def drift_from_dict_def drift_to_dict_def jget_def severity_roundtrip kind_roundtrip)

interpretation drift_record: json_record drift_to_dict drift_from_dict drift_ok
  by unfold_locales (rule drift_dict_roundtrip)

section \<open>Refinement: the slot implements a dictionary of conditions\<close>

definition active_inv :: "gstate \<Rightarrow> (string, Drift) dict \<Rightarrow> bool" where
  "active_inv st d \<longleftrightarrow> slot_holds drift_to_dict st KEY_ACTIVE_DRIFTS d \<and>
     (\<forall>kx\<in>set d. drift_ok (snd kx) \<and> condition_id (snd kx) = fst kx)"

lemma active_inv_empty: "active_inv Map.empty []"
  by (simp add: active_inv_def slot_holds_def enc_dict_def)

lemma concat_dict_payload: "concat (map (dict_payload \<circ> (\<lambda>kp. (fst kp, JDict (snd kp)))) ps) = ps"
  by (induction ps) auto

lemma read_active_inv: "active_inv st d \<Longrightarrow> read_active_drifts st = enc_dict drift_to_dict d"
proof -
  assume inv: "active_inv st d"
  then have "distinct (map fst (enc_dict drift_to_dict d))"
    by (simp add: active_inv_def slot_holds_def dict_ok_def enc_dict_def comp_def)
  moreover have "read_key st KEY_ACTIVE_DRIFTS (JDict []) =
      JDict (map (\<lambda>kp. (fst kp, JDict (snd kp))) (enc_dict drift_to_dict d))"
    using inv by (simp add: active_inv_def slot_holds_def)
  ultimately show ?thesis
    by (simp add: read_active_drifts_def concat_dict_payload dict_of_distinct)
qed

lemma write_active_inv:
  assumes "dict_ok d" "\<forall>kx\<in>set d. drift_ok (snd kx) \<and> condition_id (snd kx) = fst kx"
  shows "\<exists>st'. write_active_drifts st (enc_dict drift_to_dict d) = Inr st' \<and> active_inv st' d \<and>
    (\<forall>k. k \<noteq> KEY_ACTIVE_DRIFTS \<longrightarrow> st' k = st k)"
  using assms by (simp add: write_active_drifts_def active_inv_def slot_holds_def)

lemma set_update: "kx \<in> set (AList.update k v d) \<Longrightarrow> kx = (k, v) \<or> kx \<in> set d"
  by (induction d) (auto split: if_splits)

lemma set_delete: "kx \<in> set (AList.delete k d) \<Longrightarrow> kx \<in> set d \<and> fst kx \<noteq> k"
  by (auto simp: AList.delete_eq)

lemma active_lookup:
  assumes inv: "active_inv st d" and look: "map_of d cid = Some e"
  shows "map_of (read_active_drifts st) cid = Some (drift_to_dict e)" "drift_from_dict (drift_to_dict e) = Inr e"
    "condition_id e = cid"
proof -
  have mem: "(cid, e) \<in> set d" using look by (rule map_of_SomeD)
  with inv have "drift_ok e \<and> condition_id e = cid" by (fastforce simp: active_inv_def)
  then show "drift_from_dict (drift_to_dict e) = Inr e" "condition_id e = cid"
    using drift_dict_roundtrip by simp_all
  show "map_of (read_active_drifts st) cid = Some (drift_to_dict e)"
    using inv look by (simp add: read_active_inv map_of_enc_dict)
qed

text \<open>The contract of one firing: what the condition becomes, given what it was.\<close>

definition fired :: "string \<Rightarrow> DriftKind \<Rightarrow> string \<Rightarrow> string \<Rightarrow> string \<Rightarrow> DriftSeverity \<Rightarrow> Drift option \<Rightarrow> Drift" where
  "fired cid k task agent turn sev old =
     (case old of
        None \<Rightarrow> \<lparr>condition_id = cid, cond_kind = Some k, cond_task = task, cond_agent = agent, cond_turn = turn,
                 cond_severity = Some sev, prev_severity = None, lifecycle = LIFECYCLE_OPENED, occurrences = 1\<rparr>
      | Some e \<Rightarrow> e\<lparr>condition_id := cid, cond_kind := Some k, cond_severity := max_severity (cond_severity e) (Some sev),
                    prev_severity := cond_severity e, lifecycle := LIFECYCLE_ESCALATING,
                    occurrences := occurrences e + 1\<rparr>)"

lemma fired_Some:
  "fired cid k task agent turn sev (Some e) =
     \<lparr>condition_id = cid, cond_kind = Some k, cond_task = cond_task e, cond_agent = cond_agent e,
      cond_turn = cond_turn e, cond_severity = max_severity (cond_severity e) (Some sev),
      prev_severity = cond_severity e, lifecycle = LIFECYCLE_ESCALATING, occurrences = occurrences e + 1\<rparr>"
  by (cases e) (simp add: fired_def)

lemma fired_ok:
  assumes "\<And>e. old = Some e \<Longrightarrow> 0 < occurrences e"
  shows "drift_ok (fired cid k task agent turn sev old)" "0 < occurrences (fired cid k task agent turn sev old)"
  using assms
  by (cases old; force simp: fired_def drift_ok_def LIFECYCLE_OPENED_def LIFECYCLE_ESCALATING_def)+

text \<open>Counts are positive as long as only the helpers wrote the slot.\<close>

definition counts_pos :: "(string, Drift) dict \<Rightarrow> bool" where
  "counts_pos d \<longleftrightarrow> (\<forall>kx\<in>set d. 0 < occurrences (snd kx))"

lemma open_or_escalate_refines:
  assumes inv: "active_inv st d" and pos: "counts_pos d"
    and cid_def: "cid = compute_condition_id sha1 k task agent turn"
  shows "\<exists>st'. open_or_escalate_drift sha1 st k task agent turn sev =
      Inr (fired cid k task agent turn sev (map_of d cid), st') \<and>
    active_inv st' (AList.update cid (fired cid k task agent turn sev (map_of d cid)) d) \<and>
    counts_pos (AList.update cid (fired cid k task agent turn sev (map_of d cid)) d) \<and>
    (\<forall>key. key \<noteq> KEY_ACTIVE_DRIFTS \<longrightarrow> st' key = st key)"
proof -
  let ?new = "fired cid k task agent turn sev (map_of d cid)"
  have occ: "0 < occurrences e" if "map_of d cid = Some e" for e
    using pos map_of_SomeD [OF that] by (fastforce simp: counts_pos_def)
  have new: "drift_ok ?new" "0 < occurrences ?new" "condition_id ?new = cid"
    using fired_ok [of "map_of d cid", OF occ] by (simp_all add: fired_def split: option.splits)
  have ok: "\<forall>kx\<in>set (AList.update cid ?new d). drift_ok (snd kx) \<and> condition_id (snd kx) = fst kx"
    using inv new by (auto simp: active_inv_def dest!: set_update)
  have pos': "counts_pos (AList.update cid ?new d)"
    using pos new by (auto simp: counts_pos_def dest!: set_update)
  have "dict_ok (AList.update cid ?new d)" using inv by (simp add: active_inv_def slot_holds_def)
  from write_active_inv [OF this ok, of st] obtain st' where
    w: "write_active_drifts st (enc_dict drift_to_dict (AList.update cid ?new d)) = Inr st'"
    "active_inv st' (AList.update cid ?new d)" "\<forall>k. k \<noteq> KEY_ACTIVE_DRIFTS \<longrightarrow> st' k = st k" by blast
  have "open_or_escalate_drift sha1 st k task agent turn sev = Inr (?new, st')"
  proof (cases "map_of d cid")
    case None
    then show ?thesis
      using w(1) inv
      by (simp add: open_or_escalate_drift_def cid_def [symmetric] read_active_inv map_of_enc_dict
          enc_dict_update fired_def Let_def)
  next
    case (Some e)
    then show ?thesis
      using w(1) inv active_lookup [OF inv Some]
      by (simp add: open_or_escalate_drift_def cid_def [symmetric] read_active_inv
          enc_dict_update fired_Some Let_def)
  qed
  with w pos' show ?thesis by blast
qed

text \<open>Taking a condition out of the active set, which resolving and handing over to a human share.\<close>

lemma remove_refines:
  assumes inv: "active_inv st d" and pos: "counts_pos d"
  shows "\<exists>st'. write_active_drifts st (AList.delete cid (read_active_drifts st)) = Inr st' \<and>
    active_inv st' (AList.delete cid d) \<and> counts_pos (AList.delete cid d)"
proof -
  have "dict_ok (AList.delete cid d)" using inv by (simp add: active_inv_def slot_holds_def)
  moreover have "\<forall>kx\<in>set (AList.delete cid d). drift_ok (snd kx) \<and> condition_id (snd kx) = fst kx"
    using inv by (auto simp: active_inv_def dest!: set_delete)
  ultimately obtain st' where "write_active_drifts st (enc_dict drift_to_dict (AList.delete cid d)) = Inr st'"
    "active_inv st' (AList.delete cid d)" using write_active_inv by blast
  moreover have "counts_pos (AList.delete cid d)" using pos by (auto simp: counts_pos_def dest!: set_delete)
  ultimately show ?thesis using inv by (simp add: read_active_inv enc_dict_delete)
qed

definition resolved :: "Drift \<Rightarrow> Drift" where
  "resolved d = d\<lparr>prev_severity := None, lifecycle := LIFECYCLE_RESOLVED\<rparr>"

definition handed_over :: "Drift \<Rightarrow> Drift" where
  "handed_over d = d\<lparr>prev_severity := cond_severity d, cond_severity := Some CRITICAL,
                      lifecycle := LIFECYCLE_HUMAN_INTERVENTION_REQUIRED\<rparr>"

lemma remove_by_id_refines:
  assumes inv: "active_inv st d" and pos: "counts_pos d"
    and f: "\<And>st cid. f st cid =
      (if cid = [] then Inr (None, st)
       else case map_of (read_active_drifts st) cid of
              None \<Rightarrow> Inr (None, st)
            | Some p \<Rightarrow> ebind (drift_from_dict p) (\<lambda>d.
                ebind (write_active_drifts st (AList.delete cid (read_active_drifts st))) (\<lambda>st. Inr (Some (g d), st))))"
  shows "\<exists>st'. f st cid = Inr (if cid = [] then None else map_option g (map_of d cid), st') \<and>
    active_inv st' (if cid = [] then d else AList.delete cid d) \<and>
    counts_pos (if cid = [] then d else AList.delete cid d)"
proof (cases "cid = [] \<or> map_of d cid = None")
  case True
  then have "f st cid = Inr (None, st)" using inv by (auto simp: f read_active_inv map_of_enc_dict)
  moreover have "cid \<noteq> [] \<Longrightarrow> AList.delete cid d = d"
    using True by (simp add: delete_idem map_of_eq_None_iff)
  ultimately show ?thesis using True inv pos by auto
next
  case False
  then obtain e where e: "map_of d cid = Some e" "cid \<noteq> []" by auto
  from remove_refines [OF inv pos, of cid] active_lookup [OF inv e(1)] e show ?thesis
    by (auto simp: f)
qed

lemma resolve_drift_refines:
  "active_inv st d \<Longrightarrow> counts_pos d \<Longrightarrow>
   \<exists>st'. resolve_drift st cid = Inr (if cid = [] then None else map_option resolved (map_of d cid), st') \<and>
     active_inv st' (if cid = [] then d else AList.delete cid d) \<and>
     counts_pos (if cid = [] then d else AList.delete cid d)"
  by (rule remove_by_id_refines) (simp_all add: resolve_drift_def resolved_def Let_def split: option.split)

lemma escalate_human_refines:
  "active_inv st d \<Longrightarrow> counts_pos d \<Longrightarrow>
   \<exists>st'. escalate_drift_to_human_intervention st cid =
       Inr (if cid = [] then None else map_option handed_over (map_of d cid), st') \<and>
     active_inv st' (if cid = [] then d else AList.delete cid d) \<and>
     counts_pos (if cid = [] then d else AList.delete cid d)"
  by (rule remove_by_id_refines) (simp_all add: escalate_drift_to_human_intervention_def handed_over_def Let_def split: option.split)

lemma resolve_loop_spec:
  assumes "\<And>kx. kx \<in> set todo \<Longrightarrow> drift_ok (snd kx)"
  shows "resolve_loop P (enc_dict drift_to_dict todo) (enc_dict drift_to_dict d) =
    Inr (map resolved (filter P (map snd todo)),
         enc_dict drift_to_dict (filter (\<lambda>kx. fst kx \<notin> fst ` set (filter (\<lambda>kx. P (snd kx)) todo)) d))"
  using assms
proof (induction todo arbitrary: d)
  case Nil
  show ?case by (simp add: enc_dict_def)
next
  case (Cons kx todo)
  obtain k x where kx: "kx = (k, x)" by fastforce
  have dec: "drift_from_dict (drift_to_dict x) = Inr x" using Cons.prems kx drift_dict_roundtrip by fastforce
  have IH: "resolve_loop P (enc_dict drift_to_dict todo) (enc_dict drift_to_dict d) =
    Inr (map resolved (filter P (map snd todo)),
         enc_dict drift_to_dict (filter (\<lambda>kx. fst kx \<notin> fst ` set (filter (\<lambda>kx. P (snd kx)) todo)) d))" for d
    using Cons by simp
  have "filter (\<lambda>kx. fst kx \<notin> fst ` set (filter (\<lambda>kx. P (snd kx)) todo)) (AList.delete k d) =
      filter (\<lambda>kx. fst kx \<noteq> k \<and> fst kx \<notin> fst ` set (filter (\<lambda>kx. P (snd kx)) todo)) d"
    by (auto simp: AList.delete_eq split_def intro!: filter_cong)
  then show ?case
    using dec IH [of "AList.delete k d"] IH [of d] kx
    by (simp add: enc_dict_delete resolved_def)
qed

lemma resolve_matching_refines:
  assumes inv: "active_inv st d" and pos: "counts_pos d"
    and P: "P = drift_matches task agents turn kinds"
  shows "\<exists>st'. resolve_drifts_matching st task agents turn kinds = Inr (map resolved (filter P (map snd d)), st') \<and>
    active_inv st' (filter (\<lambda>kx. \<not> P (snd kx)) d) \<and> counts_pos (filter (\<lambda>kx. \<not> P (snd kx)) d)"
proof -
  let ?d = "filter (\<lambda>kx. \<not> P (snd kx)) d"
  have dist: "distinct (map fst d)" using inv by (simp add: active_inv_def slot_holds_def dict_ok_def)
  have "filter (\<lambda>kx. fst kx \<notin> fst ` set (filter (\<lambda>kx. P (snd kx)) d)) d = ?d"
  proof (rule filter_cong [OF refl])
    fix kx assume kx: "kx \<in> set d"
    show "fst kx \<notin> fst ` set (filter (\<lambda>kx. P (snd kx)) d) \<longleftrightarrow> \<not> P (snd kx)"
      using kx eq_key_imp_eq_value [OF dist, of "fst kx" "snd kx"] by fastforce
  qed
  moreover have "\<And>kx. kx \<in> set d \<Longrightarrow> drift_ok (snd kx)" using inv by (auto simp: active_inv_def)
  ultimately have loop: "resolve_loop P (enc_dict drift_to_dict d) (enc_dict drift_to_dict d) =
      Inr (map resolved (filter P (map snd d)), enc_dict drift_to_dict ?d)"
    using resolve_loop_spec [of d P d] by simp
  have pos': "counts_pos ?d" using pos by (auto simp: counts_pos_def)
  show ?thesis
  proof (cases "filter P (map snd d) = []")
    case True
    then have "?d = d" by (auto simp: filter_empty_conv filter_id_conv)
    then show ?thesis using True loop inv pos by (simp add: resolve_drifts_matching_def read_active_inv P)
  next
    case False
    have "dict_ok ?d" using dist by (simp add: dict_ok_def distinct_map_filter)
    moreover have "\<forall>kx\<in>set ?d. drift_ok (snd kx) \<and> condition_id (snd kx) = fst kx"
      using inv by (auto simp: active_inv_def)
    ultimately obtain st' where "write_active_drifts st (enc_dict drift_to_dict ?d) = Inr st'" "active_inv st' ?d"
      using write_active_inv by blast
    then show ?thesis
      using False loop inv pos' by (simp add: resolve_drifts_matching_def read_active_inv P)
  qed
qed

section \<open>Runs\<close>

text \<open>The operations on conditions, and a run of them with what each returned.\<close>

datatype cond_op =
    Fire DriftKind string string string DriftSeverity
  | Resolve string
  | ResolveMatching "string option" "string set option" "string option" "DriftKind set option"
  | HandOver string

fun cond_step :: "(string \<Rightarrow> string) \<Rightarrow> gstate \<Rightarrow> cond_op \<Rightarrow> py_error + Drift list \<times> gstate" where
  "cond_step sha1 st (Fire k t a u sev) =
     ebind (open_or_escalate_drift sha1 st k t a u sev) (\<lambda>(d, st). Inr ([d], st))"
| "cond_step sha1 st (Resolve cid) =
     ebind (resolve_drift st cid) (\<lambda>(d, st). Inr (case d of None \<Rightarrow> [] | Some d \<Rightarrow> [d], st))"
| "cond_step sha1 st (ResolveMatching t A u K) = resolve_drifts_matching st t A u K"
| "cond_step sha1 st (HandOver cid) =
     ebind (escalate_drift_to_human_intervention st cid) (\<lambda>(d, st). Inr (case d of None \<Rightarrow> [] | Some d \<Rightarrow> [d], st))"

fun cond_run :: "(string \<Rightarrow> string) \<Rightarrow> gstate \<Rightarrow> cond_op list \<Rightarrow> py_error + gstate" where
  "cond_run sha1 st [] = Inr st"
| "cond_run sha1 st (op # ops) = ebind (cond_step sha1 st op) (\<lambda>(_, st). cond_run sha1 st ops)"

lemma cond_step_inv:
  assumes "active_inv st d" "counts_pos d"
  shows "\<exists>out st' d'. cond_step sha1 st op = Inr (out, st') \<and> active_inv st' d' \<and> counts_pos d'"
proof (cases op)
  case (Fire k t a u sev)
  from open_or_escalate_refines [OF assms refl, of sha1 k t a u sev] Fire show ?thesis by auto
next
  case (Resolve cid)
  from resolve_drift_refines [OF assms, of cid] Resolve show ?thesis by fastforce
next
  case (ResolveMatching t A u K)
  from resolve_matching_refines [OF assms refl, of t A u K] ResolveMatching show ?thesis by auto
next
  case (HandOver cid)
  from escalate_human_refines [OF assms, of cid] HandOver show ?thesis by fastforce
qed

lemma cond_run_inv:
  "active_inv st d \<Longrightarrow> counts_pos d \<Longrightarrow>
   \<exists>st' d'. cond_run sha1 st ops = Inr st' \<and> active_inv st' d' \<and> counts_pos d'"
proof (induction ops arbitrary: st d)
  case (Cons op ops)
  from cond_step_inv [OF Cons.prems] obtain out st1 d1 where
    "cond_step sha1 st op = Inr (out, st1)" "active_inv st1 d1" "counts_pos d1" by blast
  with Cons.IH show ?case by fastforce
qed auto

lemma list_active_inv: "active_inv st d \<Longrightarrow> list_active_drifts st = Inr (map snd d)"
  using drift_record.decode_all [of d]
  by (fastforce simp: list_active_drifts_def read_active_inv active_inv_def)

text \<open>Firing one condition again and again with severities \<open>sevs\<close>.\<close>

fun fire_all ::
  "(string \<Rightarrow> string) \<Rightarrow> gstate \<Rightarrow> DriftKind \<Rightarrow> string \<Rightarrow> string \<Rightarrow> string \<Rightarrow> DriftSeverity list \<Rightarrow>
   py_error + Drift option \<times> gstate" where
  "fire_all sha1 st k t a u [] = ebind (get_active_drift st (compute_condition_id sha1 k t a u)) (\<lambda>d. Inr (d, st))"
| "fire_all sha1 st k t a u (sev # sevs) =
     ebind (open_or_escalate_drift sha1 st k t a u sev) (\<lambda>(_, st). fire_all sha1 st k t a u sevs)"

fun worst :: "DriftSeverity \<Rightarrow> DriftSeverity list \<Rightarrow> DriftSeverity" where
  "worst s [] = s"
| "worst s (t # ts) = worst (if severity_rank t \<le> severity_rank s then s else t) ts"

lemma severity_order_rank: "severity_order (Some s) = severity_rank s"
  by (cases s) (simp_all add: severity_order_def)

lemma worst_upper: "severity_rank s \<le> severity_rank (worst s ts) \<and> (\<forall>t\<in>set ts. severity_rank t \<le> severity_rank (worst s ts))"
  by (induction ts arbitrary: s) (force split: if_splits)+

lemma worst_mem: "worst s ts \<in> insert s (set ts)"
proof (induction ts arbitrary: s)
  case (Cons t ts)
  then show ?case using Cons [of t] Cons [of s] by (auto split: if_splits)
qed simp

lemma fire_all_again:
  assumes "active_inv st d" "counts_pos d" "map_of d cid = Some e" "cond_severity e = Some s"
    and "cid = compute_condition_id sha1 k t a u" "cid \<noteq> []"
  shows "\<exists>st' e'. fire_all sha1 st k t a u sevs = Inr (Some e', st') \<and> cond_severity e' = Some (worst s sevs) \<and>
    occurrences e' = occurrences e + int (length sevs) \<and>
    (sevs \<noteq> [] \<longrightarrow> lifecycle e' = LIFECYCLE_ESCALATING) \<and> (sevs = [] \<longrightarrow> e' = e)"
  using assms
proof (induction sevs arbitrary: st d e s)
  case Nil
  then show ?case using active_lookup [OF Nil(1,3)] by (simp add: get_active_drift_def)
next
  case (Cons sev sevs)
  let ?n = "fired cid k t a u sev (Some e)"
  from open_or_escalate_refines [OF Cons.prems(1,2,5), of sev] Cons.prems(3) obtain st1 where
    st1: "open_or_escalate_drift sha1 st k t a u sev = Inr (?n, st1)"
    "active_inv st1 (AList.update cid ?n d)" "counts_pos (AList.update cid ?n d)" by auto
  have "cond_severity ?n = Some (if severity_rank sev \<le> severity_rank s then s else sev)"
    using Cons.prems(4) by (simp add: fired_Some max_severity_def severity_order_rank)
  from Cons.IH [OF st1(2,3) _ this Cons.prems(5,6)] obtain st' e' where
    "fire_all sha1 st1 k t a u sevs = Inr (Some e', st')"
    "cond_severity e' = Some (worst (if severity_rank sev \<le> severity_rank s then s else sev) sevs)"
    "occurrences e' = occurrences ?n + int (length sevs)"
    "sevs \<noteq> [] \<longrightarrow> lifecycle e' = LIFECYCLE_ESCALATING" "sevs = [] \<longrightarrow> e' = ?n"
    by (auto simp: update_conv')
  then show ?case using st1(1) by (cases "sevs = []") (auto simp: fired_Some)
qed

section \<open>Properties\<close>



text \<open>
  Escalation is monotone and counted. In a state any run reaches, firing a condition that is not
  active with severities \<open>sev # sevs\<close> leaves it active with the worst severity fired, an occurrence
  for each firing, and the lifecycle "opened" after the first and "escalating" after the others.
\<close>

theorem escalation_monotone:
  assumes "cond_run sha1 Map.empty ops = Inr st"
    and "get_active_drift st cid = Inr None" "cid = compute_condition_id sha1 k t a u" "cid \<noteq> []"
  shows "\<exists>st' d. fire_all sha1 st k t a u (sev # sevs) = Inr (Some d, st') \<and>
    cond_severity d = Some (worst sev sevs) \<and> occurrences d = 1 + int (length sevs) \<and>
    lifecycle d = (if sevs = [] then LIFECYCLE_OPENED else LIFECYCLE_ESCALATING)"
proof -
  obtain d where d: "active_inv st d" "counts_pos d"
    using cond_run_inv [OF active_inv_empty, of sha1 ops] assms(1) by (auto simp: counts_pos_def)
  have none: "map_of d cid = None"
  proof (cases "map_of d cid")
    case (Some e)
    with active_lookup [OF d(1) Some] assms(2,4) show ?thesis by (simp add: get_active_drift_def)
  qed simp
  let ?n = "fired cid k t a u sev None"
  from open_or_escalate_refines [OF d assms(3), of sev] none obtain st1 where
    st1: "open_or_escalate_drift sha1 st k t a u sev = Inr (?n, st1)"
    "active_inv st1 (AList.update cid ?n d)" "counts_pos (AList.update cid ?n d)" by auto
  have "map_of (AList.update cid ?n d) cid = Some ?n" "cond_severity ?n = Some sev"
    by (simp_all add: update_conv' fired_def)
  from fire_all_again [OF st1(2,3) this assms(3,4), of sevs] st1(1) show ?thesis
    by (auto simp: fired_def)
qed

theorem escalation_monotone_witness:
  "\<exists>st' d. fire_all (\<lambda>s. s) Map.empty OFF_TOPIC ''t'' ''a'' ''1'' [INFO, CRITICAL, WARNING] = Inr (Some d, st') \<and>
    cond_severity d = Some CRITICAL \<and> occurrences d = 3 \<and> lifecycle d = LIFECYCLE_ESCALATING"
proof -
  have "cond_run (\<lambda>s. s) Map.empty [] = Inr Map.empty" by simp
  moreover have "get_active_drift Map.empty (compute_condition_id (\<lambda>s. s) OFF_TOPIC ''t'' ''a'' ''1'') = Inr None"
    by (simp add: get_active_drift_def read_active_drifts_def dict_of_def)
  moreover have "compute_condition_id (\<lambda>s. s) OFF_TOPIC ''t'' ''a'' ''1'' \<noteq> []"
    by (simp add: compute_condition_id_def)
  ultimately show ?thesis
    using escalation_monotone [of "\<lambda>s. s" "[]" Map.empty _ OFF_TOPIC "''t''" "''a''" "''1''" INFO "[CRITICAL, WARNING]"]
    by fastforce
qed

text \<open>
  Batch resolution is exact. In a state any run reaches, \<open>resolve_drifts_matching\<close> returns every
  active condition that meets all the given filters, in active-set order and marked resolved, and
  afterwards exactly the other conditions are still active.
\<close>

theorem resolve_matching_exact:
  assumes "cond_run sha1 Map.empty ops = Inr st"
  shows "\<exists>st' ds. list_active_drifts st = Inr ds \<and>
    resolve_drifts_matching st task agents turn kinds =
      Inr (map resolved (filter (drift_matches task agents turn kinds) ds), st') \<and>
    list_active_drifts st' = Inr (filter (\<lambda>d. \<not> drift_matches task agents turn kinds d) ds)"
proof -
  obtain d where d: "active_inv st d" "counts_pos d"
    using cond_run_inv [OF active_inv_empty, of sha1 ops] assms by (auto simp: counts_pos_def)
  from resolve_matching_refines [OF d refl, of task agents turn kinds] list_active_inv [OF d(1)] show ?thesis
    by (force dest: list_active_inv simp: filter_map comp_def)
qed

theorem resolve_matching_exact_witness:
  "\<exists>st' ds. list_active_drifts Map.empty = Inr ds \<and>
    resolve_drifts_matching Map.empty (Some ''t'') None None None = Inr (map resolved (filter (drift_matches (Some ''t'') None None None) ds), st')"
  using resolve_matching_exact [of "\<lambda>s. s" "[]" Map.empty "Some ''t''" None None None] by fastforce

end
