(* ===== verification/Signal_Ledger.thy ===== *)
theory Signal_Ledger
  imports Drift_Conditions
begin

text \<open>
  \<open>src/goldfive/signal_ledger.py\<close>: the observe-only ledger of corrective signals, one entry per
  \<open>(drift kind, task)\<close> key, serialised under \<open>goldfive.signal_ledger\<close>. Every mutator reads the whole
  dictionary, folds one change into it and writes it back.
\<close>

definition KEY_SIGNAL_LEDGER :: string where "KEY_SIGNAL_LEDGER = ''goldfive.signal_ledger''"
definition KEY_SEP :: string where "KEY_SEP = [char_of (31::nat)]"
definition FIRE_IDS_CAP :: nat where "FIRE_IDS_CAP = 512"

definition SIGNAL_OUTCOME_SELF_CORRECTED_AFTER_SIGNAL :: string where
  "SIGNAL_OUTCOME_SELF_CORRECTED_AFTER_SIGNAL = ''self_corrected_after_signal''"
definition SIGNAL_OUTCOME_SELF_CORRECTED_UNAIDED :: string where
  "SIGNAL_OUTCOME_SELF_CORRECTED_UNAIDED = ''self_corrected_unaided''"
definition SIGNAL_OUTCOME_ESCALATED :: string where "SIGNAL_OUTCOME_ESCALATED = ''escalated''"
definition SIGNAL_OUTCOME_USER_INTERVENED :: string where "SIGNAL_OUTCOME_USER_INTERVENED = ''user_intervened''"
definition SIGNAL_OUTCOME_INVOCATION_ENDED :: string where "SIGNAL_OUTCOME_INVOCATION_ENDED = ''invocation_ended''"

lemmas outcome_defs = SIGNAL_OUTCOME_SELF_CORRECTED_AFTER_SIGNAL_def SIGNAL_OUTCOME_SELF_CORRECTED_UNAIDED_def
  SIGNAL_OUTCOME_ESCALATED_def SIGNAL_OUTCOME_USER_INTERVENED_def SIGNAL_OUTCOME_INVOCATION_ENDED_def

definition compose_key :: "string \<Rightarrow> string \<Rightarrow> string" where
  "compose_key kind task = kind @ KEY_SEP @ task"

section \<open>Records\<close>

record DeliveryRecord =
  dl_drift_id :: string
  channel :: string
  dl_turn :: int
  dry_run :: bool
  dl_severity :: string
  ladder_level :: string
  note_text :: string

record LedgerEntry =
  le_kind :: string
  le_task :: string
  fire_count :: int
  refire_count :: int
  fired_drift_ids :: "string list"
  first_fire_turn :: int
  last_fire_turn :: int
  deliveries :: "DeliveryRecord list"
  first_delivery_turn :: int
  le_outcome :: string
  outcome_turn :: int

definition mk_entry :: "string \<Rightarrow> string \<Rightarrow> LedgerEntry" where
  "mk_entry kind task =
     \<lparr>le_kind = kind, le_task = task, fire_count = 0, refire_count = 0, fired_drift_ids = [],
      first_fire_turn = -1, last_fire_turn = -1, deliveries = [], first_delivery_turn = -1,
      le_outcome = [], outcome_turn = -1\<rparr>"

definition coerce_int :: "json \<Rightarrow> int \<Rightarrow> int" where
  "coerce_int v dflt = (case py_int v of Inr n \<Rightarrow> n | Inl _ \<Rightarrow> dflt)"

definition delivery_to_dict :: "DeliveryRecord \<Rightarrow> (string \<times> json) list" where
  "delivery_to_dict d =
     [(''drift_id'', JStr (dl_drift_id d)), (''channel'', JStr (channel d)), (''turn'', JInt (dl_turn d)),
      (''dry_run'', JBool (dry_run d)), (''severity'', JStr (dl_severity d)),
      (''ladder_level'', JStr (ladder_level d)), (''note_text'', JStr (note_text d))]"

definition delivery_from_dict :: "(string \<times> json) list \<Rightarrow> DeliveryRecord" where
  "delivery_from_dict p =
     (let str = (\<lambda>k. str_or_empty (jget p k (JStr [])))
      in \<lparr>dl_drift_id = str ''drift_id'', channel = str ''channel'',
          dl_turn = coerce_int (jget p ''turn'' (JInt 0)) 0,
          dry_run = truthy (jget p ''dry_run'' (JBool False)), dl_severity = str ''severity'',
          ladder_level = str ''ladder_level'', note_text = str ''note_text''\<rparr>)"

definition has_delivery :: "LedgerEntry \<Rightarrow> bool" where
  "has_delivery e \<longleftrightarrow> deliveries e \<noteq> []"

definition has_real_delivery :: "LedgerEntry \<Rightarrow> bool" where
  "has_real_delivery e \<longleftrightarrow> list_ex (\<lambda>d. \<not> dry_run d) (deliveries e)"

definition is_open :: "LedgerEntry \<Rightarrow> bool" where
  "is_open e \<longleftrightarrow> le_outcome e = []"

definition turns_to_resolution :: "LedgerEntry \<Rightarrow> int" where
  "turns_to_resolution e =
     (if outcome_turn e < 0 then 0
      else let anchor = (if first_fire_turn e \<ge> 0 then first_fire_turn e else first_delivery_turn e)
           in if anchor < 0 then 0 else max 0 (outcome_turn e - anchor))"

definition entry_to_dict :: "LedgerEntry \<Rightarrow> (string \<times> json) list" where
  "entry_to_dict e =
     [(''drift_kind'', JStr (le_kind e)), (''task_id'', JStr (le_task e)), (''fire_count'', JInt (fire_count e)),
      (''refire_count'', JInt (refire_count e)), (''fired_drift_ids'', JList (map JStr (fired_drift_ids e))),
      (''first_fire_turn'', JInt (first_fire_turn e)), (''last_fire_turn'', JInt (last_fire_turn e)),
      (''deliveries'', JList (map (\<lambda>d. JDict (delivery_to_dict d)) (deliveries e))),
      (''first_delivery_turn'', JInt (first_delivery_turn e)), (''outcome'', JStr (le_outcome e)),
      (''outcome_turn'', JInt (outcome_turn e))]"

fun json_dicts :: "json \<Rightarrow> (string \<times> json) list list" where
  "json_dicts (JDict p) = [p]"
| "json_dicts _ = []"

definition entry_from_dict :: "(string \<times> json) list \<Rightarrow> LedgerEntry" where
  "entry_from_dict p =
     (let str = (\<lambda>k. str_or_empty (jget p k (JStr [])));
          dls = (case json_list (jget p ''deliveries'' (JList [])) of None \<Rightarrow> [] | Some xs \<Rightarrow> xs);
          ids = (case json_list (jget p ''fired_drift_ids'' (JList [])) of None \<Rightarrow> [] | Some xs \<Rightarrow> xs)
      in \<lparr>le_kind = str ''drift_kind'', le_task = str ''task_id'',
          fire_count = coerce_int (jget p ''fire_count'' (JInt 0)) 0,
          refire_count = coerce_int (jget p ''refire_count'' (JInt 0)) 0,
          fired_drift_ids = map py_str (filter truthy ids),
          first_fire_turn = coerce_int (jget p ''first_fire_turn'' (JInt (-1))) (-1),
          last_fire_turn = coerce_int (jget p ''last_fire_turn'' (JInt (-1))) (-1),
          deliveries = map delivery_from_dict (concat (map json_dicts dls)),
          first_delivery_turn = coerce_int (jget p ''first_delivery_turn'' (JInt (-1))) (-1),
          le_outcome = str ''outcome'', outcome_turn = coerce_int (jget p ''outcome_turn'' (JInt (-1))) (-1)\<rparr>)"

section \<open>The store\<close>

type_synonym store = "(string, (string \<times> json) list) dict"

definition read_all :: "gstate \<Rightarrow> store" where
  "read_all st =
     (case read_key st KEY_SIGNAL_LEDGER (JDict []) of
        JDict raw \<Rightarrow> dict_of (concat (map dict_payload raw))
      | _ \<Rightarrow> [])"

definition write_all :: "gstate \<Rightarrow> store \<Rightarrow> py_error + gstate" where
  "write_all st store = write_key st KEY_SIGNAL_LEDGER (JDict (map (\<lambda>kp. (fst kp, JDict (snd kp))) store))"

definition get_entry :: "store \<Rightarrow> string \<Rightarrow> LedgerEntry option" where
  "get_entry store key = map_option entry_from_dict (map_of store key)"

definition put_entry :: "store \<Rightarrow> LedgerEntry \<Rightarrow> store" where
  "put_entry store e = AList.update (compose_key (le_kind e) (le_task e)) (entry_to_dict e) store"

definition entry :: "gstate \<Rightarrow> string \<Rightarrow> string \<Rightarrow> LedgerEntry option" where
  "entry st kind task = get_entry (read_all st) (compose_key kind task)"

definition entries :: "gstate \<Rightarrow> LedgerEntry list" where
  "entries st = map (\<lambda>kp. entry_from_dict (snd kp)) (read_all st)"

definition open_entries :: "gstate \<Rightarrow> LedgerEntry list" where
  "open_entries st = filter is_open (entries st)"

section \<open>Mutators\<close>

definition fold_fire :: "LedgerEntry \<Rightarrow> string \<Rightarrow> int \<Rightarrow> LedgerEntry" where
  "fold_fire e did t =
     (let e1 = (if did \<noteq> [] \<and> did \<notin> set (fired_drift_ids e)
                then
                  (let ids = fired_drift_ids e @ [did] in
                   e\<lparr>fired_drift_ids := (if FIRE_IDS_CAP < length ids then last_n FIRE_IDS_CAP ids else ids),
                     fire_count := fire_count e + 1,
                     refire_count := (if first_delivery_turn e \<ge> 0 then refire_count e + 1 else refire_count e)\<rparr>)
                else e)
      in e1\<lparr>first_fire_turn := (if first_fire_turn e1 < 0 then t else min (first_fire_turn e1) t),
            last_fire_turn := max (last_fire_turn e1) t\<rparr>)"

definition entry_or_new :: "store \<Rightarrow> string \<Rightarrow> string \<Rightarrow> LedgerEntry" where
  "entry_or_new store kind task =
     (case get_entry store (compose_key kind task) of Some e \<Rightarrow> e | None \<Rightarrow> mk_entry kind task)"

definition record_fire :: "gstate \<Rightarrow> string \<Rightarrow> string \<Rightarrow> int \<Rightarrow> string \<Rightarrow> py_error + LedgerEntry \<times> gstate" where
  "record_fire st kind task turn did =
     (let store = read_all st;
          e = fold_fire (entry_or_new store kind task) did turn
      in ebind (write_all st (put_entry store e)) (\<lambda>st. Inr (e, st)))"

definition add_delivery :: "LedgerEntry \<Rightarrow> DeliveryRecord \<Rightarrow> LedgerEntry \<times> bool" where
  "add_delivery e d =
     (if list_ex (\<lambda>x. dl_drift_id x = dl_drift_id d \<and> channel x = channel d) (deliveries e) then (e, False)
      else (e\<lparr>deliveries := deliveries e @ [d],
              first_delivery_turn := (if first_delivery_turn e < 0 then dl_turn d
                                      else min (first_delivery_turn e) (dl_turn d))\<rparr>, True))"

definition record_delivery ::
  "gstate \<Rightarrow> string \<Rightarrow> string \<Rightarrow> DeliveryRecord \<Rightarrow> py_error + (LedgerEntry \<times> bool) \<times> gstate" where
  "record_delivery st kind task d =
     (let store = read_all st;
          (e, recorded) = add_delivery (fold_fire (entry_or_new store kind task) (dl_drift_id d) (dl_turn d)) d
      in ebind (write_all st (put_entry store e)) (\<lambda>st. Inr ((e, recorded), st)))"

definition resolve_in_store :: "store \<Rightarrow> LedgerEntry \<Rightarrow> string \<Rightarrow> int \<Rightarrow> LedgerEntry option \<times> store" where
  "resolve_in_store store e outcome turn =
     (if \<not> is_open e \<or> \<not> has_delivery e then (None, store)
      else let e' = e\<lparr>le_outcome := outcome, outcome_turn := turn\<rparr> in (Some e', put_entry store e'))"

text \<open>
  The sweep the three batch resolvers share: over a snapshot of the values, an entry is either
  skipped (\<open>None\<close>) or resolved with the outcome chosen for it.
\<close>

fun sweep :: "(LedgerEntry \<Rightarrow> string option) \<Rightarrow> int \<Rightarrow> store \<Rightarrow> store \<Rightarrow> LedgerEntry list \<times> store" where
  "sweep pick turn [] store = ([], store)"
| "sweep pick turn ((k, raw) # todo) store =
     (let e = entry_from_dict raw in
      case pick e of
        None \<Rightarrow> sweep pick turn todo store
      | Some outcome \<Rightarrow>
          (case resolve_in_store store e outcome turn of
             (None, store') \<Rightarrow> sweep pick turn todo store'
           | (Some e', store') \<Rightarrow> (let (rs, fin) = sweep pick turn todo store' in (e' # rs, fin))))"

definition sweep_state :: "(LedgerEntry \<Rightarrow> string option) \<Rightarrow> int \<Rightarrow> gstate \<Rightarrow> py_error + LedgerEntry list \<times> gstate" where
  "sweep_state pick turn st =
     (let store = read_all st; (rs, store') = sweep pick turn store store
      in if rs = [] then Inr ([], st) else ebind (write_all st store') (\<lambda>st. Inr (rs, st)))"

definition task_outcome :: "string \<Rightarrow> (string \<times> string) set option \<Rightarrow> LedgerEntry \<Rightarrow> string option" where
  "task_outcome task rendered e =
     (if le_task e \<noteq> task then None
      else if \<not> is_open e \<or> \<not> has_delivery e then None
      else
        (let seen = (case rendered of Some R \<Rightarrow> (le_kind e, le_task e) \<in> R | None \<Rightarrow> has_real_delivery e)
         in Some (if seen then SIGNAL_OUTCOME_SELF_CORRECTED_AFTER_SIGNAL
                  else SIGNAL_OUTCOME_SELF_CORRECTED_UNAIDED)))"

definition resolve_task ::
  "gstate \<Rightarrow> string \<Rightarrow> int \<Rightarrow> (string \<times> string) set option \<Rightarrow> py_error + LedgerEntry list \<times> gstate" where
  "resolve_task st task turn rendered = sweep_state (task_outcome task rendered) turn st"

definition resolve_escalated :: "gstate \<Rightarrow> string \<Rightarrow> string \<Rightarrow> int \<Rightarrow> py_error + LedgerEntry option \<times> gstate" where
  "resolve_escalated st kind task turn =
     (let store = read_all st in
      case get_entry store (compose_key kind task) of
        None \<Rightarrow> Inr (None, st)
      | Some e \<Rightarrow>
          (case resolve_in_store store e SIGNAL_OUTCOME_ESCALATED turn of
             (None, _) \<Rightarrow> Inr (None, st)
           | (Some e', store') \<Rightarrow> ebind (write_all st store') (\<lambda>st. Inr (Some e', st))))"

definition resolve_user_intervened :: "gstate \<Rightarrow> int \<Rightarrow> py_error + LedgerEntry list \<times> gstate" where
  "resolve_user_intervened st turn = sweep_state (\<lambda>_. Some SIGNAL_OUTCOME_USER_INTERVENED) turn st"

definition finalize_open :: "gstate \<Rightarrow> int \<Rightarrow> py_error + LedgerEntry list \<times> gstate" where
  "finalize_open st turn = sweep_state (\<lambda>_. Some SIGNAL_OUTCOME_INVOCATION_ENDED) turn st"

section \<open>Encoding round trip\<close>

definition entry_ok :: "LedgerEntry \<Rightarrow> bool" where
  "entry_ok e \<longleftrightarrow> [] \<notin> set (fired_drift_ids e)"

lemma delivery_roundtrip: "delivery_from_dict (delivery_to_dict d) = d"
  by (cases d) (simp add: delivery_from_dict_def delivery_to_dict_def jget_def coerce_int_def)

lemma concat_json_dicts: "concat (map (json_dicts \<circ> (\<lambda>d. JDict (f d))) xs) = map f xs"
  by (induction xs) auto

lemma entry_roundtrip: "entry_ok e \<Longrightarrow> entry_from_dict (entry_to_dict e) = e"
  by (cases e)
     (simp add: entry_ok_def entry_from_dict_def entry_to_dict_def jget_def coerce_int_def steer_ids_filter
       concat_json_dicts comp_def delivery_roundtrip map_idI)

interpretation entry_record: json_record entry_to_dict "\<lambda>p. Inr (entry_from_dict p)" entry_ok
  by unfold_locales (simp add: entry_roundtrip)

section \<open>Refinement: the serialised store implements a dictionary of entries\<close>

definition entry_key :: "LedgerEntry \<Rightarrow> string" where
  "entry_key e = compose_key (le_kind e) (le_task e)"

definition led_inv :: "gstate \<Rightarrow> (string, LedgerEntry) dict \<Rightarrow> bool" where
  "led_inv st d \<longleftrightarrow> slot_holds entry_to_dict st KEY_SIGNAL_LEDGER d \<and>
     (\<forall>kx\<in>set d. entry_ok (snd kx) \<and> fst kx = entry_key (snd kx))"

definition led_ok :: "(string, LedgerEntry) dict \<Rightarrow> bool" where
  "led_ok d \<longleftrightarrow> dict_ok d \<and> (\<forall>kx\<in>set d. entry_ok (snd kx) \<and> fst kx = entry_key (snd kx))"

lemma goldfive_ledger_key [simp]: "starts_with GOLDFIVE_PREFIX KEY_SIGNAL_LEDGER"
  by (simp add: KEY_SIGNAL_LEDGER_def GOLDFIVE_PREFIX_def)

lemma led_inv_ok: "led_inv st d \<Longrightarrow> led_ok d"
  by (simp add: led_inv_def led_ok_def slot_holds_def)

lemma led_inv_empty: "led_inv Map.empty []"
  by (simp add: led_inv_def slot_holds_def enc_dict_def)

lemma read_all_inv: "led_inv st d \<Longrightarrow> read_all st = enc_dict entry_to_dict d"
proof -
  assume inv: "led_inv st d"
  then have "distinct (map fst (enc_dict entry_to_dict d))"
    by (simp add: led_inv_def slot_holds_def dict_ok_def enc_dict_def comp_def)
  moreover have "read_key st KEY_SIGNAL_LEDGER (JDict []) =
      JDict (map (\<lambda>kp. (fst kp, JDict (snd kp))) (enc_dict entry_to_dict d))"
    using inv by (simp add: led_inv_def slot_holds_def)
  ultimately show ?thesis by (simp add: read_all_def concat_dict_payload dict_of_distinct)
qed

lemma write_all_inv:
  "led_ok d \<Longrightarrow> \<exists>st'. write_all st (enc_dict entry_to_dict d) = Inr st' \<and> led_inv st' d"
  by (simp add: write_all_def led_inv_def led_ok_def slot_holds_def)

lemma get_entry_enc:
  assumes "led_ok d"
  shows "get_entry (enc_dict entry_to_dict d) k = map_of d k"
proof (cases "map_of d k")
  case (Some e)
  then have "entry_ok e" using assms map_of_SomeD [OF Some] by (fastforce simp: led_ok_def)
  then show ?thesis using Some by (simp add: get_entry_def map_of_enc_dict entry_roundtrip)
qed (simp add: get_entry_def map_of_enc_dict)

lemma put_entry_enc: "put_entry (enc_dict entry_to_dict d) e = enc_dict entry_to_dict (AList.update (entry_key e) e d)"
  by (simp add: put_entry_def entry_key_def enc_dict_update)

lemma led_ok_update: "led_ok d \<Longrightarrow> entry_ok e \<Longrightarrow> led_ok (AList.update (entry_key e) e d)"
  by (auto simp: led_ok_def dest!: set_update)

text \<open>What a sweep does to one entry.\<close>

definition settles :: "(LedgerEntry \<Rightarrow> string option) \<Rightarrow> LedgerEntry \<Rightarrow> bool" where
  "settles pick e \<longleftrightarrow> pick e \<noteq> None \<and> is_open e \<and> has_delivery e"

definition settle :: "(LedgerEntry \<Rightarrow> string option) \<Rightarrow> int \<Rightarrow> LedgerEntry \<Rightarrow> LedgerEntry" where
  "settle pick turn e = (if settles pick e then e\<lparr>le_outcome := the (pick e), outcome_turn := turn\<rparr> else e)"

lemma settle_frame [simp]:
  "le_kind (settle pick turn e) = le_kind e" "le_task (settle pick turn e) = le_task e"
  "fired_drift_ids (settle pick turn e) = fired_drift_ids e" "deliveries (settle pick turn e) = deliveries e"
  "fire_count (settle pick turn e) = fire_count e" "refire_count (settle pick turn e) = refire_count e"
  "entry_key (settle pick turn e) = entry_key e" "entry_ok (settle pick turn e) = entry_ok e"
  by (simp_all add: settle_def entry_key_def entry_ok_def)

lemma update_middle: "k \<notin> fst ` set xs \<Longrightarrow> AList.update k v (xs @ (k, w) # ys) = xs @ (k, v) # ys"
  by (induction xs) auto

lemma sweep_spec:
  assumes "led_ok (old @ todo)"
  shows "sweep pick turn (enc_dict entry_to_dict todo) (enc_dict entry_to_dict (old @ todo)) =
    (map (settle pick turn) (filter (settles pick) (map snd todo)),
     enc_dict entry_to_dict (old @ map (\<lambda>kx. (fst kx, settle pick turn (snd kx))) todo))"
  using assms
proof (induction todo arbitrary: old)
  case Nil
  show ?case by (simp add: enc_dict_def)
next
  case (Cons kx todo)
  obtain k e where kx: "kx = (k, e)" by fastforce
  have e: "entry_ok e" "k = entry_key e" using Cons.prems kx by (auto simp: led_ok_def)
  have "dict_ok (old @ kx # todo)" using Cons.prems by (simp add: led_ok_def)
  then have fresh: "k \<notin> fst ` set old" using kx by (simp add: dict_ok_def)
  let ?e = "settle pick turn e"
  have step: "sweep pick turn (enc_dict entry_to_dict todo) (enc_dict entry_to_dict (old @ (k, ?e) # todo)) =
     (map (settle pick turn) (filter (settles pick) (map snd todo)),
      enc_dict entry_to_dict (old @ (k, ?e) # map (\<lambda>kx. (fst kx, settle pick turn (snd kx))) todo))"
  proof -
    have "dict_ok (old @ kx # todo)" "\<forall>kx\<in>set (old @ todo). entry_ok (snd kx) \<and> fst kx = entry_key (snd kx)"
      using Cons.prems by (simp_all add: led_ok_def)
    then have "led_ok ((old @ [(k, ?e)]) @ todo)" using kx e by (auto simp: led_ok_def dict_ok_def)
    from Cons.IH [OF this] show ?thesis by simp
  qed
  have put: "put_entry (enc_dict entry_to_dict (old @ (k, e) # todo)) ?e = enc_dict entry_to_dict (old @ (k, ?e) # todo)"
    using e fresh by (simp add: put_entry_enc update_middle)
  show ?case
  proof (cases "settles pick e")
    case True
    then obtain oc where oc: "pick e = Some oc" "is_open e" "has_delivery e" by (auto simp: settles_def)
    have "resolve_in_store (enc_dict entry_to_dict (old @ (k, e) # todo)) e oc turn =
        (Some ?e, enc_dict entry_to_dict (old @ (k, ?e) # todo))"
      using True oc put by (simp add: resolve_in_store_def settle_def Let_def)
    then show ?thesis using True oc step kx e by (simp add: entry_roundtrip)
  next
    case False
    then have same: "?e = e" by (simp add: settle_def)
    have "resolve_in_store (enc_dict entry_to_dict (old @ (k, e) # todo)) e oc turn =
        (None, enc_dict entry_to_dict (old @ (k, e) # todo))" if "pick e = Some oc" for oc
      using False that by (auto simp: resolve_in_store_def settles_def)
    then show ?thesis using False step kx e same by (cases "pick e") (simp_all add: entry_roundtrip)
  qed
qed

definition sweep_dict :: "(LedgerEntry \<Rightarrow> string option) \<Rightarrow> int \<Rightarrow> (string, LedgerEntry) dict \<Rightarrow> (string, LedgerEntry) dict" where
  "sweep_dict pick turn d = map (\<lambda>kx. (fst kx, settle pick turn (snd kx))) d"

lemma led_ok_sweep: "led_ok d \<Longrightarrow> led_ok (sweep_dict pick turn d)"
  by (auto simp: led_ok_def sweep_dict_def dict_ok_def comp_def)

lemma map_of_sweep: "map_of (sweep_dict pick turn d) k = map_option (settle pick turn) (map_of d k)"
  by (induction d) (auto simp: sweep_dict_def)

lemma sweep_state_refines:
  assumes inv: "led_inv st d"
  shows "\<exists>st'. sweep_state pick turn st = Inr (map (settle pick turn) (filter (settles pick) (map snd d)), st') \<and>
    led_inv st' (sweep_dict pick turn d)"
proof -
  have sw: "sweep pick turn (read_all st) (read_all st) =
      (map (settle pick turn) (filter (settles pick) (map snd d)), enc_dict entry_to_dict (sweep_dict pick turn d))"
    using sweep_spec [of "[]" d pick turn] led_inv_ok [OF inv] by (simp add: read_all_inv [OF inv] sweep_dict_def)
  show ?thesis
  proof (cases "filter (settles pick) (map snd d) = []")
    case True
    then have "sweep_dict pick turn d = d"
      by (auto simp: sweep_dict_def settle_def filter_empty_conv intro!: map_idI)
    then show ?thesis using True sw inv by (simp add: sweep_state_def)
  next
    case False
    from write_all_inv [OF led_ok_sweep [OF led_inv_ok [OF inv]], of st pick turn] obtain st' where
      "write_all st (enc_dict entry_to_dict (sweep_dict pick turn d)) = Inr st'" "led_inv st' (sweep_dict pick turn d)"
      by blast
    then show ?thesis using False sw by (simp add: sweep_state_def)
  qed
qed

section \<open>Runs\<close>

datatype ledger_op =
    LFire string string int string
  | LDeliver string string DeliveryRecord
  | LTask string int "(string \<times> string) set option"
  | LEscalated string string int
  | LUser int
  | LFinal int

fun ledger_step :: "gstate \<Rightarrow> ledger_op \<Rightarrow> py_error + gstate" where
  "ledger_step st (LFire kind task turn did) = ebind (record_fire st kind task turn did) (\<lambda>(_, st). Inr st)"
| "ledger_step st (LDeliver kind task d) = ebind (record_delivery st kind task d) (\<lambda>(_, st). Inr st)"
| "ledger_step st (LTask task turn R) = ebind (resolve_task st task turn R) (\<lambda>(_, st). Inr st)"
| "ledger_step st (LEscalated kind task turn) = ebind (resolve_escalated st kind task turn) (\<lambda>(_, st). Inr st)"
| "ledger_step st (LUser turn) = ebind (resolve_user_intervened st turn) (\<lambda>(_, st). Inr st)"
| "ledger_step st (LFinal turn) = ebind (finalize_open st turn) (\<lambda>(_, st). Inr st)"

fun ledger_run :: "gstate \<Rightarrow> ledger_op list \<Rightarrow> py_error + gstate" where
  "ledger_run st [] = Inr st"
| "ledger_run st (op # ops) = ebind (ledger_step st op) (\<lambda>st. ledger_run st ops)"

text \<open>The same step on the dictionary of entries.\<close>

definition found :: "(string, LedgerEntry) dict \<Rightarrow> string \<Rightarrow> string \<Rightarrow> LedgerEntry" where
  "found d kind task = (case map_of d (compose_key kind task) of Some e \<Rightarrow> e | None \<Rightarrow> mk_entry kind task)"

fun spec_step :: "(string, LedgerEntry) dict \<Rightarrow> ledger_op \<Rightarrow> (string, LedgerEntry) dict" where
  "spec_step d (LFire kind task turn did) =
     AList.update (compose_key kind task) (fold_fire (found d kind task) did turn) d"
| "spec_step d (LDeliver kind task x) =
     AList.update (compose_key kind task)
       (fst (add_delivery (fold_fire (found d kind task) (dl_drift_id x) (dl_turn x)) x)) d"
| "spec_step d (LTask task turn R) = sweep_dict (task_outcome task R) turn d"
| "spec_step d (LEscalated kind task turn) =
     (case map_of d (compose_key kind task) of None \<Rightarrow> d
      | Some e \<Rightarrow> AList.update (compose_key kind task) (settle (\<lambda>_. Some SIGNAL_OUTCOME_ESCALATED) turn e) d)"
| "spec_step d (LUser turn) = sweep_dict (\<lambda>_. Some SIGNAL_OUTCOME_USER_INTERVENED) turn d"
| "spec_step d (LFinal turn) = sweep_dict (\<lambda>_. Some SIGNAL_OUTCOME_INVOCATION_ENDED) turn d"

lemma fold_fire_frame [simp]:
  "le_kind (fold_fire e did t) = le_kind e" "le_task (fold_fire e did t) = le_task e"
  "entry_key (fold_fire e did t) = entry_key e" "deliveries (fold_fire e did t) = deliveries e"
  "le_outcome (fold_fire e did t) = le_outcome e" "outcome_turn (fold_fire e did t) = outcome_turn e"
  "first_delivery_turn (fold_fire e did t) = first_delivery_turn e"
  by (simp_all add: fold_fire_def entry_key_def Let_def)

lemma fold_fire_ids:
  "fired_drift_ids (fold_fire e did t) =
     (if did \<noteq> [] \<and> did \<notin> set (fired_drift_ids e) then last_n FIRE_IDS_CAP (fired_drift_ids e @ [did])
      else fired_drift_ids e)"
  by (auto simp: fold_fire_def Let_def last_n_all)

lemma fold_fire_ok: "entry_ok e \<Longrightarrow> entry_ok (fold_fire e did t)"
  using set_last_n [of FIRE_IDS_CAP "fired_drift_ids e @ [did]"] by (auto simp: entry_ok_def fold_fire_ids)

lemma add_delivery_frame [simp]:
  "le_kind (fst (add_delivery e x)) = le_kind e" "le_task (fst (add_delivery e x)) = le_task e"
  "entry_key (fst (add_delivery e x)) = entry_key e" "fired_drift_ids (fst (add_delivery e x)) = fired_drift_ids e"
  "entry_ok (fst (add_delivery e x)) = entry_ok e" "le_outcome (fst (add_delivery e x)) = le_outcome e"
  "outcome_turn (fst (add_delivery e x)) = outcome_turn e" "fire_count (fst (add_delivery e x)) = fire_count e"
  "refire_count (fst (add_delivery e x)) = refire_count e"
  by (simp_all add: add_delivery_def entry_key_def entry_ok_def)

lemma found_ok:
  assumes "led_ok d"
  shows "entry_ok (found d kind task)" "entry_key (found d kind task) = compose_key kind task"
proof -
  have "entry_ok e \<and> entry_key e = compose_key kind task" if "map_of d (compose_key kind task) = Some e" for e
    using assms map_of_SomeD [OF that] by (fastforce simp: led_ok_def)
  then show "entry_ok (found d kind task)" "entry_key (found d kind task) = compose_key kind task"
    by (auto simp: found_def mk_entry_def entry_ok_def entry_key_def split: option.splits)
qed

lemma entry_or_new_enc: "led_ok d \<Longrightarrow> entry_or_new (enc_dict entry_to_dict d) kind task = found d kind task"
  by (simp add: entry_or_new_def get_entry_enc found_def)

lemma ledger_step_refines:
  assumes inv: "led_inv st d"
  shows "\<exists>st'. ledger_step st op = Inr st' \<and> led_inv st' (spec_step d op)"
proof -
  note ok = led_inv_ok [OF inv]
  have put: "\<exists>st'. write_all st (put_entry (read_all st) e) = Inr st' \<and> led_inv st' (AList.update k e d)"
    if "entry_ok e" "entry_key e = k" for e k
    using write_all_inv [OF led_ok_update [OF ok that(1)]] that(2) by (simp add: read_all_inv [OF inv] put_entry_enc)
  show ?thesis
  proof (cases op)
    case (LFire kind task turn did)
    with put [of "fold_fire (found d kind task) did turn" "compose_key kind task"] found_ok [OF ok] show ?thesis
      by (auto simp: record_fire_def read_all_inv [OF inv] entry_or_new_enc [OF ok] fold_fire_ok)
  next
    case (LDeliver kind task x)
    let ?p = "add_delivery (fold_fire (found d kind task) (dl_drift_id x) (dl_turn x)) x"
    have "\<exists>st'. write_all st (put_entry (read_all st) (fst ?p)) = Inr st' \<and>
        led_inv st' (AList.update (compose_key kind task) (fst ?p) d)"
      using put [of "fst ?p" "compose_key kind task"] found_ok [OF ok] by (simp add: fold_fire_ok)
    with LDeliver show ?thesis
      by (auto simp: record_delivery_def read_all_inv [OF inv] entry_or_new_enc [OF ok] split: prod.splits)
  next
    case (LTask task turn R)
    with sweep_state_refines [OF inv, of "task_outcome task R" turn] show ?thesis by (auto simp: resolve_task_def)
  next
    case (LEscalated kind task turn)
    show ?thesis
    proof (cases "map_of d (compose_key kind task)")
      case None
      with LEscalated inv show ?thesis by (simp add: resolve_escalated_def read_all_inv get_entry_enc [OF ok])
    next
      case (Some e)
      have e: "entry_ok e" "entry_key e = compose_key kind task"
        using ok map_of_SomeD [OF Some] by (fastforce simp: led_ok_def)+
      show ?thesis
      proof (cases "is_open e \<and> has_delivery e")
        case True
        let ?e = "settle (\<lambda>_. Some SIGNAL_OUTCOME_ESCALATED) turn e"
        have "resolve_in_store (read_all st) e SIGNAL_OUTCOME_ESCALATED turn = (Some ?e, put_entry (read_all st) ?e)"
          using True by (simp add: resolve_in_store_def settle_def settles_def Let_def)
        with put [of ?e "compose_key kind task"] e Some LEscalated show ?thesis
          by (auto simp: resolve_escalated_def read_all_inv [OF inv] get_entry_enc [OF ok])
      next
        case False
        then have "settle (\<lambda>_. Some SIGNAL_OUTCOME_ESCALATED) turn e = e" by (auto simp: settle_def settles_def)
        moreover have "resolve_in_store s e SIGNAL_OUTCOME_ESCALATED turn = (None, s)" for s
          using False by (auto simp: resolve_in_store_def)
        moreover have "AList.update (compose_key kind task) e d = d" using Some by (induction d) (auto split: if_splits)
        ultimately show ?thesis
          using Some LEscalated inv by (simp add: resolve_escalated_def read_all_inv get_entry_enc [OF ok] Let_def)
      qed
    qed
  next
    case (LUser turn)
    with sweep_state_refines [OF inv, of "\<lambda>_. Some SIGNAL_OUTCOME_USER_INTERVENED" turn] show ?thesis
      by (auto simp: resolve_user_intervened_def)
  next
    case (LFinal turn)
    with sweep_state_refines [OF inv, of "\<lambda>_. Some SIGNAL_OUTCOME_INVOCATION_ENDED" turn] show ?thesis
      by (auto simp: finalize_open_def)
  qed
qed

lemma ledger_run_refines:
  "led_inv st d \<Longrightarrow> \<exists>st'. ledger_run st ops = Inr st' \<and> led_inv st' (foldl spec_step d ops)"
proof (induction ops arbitrary: st d)
  case (Cons op ops)
  from ledger_step_refines [OF Cons.prems, of op] Cons.IH show ?case by fastforce
qed auto

lemma entry_inv: "led_inv st d \<Longrightarrow> entry st kind task = map_of d (compose_key kind task)"
  by (simp add: entry_def read_all_inv get_entry_enc led_inv_ok)

lemma entries_inv: "led_inv st d \<Longrightarrow> entries st = map snd d"
  by (auto simp: entries_def read_all_inv enc_dict_def led_inv_def entry_roundtrip)

section \<open>Invariants of the entries\<close>

definition entry_wf :: "LedgerEntry \<Rightarrow> bool" where
  "entry_wf e \<longleftrightarrow> (le_outcome e \<noteq> [] \<longrightarrow> deliveries e \<noteq> []) \<and>
     distinct (map (\<lambda>x. (dl_drift_id x, channel x)) (deliveries e)) \<and>
     distinct (fired_drift_ids e) \<and> length (fired_drift_ids e) \<le> FIRE_IDS_CAP \<and>
     0 \<le> refire_count e \<and> refire_count e \<le> fire_count e"

lemma mk_entry_wf: "entry_wf (mk_entry kind task)"
  by (simp add: entry_wf_def mk_entry_def)

lemma fold_fire_wf: "entry_wf e \<Longrightarrow> entry_wf (fold_fire e did t)"
proof -
  assume e: "entry_wf e"
  have "distinct (last_n FIRE_IDS_CAP (fired_drift_ids e @ [did]))" if "did \<notin> set (fired_drift_ids e)"
    using e that by (simp add: entry_wf_def last_n_def del: drop_append)
  moreover have "fire_count e \<le> fire_count (fold_fire e did t)"
    "0 \<le> refire_count (fold_fire e did t)" "refire_count (fold_fire e did t) \<le> fire_count (fold_fire e did t)"
    using e by (simp_all add: entry_wf_def fold_fire_def Let_def)
  ultimately show ?thesis using e by (simp add: entry_wf_def fold_fire_ids)
qed

lemma add_delivery_wf: "entry_wf e \<Longrightarrow> entry_wf (fst (add_delivery e x))"
  by (auto simp: entry_wf_def add_delivery_def list_ex_iff)

lemma settle_wf: "entry_wf e \<Longrightarrow> entry_wf (settle pick turn e)"
  by (auto simp: entry_wf_def settle_def settles_def has_delivery_def)

definition led_wf :: "(string, LedgerEntry) dict \<Rightarrow> bool" where
  "led_wf d \<longleftrightarrow> (\<forall>kx\<in>set d. entry_wf (snd kx))"

lemma led_wf_found: "led_wf d \<Longrightarrow> entry_wf (found d kind task)"
proof (cases "map_of d (compose_key kind task)")
  case (Some e)
  then show "led_wf d \<Longrightarrow> ?thesis" using map_of_SomeD [OF Some] by (auto simp: found_def led_wf_def)
qed (simp add: found_def mk_entry_wf)

lemma led_wf_update: "led_wf d \<Longrightarrow> entry_wf e \<Longrightarrow> led_wf (AList.update k e d)"
  by (auto simp: led_wf_def dest!: set_update)

lemma led_wf_sweep: "led_wf d \<Longrightarrow> led_wf (sweep_dict pick turn d)"
  by (auto simp: led_wf_def sweep_dict_def settle_wf)

lemma led_wf_step: "led_wf d \<Longrightarrow> led_wf (spec_step d op)"
proof (cases op)
  case (LEscalated kind task turn)
  have "led_wf d \<Longrightarrow> map_of d k = Some e \<Longrightarrow> entry_wf e" for k e
    by (drule map_of_SomeD) (auto simp: led_wf_def)
  with LEscalated show "led_wf d \<Longrightarrow> ?thesis"
    by (auto split: option.splits intro!: led_wf_update settle_wf)
qed (auto intro!: led_wf_update led_wf_sweep fold_fire_wf add_delivery_wf led_wf_found)

lemma led_wf_run: "led_wf d \<Longrightarrow> led_wf (foldl spec_step d ops)"
  by (induction ops arbitrary: d) (simp_all add: led_wf_step)

text \<open>A resolved entry keeps its outcome whatever happens next.\<close>

lemma outcome_kept_step:
  assumes "map_of d k = Some e" "le_outcome e \<noteq> []"
  shows "\<exists>e'. map_of (spec_step d op) k = Some e' \<and> le_outcome e' = le_outcome e \<and> outcome_turn e' = outcome_turn e"
proof -
  have closed: "settle pick turn e = e" for pick turn
    using assms(2) by (simp add: settle_def settles_def is_open_def)
  show ?thesis
    using assms closed
    by (cases op) (auto simp: update_conv' map_of_sweep found_def split: option.splits)
qed

lemma outcome_kept_run:
  "map_of d k = Some e \<Longrightarrow> le_outcome e \<noteq> [] \<Longrightarrow>
   \<exists>e'. map_of (foldl spec_step d ops) k = Some e' \<and> le_outcome e' = le_outcome e \<and> outcome_turn e' = outcome_turn e"
proof (induction ops arbitrary: d e)
  case (Cons op ops)
  from outcome_kept_step [OF Cons.prems, of op] obtain e1 where
    e1: "map_of (spec_step d op) k = Some e1" "le_outcome e1 = le_outcome e" "outcome_turn e1 = outcome_turn e" by blast
  with Cons.IH [of "spec_step d op" e1] Cons.prems(2) show ?case by auto
qed auto

text \<open>The distinct, non-empty drift ids that a run reported for a key.\<close>

fun op_ids :: "string \<Rightarrow> ledger_op \<Rightarrow> string set" where
  "op_ids key (LFire kind task turn did) = (if compose_key kind task = key \<and> did \<noteq> [] then {did} else {})"
| "op_ids key (LDeliver kind task x) = (if compose_key kind task = key \<and> dl_drift_id x \<noteq> [] then {dl_drift_id x} else {})"
| "op_ids key _ = {}"

definition fired_ids :: "string \<Rightarrow> ledger_op list \<Rightarrow> string set" where
  "fired_ids key ops = (\<Union>op\<in>set ops. op_ids key op)"

definition counted :: "string set \<Rightarrow> LedgerEntry option \<Rightarrow> bool" where
  "counted F me \<longleftrightarrow> (case me of None \<Rightarrow> F = {}
     | Some e \<Rightarrow> set (fired_drift_ids e) = F \<and> distinct (fired_drift_ids e) \<and> fire_count e = int (card F))"

lemma counted_fold_fire:
  assumes c: "counted F (Some e)" and cap: "card (F \<union> (if did = [] then {} else {did})) \<le> FIRE_IDS_CAP"
  shows "counted (F \<union> (if did = [] then {} else {did})) (Some (fold_fire e did t))"
proof (cases "did \<noteq> [] \<and> did \<notin> set (fired_drift_ids e)")
  case True
  have F: "set (fired_drift_ids e) = F" "distinct (fired_drift_ids e)" "fire_count e = int (card F)"
    using c by (simp_all add: counted_def)
  then have fin: "finite F" by auto
  have "length (fired_drift_ids e @ [did]) \<le> FIRE_IDS_CAP"
    using True F cap fin distinct_card [OF F(2)] by simp
  then have "fired_drift_ids (fold_fire e did t) = fired_drift_ids e @ [did]"
    using True by (simp add: fold_fire_ids last_n_all)
  moreover have "fire_count (fold_fire e did t) = fire_count e + 1" using True by (simp add: fold_fire_def Let_def)
  ultimately show ?thesis using True F fin by (simp add: counted_def)
next
  case False
  then have "F \<union> (if did = [] then {} else {did}) = F" using c by (auto simp: counted_def)
  moreover have "fired_drift_ids (fold_fire e did t) = fired_drift_ids e" "fire_count (fold_fire e did t) = fire_count e"
    using False by (auto simp: fold_fire_def Let_def)
  ultimately show ?thesis using c by (simp add: counted_def)
qed

lemma counted_add_delivery: "counted F (Some (fst (add_delivery e x))) = counted F (Some e)"
  by (simp add: counted_def)

lemma counted_found:
  "counted F (map_of d (compose_key kind task)) \<Longrightarrow> counted F (Some (found d kind task))"
  by (auto simp: found_def counted_def mk_entry_def split: option.splits)

lemma counted_step:
  assumes "counted F (map_of d k)" "card (F \<union> op_ids k op) \<le> FIRE_IDS_CAP"
  shows "counted (F \<union> op_ids k op) (map_of (spec_step d op) k)"
proof (cases op)
  case (LFire kind task turn did)
  show ?thesis
  proof (cases "compose_key kind task = k")
    case True
    with assms(1) have "counted F (Some (found d kind task))" using counted_found by blast
    from counted_fold_fire [OF this, of did turn] assms(2) LFire True show ?thesis
      by (auto simp: update_conv')
  qed (use assms(1) LFire in \<open>simp add: update_conv'\<close>)
next
  case (LDeliver kind task x)
  show ?thesis
  proof (cases "compose_key kind task = k")
    case True
    with assms(1) have "counted F (Some (found d kind task))" using counted_found by blast
    from counted_fold_fire [OF this, of "dl_drift_id x" "dl_turn x"] assms(2) LDeliver True show ?thesis
      by (auto simp: update_conv' counted_add_delivery)
  qed (use assms(1) LDeliver in \<open>simp add: update_conv'\<close>)
qed (use assms(1) in \<open>auto simp: map_of_sweep counted_def update_conv' split: option.splits\<close>)

lemma counted_run: "card (fired_ids k ops) \<le> FIRE_IDS_CAP \<Longrightarrow> counted (fired_ids k ops) (map_of (foldl spec_step [] ops) k)"
proof (induction ops rule: rev_induct)
  case (snoc op ops)
  have ids: "fired_ids k (ops @ [op]) = fired_ids k ops \<union> op_ids k op" by (auto simp: fired_ids_def)
  have "finite (op_ids k op)" for op by (cases op) auto
  then have "finite (fired_ids k ops)" "finite (op_ids k op)" by (simp_all add: fired_ids_def)
  then have "card (fired_ids k ops) \<le> card (fired_ids k ops \<union> op_ids k op)" by (intro card_mono) auto
  with snoc ids have "counted (fired_ids k ops) (map_of (foldl spec_step [] ops) k)" by simp
  from counted_step [OF this, of op] snoc.prems ids show ?case by simp
qed (simp add: fired_ids_def counted_def)

lemma run_entry:
  assumes "ledger_run Map.empty ops = Inr st"
  shows "led_inv st (foldl spec_step [] ops)"
  using ledger_run_refines [OF led_inv_empty, of ops] assms by auto

section \<open>Properties\<close>

text \<open>
  C29: the first outcome wins. Once a key of the signal ledger has an outcome, no later sequence of
  fires, deliveries, task resolutions, escalations, user interventions or finalisations changes the
  outcome or the turn it was reached.
\<close>

theorem first_outcome_wins:
  assumes "ledger_run Map.empty before = Inr st" "entry st kind task = Some e" "le_outcome e \<noteq> []"
  shows "\<exists>st' e'. ledger_run st later = Inr st' \<and> entry st' kind task = Some e' \<and>
    le_outcome e' = le_outcome e \<and> outcome_turn e' = outcome_turn e"
proof -
  note inv = run_entry [OF assms(1)]
  from ledger_run_refines [OF inv, of later] obtain st' where
    st': "ledger_run st later = Inr st'" "led_inv st' (foldl spec_step (foldl spec_step [] before) later)" by blast
  have "map_of (foldl spec_step [] before) (compose_key kind task) = Some e"
    using entry_inv [OF inv, of kind task] assms(2) by simp
  from outcome_kept_run [OF this assms(3), of later] st' show ?thesis
    by (auto simp: entry_inv [OF st'(2)])
qed

definition sample_delivery :: DeliveryRecord where
  "sample_delivery = \<lparr>dl_drift_id = ''d1'', channel = ''nudge'', dl_turn = 2, dry_run = False,
     dl_severity = ''warning'', ladder_level = ''NUDGE'', note_text = ''n''\<rparr>"

definition sample_ops :: "ledger_op list" where
  "sample_ops = [LFire ''off_topic'' ''t1'' 1 ''d1'', LDeliver ''off_topic'' ''t1'' sample_delivery, LUser 3]"

lemma sample_run:
  "\<exists>st. ledger_run Map.empty sample_ops = Inr st \<and> entry st ''off_topic'' ''t1'' =
     Some (mk_entry ''off_topic'' ''t1''\<lparr>fire_count := 1, fired_drift_ids := [''d1''], first_fire_turn := 1, last_fire_turn := 2,
       deliveries := [sample_delivery], first_delivery_turn := 2, le_outcome := SIGNAL_OUTCOME_USER_INTERVENED, outcome_turn := 3\<rparr>)"
proof -
  from ledger_run_refines [OF led_inv_empty, of sample_ops] obtain st where
    st: "ledger_run Map.empty sample_ops = Inr st" "led_inv st (foldl spec_step [] sample_ops)" by blast
  then show ?thesis
    by (simp add: entry_inv sample_ops_def found_def fold_fire_def add_delivery_def sample_delivery_def mk_entry_def
        FIRE_IDS_CAP_def sweep_dict_def settle_def settles_def is_open_def has_delivery_def)
qed

theorem first_outcome_wins_witness:
  "\<exists>st st' e'. ledger_run Map.empty sample_ops = Inr st \<and>
    ledger_run st [LFire ''off_topic'' ''t1'' 5 ''d2'', LFinal 9] = Inr st' \<and> entry st' ''off_topic'' ''t1'' = Some e' \<and>
    le_outcome e' = SIGNAL_OUTCOME_USER_INTERVENED \<and> outcome_turn e' = 3"
proof -
  from sample_run obtain st e where st: "ledger_run Map.empty sample_ops = Inr st" "entry st ''off_topic'' ''t1'' = Some e"
    "le_outcome e = SIGNAL_OUTCOME_USER_INTERVENED" "outcome_turn e = 3" by force
  from first_outcome_wins [OF st(1,2)] st(3,4) show ?thesis using st(1) by (fastforce simp: outcome_defs)
qed

text \<open>
  What every entry satisfies after any run: an outcome is only ever recorded on a key that
  carried a delivery, a delivery is recorded once per drift id and channel, the retained id list has
  no repetition and at most 512 ids, and re-fires never outnumber fires.
\<close>

theorem ledger_invariant:
  "\<exists>st. ledger_run Map.empty ops = Inr st \<and> (\<forall>e\<in>set (entries st). entry_wf e)"
proof -
  from ledger_run_refines [OF led_inv_empty, of ops] obtain st where
    st: "ledger_run Map.empty ops = Inr st" "led_inv st (foldl spec_step [] ops)" by blast
  have "led_wf (foldl spec_step [] ops)" by (rule led_wf_run) (simp add: led_wf_def)
  then show ?thesis using st by (auto simp: entries_inv [OF st(2)] led_wf_def)
qed

theorem ledger_invariant_witness:
  "\<exists>st. ledger_run Map.empty sample_ops = Inr st \<and> (\<forall>e\<in>set (entries st). entry_wf e)"
  by (rule ledger_invariant)

text \<open>
  Fires are counted once per drift. After any run, the fire count of a key is the number of
  distinct non-empty drift ids reported for it by fires and deliveries, as long as there are at most
  512 of them.
\<close>

theorem fire_count_exact:
  assumes "ledger_run Map.empty ops = Inr st" "entry st kind task = Some e"
    and "card (fired_ids (compose_key kind task) ops) \<le> 512"
  shows "fire_count e = int (card (fired_ids (compose_key kind task) ops))"
proof -
  have "map_of (foldl spec_step [] ops) (compose_key kind task) = Some e"
    using entry_inv [OF run_entry [OF assms(1)], of kind task] assms(2) by simp
  then show ?thesis using counted_run [of "compose_key kind task" ops] assms(3) by (simp add: FIRE_IDS_CAP_def counted_def)
qed

theorem fire_count_exact_witness:
  "\<exists>st e. ledger_run Map.empty sample_ops = Inr st \<and> entry st ''off_topic'' ''t1'' = Some e \<and>
     fire_count e = int (card (fired_ids (compose_key ''off_topic'' ''t1'') sample_ops))"
proof -
  from sample_run obtain st e where st: "ledger_run Map.empty sample_ops = Inr st" "entry st ''off_topic'' ''t1'' = Some e" by blast
  have "card (fired_ids (compose_key ''off_topic'' ''t1'') sample_ops) \<le> 512"
    by (simp add: fired_ids_def sample_ops_def sample_delivery_def)
  from fire_count_exact [OF st this] st show ?thesis by blast
qed

text \<open>
  The task-terminal sweep is exact. After any run, \<open>resolve_task\<close> resolves precisely the open,
  delivered entries of the task; each gets \<open>self_corrected_after_signal\<close> exactly when the agent saw
  the note (its key was rendered or, without a render set, a delivery was not a dry run) and
  \<open>self_corrected_unaided\<close> otherwise; all other entries are untouched.
\<close>

theorem resolve_task_attribution:
  assumes "ledger_run Map.empty ops = Inr st"
  shows "\<exists>rs st'. resolve_task st task turn rendered = Inr (rs, st') \<and>
    map (\<lambda>e. (le_kind e, le_task e)) rs =
      map (\<lambda>e. (le_kind e, le_task e)) (filter (\<lambda>e. le_task e = task \<and> is_open e \<and> has_delivery e) (entries st)) \<and>
    (\<forall>e\<in>set rs. outcome_turn e = turn \<and> le_outcome e =
       (if (case rendered of Some R \<Rightarrow> (le_kind e, le_task e) \<in> R | None \<Rightarrow> has_real_delivery e)
        then SIGNAL_OUTCOME_SELF_CORRECTED_AFTER_SIGNAL else SIGNAL_OUTCOME_SELF_CORRECTED_UNAIDED)) \<and>
    entries st' = map (\<lambda>e. if le_task e = task \<and> is_open e \<and> has_delivery e
       then settle (task_outcome task rendered) turn e else e) (entries st)"
proof -
  let ?pick = "task_outcome task rendered"
  have sets: "settles ?pick e \<longleftrightarrow> le_task e = task \<and> is_open e \<and> has_delivery e" for e
    by (auto simp: settles_def task_outcome_def Let_def)
  note inv = run_entry [OF assms]
  from sweep_state_refines [OF inv, of ?pick turn] obtain st' where
    r: "resolve_task st task turn rendered = Inr (map (settle ?pick turn) (filter (settles ?pick) (entries st)), st')"
    "led_inv st' (sweep_dict ?pick turn (foldl spec_step [] ops))" by (auto simp: resolve_task_def entries_inv [OF inv])
  define seen where "seen e \<longleftrightarrow> (case rendered of Some R \<Rightarrow> (le_kind e, le_task e) \<in> R | None \<Rightarrow> has_real_delivery e)" for e
  have seen: "seen (settle ?pick turn e) = seen e" for e
    by (simp add: seen_def has_real_delivery_def split: option.splits)
  have out: "outcome_turn (settle ?pick turn e) = turn \<and> le_outcome (settle ?pick turn e) =
       (if seen e then SIGNAL_OUTCOME_SELF_CORRECTED_AFTER_SIGNAL else SIGNAL_OUTCOME_SELF_CORRECTED_UNAIDED)"
    if "settles ?pick e" for e
    using that by (simp add: settle_def sets) (simp add: task_outcome_def seen_def Let_def)
  have "entries st' = map (settle ?pick turn) (entries st)"
    by (simp add: entries_inv [OF inv] entries_inv [OF r(2)] sweep_dict_def)
  also have "\<dots> = map (\<lambda>e. if settles ?pick e then settle ?pick turn e else e) (entries st)"
    by (simp add: settle_def)
  finally have e: "entries st' = map (\<lambda>e. if settles ?pick e then settle ?pick turn e else e) (entries st)" .
  show ?thesis
    unfolding r(1) sets [symmetric] seen_def [symmetric] using e seen out
    by (intro exI [of _ "map (settle ?pick turn) (filter (settles ?pick) (entries st))"] exI [of _ st'] conjI)
       (auto simp: comp_def)
qed

theorem resolve_task_attribution_witness:
  "\<exists>rs st st'. ledger_run Map.empty (take 2 sample_ops) = Inr st \<and>
     resolve_task st ''t1'' 4 (Some {}) = Inr (rs, st') \<and>
     (\<forall>e\<in>set rs. le_outcome e = SIGNAL_OUTCOME_SELF_CORRECTED_UNAIDED)"
proof -
  obtain st where st: "ledger_run Map.empty (take 2 sample_ops) = Inr st"
    using ledger_run_refines [OF led_inv_empty, of "take 2 sample_ops"] by blast
  from resolve_task_attribution [OF st, of "''t1''" 4 "Some {}"] st show ?thesis by fastforce
qed

text \<open>
  Run-end finalisation closes everything. After any run, \<open>finalize_open\<close> leaves no open entry
  that carried a delivery, and calling it again resolves nothing.
\<close>

theorem finalize_closes_all:
  assumes "ledger_run Map.empty ops = Inr st"
  shows "\<exists>rs st' st2. finalize_open st turn = Inr (rs, st') \<and>
    filter has_delivery (open_entries st') = [] \<and> finalize_open st' turn2 = Inr ([], st2)"
proof -
  let ?pick = "\<lambda>_::LedgerEntry. Some SIGNAL_OUTCOME_INVOCATION_ENDED"
  note inv = run_entry [OF assms]
  from sweep_state_refines [OF inv, of ?pick turn] obtain rs st' where
    r: "finalize_open st turn = Inr (rs, st')" "led_inv st' (sweep_dict ?pick turn (foldl spec_step [] ops))"
    by (auto simp: finalize_open_def)
  have none: "\<not> settles ?pick e" if "e \<in> set (entries st')" for e
    using that by (auto simp: entries_inv [OF r(2)] sweep_dict_def settles_def settle_def is_open_def
        SIGNAL_OUTCOME_INVOCATION_ENDED_def has_delivery_def)
  from sweep_state_refines [OF r(2), of ?pick turn2] none obtain st2 where "finalize_open st' turn2 = Inr ([], st2)"
    by (auto simp: finalize_open_def entries_inv [OF r(2)] filter_empty_conv)
  moreover have "filter has_delivery (open_entries st') = []"
    using none by (auto simp: open_entries_def filter_empty_conv settles_def)
  ultimately show ?thesis using r(1) by blast
qed

theorem finalize_closes_all_witness:
  "\<exists>rs st st'. ledger_run Map.empty (take 2 sample_ops) = Inr st \<and> finalize_open st 7 = Inr (rs, st') \<and>
     filter has_delivery (open_entries st') = []"
proof -
  obtain st where st: "ledger_run Map.empty (take 2 sample_ops) = Inr st"
    using ledger_run_refines [OF led_inv_empty, of "take 2 sample_ops"] by blast
  from finalize_closes_all [OF st, of 7 8] st show ?thesis by blast
qed

end
