(* ===== verification/Observer_Notes.thy ===== *)
theory Observer_Notes
  imports Signal_Ledger
begin

text \<open>
  \<open>src/goldfive/observer_note_queue.py\<close>: the queue of advisory notes waiting to be shown to the
  wrapped agent, a list of JSON dictionaries under \<open>goldfive.observer_note_queue\<close>. The hash used when
  a drift carries no id is the parameter \<open>sha1\<close>. The texts that wrap a note for display are not
  modelled.
\<close>

definition KEY_OBSERVER_NOTE_QUEUE :: string where "KEY_OBSERVER_NOTE_QUEUE = ''goldfive.observer_note_queue''"
definition CORRECTION_DRIFT_ID_PREFIX :: string where "CORRECTION_DRIFT_ID_PREFIX = ''correction:''"
definition NOTES_CAP :: nat where "NOTES_CAP = 256"

text \<open>\<open>str.lower\<close> on Latin-1 text, and \<open>s.split(":")[-1]\<close>.\<close>

definition lower_char :: "char \<Rightarrow> char" where
  "lower_char c = (let n = (of_char c :: nat) in
     if (65 \<le> n \<and> n \<le> 90) \<or> (192 \<le> n \<and> n \<le> 222 \<and> n \<noteq> 215) then char_of (n + 32) else c)"

definition lower :: "string \<Rightarrow> string" where
  "lower s = map lower_char s"

definition last_segment :: "char \<Rightarrow> string \<Rightarrow> string" where
  "last_segment c s = rev (takeWhile (\<lambda>x. x \<noteq> c) (rev s))"

definition note_severity_rank :: "string \<Rightarrow> int" where
  "note_severity_rank s =
     (let l = lower s in if l = ''info'' then 0 else if l = ''warning'' then 1 else if l = ''critical'' then 2 else -1)"

definition mint_note_id :: "(string \<Rightarrow> string) \<Rightarrow> string \<Rightarrow> string \<Rightarrow> string \<Rightarrow> int \<Rightarrow> string \<Rightarrow> string" where
  "mint_note_id sha1 did kind task turn body =
     (if strip did \<noteq> [] then strip did
      else ''n_'' @ take 16 (sha1 (kind @ ''|'' @ task @ ''|'' @ show_int turn @ ''|'' @ body)))"

record ObserverNote =
  note_id :: string
  note_body :: string
  observation :: string
  note_severity :: string
  note_drift_id :: string
  note_kind :: string
  note_task :: string
  note_agent :: string
  note_turn :: int
  note_level :: string
  enqueued_seq :: int
  delivered :: bool
  delivered_channel :: string
  delivered_surface :: string
  delivered_turn :: int
  delivered_dry_run :: bool

definition note_to_dict :: "ObserverNote \<Rightarrow> (string \<times> json) list" where
  "note_to_dict n =
     [(''note_id'', JStr (note_id n)), (''body'', JStr (note_body n)), (''observation'', JStr (observation n)),
      (''severity'', JStr (note_severity n)), (''drift_id'', JStr (note_drift_id n)), (''kind'', JStr (note_kind n)),
      (''task_id'', JStr (note_task n)), (''agent_id'', JStr (note_agent n)), (''turn'', JInt (note_turn n)),
      (''ladder_level'', JStr (note_level n)), (''enqueued_seq'', JInt (enqueued_seq n)),
      (''delivered'', JBool (delivered n)), (''delivered_channel'', JStr (delivered_channel n)),
      (''delivered_surface'', JStr (delivered_surface n)), (''delivered_turn'', JInt (delivered_turn n)),
      (''delivered_dry_run'', JBool (delivered_dry_run n))]"

definition note_from_dict :: "(string \<times> json) list \<Rightarrow> ObserverNote" where
  "note_from_dict p =
     (let str = (\<lambda>k. str_or_empty (jget p k (JStr [])))
      in \<lparr>note_id = str ''note_id'', note_body = str ''body'', observation = str ''observation'',
          note_severity = str ''severity'', note_drift_id = str ''drift_id'', note_kind = str ''kind'',
          note_task = str ''task_id'', note_agent = str ''agent_id'',
          note_turn = coerce_int (jget p ''turn'' (JInt 0)) 0, note_level = str ''ladder_level'',
          enqueued_seq = coerce_int (jget p ''enqueued_seq'' (JInt 0)) 0,
          delivered = truthy (jget p ''delivered'' (JBool False)),
          delivered_channel = str ''delivered_channel'', delivered_surface = str ''delivered_surface'',
          delivered_turn = coerce_int (jget p ''delivered_turn'' (JInt (-1))) (-1),
          delivered_dry_run = truthy (jget p ''delivered_dry_run'' (JBool False))\<rparr>)"

definition bare_agent :: "string \<Rightarrow> string" where
  "bare_agent name = lower (last_segment (CHR '':'') (strip name))"

section \<open>Reads\<close>

definition read_notes :: "gstate \<Rightarrow> (string \<times> json) list list" where
  "read_notes st =
     (case read_key st KEY_OBSERVER_NOTE_QUEUE (JDict []) of
        JDict raw \<Rightarrow> (case json_list (jget raw ''notes'' JNull) of
                        Some ns \<Rightarrow> concat (map json_dicts ns) | None \<Rightarrow> [])
      | _ \<Rightarrow> [])"

definition write_notes :: "gstate \<Rightarrow> (string \<times> json) list list \<Rightarrow> py_error + gstate" where
  "write_notes st ns = write_key st KEY_OBSERVER_NOTE_QUEUE (JDict [(''notes'', JList (map JDict ns))])"

definition next_note_seq :: "(string \<times> json) list list \<Rightarrow> int" where
  "next_note_seq ns =
     1 + (case map (\<lambda>n. coerce_int (jget n ''enqueued_seq'' (JInt 0)) 0) ns of
            [] \<Rightarrow> 0 | x # xs \<Rightarrow> foldl max x xs)"

definition queue_notes :: "gstate \<Rightarrow> ObserverNote list" where
  "queue_notes st = map note_from_dict (read_notes st)"

definition pending_notes :: "gstate \<Rightarrow> ObserverNote list" where
  "pending_notes st = filter (\<lambda>n. \<not> delivered n) (queue_notes st)"

definition is_signal_note :: "ObserverNote \<Rightarrow> bool" where
  "is_signal_note n \<longleftrightarrow> \<not> starts_with CORRECTION_DRIFT_ID_PREFIX (note_drift_id n)"

text \<open>Which notes a surface may render: kinds, target agent, broadcast-only, no corrections.\<close>

definition eligible :: "string set option \<Rightarrow> string option \<Rightarrow> bool \<Rightarrow> bool \<Rightarrow> ObserverNote \<Rightarrow> bool" where
  "eligible kinds agent broadcast_only exclude_corrections n \<longleftrightarrow>
     \<not> delivered n \<and>
     (case kinds of None \<Rightarrow> True | Some K \<Rightarrow> note_kind n \<in> K) \<and>
     \<not> (exclude_corrections \<and> starts_with CORRECTION_DRIFT_ID_PREFIX (note_drift_id n)) \<and>
     (let na = bare_agent (note_agent n) in
      if broadcast_only then na = []
      else case agent of
             None \<Rightarrow> True
           | Some a \<Rightarrow> if a = [] then True else na = [] \<or> na = bare_agent a)"

definition note_key :: "ObserverNote \<Rightarrow> int \<times> int \<times> int" where
  "note_key n = (note_severity_rank (note_severity n), note_turn n, enqueued_seq n)"

definition key_less :: "int \<times> int \<times> int \<Rightarrow> int \<times> int \<times> int \<Rightarrow> bool" where
  "key_less a b \<longleftrightarrow> (fst a < fst b \<or> (fst a = fst b \<and>
      (fst (snd a) < fst (snd b) \<or> (fst (snd a) = fst (snd b) \<and> snd (snd a) < snd (snd b)))))"

fun peek_loop :: "(ObserverNote \<Rightarrow> bool) \<Rightarrow> ObserverNote list \<Rightarrow> ObserverNote option \<Rightarrow> int \<times> int \<times> int \<Rightarrow> ObserverNote option" where
  "peek_loop ok [] best best_key = best"
| "peek_loop ok (n # ns) best best_key =
     (if ok n \<and> key_less best_key (note_key n) then peek_loop ok ns (Some n) (note_key n)
      else peek_loop ok ns best best_key)"

definition peek_for_render :: "gstate \<Rightarrow> string set option \<Rightarrow> string option \<Rightarrow> bool \<Rightarrow> bool \<Rightarrow> ObserverNote option" where
  "peek_for_render st kinds agent broadcast_only exclude_corrections =
     peek_loop (eligible kinds agent broadcast_only exclude_corrections) (queue_notes st) None (-2, -1, -1)"

definition last_rendered_turn :: "gstate \<Rightarrow> string \<Rightarrow> string \<Rightarrow> int" where
  "last_rendered_turn st kind task =
     foldl (\<lambda>best n. if note_kind n = kind \<and> note_task n = task \<and> delivered n \<and> is_signal_note n
                     then max best (delivered_turn n) else best) (-1) (queue_notes st)"

definition signal_notes :: "gstate \<Rightarrow> string \<Rightarrow> string \<Rightarrow> ObserverNote list" where
  "signal_notes st kind task = filter (\<lambda>n. note_kind n = kind \<and> note_task n = task \<and> is_signal_note n) (queue_notes st)"

definition signal_count :: "gstate \<Rightarrow> string \<Rightarrow> string \<Rightarrow> nat" where
  "signal_count st kind task = length (signal_notes st kind task)"

definition rendered_keys :: "gstate \<Rightarrow> (string \<times> string) set" where
  "rendered_keys st =
     (\<lambda>n. (note_kind n, note_task n)) ` set (filter (\<lambda>n. delivered n \<and> \<not> delivered_dry_run n \<and> is_signal_note n) (queue_notes st))"

section \<open>Mutators\<close>

definition dict_update :: "(string \<times> json) list \<Rightarrow> (string \<times> json) list \<Rightarrow> (string \<times> json) list" where
  "dict_update d new = foldl (\<lambda>d kv. AList.update (fst kv) (snd kv) d) d new"

text \<open>\<open>_prune\<close>: over the cap, the oldest delivered notes go first, as many as are over.\<close>

fun drop_delivered :: "nat \<Rightarrow> (string \<times> json) list list \<Rightarrow> (string \<times> json) list list" where
  "drop_delivered k [] = []"
| "drop_delivered k (n # ns) =
     (if 0 < k \<and> truthy (jget n ''delivered'' (JBool False)) then drop_delivered (k - 1) ns
      else n # drop_delivered k ns)"

definition prune :: "(string \<times> json) list list \<Rightarrow> (string \<times> json) list list" where
  "prune ns = (if length ns \<le> NOTES_CAP then ns else drop_delivered (length ns - NOTES_CAP) ns)"

text \<open>The first stored dictionary with the given id, with what precedes and follows it.\<close>

fun split_id :: "string \<Rightarrow> (string \<times> json) list list \<Rightarrow>
    ((string \<times> json) list list \<times> (string \<times> json) list \<times> (string \<times> json) list list) option" where
  "split_id i [] = None"
| "split_id i (n # ns) =
     (if py_str (jget n ''note_id'' (JStr [])) = i then Some ([], n, ns)
      else map_option (\<lambda>(pre, x, post). (n # pre, x, post)) (split_id i ns))"

record note_args =
  arg_body :: string
  arg_observation :: string
  arg_severity :: string
  arg_drift_id :: string
  arg_kind :: string
  arg_task :: string
  arg_agent :: string
  arg_turn :: int
  arg_level :: string

definition enqueue :: "(string \<Rightarrow> string) \<Rightarrow> gstate \<Rightarrow> note_args \<Rightarrow> py_error + ObserverNote \<times> gstate" where
  "enqueue sha1 st a =
     (let ns = read_notes st;
          i = mint_note_id sha1 (arg_drift_id a) (arg_kind a) (arg_task a) (arg_turn a) (arg_body a)
      in case split_id i ns of
           Some (pre, raw, post) \<Rightarrow>
             (let existing = note_from_dict raw in
              if delivered existing then Inr (existing, st)
              else
                (let e = existing\<lparr>note_body := arg_body a, observation := arg_observation a,
                           note_severity := arg_severity a, note_turn := arg_turn a, note_level := arg_level a\<rparr>
                 in ebind (write_notes st (pre @ dict_update raw (note_to_dict e) # post)) (\<lambda>st. Inr (e, st))))
         | None \<Rightarrow>
             (let n = \<lparr>note_id = i, note_body = arg_body a, observation = arg_observation a,
                       note_severity = arg_severity a, note_drift_id = arg_drift_id a, note_kind = arg_kind a,
                       note_task = arg_task a, note_agent = arg_agent a, note_turn = arg_turn a,
                       note_level = arg_level a, enqueued_seq = next_note_seq ns, delivered = False,
                       delivered_channel = [], delivered_surface = [], delivered_turn = -1, delivered_dry_run = False\<rparr>
              in ebind (write_notes st (prune (ns @ [note_to_dict n]))) (\<lambda>st. Inr (n, st))))"

definition mark_delivered :: "gstate \<Rightarrow> string \<Rightarrow> string \<Rightarrow> int \<Rightarrow> string \<Rightarrow> bool \<Rightarrow> py_error + bool \<times> gstate" where
  "mark_delivered st i chan turn surface dry =
     (case split_id i (read_notes st) of
        None \<Rightarrow> Inr (False, st)
      | Some (pre, raw, post) \<Rightarrow>
          if truthy (jget raw ''delivered'' (JBool False)) then Inr (False, st)
          else ebind (write_notes st (pre @ dict_update raw
                 [(''delivered'', JBool True), (''delivered_channel'', JStr chan), (''delivered_surface'', JStr surface),
                  (''delivered_turn'', JInt turn), (''delivered_dry_run'', JBool dry)] # post)) (\<lambda>st. Inr (True, st)))"

definition stale_correction :: "string \<Rightarrow> string \<Rightarrow> ObserverNote \<Rightarrow> bool" where
  "stale_correction task agent n \<longleftrightarrow>
     \<not> delivered n \<and> starts_with CORRECTION_DRIFT_ID_PREFIX (note_drift_id n) \<and> note_task n = task \<and>
     (agent = [] \<or> bare_agent (note_agent n) = bare_agent agent)"

definition evict_pending_correction_notes :: "gstate \<Rightarrow> string \<Rightarrow> string \<Rightarrow> py_error + string list \<times> gstate" where
  "evict_pending_correction_notes st task agent =
     (if task = [] then Inr ([], st)
      else
        (let ns = read_notes st;
             evicted = filter (\<lambda>p. stale_correction task agent (note_from_dict p)) ns
         in if evicted = [] then Inr ([], st)
            else ebind (write_notes st (filter (\<lambda>p. \<not> stale_correction task agent (note_from_dict p)) ns))
                   (\<lambda>st. Inr (map (\<lambda>p. note_id (note_from_dict p)) evicted, st))))"

section \<open>Encoding round trip\<close>

lemma note_roundtrip [simp]: "note_from_dict (note_to_dict n) = n"
  by (cases n) (simp add: note_from_dict_def note_to_dict_def jget_def coerce_int_def)

interpretation note_record: json_record note_to_dict "\<lambda>p. Inr (note_from_dict p)" "\<lambda>_. True"
  by unfold_locales simp

lemma note_dict_get [simp]:
  "jget (note_to_dict n) ''note_id'' v = JStr (note_id n)" "jget (note_to_dict n) ''delivered'' v = JBool (delivered n)"
  "jget (note_to_dict n) ''enqueued_seq'' v = JInt (enqueued_seq n)"
  by (simp_all add: note_to_dict_def jget_def)

lemma note_dict_update [simp]: "dict_update (note_to_dict n) (note_to_dict m) = note_to_dict m"
  by (simp add: dict_update_def note_to_dict_def)

definition consumed :: "string \<Rightarrow> int \<Rightarrow> string \<Rightarrow> bool \<Rightarrow> ObserverNote \<Rightarrow> ObserverNote" where
  "consumed chan turn surface dry n =
     n\<lparr>delivered := True, delivered_channel := chan, delivered_surface := surface, delivered_turn := turn,
       delivered_dry_run := dry\<rparr>"

lemma note_dict_consumed [simp]:
  "dict_update (note_to_dict n)
     [(''delivered'', JBool True), (''delivered_channel'', JStr chan), (''delivered_surface'', JStr surface),
      (''delivered_turn'', JInt turn), (''delivered_dry_run'', JBool dry)] = note_to_dict (consumed chan turn surface dry n)"
  by (simp add: dict_update_def note_to_dict_def consumed_def)

section \<open>Refinement: the slot implements a list of notes\<close>

definition notes_inv :: "gstate \<Rightarrow> ObserverNote list \<Rightarrow> bool" where
  "notes_inv st ns \<longleftrightarrow> read_notes st = map note_to_dict ns \<and> distinct (map note_id ns)"

lemma goldfive_note_key [simp]: "starts_with GOLDFIVE_PREFIX KEY_OBSERVER_NOTE_QUEUE"
  by (simp add: KEY_OBSERVER_NOTE_QUEUE_def GOLDFIVE_PREFIX_def)

lemma notes_inv_empty: "notes_inv Map.empty []"
  by (simp add: notes_inv_def read_notes_def jget_def)

lemma queue_notes_inv: "notes_inv st ns \<Longrightarrow> queue_notes st = ns"
  by (simp add: notes_inv_def queue_notes_def comp_def)

lemma read_write_notes:
  "\<exists>st'. write_notes st ps = Inr st' \<and> read_notes st' = ps"
proof -
  have "concat (map (json_dicts \<circ> JDict) ps) = ps" by (induction ps) auto
  then show ?thesis by (simp add: write_notes_def read_notes_def jget_def)
qed

lemma write_notes_inv:
  "distinct (map note_id ns) \<Longrightarrow> \<exists>st'. write_notes st (map note_to_dict ns) = Inr st' \<and> notes_inv st' ns"
  using read_write_notes [of st "map note_to_dict ns"] by (auto simp: notes_inv_def)

lemma split_id_None: "i \<notin> note_id ` set ns \<Longrightarrow> split_id i (map note_to_dict ns) = None"
  by (induction ns) auto

lemma split_id_Some:
  "i \<notin> note_id ` set xs \<Longrightarrow> note_id n = i \<Longrightarrow>
   split_id i (map note_to_dict (xs @ n # ys)) = Some (map note_to_dict xs, note_to_dict n, map note_to_dict ys)"
  by (induction xs) auto

lemma split_id_cases:
  assumes "distinct (map note_id ns)"
  obtains (absent) "i \<notin> note_id ` set ns" "split_id i (map note_to_dict ns) = None"
  | (present) xs n ys where "ns = xs @ n # ys" "note_id n = i"
      "split_id i (map note_to_dict ns) = Some (map note_to_dict xs, note_to_dict n, map note_to_dict ys)"
proof (cases "i \<in> note_id ` set ns")
  case True
  then obtain n xs ys where ns: "ns = xs @ n # ys" "note_id n = i" by (auto dest: split_list)
  with assms have "i \<notin> note_id ` set xs" by auto
  from present [OF ns] split_id_Some [OF this ns(2), of ys] ns(1) show thesis by simp
next
  case False
  from absent [OF False split_id_None [OF False]] show thesis .
qed

fun drop_del :: "nat \<Rightarrow> ObserverNote list \<Rightarrow> ObserverNote list" where
  "drop_del k [] = []"
| "drop_del k (n # ns) = (if 0 < k \<and> delivered n then drop_del (k - 1) ns else n # drop_del k ns)"

definition prune_notes :: "ObserverNote list \<Rightarrow> ObserverNote list" where
  "prune_notes ns = (if length ns \<le> NOTES_CAP then ns else drop_del (length ns - NOTES_CAP) ns)"

lemma drop_delivered_map: "drop_delivered k (map note_to_dict ns) = map note_to_dict (drop_del k ns)"
  by (induction k ns rule: drop_del.induct) auto

lemma prune_map: "prune (map note_to_dict ns) = map note_to_dict (prune_notes ns)"
  by (simp add: prune_def prune_notes_def drop_delivered_map)

lemma set_drop_del: "set (drop_del k ns) \<subseteq> set ns"
  by (induction k ns rule: drop_del.induct) auto

lemma distinct_drop_del: "distinct (map note_id ns) \<Longrightarrow> distinct (map note_id (drop_del k ns))"
proof (induction k ns rule: drop_del.induct)
  case (2 k n ns)
  then show ?case using set_drop_del [of k ns] by auto
qed simp

lemma drop_del_pending: "filter (\<lambda>n. \<not> delivered n) (drop_del k ns) = filter (\<lambda>n. \<not> delivered n) ns"
  by (induction k ns rule: drop_del.induct) auto

lemma prune_notes_facts:
  "set (prune_notes ns) \<subseteq> set ns" "distinct (map note_id ns) \<Longrightarrow> distinct (map note_id (prune_notes ns))"
  "filter (\<lambda>n. \<not> delivered n) (prune_notes ns) = filter (\<lambda>n. \<not> delivered n) ns"
  "length ns \<le> NOTES_CAP \<Longrightarrow> prune_notes ns = ns"
  using set_drop_del distinct_drop_del drop_del_pending by (auto simp: prune_notes_def)

definition args_id :: "(string \<Rightarrow> string) \<Rightarrow> note_args \<Rightarrow> string" where
  "args_id sha1 a = mint_note_id sha1 (arg_drift_id a) (arg_kind a) (arg_task a) (arg_turn a) (arg_body a)"

text \<open>The three mutators on the list of notes.\<close>

lemma enqueue_refines:
  assumes inv: "notes_inv st ns"
  shows "\<exists>m st' ns'. enqueue sha1 st a = Inr (m, st') \<and> notes_inv st' ns' \<and> note_id m = args_id sha1 a \<and>
    ((\<exists>xs n ys. ns = xs @ n # ys \<and> note_id n = args_id sha1 a \<and> delivered n \<and> m = n \<and> ns' = ns) \<or>
     (\<exists>xs n ys. ns = xs @ n # ys \<and> note_id n = args_id sha1 a \<and> \<not> delivered n \<and> \<not> delivered m \<and> ns' = xs @ m # ys) \<or>
     (args_id sha1 a \<notin> note_id ` set ns \<and> \<not> delivered m \<and> ns' = prune_notes (ns @ [m])))"
proof -
  have d: "distinct (map note_id ns)" and r: "read_notes st = map note_to_dict ns"
    using inv by (simp_all add: notes_inv_def)
  let ?i = "args_id sha1 a"
  consider (absent) "?i \<notin> note_id ` set ns" "split_id ?i (map note_to_dict ns) = None"
    | (present) xs n ys where "ns = xs @ n # ys" "note_id n = ?i"
      "split_id ?i (map note_to_dict ns) = Some (map note_to_dict xs, note_to_dict n, map note_to_dict ys)"
    by (rule split_id_cases [OF d])
  then show ?thesis
  proof cases
    case absent
    let ?m = "\<lparr>note_id = ?i, note_body = arg_body a, observation = arg_observation a,
       note_severity = arg_severity a, note_drift_id = arg_drift_id a, note_kind = arg_kind a,
       note_task = arg_task a, note_agent = arg_agent a, note_turn = arg_turn a,
       note_level = arg_level a, enqueued_seq = next_note_seq (map note_to_dict ns), delivered = False,
       delivered_channel = [], delivered_surface = [], delivered_turn = -1, delivered_dry_run = False\<rparr>"
    have "distinct (map note_id (ns @ [?m]))" using d absent(1) by simp
    from write_notes_inv [OF prune_notes_facts(2) [OF this], of st] obtain st' where
      w: "write_notes st (map note_to_dict (prune_notes (ns @ [?m]))) = Inr st'" "notes_inv st' (prune_notes (ns @ [?m]))"
      by blast
    have "prune (map note_to_dict ns @ [note_to_dict ?m]) = map note_to_dict (prune_notes (ns @ [?m]))"
      using prune_map [of "ns @ [?m]"] by simp
    with w absent have "enqueue sha1 st a = Inr (?m, st')"
      unfolding enqueue_def r args_id_def [symmetric] Let_def by simp
    with w absent(1) show ?thesis by (intro exI [of _ ?m] exI [of _ st'] exI) auto
  next
    case (present xs n ys)
    show ?thesis
    proof (cases "delivered n")
      case True
      then have "enqueue sha1 st a = Inr (n, st)"
        unfolding enqueue_def r args_id_def [symmetric] Let_def using present by simp
      with True present inv show ?thesis by (intro exI [of _ n] exI [of _ st] exI [of _ ns]) auto
    next
      case False
      let ?m = "n\<lparr>note_body := arg_body a, observation := arg_observation a,
           note_severity := arg_severity a, note_turn := arg_turn a, note_level := arg_level a\<rparr>"
      have "distinct (map note_id (xs @ ?m # ys))" using d present(1) by simp
      from write_notes_inv [OF this, of st] obtain st' where
        w: "write_notes st (map note_to_dict (xs @ ?m # ys)) = Inr st'" "notes_inv st' (xs @ ?m # ys)" by blast
      then have "enqueue sha1 st a = Inr (?m, st')"
        unfolding enqueue_def r args_id_def [symmetric] Let_def using present False by simp
      with w present False show ?thesis
        by (intro exI [of _ ?m] exI [of _ st'] exI [of _ "xs @ ?m # ys"]) auto
    qed
  qed
qed

lemma mark_refines:
  assumes inv: "notes_inv st ns"
  shows "\<exists>st' ns'. mark_delivered st i chan turn surface dry = Inr (i \<in> note_id ` {n \<in> set ns. \<not> delivered n}, st') \<and>
    notes_inv st' ns' \<and> ns' = map (\<lambda>n. if note_id n = i \<and> \<not> delivered n then consumed chan turn surface dry n else n) ns"
proof -
  have d: "distinct (map note_id ns)" and r: "read_notes st = map note_to_dict ns"
    using inv by (simp_all add: notes_inv_def)
  let ?c = "\<lambda>n. if note_id n = i \<and> \<not> delivered n then consumed chan turn surface dry n else n"
  consider (absent) "i \<notin> note_id ` set ns" "split_id i (map note_to_dict ns) = None"
    | (present) xs n ys where "ns = xs @ n # ys" "note_id n = i"
      "split_id i (map note_to_dict ns) = Some (map note_to_dict xs, note_to_dict n, map note_to_dict ys)"
    by (rule split_id_cases [OF d])
  then show ?thesis
  proof cases
    case absent
    then have "map ?c ns = ns" "i \<notin> note_id ` {n \<in> set ns. \<not> delivered n}" by (auto intro!: map_idI)
    with absent inv show ?thesis by (auto simp: mark_delivered_def r)
  next
    case (present xs n ys)
    have "i \<notin> note_id ` set xs" "i \<notin> note_id ` set ys" using d present(1,2) by auto
    then have uniq: "note_id m \<noteq> i" if "m \<in> set xs \<union> set ys" for m using that by blast
    have rest: "map ?c xs = xs" "map ?c ys = ys" using uniq by (auto intro!: map_idI)
    show ?thesis
    proof (cases "delivered n")
      case True
      then have "map ?c ns = ns" using present rest by simp
      moreover have "i \<notin> note_id ` {n \<in> set ns. \<not> delivered n}"
      proof
        assume "i \<in> note_id ` {n \<in> set ns. \<not> delivered n}"
        then obtain x where "x \<in> set ns" "note_id x = i" "\<not> delivered x" by blast
        with True uniq [of x] present(1) show False by auto
      qed
      ultimately show ?thesis using True present inv by (auto simp: mark_delivered_def r)
    next
      case False
      let ?ns = "xs @ consumed chan turn surface dry n # ys"
      have "distinct (map note_id ?ns)" using d present(1) by (simp add: consumed_def)
      from write_notes_inv [OF this, of st] obtain st' where
        w: "write_notes st (map note_to_dict ?ns) = Inr st'" "notes_inv st' ?ns" by blast
      then have "mark_delivered st i chan turn surface dry = Inr (True, st')"
        using present False by (simp add: mark_delivered_def r)
      moreover have "i \<in> note_id ` {n \<in> set ns. \<not> delivered n}" using present False by auto
      moreover have "map ?c ns = ?ns" using present False rest by simp
      ultimately show ?thesis using w by auto
    qed
  qed
qed

lemma evict_refines:
  assumes inv: "notes_inv st ns"
  shows "\<exists>st' ns' out. evict_pending_correction_notes st task agent = Inr (out, st') \<and> notes_inv st' ns' \<and>
    ns' = (if task = [] then ns else filter (\<lambda>n. \<not> stale_correction task agent n) ns)"
proof -
  have d: "distinct (map note_id ns)" and r: "read_notes st = map note_to_dict ns"
    using inv by (simp_all add: notes_inv_def)
  let ?ns = "filter (\<lambda>n. \<not> stale_correction task agent n) ns"
  show ?thesis
  proof (cases "task = [] \<or> filter (stale_correction task agent) ns = []")
    case True
    then have "task \<noteq> [] \<Longrightarrow> ?ns = ns" by (auto simp: filter_empty_conv intro!: filter_True)
    with True inv show ?thesis
      by (auto simp: evict_pending_correction_notes_def r filter_map comp_def)
  next
    case False
    have "distinct (map note_id ?ns)" using d by (simp add: distinct_map_filter)
    from write_notes_inv [OF this, of st] obtain st' where
      "write_notes st (map note_to_dict ?ns) = Inr st'" "notes_inv st' ?ns" by blast
    then show ?thesis using False by (simp add: evict_pending_correction_notes_def r filter_map comp_def)
  qed
qed

section \<open>Runs\<close>

datatype note_op = NEnqueue note_args | NMark string string int string bool | NEvict string string

text \<open>One operation, with the ids it newly delivered.\<close>

fun note_step :: "(string \<Rightarrow> string) \<Rightarrow> gstate \<Rightarrow> note_op \<Rightarrow> py_error + string list \<times> gstate" where
  "note_step sha1 st (NEnqueue a) = ebind (enqueue sha1 st a) (\<lambda>(_, st). Inr ([], st))"
| "note_step sha1 st (NMark i chan turn surface dry) =
     ebind (mark_delivered st i chan turn surface dry) (\<lambda>(b, st). Inr (if b then [i] else [], st))"
| "note_step sha1 st (NEvict task agent) = ebind (evict_pending_correction_notes st task agent) (\<lambda>(_, st). Inr ([], st))"

fun note_run :: "(string \<Rightarrow> string) \<Rightarrow> gstate \<Rightarrow> note_op list \<Rightarrow> py_error + string list \<times> gstate" where
  "note_run sha1 st [] = Inr ([], st)"
| "note_run sha1 st (op # ops) =
     ebind (note_step sha1 st op) (\<lambda>(out, st). ebind (note_run sha1 st ops) (\<lambda>(outs, st). Inr (out @ outs, st)))"

fun enqueued :: "(string \<Rightarrow> string) \<Rightarrow> note_op \<Rightarrow> string set" where
  "enqueued sha1 (NEnqueue a) = {args_id sha1 a}"
| "enqueued sha1 _ = {}"

text \<open>\<open>D\<close> are the ids delivered so far and \<open>E\<close> the ids enqueued so far.\<close>

definition once_inv :: "string set \<Rightarrow> string set \<Rightarrow> ObserverNote list \<Rightarrow> bool" where
  "once_inv D E ns \<longleftrightarrow> note_id ` set ns \<subseteq> E \<and> (\<forall>i\<in>D. \<exists>n\<in>set ns. note_id n = i \<and> delivered n)"

lemma length_le_enqueued:
  assumes "distinct (map note_id ns)" "note_id ` set ns \<subseteq> E" "finite E"
  shows "length ns \<le> card E"
  using assms card_mono [of E "set (map note_id ns)"] distinct_card [of "map note_id ns"] by simp

lemma note_step_once:
  assumes inv: "notes_inv st ns" and once: "once_inv D E ns"
    and E: "finite E" "enqueued sha1 op \<subseteq> E" "card E \<le> NOTES_CAP"
  shows "\<exists>out st' ns'. note_step sha1 st op = Inr (out, st') \<and> notes_inv st' ns' \<and>
    once_inv (D \<union> set out) E ns' \<and> distinct out \<and> set out \<inter> D = {}"
proof (cases op)
  case (NEnqueue a)
  from enqueue_refines [OF inv, of sha1 a] obtain m st' ns' where
    m: "enqueue sha1 st a = Inr (m, st')" "notes_inv st' ns'" "note_id m = args_id sha1 a"
    "(\<exists>xs n ys. ns = xs @ n # ys \<and> note_id n = args_id sha1 a \<and> delivered n \<and> m = n \<and> ns' = ns) \<or>
     (\<exists>xs n ys. ns = xs @ n # ys \<and> note_id n = args_id sha1 a \<and> \<not> delivered n \<and> \<not> delivered m \<and> ns' = xs @ m # ys) \<or>
     (args_id sha1 a \<notin> note_id ` set ns \<and> \<not> delivered m \<and> ns' = prune_notes (ns @ [m]))" by blast
  have "args_id sha1 a \<in> E" using E NEnqueue by simp
  have "once_inv D E ns'"
    using m(4)
  proof (elim disjE exE conjE)
    assume new: "args_id sha1 a \<notin> note_id ` set ns" "ns' = prune_notes (ns @ [m])"
    have "distinct (map note_id (ns @ [m]))" using inv new(1) m(3) by (simp add: notes_inv_def)
    moreover have "note_id ` set (ns @ [m]) \<subseteq> E" using once m(3) \<open>args_id sha1 a \<in> E\<close> by (simp add: once_inv_def)
    ultimately have "ns' = ns @ [m]"
      using length_le_enqueued [of "ns @ [m]" E] E new(2) prune_notes_facts(4) by simp
    then show ?thesis using once m(3) \<open>args_id sha1 a \<in> E\<close> by (auto simp: once_inv_def)
  next
    fix xs n ys assume old: "ns = xs @ n # ys" "note_id n = args_id sha1 a" "\<not> delivered n" "ns' = xs @ m # ys"
    show ?thesis unfolding once_inv_def
    proof (intro conjI ballI)
      show "note_id ` set ns' \<subseteq> E" using once old m(3) by (auto simp: once_inv_def)
    next
      fix i assume "i \<in> D"
      with once obtain x where "x \<in> set ns" "note_id x = i" "delivered x" by (auto simp: once_inv_def)
      then show "\<exists>n\<in>set ns'. note_id n = i \<and> delivered n" using old by (intro bexI [of _ x]) auto
    qed
  qed (use once in simp)
  with NEnqueue m(1,2) show ?thesis by auto
next
  case (NMark i chan turn surface dry)
  from mark_refines [OF inv, of i chan turn surface dry] obtain st' ns' where
    m: "mark_delivered st i chan turn surface dry = Inr (i \<in> note_id ` {n \<in> set ns. \<not> delivered n}, st')"
    "notes_inv st' ns'" "ns' = map (\<lambda>n. if note_id n = i \<and> \<not> delivered n then consumed chan turn surface dry n else n) ns"
    by blast
  have "map note_id ns' = map note_id ns" unfolding m(3) by (simp add: consumed_def)
  then have keep: "note_id ` set ns' = note_id ` set ns" by (metis set_map)
  have tomb: "\<exists>n\<in>set ns'. note_id n = j \<and> delivered n" if "\<exists>n\<in>set ns. note_id n = j \<and> (delivered n \<or> j = i)" for j
  proof -
    from that obtain n where n: "n \<in> set ns" "note_id n = j" "delivered n \<or> j = i" by blast
    let ?n = "if note_id n = i \<and> \<not> delivered n then consumed chan turn surface dry n else n"
    have "?n \<in> set ns'" using n(1) unfolding m(3) by (simp add: image_iff) blast
    moreover have "note_id ?n = j \<and> delivered ?n" using n by (auto simp: consumed_def)
    ultimately show ?thesis by blast
  qed
  have fresh: "i \<notin> D" if "i \<in> note_id ` {n \<in> set ns. \<not> delivered n}"
  proof
    assume "i \<in> D"
    with once obtain x where "x \<in> set ns" "note_id x = i" "delivered x" by (auto simp: once_inv_def)
    moreover from that obtain y where "y \<in> set ns" "note_id y = i" "\<not> delivered y" by auto
    ultimately show False using inv by (metis notes_inv_def distinct_map inj_onD)
  qed
  have "once_inv (D \<union> (if i \<in> note_id ` {n \<in> set ns. \<not> delivered n} then {i} else {})) E ns'"
    unfolding once_inv_def
  proof (intro conjI ballI)
    show "note_id ` set ns' \<subseteq> E" using once keep by (simp add: once_inv_def)
  next
    fix j assume "j \<in> D \<union> (if i \<in> note_id ` {n \<in> set ns. \<not> delivered n} then {i} else {})"
    then have "\<exists>n\<in>set ns. note_id n = j \<and> (delivered n \<or> j = i)"
      using once unfolding once_inv_def by (auto split: if_splits)
    then show "\<exists>n\<in>set ns'. note_id n = j \<and> delivered n" by (rule tomb)
  qed
  with m(1,2) NMark fresh show ?thesis
    by (cases "i \<in> note_id ` {n \<in> set ns. \<not> delivered n}") fastforce+
next
  case (NEvict task agent)
  from evict_refines [OF inv, of task agent] obtain st' ns' out where
    m: "evict_pending_correction_notes st task agent = Inr (out, st')" "notes_inv st' ns'"
    "ns' = (if task = [] then ns else filter (\<lambda>n. \<not> stale_correction task agent n) ns)" by blast
  have "once_inv D E ns'" using once m(3) by (auto simp: once_inv_def stale_correction_def)
  with m NEvict show ?thesis by auto
qed

lemma note_run_once:
  "notes_inv st ns \<Longrightarrow> once_inv D E ns \<Longrightarrow> finite E \<Longrightarrow> (\<Union>op\<in>set ops. enqueued sha1 op) \<subseteq> E \<Longrightarrow> card E \<le> NOTES_CAP \<Longrightarrow>
   \<exists>outs st' ns'. note_run sha1 st ops = Inr (outs, st') \<and> notes_inv st' ns' \<and> distinct outs \<and> set outs \<inter> D = {}"
proof (induction ops arbitrary: st ns D)
  case (Cons op ops)
  from Cons.prems(4) have "enqueued sha1 op \<subseteq> E" by auto
  from note_step_once [OF Cons.prems(1-3) this Cons.prems(5)] obtain out st1 ns1 where
    s: "note_step sha1 st op = Inr (out, st1)" "notes_inv st1 ns1" "once_inv (D \<union> set out) E ns1" "distinct out"
    "set out \<inter> D = {}" by blast
  from Cons.IH [OF s(2,3) Cons.prems(3) _ Cons.prems(5)] Cons.prems(4) obtain outs st' ns' where
    "note_run sha1 st1 ops = Inr (outs, st')" "notes_inv st' ns'" "distinct outs" "set outs \<inter> (D \<union> set out) = {}" by auto
  with s show ?case by (intro exI [of _ "out @ outs"] exI [of _ st'] exI [of _ ns']) auto
qed auto

lemma notes_reachable: "notes_inv st ns \<Longrightarrow> \<exists>outs st' ns'. note_run sha1 st ops = Inr (outs, st') \<and> notes_inv st' ns'"
proof (induction ops arbitrary: st ns)
  case (Cons op ops)
  have "\<exists>out st' ns'. note_step sha1 st op = Inr (out, st') \<and> notes_inv st' ns'"
  proof (cases op)
    case (NEnqueue a)
    with enqueue_refines [OF Cons.prems, of sha1 a] show ?thesis by auto
  next
    case (NMark i chan turn surface dry)
    with mark_refines [OF Cons.prems, of i chan turn surface dry] show ?thesis by auto
  next
    case (NEvict task agent)
    with evict_refines [OF Cons.prems, of task agent] show ?thesis by auto
  qed
  then obtain out st1 ns1 where s: "note_step sha1 st op = Inr (out, st1)" "notes_inv st1 ns1" by blast
  from Cons.IH [OF s(2)] s(1) show ?case by auto
qed auto

section \<open>Selection\<close>

lemma key_less_trans: "key_less a b \<Longrightarrow> key_less b c \<Longrightarrow> key_less a c"
  by (auto simp: key_less_def)

lemma key_less_total: "\<not> key_less a b \<Longrightarrow> \<not> key_less c a \<Longrightarrow> \<not> key_less c b"
  by (auto simp: key_less_def)

lemma peek_loop_spec:
  "(\<forall>n\<in>set ns. ok n \<longrightarrow> \<not> key_less best_key (note_key n)) \<and> peek_loop ok ns best best_key = best \<or>
    (\<exists>b\<in>set ns. ok b \<and> peek_loop ok ns best best_key = Some b \<and> key_less best_key (note_key b) \<and>
       (\<forall>n\<in>set ns. ok n \<longrightarrow> \<not> key_less (note_key b) (note_key n)))"
proof (induction ns arbitrary: best best_key)
  case (Cons n ns)
  show ?case
  proof (cases "ok n \<and> key_less best_key (note_key n)")
    case True
    have irr: "\<not> key_less k k" for k by (simp add: key_less_def)
    have "(\<forall>m\<in>set ns. ok m \<longrightarrow> \<not> key_less (note_key n) (note_key m)) \<and> peek_loop ok ns (Some n) (note_key n) = Some n \<or>
      (\<exists>b\<in>set ns. ok b \<and> peek_loop ok ns (Some n) (note_key n) = Some b \<and> key_less (note_key n) (note_key b) \<and>
         (\<forall>m\<in>set ns. ok m \<longrightarrow> \<not> key_less (note_key b) (note_key m)))"
      by (rule Cons.IH)
    then show ?thesis
    proof (elim disjE bexE conjE)
      fix b assume b: "b \<in> set ns" "ok b" "peek_loop ok ns (Some n) (note_key n) = Some b"
        "key_less (note_key n) (note_key b)" "\<forall>m\<in>set ns. ok m \<longrightarrow> \<not> key_less (note_key b) (note_key m)"
      have "\<not> key_less (note_key b) (note_key n)" using b(4) irr key_less_trans by blast
      moreover have "key_less best_key (note_key b)" using True b(4) by (blast intro: key_less_trans)
      ultimately show ?thesis using b True by (intro disjI2 bexI [of _ b]) auto
    next
      assume "\<forall>m\<in>set ns. ok m \<longrightarrow> \<not> key_less (note_key n) (note_key m)"
        "peek_loop ok ns (Some n) (note_key n) = Some n"
      with True irr show ?thesis by (intro disjI2 bexI [of _ n]) auto
    qed
  next
    case False
    from Cons.IH [of best_key best] show ?thesis
    proof (elim disjE bexE conjE)
      assume "\<forall>m\<in>set ns. ok m \<longrightarrow> \<not> key_less best_key (note_key m)" "peek_loop ok ns best best_key = best"
      with False show ?thesis by (intro disjI1) auto
    next
      fix b assume b: "b \<in> set ns" "ok b" "peek_loop ok ns best best_key = Some b" "key_less best_key (note_key b)"
        "\<forall>m\<in>set ns. ok m \<longrightarrow> \<not> key_less (note_key b) (note_key m)"
      have "\<not> key_less (note_key b) (note_key n)" if "ok n" using that False b(4) key_less_trans by blast
      with b False show ?thesis by (intro disjI2 bexI [of _ b]) auto
    qed
  qed
qed simp

lemma note_key_above: "key_less (-2, -1, -1) (note_key n)"
  by (simp add: key_less_def note_key_def note_severity_rank_def Let_def)

section \<open>Properties\<close>


definition sample_args :: note_args where
  "sample_args = \<lparr>arg_body = ''b'', arg_observation = ''o'', arg_severity = ''warning'', arg_drift_id = ''d1'',
     arg_kind = ''off_topic'', arg_task = ''t1'', arg_agent = [], arg_turn = 1, arg_level = ''NUDGE''\<rparr>"


text \<open>
  Coalescing picks the right note. On every state \<open>peek_for_render\<close> returns nothing exactly when
  no pending note is eligible for the surface; otherwise it returns an eligible pending note such
  that no other eligible note is more severe, or as severe and newer.
\<close>

theorem peek_most_severe:
  "case peek_for_render st kinds agent broadcast_only exclude_corrections of
    None \<Rightarrow> \<not> (\<exists>n\<in>set (queue_notes st). eligible kinds agent broadcast_only exclude_corrections n)
  | Some b \<Rightarrow> b \<in> set (queue_notes st) \<and> eligible kinds agent broadcast_only exclude_corrections b \<and>
      \<not> (\<exists>n\<in>set (queue_notes st). eligible kinds agent broadcast_only exclude_corrections n \<and> key_less (note_key b) (note_key n))"
  using peek_loop_spec [of "queue_notes st" "eligible kinds agent broadcast_only exclude_corrections" "(-2, -1, -1)" None]
    note_key_above
  by (auto simp: peek_for_render_def)

text \<open>
  A pending note is never lost to the cap. After any run, enqueueing keeps every pending note
  with another id, in order, and leaves the enqueued note stored under its id; only delivered
  tombstones are evicted.
\<close>

theorem enqueue_keeps_pending:
  assumes "note_run sha1 Map.empty ops = Inr (outs, st)"
  shows "\<exists>m st'. enqueue sha1 st a = Inr (m, st') \<and> m \<in> set (queue_notes st') \<and> note_id m = args_id sha1 a \<and>
    filter (\<lambda>n. note_id n \<noteq> args_id sha1 a) (pending_notes st') =
    filter (\<lambda>n. note_id n \<noteq> args_id sha1 a) (pending_notes st)"
proof -
  obtain ns where inv: "notes_inv st ns" using notes_reachable [OF notes_inv_empty, of sha1 ops] assms by auto
  from enqueue_refines [OF inv, of sha1 a] obtain m st' ns' where
    m: "enqueue sha1 st a = Inr (m, st')" "notes_inv st' ns'" "note_id m = args_id sha1 a"
    "(\<exists>xs n ys. ns = xs @ n # ys \<and> note_id n = args_id sha1 a \<and> delivered n \<and> m = n \<and> ns' = ns) \<or>
     (\<exists>xs n ys. ns = xs @ n # ys \<and> note_id n = args_id sha1 a \<and> \<not> delivered n \<and> \<not> delivered m \<and> ns' = xs @ m # ys) \<or>
     (args_id sha1 a \<notin> note_id ` set ns \<and> \<not> delivered m \<and> ns' = prune_notes (ns @ [m]))" by blast
  have pend: "pending_notes st = filter (\<lambda>n. \<not> delivered n) ns" "pending_notes st' = filter (\<lambda>n. \<not> delivered n) ns'"
    using inv m(2) by (simp_all add: pending_notes_def queue_notes_inv)
  have "m \<in> set ns' \<and> filter (\<lambda>n. note_id n \<noteq> args_id sha1 a) (filter (\<lambda>n. \<not> delivered n) ns') =
      filter (\<lambda>n. note_id n \<noteq> args_id sha1 a) (filter (\<lambda>n. \<not> delivered n) ns)"
    using m(4)
  proof (elim disjE exE conjE)
    assume new: "\<not> delivered m" "ns' = prune_notes (ns @ [m])"
    have p: "filter (\<lambda>n. \<not> delivered n) ns' = filter (\<lambda>n. \<not> delivered n) ns @ [m]"
      using new prune_notes_facts(3) [of "ns @ [m]"] by simp
    have "m \<in> set ns'" using arg_cong [OF p, of set] by auto
    then show ?thesis using p m(3) by simp
  qed (use m(3) in auto)
  with m pend show ?thesis by (auto simp: queue_notes_inv)
qed

lemma empty_run: "note_run (\<lambda>s. s) Map.empty [] = Inr ([], Map.empty)"
  by simp

theorem enqueue_keeps_pending_witness:
  "\<exists>m st'. enqueue (\<lambda>s. s) Map.empty sample_args = Inr (m, st') \<and> m \<in> set (queue_notes st')"
  using enqueue_keeps_pending [OF empty_run, of sample_args] by blast

end
