(* ===== verification/Invocation_Registry.thy ===== *)
theory Invocation_Registry
  imports Goldfive_Prelude
begin

text \<open>
  The process-wide registries of \<open>src/goldfive/state_store.py\<close>: which invocations of a session run, for
  which a cancel was requested, and which are being superseded by a revision. The three module-level
  dictionaries are one record; a task handle is a type parameter; \<open>sid\<close> is the session id of the
  \<open>StateStore\<close> handle, empty for a handle built without a session. Each method holds the registry
  lock for its structural changes, so a call is one atomic step.
\<close>

record 'h registries =
  active_tasks :: "string \<rightharpoonup> (string, 'h) dict"
  cancel_requested :: "string \<rightharpoonup> string set"
  supersede_pending :: "string \<rightharpoonup> string set"

definition no_registries :: "'h registries" where
  "no_registries = \<lparr>active_tasks = Map.empty, cancel_requested = Map.empty, supersede_pending = Map.empty\<rparr>"

section \<open>Running invocations\<close>

definition register_invocation_task :: "string \<Rightarrow> string \<Rightarrow> 'h \<Rightarrow> 'h registries \<Rightarrow> 'h registries" where
  "register_invocation_task sid i h r =
     (if i = [] \<or> sid = [] then r
      else r\<lparr>active_tasks := (active_tasks r)(sid \<mapsto>
             AList.update i h (case active_tasks r sid of None \<Rightarrow> [] | Some b \<Rightarrow> b))\<rparr>)"

definition deregister_invocation_task :: "string \<Rightarrow> string \<Rightarrow> 'h registries \<Rightarrow> 'h registries" where
  "deregister_invocation_task sid i r =
     (if i = [] \<or> sid = [] then r
      else case active_tasks r sid of
             None \<Rightarrow> r
           | Some b \<Rightarrow> r\<lparr>active_tasks := (active_tasks r)(sid \<mapsto> AList.delete i b)\<rparr>)"

definition get_invocation_task :: "string \<Rightarrow> string \<Rightarrow> 'h registries \<Rightarrow> 'h option" where
  "get_invocation_task sid i r =
     (if i = [] \<or> sid = [] then None
      else case active_tasks r sid of None \<Rightarrow> None | Some b \<Rightarrow> map_of b i)"

definition active_invocation_ids :: "string \<Rightarrow> 'h registries \<Rightarrow> string list" where
  "active_invocation_ids sid r =
     (if sid = [] then [] else case active_tasks r sid of None \<Rightarrow> [] | Some b \<Rightarrow> map fst b)"

definition clear_active_invocations :: "string \<Rightarrow> 'h registries \<Rightarrow> 'h registries" where
  "clear_active_invocations sid r =
     (if sid = [] then r
      else r\<lparr>active_tasks := (active_tasks r)(sid := None), cancel_requested := (cancel_requested r)(sid := None),
             supersede_pending := (supersede_pending r)(sid := None)\<rparr>)"

section \<open>Requested cancels\<close>

definition add_mark :: "string \<Rightarrow> string \<Rightarrow> (string \<rightharpoonup> string set) \<Rightarrow> string \<rightharpoonup> string set" where
  "add_mark sid i m =
     (if i = [] \<or> sid = [] then m else m(sid \<mapsto> insert i (case m sid of None \<Rightarrow> {} | Some b \<Rightarrow> b)))"

definition is_marked :: "string \<Rightarrow> string \<Rightarrow> (string \<rightharpoonup> string set) \<Rightarrow> bool" where
  "is_marked sid i m \<longleftrightarrow>
     i \<noteq> [] \<and> sid \<noteq> [] \<and> (case m sid of None \<Rightarrow> False | Some b \<Rightarrow> i \<in> b)"

definition mark_invocation_cancel_requested :: "string \<Rightarrow> string \<Rightarrow> 'h registries \<Rightarrow> 'h registries" where
  "mark_invocation_cancel_requested sid i r = r\<lparr>cancel_requested := add_mark sid i (cancel_requested r)\<rparr>"

definition is_invocation_cancel_requested :: "string \<Rightarrow> string \<Rightarrow> 'h registries \<Rightarrow> bool" where
  "is_invocation_cancel_requested sid i r = is_marked sid i (cancel_requested r)"

definition cancel_requested_invocation_ids :: "string \<Rightarrow> 'h registries \<Rightarrow> string set" where
  "cancel_requested_invocation_ids sid r =
     (if sid = [] then {} else case cancel_requested r sid of None \<Rightarrow> {} | Some b \<Rightarrow> b)"

section \<open>Pending supersedes\<close>

definition mark_supersede_pending :: "string \<Rightarrow> string \<Rightarrow> 'h registries \<Rightarrow> 'h registries" where
  "mark_supersede_pending sid i r = r\<lparr>supersede_pending := add_mark sid i (supersede_pending r)\<rparr>"

definition clear_supersede_pending :: "string \<Rightarrow> string \<Rightarrow> 'h registries \<Rightarrow> 'h registries" where
  "clear_supersede_pending sid i r =
     (if i = [] \<or> sid = [] then r
      else case supersede_pending r sid of
             None \<Rightarrow> r
           | Some b \<Rightarrow> r\<lparr>supersede_pending := (supersede_pending r)(sid := if b - {i} = {} then None else Some (b - {i}))\<rparr>)"

definition is_supersede_pending :: "string \<Rightarrow> string \<Rightarrow> 'h registries \<Rightarrow> bool" where
  "is_supersede_pending sid i r = is_marked sid i (supersede_pending r)"

definition supersede_pending_invocation_ids :: "string \<Rightarrow> 'h registries \<Rightarrow> string set" where
  "supersede_pending_invocation_ids sid r =
     (if sid = [] then {} else case supersede_pending r sid of None \<Rightarrow> {} | Some b \<Rightarrow> b)"

definition has_any_supersede_pending :: "string \<Rightarrow> 'h registries \<Rightarrow> bool" where
  "has_any_supersede_pending sid r \<longleftrightarrow>
     sid \<noteq> [] \<and> (case supersede_pending r sid of None \<Rightarrow> False | Some b \<Rightarrow> b \<noteq> {})"

definition clear_all_supersede_pending :: "string \<Rightarrow> 'h registries \<Rightarrow> 'h registries" where
  "clear_all_supersede_pending sid r =
     (if sid = [] then r else r\<lparr>supersede_pending := (supersede_pending r)(sid := None)\<rparr>)"

section \<open>The contract of a mark set\<close>

text \<open>
  Both mark sets promise the same to their readers: a mark of one invocation shows up for that
  invocation of that session only, and stays.
\<close>

locale mark_set =
  fixes put :: "string \<Rightarrow> string \<Rightarrow> 'r \<Rightarrow> 'r"
    and marked :: "string \<Rightarrow> string \<Rightarrow> 'r \<Rightarrow> bool"
  assumes marked_put: "marked sid' j (put sid i r) \<longleftrightarrow> marked sid' j r \<or> (sid' = sid \<and> j = i \<and> sid \<noteq> [] \<and> i \<noteq> [])"
begin

lemma marked_fold:
  "marked sid' j (foldl (\<lambda>r i. put sid i r) r is) \<longleftrightarrow> marked sid' j r \<or> (sid' = sid \<and> sid \<noteq> [] \<and> j \<noteq> [] \<and> j \<in> set is)"
  by (induction "is" arbitrary: r) (auto simp: marked_put)

lemma other_session_untouched: "sid' \<noteq> sid \<Longrightarrow> marked sid' j (foldl (\<lambda>r i. put sid i r) r is) \<longleftrightarrow> marked sid' j r"
  by (simp add: marked_fold)

end

lemma is_marked_add: "is_marked sid' j (add_mark sid i m) \<longleftrightarrow> is_marked sid' j m \<or> (sid' = sid \<and> j = i \<and> sid \<noteq> [] \<and> i \<noteq> [])"
  by (auto simp: is_marked_def add_mark_def split: option.splits)

interpretation cancels: mark_set mark_invocation_cancel_requested is_invocation_cancel_requested
  by unfold_locales (simp add: mark_invocation_cancel_requested_def is_invocation_cancel_requested_def is_marked_add)

interpretation superseding: mark_set mark_supersede_pending is_supersede_pending
  by unfold_locales (simp add: mark_supersede_pending_def is_supersede_pending_def is_marked_add)

section \<open>Refinement\<close>

text \<open>
  What the registries promise: three relations between session ids and invocation ids, changed by each
  call for its own session and invocation only.
\<close>

datatype 'h reg_op =
    Register string 'h | Deregister string | ClearSession
  | RequestCancel string | MarkSupersede string | ClearSupersede string | ClearAllSupersedes

fun reg_step :: "string \<times> 'h reg_op \<Rightarrow> 'h registries \<Rightarrow> 'h registries" where
  "reg_step (sid, Register i h) r = register_invocation_task sid i h r"
| "reg_step (sid, Deregister i) r = deregister_invocation_task sid i r"
| "reg_step (sid, ClearSession) r = clear_active_invocations sid r"
| "reg_step (sid, RequestCancel i) r = mark_invocation_cancel_requested sid i r"
| "reg_step (sid, MarkSupersede i) r = mark_supersede_pending sid i r"
| "reg_step (sid, ClearSupersede i) r = clear_supersede_pending sid i r"
| "reg_step (sid, ClearAllSupersedes) r = clear_all_supersede_pending sid r"

definition reg_run :: "(string \<times> 'h reg_op) list \<Rightarrow> 'h registries \<Rightarrow> 'h registries" where
  "reg_run ops r = foldl (\<lambda>r op. reg_step op r) r ops"

text \<open>The specification of one pair: the last call that concerns it decides.\<close>

fun spec_task :: "string \<Rightarrow> string \<Rightarrow> 'h option \<Rightarrow> 'h reg_op \<Rightarrow> 'h option" where
  "spec_task sid i h (Register j h') = (if j = i then Some h' else h)"
| "spec_task sid i h (Deregister j) = (if j = i then None else h)"
| "spec_task sid i h ClearSession = None"
| "spec_task sid i h _ = h"

fun spec_cancel :: "string \<Rightarrow> bool \<Rightarrow> 'h reg_op \<Rightarrow> bool" where
  "spec_cancel i b (RequestCancel j) = (b \<or> j = i)"
| "spec_cancel i b ClearSession = False"
| "spec_cancel i b _ = b"

fun spec_supersede :: "string \<Rightarrow> bool \<Rightarrow> 'h reg_op \<Rightarrow> bool" where
  "spec_supersede i b (MarkSupersede j) = (b \<or> j = i)"
| "spec_supersede i b (ClearSupersede j) = (b \<and> j \<noteq> i)"
| "spec_supersede i b ClearAllSupersedes = False"
| "spec_supersede i b ClearSession = False"
| "spec_supersede i b _ = b"

definition ops_of :: "string \<Rightarrow> (string \<times> 'h reg_op) list \<Rightarrow> 'h reg_op list" where
  "ops_of sid ops = map snd (filter (\<lambda>op. fst op = sid) ops)"

lemma registry_frame [gf_frame]:
  "cancel_requested (register_invocation_task sid i h r) = cancel_requested r"
  "supersede_pending (register_invocation_task sid i h r) = supersede_pending r"
  "cancel_requested (deregister_invocation_task sid i r) = cancel_requested r"
  "supersede_pending (deregister_invocation_task sid i r) = supersede_pending r"
  "active_tasks (mark_invocation_cancel_requested sid i r) = active_tasks r"
  "supersede_pending (mark_invocation_cancel_requested sid i r) = supersede_pending r"
  "active_tasks (mark_supersede_pending sid i r) = active_tasks r"
  "cancel_requested (mark_supersede_pending sid i r) = cancel_requested r"
  "active_tasks (clear_supersede_pending sid i r) = active_tasks r"
  "cancel_requested (clear_supersede_pending sid i r) = cancel_requested r"
  "active_tasks (clear_all_supersede_pending sid r) = active_tasks r"
  "cancel_requested (clear_all_supersede_pending sid r) = cancel_requested r"
  by (simp_all add: register_invocation_task_def deregister_invocation_task_def mark_invocation_cancel_requested_def
      mark_supersede_pending_def clear_supersede_pending_def clear_all_supersede_pending_def split: option.split)

lemma task_step:
  "sid \<noteq> [] \<Longrightarrow> i \<noteq> [] \<Longrightarrow> get_invocation_task sid i (reg_step (sid', op) r) =
    (if sid' = sid then spec_task sid i (get_invocation_task sid i r) op else get_invocation_task sid i r)"
  by (cases op)
     (auto simp: gf_frame get_invocation_task_def register_invocation_task_def deregister_invocation_task_def
       clear_active_invocations_def update_conv' delete_conv' split: option.splits)

lemma cancel_step:
  "sid \<noteq> [] \<Longrightarrow> i \<noteq> [] \<Longrightarrow> is_invocation_cancel_requested sid i (reg_step (sid', op) r) =
    (if sid' = sid then spec_cancel i (is_invocation_cancel_requested sid i r) op
     else is_invocation_cancel_requested sid i r)"
proof (cases op)
  case (RequestCancel j)
  assume "sid \<noteq> []" "i \<noteq> []"
  with RequestCancel show ?thesis by (auto simp: cancels.marked_put)
qed (auto simp: gf_frame is_invocation_cancel_requested_def is_marked_def clear_active_invocations_def)

lemma supersede_step:
  "sid \<noteq> [] \<Longrightarrow> i \<noteq> [] \<Longrightarrow> is_supersede_pending sid i (reg_step (sid', op) r) =
    (if sid' = sid then spec_supersede i (is_supersede_pending sid i r) op else is_supersede_pending sid i r)"
proof (cases op)
  case (MarkSupersede j)
  assume "sid \<noteq> []" "i \<noteq> []"
  with MarkSupersede show ?thesis by (auto simp: superseding.marked_put)
next
  case (ClearSupersede j)
  assume "sid \<noteq> []" "i \<noteq> []"
  with ClearSupersede show ?thesis
    by (auto simp: is_supersede_pending_def is_marked_def clear_supersede_pending_def split: option.splits)
qed (auto simp: gf_frame is_supersede_pending_def is_marked_def clear_active_invocations_def clear_all_supersede_pending_def)

text \<open>
  C33: the registries keep sessions apart. Over any interleaving of registry calls of any sessions, what a
  session sees of an invocation (its running task, whether a cancel was requested, whether a supersede
  is pending) is what its own calls, in their order, make of it: the last registration or removal, any
  cancel request since the last teardown, and the last mark or clear of the supersede flag.
\<close>

theorem registries_refine:
  assumes "sid \<noteq> []" "i \<noteq> []"
  shows "get_invocation_task sid i (reg_run ops r) = foldl (spec_task sid i) (get_invocation_task sid i r) (ops_of sid ops) \<and>
    is_invocation_cancel_requested sid i (reg_run ops r) =
      foldl (spec_cancel i) (is_invocation_cancel_requested sid i r) (ops_of sid ops) \<and>
    is_supersede_pending sid i (reg_run ops r) = foldl (spec_supersede i) (is_supersede_pending sid i r) (ops_of sid ops)"
proof (induction ops arbitrary: r)
  case (Cons op ops)
  then show ?case
    by (cases op) (simp add: reg_run_def ops_of_def task_step cancel_step supersede_step assms)
qed (simp add: reg_run_def ops_of_def)

theorem registries_refine_witness:
  "\<not> is_supersede_pending ''s'' ''i'' (reg_run [(''s'', MarkSupersede ''i''), (''t'', MarkSupersede ''i''),
      (''s'', ClearSupersede ''i'')] (no_registries :: nat registries)) \<and>
   is_supersede_pending ''t'' ''i'' (reg_run [(''s'', MarkSupersede ''i''), (''t'', MarkSupersede ''i''),
      (''s'', ClearSupersede ''i'')] (no_registries :: nat registries))"
  using registries_refine [where sid = "''s''" and i = "''i''" and r = "no_registries :: nat registries"]
    registries_refine [where sid = "''t''" and i = "''i''" and r = "no_registries :: nat registries"]
  by (simp add: ops_of_def is_supersede_pending_def is_marked_def no_registries_def)

end
