(* ===== verification/Task_State_Machine.thy ===== *)
theory Task_State_Machine
  imports Observer_Notes Invocation_Registry
begin

text \<open>
  \<open>src/goldfive/task_state_machine.py\<close>: the only code that changes a task's status, with the parts of
  \<open>drift_observer.py\<close> and \<open>steerer.py\<close> its transitions call.

  A method is a function from the world to the world, or to the exception it raises. The world holds
  the session, the events handed to the sinks, the background tasks spawned (their bodies run later,
  on their own), and a counter from which clock readings and uuids are drawn; a coroutine runs to its
  end, since no other coroutine of the same session changes the plan in between. Clock readings are
  nanoseconds. \<open>events.emit\<close> swallows the failures of single sinks, so emitting is appending to the
  log when there is a sink at all.
\<close>

section \<open>Events and the world\<close>

record drift_detected =
  dd_kind :: DriftKind
  dd_severity :: DriftSeverity
  dd_detail :: string
  dd_task :: string
  dd_agent :: string
  dd_observed_revision :: int
  dd_authored_by :: string
  dd_suppressed :: bool
  dd_id :: string
  dd_annotation :: string
  dd_trigger_input :: string
  dd_condition :: string
  dd_lifecycle :: string
  dd_prev_severity :: "DriftSeverity option"

record revision_diff =
  added_task_ids :: "string list"
  removed_task_ids :: "string list"
  modified_task_ids :: "string list"
  added_edges :: "(string \<times> string) list"
  removed_edges :: "(string \<times> string) list"

record plan_revised =
  pr_plan :: plan
  pr_kind :: DriftKind
  pr_severity :: DriftSeverity
  pr_reason :: string
  pr_index :: int
  pr_trigger :: string
  pr_diff :: revision_diff
  pr_input_summary :: string
  pr_output_summary :: string
  pr_target :: string
  pr_dry_run :: bool

record steering_decision =
  sd_detector :: string
  sd_outcome :: string
  sd_reason :: string
  sd_considered :: string
  sd_chosen :: string
  sd_drift_id :: string
  sd_task :: string
  sd_agent :: string

record refine_event =
  re_attempt :: string
  re_drift_id :: string
  re_kind :: DriftKind
  re_severity :: DriftSeverity
  re_task :: string
  re_agent :: string

record signal_delivered =
  sg_drift_id :: string
  sg_kind :: string
  sg_severity :: string
  sg_channel :: string
  sg_turn :: int
  sg_note :: string
  sg_dry_run :: bool
  sg_task :: string
  sg_agent :: string
  sg_decision :: "(string \<times> json) list"

record ladder_transition =
  lt_from :: string
  lt_to :: string
  lt_reason :: string
  lt_kind :: DriftKind
  lt_drift_id :: string
  lt_severity :: DriftSeverity

datatype payload =
    TaskStarted string string
  | TaskProgress string pyfloat string
  | TaskCompleted string string "(string \<times> string) list"
  | TaskFailed string string bool
  | TaskBlocked string string string
  | TaskCancelled string string
  | TaskTransitioned string TaskStatus TaskStatus string int string string
  | SignalOutcome string string string int nat bool
  | ConditionResolved "DriftKind option" "DriftSeverity option" string string string string string
  | DriftDetected drift_detected
  | SteeringDecisionMade steering_decision
  | JudgementEmitted DriftKind DriftSeverity string
  | PlanRevised plan_revised
  | RefineAttempted refine_event
  | RefineFailed refine_event string string string
  | PlanRevisedCorrelation refine_event int
  | LadderTransitionDecided ladder_transition
  | PolicyApplied string string string string
  | SignalDelivered signal_delivered
  | ApprovalRequested string string string string
  | ApprovalGranted string string
  | ApprovalRejected string string
  | TaskTransitionRefused string TaskStatus TaskStatus string int int
  | TaskDeclarationReceived string string string
  | RunAborted string
  | RunCompleted string
  | DetectorDispatchOrdered "string list" string
  | PlanSwapSeen plan string

record event =
  ev_run :: string
  ev_seq :: nat
  ev_payload :: payload

datatype judge = GoalDriftJudge | OutcomeProgressJudge

text \<open>What the bound adapter's plugin is asked to do.\<close>

record cancellation_request =
  req_invocation :: string
  req_reason :: string
  req_severity :: DriftSeverity
  req_drift_id :: string
  req_drift_kind :: string
  req_at_ms :: int
  req_detail :: string

datatype plugin_call =
    CloseOpenBoundaries string
  | RequestInvocationCancel string cancellation_request bool
  | RewritePinnedTaskIds "(string, string) dict"

record config =
  has_sinks :: bool
  has_goal_judge :: bool
  activity_window :: int
  plan_mode_ledger :: bool
  signal_telemetry :: bool
  request_context :: bool
  strict_ownership :: bool
  is_active_steering :: bool
  cancel_scope_all :: bool
  pin_assigned_task :: bool
  descriptive_growth :: bool
  has_judges :: bool
  has_plugin :: bool
  sha1_hex :: "string \<Rightarrow> string"
  discovery_hash :: "string \<Rightarrow> string \<Rightarrow> string"
  monotonic :: "nat \<Rightarrow> int"
  wall_clock :: "nat \<Rightarrow> int"
  uuid_hex :: "nat \<Rightarrow> string"

record world =
  sess :: session
  cfg :: config
  log :: "event list"
  background_judges :: "judge list"
  background_drifts :: "drift_event list"
  outcome_inflight :: bool
  invocation_agent :: "(string, string) dict"
  top_invocation :: string
  regs :: "nat registries"
  cancelled_drift_ids :: "string set"
  plugin_calls :: "plugin_call list"
  ticks :: nat

definition on_sess :: "(session \<Rightarrow> session) \<Rightarrow> world \<Rightarrow> world" where
  "on_sess f w = w\<lparr>sess := f (sess w)\<rparr>"

definition tick :: "world \<Rightarrow> world" where
  "tick w = w\<lparr>ticks := ticks w + 1\<rparr>"

text \<open>\<open>_new_envelope\<close> followed by \<open>_emit\<close>: the envelope takes a sequence number even without sinks.\<close>

definition emit_new :: "payload \<Rightarrow> world \<Rightarrow> world" where
  "emit_new p w =
     (let (n, s) = next_sequence (sess w); w' = w\<lparr>sess := s\<rparr>
      in if has_sinks (cfg w)
         then w'\<lparr>log := log w' @ [\<lparr>ev_run = run_id s, ev_seq = n, ev_payload = p\<rparr>]\<rparr> else w')"

section \<open>Recent events\<close>

definition RECENT_EVENT_AGENT_ACTIVITY_KINDS :: "string set" where
  "RECENT_EVENT_AGENT_ACTIVITY_KINDS = {''agent_invocation_started'', ''agent_invocation_completed''}"

definition event_kind_in :: "string set \<Rightarrow> (string \<times> json) list \<Rightarrow> bool" where
  "event_kind_in kinds e = (case map_of e ''kind'' of Some (JStr k) \<Rightarrow> k \<in> kinds | _ \<Rightarrow> False)"

definition filter_recent_events_by_kind :: "(string \<times> json) list list \<Rightarrow> string set \<Rightarrow> (string \<times> json) list list" where
  "filter_recent_events_by_kind evs kinds = filter (event_kind_in kinds) evs"

fun drop_first_matching :: "('a \<Rightarrow> bool) \<Rightarrow> nat \<Rightarrow> 'a list \<Rightarrow> 'a list" where
  "drop_first_matching P k [] = []"
| "drop_first_matching P k (x # xs) =
     (if 0 < k \<and> P x then drop_first_matching P (k - 1) xs else x # drop_first_matching P k xs)"

definition trim_recent_events_kind_class ::
  "(string \<times> json) list list \<Rightarrow> string set \<Rightarrow> int \<Rightarrow> (string \<times> json) list list" where
  "trim_recent_events_kind_class evs kinds cap =
     (if cap \<le> 0 then evs
      else
        (let overflow = int (length (filter (event_kind_in kinds) evs)) - cap
         in if overflow \<le> 0 then evs else drop_first_matching (event_kind_in kinds) (nat overflow) evs))"

definition stamp_last_observed :: "world \<Rightarrow> world" where
  "stamp_last_observed w = tick (on_sess (\<lambda>s. s\<lparr>last_observed_event_at := monotonic (cfg w) (ticks w)\<rparr>) w)"

definition note_agent_activity :: "string \<Rightarrow> string \<Rightarrow> string \<Rightarrow> string \<Rightarrow> world \<Rightarrow> world" where
  "note_agent_activity kind agent task detail w =
     (if kind = [] then w
      else
        (let w1 = stamp_last_observed w;
             entry = [(''kind'', JStr kind)]
               @ (if agent \<noteq> [] then [(''agent_name'', JStr agent)] else [])
               @ (if task \<noteq> [] then [(''task_id'', JStr task)] else [])
               @ (if detail \<noteq> [] then [(''detail'', JStr (take 500 detail))] else [])
         in on_sess (\<lambda>s. s\<lparr>recent_events :=
              trim_recent_events_kind_class (recent_events s @ [entry]) RECENT_EVENT_AGENT_ACTIVITY_KINDS
                (max 1 (activity_window (cfg w)))\<rparr>) w1))"

section \<open>Telemetry on a transition\<close>

definition emit_signal_outcome :: "LedgerEntry \<Rightarrow> world \<Rightarrow> world" where
  "emit_signal_outcome e w =
     tick (emit_new (SignalOutcome (le_kind e) (le_task e) (le_outcome e) (turns_to_resolution e)
                      (length (deliveries e)) (has_real_delivery e)) w)"

definition record_signal_outcomes_for_task :: "string \<Rightarrow> world \<Rightarrow> world" where
  "record_signal_outcomes_for_task tid w =
     (if \<not> signal_telemetry (cfg w) then w
      else
        (let st = state (sess w);
             rendered = (if request_context (cfg w) then Some (rendered_keys st) else None)
         in case resolve_task st tid (int (reasoning_turn (sess w))) rendered of
              Inl _ \<Rightarrow> w
            | Inr (rs, st') \<Rightarrow> foldl (\<lambda>w e. emit_signal_outcome e w) (on_sess (\<lambda>s. s\<lparr>state := st'\<rparr>) w) rs))"

definition emit_resolved_conditions :: "Drift list \<Rightarrow> string \<Rightarrow> world \<Rightarrow> world" where
  "emit_resolved_conditions rs reason w =
     (if \<not> has_sinks (cfg w) then w
      else foldl (\<lambda>w c. tick (emit_new (ConditionResolved (cond_kind c) (cond_severity c) reason (cond_task c)
                           (cond_agent c) (uuid_hex (cfg w) (ticks w)) (condition_id c)) w)) w rs)"

definition resolve_conditions_for_terminal_task :: "string \<Rightarrow> TaskStatus \<Rightarrow> world \<Rightarrow> world" where
  "resolve_conditions_for_terminal_task tid dst w =
     (if tid = [] then w
      else case resolve_drifts_matching (state (sess w)) (Some tid) None None None of
             Inl _ \<Rightarrow> w
           | Inr (rs, st') \<Rightarrow>
               (let w' = on_sess (\<lambda>s. s\<lparr>state := st'\<rparr>) w
                in if rs = [] then w'
                   else emit_resolved_conditions rs (''task '' @ tid @ '' reached terminal status '' @ status_value dst) w'))"

fun resolve_invocation_id :: "(string, string) dict \<Rightarrow> string \<Rightarrow> string \<Rightarrow> string" where
  "resolve_invocation_id [] agent acc = acc"
| "resolve_invocation_id ((iid, nm) # m) agent acc =
     resolve_invocation_id m agent (if nm = agent \<and> iid \<noteq> [] then iid else acc)"

definition resolve_invocation_id_for_agent :: "world \<Rightarrow> string \<Rightarrow> string" where
  "resolve_invocation_id_for_agent w agent =
     (if agent = [] then [] else resolve_invocation_id (invocation_agent w) agent [])"

definition stamp_progress :: "string \<Rightarrow> world \<Rightarrow> world" where
  "stamp_progress tid w =
     tick (on_sess (\<lambda>s. s\<lparr>task_last_progress_at := (task_last_progress_at s)(tid \<mapsto> monotonic (cfg w) (ticks w))\<rparr>) w)"

definition emit_task_transitioned :: "task \<Rightarrow> TaskStatus \<Rightarrow> TaskStatus \<Rightarrow> string \<Rightarrow> world \<Rightarrow> world" where
  "emit_task_transitioned t src dst source w =
     (let tid = task_id t;
          w1 = (if tid \<noteq> [] then stamp_progress tid w else w);
          w2 = (if tid \<noteq> [] \<and> dst \<in> TERMINAL_TASK_STATUSES
                then resolve_conditions_for_terminal_task tid dst (record_signal_outcomes_for_task tid w1) else w1)
      in if \<not> has_sinks (cfg w2) then w2
         else emit_new (TaskTransitioned tid src dst (if source = [] then ''other'' else source)
                (case session_plan (sess w2) of None \<Rightarrow> 0 | Some p \<Rightarrow> revision_index p)
                (assignee_agent_id t) (resolve_invocation_id_for_agent w2 (assignee_agent_id t))) w2)"

section \<open>Background work at a task boundary\<close>

definition GOAL_DRIFT_TASK_BOUNDARY_MIN_INTERVAL_NS :: int where
  "GOAL_DRIFT_TASK_BOUNDARY_MIN_INTERVAL_NS = 10000000000"

definition spawn_goal_drift_judge_background :: "world \<Rightarrow> world" where
  "spawn_goal_drift_judge_background w =
     (if \<not> has_goal_judge (cfg w) then w else w\<lparr>background_judges := background_judges w @ [GoalDriftJudge]\<rparr>)"

definition spawn_outcome_progress_background :: "world \<Rightarrow> world" where
  "spawn_outcome_progress_background w =
     (if \<not> plan_mode_ledger (cfg w) \<or> \<not> has_goal_judge (cfg w) then w
      else if outcome_inflight w then w
      else w\<lparr>outcome_inflight := True, background_judges := background_judges w @ [OutcomeProgressJudge]\<rparr>)"

definition maybe_run_goal_drift_on_task_boundary :: "task option \<Rightarrow> world \<Rightarrow> world" where
  "maybe_run_goal_drift_on_task_boundary t w =
     (if (case t of Some t \<Rightarrow> task_kind t = OUTCOME | None \<Rightarrow> False) then w
      else if \<not> has_goal_judge (cfg w) then w
      else
        (let now = wall_clock (cfg w) (ticks w); w1 = tick w
         in if now - last_goal_drift_check_ts (sess w1) < GOAL_DRIFT_TASK_BOUNDARY_MIN_INTERVAL_NS then w1
            else spawn_outcome_progress_background (spawn_goal_drift_judge_background
                   (on_sess (\<lambda>s. s\<lparr>last_goal_drift_check_ts := now, agent_turns_since_goal_check := 0\<rparr>) w1))))"

definition spawn_drift_handler_background :: "drift_event \<Rightarrow> world \<Rightarrow> world" where
  "spawn_drift_handler_background d w = w\<lparr>background_drifts := background_drifts w @ [d]\<rparr>"

definition new_drift :: "DriftKind \<Rightarrow> DriftSeverity \<Rightarrow> string \<Rightarrow> string \<Rightarrow> world \<Rightarrow> drift_event \<times> world" where
  "new_drift k sev detail tid w =
     ((mk_drift (uuid_hex (cfg w) (ticks w)) k sev)\<lparr>drift_detail := detail, drift_task := tid\<rparr>, tick w)"

section \<open>The transitions\<close>

definition find_task :: "world \<Rightarrow> string \<Rightarrow> task option" where
  "find_task w tid = (case session_plan (sess w) of None \<Rightarrow> None | Some p \<Rightarrow> plan_find p tid)"

text \<open>\<open>with channel_processor_active(): set_session_plan(session, with_task_status(...))\<close>.\<close>

definition swap_status :: "string \<Rightarrow> TaskStatus \<Rightarrow> world \<Rightarrow> py_error + world" where
  "swap_status tid s w =
     (case session_plan (sess w) of
        None \<Rightarrow> Inl AssertionError
      | Some p \<Rightarrow> ebind (with_task_status p tid s) (\<lambda>p'.
                   ebind (set_session_plan True (strict_ownership (cfg w)) (sess w) (Some p')) (\<lambda>ss. Inr (w\<lparr>sess := ss\<rparr>))))"

definition find_or :: "world \<Rightarrow> string \<Rightarrow> task \<Rightarrow> task" where
  "find_or w tid t = (case find_task w tid of Some t' \<Rightarrow> t' | None \<Rightarrow> t)"

definition sync_pin :: "task \<Rightarrow> TaskStatus \<Rightarrow> world \<Rightarrow> py_error + world" where
  "sync_pin t dst w =
     ebind (sync_current_task_from_transition (state (sess w)) (Some t) dst) (\<lambda>st. Inr (on_sess (\<lambda>s. s\<lparr>state := st\<rparr>) w))"

definition drop_lineage :: "string \<Rightarrow> world \<Rightarrow> world" where
  "drop_lineage tid w = on_sess (\<lambda>s. s\<lparr>task_lineage := (task_lineage s)(tid := None)\<rparr>) w"

definition note_if :: "string \<Rightarrow> string \<Rightarrow> world \<Rightarrow> world" where
  "note_if tid detail w =
     (if detail = [] then w else on_sess (\<lambda>s. s\<lparr>agent_notes := (agent_notes s)(tid \<mapsto> detail)\<rparr>) w)"

definition note_completed_activity :: "task \<Rightarrow> string \<Rightarrow> world \<Rightarrow> world" where
  "note_completed_activity t tid w =
     (if assignee_agent_id t = [] then w
      else note_agent_activity ''agent_invocation_completed'' (assignee_agent_id t) tid [] w)"

definition mark_task_running :: "string \<Rightarrow> string \<Rightarrow> string \<Rightarrow> world \<Rightarrow> py_error + world" where
  "mark_task_running tid detail source w =
     (case find_task w tid of
        None \<Rightarrow> Inr w
      | Some t0 \<Rightarrow>
          if status t0 \<in> TERMINAL_TASK_STATUSES then Inr w
          else
            ebind (swap_status tid RUNNING w) (\<lambda>w.
            let t = find_or w tid t0;
                w = note_if tid detail (on_sess (\<lambda>s. s\<lparr>current_task_id := tid\<rparr>) w)
            in ebind (sync_pin t RUNNING w) (\<lambda>w.
            let w = stamp_progress tid w;
                w = on_sess (\<lambda>s. s\<lparr>task_lineage := (task_lineage s)(tid \<mapsto>
                      (if assignee_agent_id t = [] then {} else {assignee_agent_id t}))\<rparr>) w;
                w = emit_new (TaskStarted tid detail) w
            in Inr (emit_task_transitioned t (status t0) RUNNING source w))))"

text \<open>\<open>max(0.0, min(1.0, frac))\<close>: a NaN fails both comparisons of \<open>min\<close> and becomes 1.0.\<close>

definition float_one :: int where "float_one = 2 ^ 1074"

fun clamp_fraction :: "pyfloat \<Rightarrow> pyfloat" where
  "clamp_fraction (Fin n) = Fin (max 0 (min float_one n))"
| "clamp_fraction PosInf = Fin float_one"
| "clamp_fraction NegInf = Fin 0"
| "clamp_fraction NaN = Fin float_one"

definition mark_task_progress :: "string \<Rightarrow> pyfloat \<Rightarrow> string \<Rightarrow> world \<Rightarrow> py_error + world" where
  "mark_task_progress tid fraction detail w =
     (case find_task w tid of
        None \<Rightarrow> Inr w
      | Some t \<Rightarrow>
          (let frac = clamp_fraction fraction;
               w = on_sess (\<lambda>s. s\<lparr>task_progress := (task_progress s)(tid \<mapsto> frac)\<rparr>) w;
               w = stamp_progress tid (note_if tid detail w)
           in Inr (emit_new (TaskProgress tid frac detail) w)))"

definition mark_task_completed :: "string \<Rightarrow> string \<Rightarrow> (string \<times> string) list \<Rightarrow> string \<Rightarrow> world \<Rightarrow> py_error + world" where
  "mark_task_completed tid summ artifacts source w =
     (case find_task w tid of
        None \<Rightarrow> Inr w
      | Some t0 \<Rightarrow>
          if status t0 \<in> TERMINAL_TASK_STATUSES then Inr w
          else
            ebind (swap_status tid COMPLETED w) (\<lambda>w.
            let t = find_or w tid t0;
                w = (if summ = [] then w
                     else on_sess (\<lambda>s. s\<lparr>completed_results := (completed_results s)(tid \<mapsto> summ)\<rparr>) w)
            in ebind (sync_pin t COMPLETED w) (\<lambda>w.
            let w = note_completed_activity t tid (drop_lineage tid w);
                w = emit_new (TaskCompleted tid summ artifacts) w;
                w = emit_task_transitioned t (status t0) COMPLETED source w
            in Inr (maybe_run_goal_drift_on_task_boundary (Some t) w))))"

section \<open>The cancellation cascade\<close>

definition succs :: "TaskEdge list \<Rightarrow> string \<Rightarrow> string list" where
  "succs es i = map to_task_id (filter (\<lambda>e. from_task_id e = i) es)"

function cascade_loop ::
  "TaskEdge list \<Rightarrow> (string, task) dict \<Rightarrow> string \<Rightarrow> string \<Rightarrow> string list \<Rightarrow> string list \<Rightarrow> world \<Rightarrow> py_error + world" where
  "cascade_loop es by_id reason source [] visited w = Inr w"
| "cascade_loop es by_id reason source (i # queue) visited w =
     (if i \<in> set visited then cascade_loop es by_id reason source queue visited w
      else
        (case map_of by_id i of
           None \<Rightarrow> cascade_loop es by_id reason source queue (i # visited) w
         | Some dep \<Rightarrow>
             if status dep \<in> TERMINAL_TASK_STATUSES then cascade_loop es by_id reason source queue (i # visited) w
             else
               ebind (swap_status i CANCELLED w) (\<lambda>w.
               let w = emit_new (TaskCancelled i reason) (drop_lineage i w);
                   w = emit_task_transitioned (find_or w i dep) (status dep) CANCELLED source w
               in cascade_loop es by_id reason source
                    (queue @ filter (\<lambda>g. g \<notin> set (i # visited)) (succs es i)) (i # visited) w)))"
  by pat_completeness auto
termination
proof (relation "measures [\<lambda>(es, by_id, reason, source, queue, visited, w).
      card ((set queue \<union> to_task_id ` set es) - set visited), \<lambda>(es, by_id, reason, source, queue, visited, w). length queue]",
    goal_cases)
  case (2 es by_id reason source i queue visited w)
  have "card ((set queue \<union> to_task_id ` set es) - set visited) \<le> card ((set (i # queue) \<union> to_task_id ` set es) - set visited)"
    by (rule card_mono) auto
  then show ?case by (auto simp: le_less)
next
  case (3 es by_id reason source i queue visited w)
  have "card ((set queue \<union> to_task_id ` set es) - set (i # visited)) < card ((set (i # queue) \<union> to_task_id ` set es) - set visited)"
    by (rule psubset_card_mono) (use 3 in auto)
  then show ?case by auto
next
  case (4 es by_id reason source i queue visited w x2)
  have "card ((set queue \<union> to_task_id ` set es) - set (i # visited)) < card ((set (i # queue) \<union> to_task_id ` set es) - set visited)"
    by (rule psubset_card_mono) (use 4 in auto)
  then show ?case by auto
next
  case (5 es by_id reason source i queue visited w x2 x y z)
  have "card ((set (queue @ filter (\<lambda>g. g \<notin> set (i # visited)) (succs es i)) \<union> to_task_id ` set es) - set (i # visited))
      < card ((set (i # queue) \<union> to_task_id ` set es) - set visited)"
    by (rule psubset_card_mono) (use 5(1) in \<open>auto simp: succs_def\<close>)
  then show ?case by auto
qed simp

definition cascade_cancel_downstream :: "string \<Rightarrow> string \<Rightarrow> world \<Rightarrow> py_error + world" where
  "cascade_cancel_downstream tid source w =
     (case session_plan (sess w) of
        None \<Rightarrow> Inr w
      | Some p \<Rightarrow> cascade_loop (edges p) (tasks_by_id p) (''upstream_failed:'' @ tid) source (succs (edges p) tid) [] w)"

definition mark_task_failed :: "string \<Rightarrow> string \<Rightarrow> bool \<Rightarrow> string \<Rightarrow> bool \<Rightarrow> world \<Rightarrow> py_error + world" where
  "mark_task_failed tid reason recoverable source dispatch w =
     (case find_task w tid of
        None \<Rightarrow> Inr w
      | Some t0 \<Rightarrow>
          if status t0 \<in> TERMINAL_TASK_STATUSES then Inr w
          else
            ebind (swap_status tid FAILED w) (\<lambda>w.
            let t = find_or w tid t0
            in ebind (sync_pin t FAILED w) (\<lambda>w.
            let w = note_completed_activity t tid (drop_lineage tid w);
                w = emit_new (TaskFailed tid reason recoverable) w;
                w = emit_task_transitioned t (status t0) FAILED source w;
                w = maybe_run_goal_drift_on_task_boundary (Some t) w
            in ebind (if recoverable then Inr w else cascade_cancel_downstream tid ''cancellation'' w) (\<lambda>w.
            if \<not> dispatch then Inr w
            else
              let (d, w) = new_drift (if recoverable then TASK_FAILED_RECOVERABLE else TASK_FAILED_FATAL)
                    (if recoverable then WARNING else CRITICAL)
                    (if reason \<noteq> [] then ''task '' @ tid @ '' failed: '' @ reason else ''task '' @ tid @ '' failed'') tid w
              in Inr (spawn_drift_handler_background d w)))))"

definition mark_task_blocked :: "string \<Rightarrow> string \<Rightarrow> string \<Rightarrow> string \<Rightarrow> world \<Rightarrow> py_error + world" where
  "mark_task_blocked tid blocker needed source w =
     (case find_task w tid of
        None \<Rightarrow> Inr w
      | Some t0 \<Rightarrow>
          if status t0 \<in> TERMINAL_TASK_STATUSES then Inr w
          else
            ebind (swap_status tid BLOCKED w) (\<lambda>w.
            let t = find_or w tid t0;
                tail = (if needed \<noteq> [] then '' (needed: '' @ needed @ '')'' else []);
                w = (if blocker \<noteq> [] \<or> needed \<noteq> [] then note_if tid (''blocked: '' @ blocker @ tail) w else w);
                w = emit_new (TaskBlocked tid blocker needed) w;
                w = emit_task_transitioned t (status t0) BLOCKED source w;
                (d, w) = new_drift DK_BLOCKED WARNING (''task '' @ tid @ '' blocked: '' @ blocker @ tail) tid w
            in Inr (spawn_drift_handler_background d w)))"

definition mark_task_cancelled :: "string \<Rightarrow> string \<Rightarrow> string \<Rightarrow> world \<Rightarrow> py_error + world" where
  "mark_task_cancelled tid reason source w =
     (case find_task w tid of
        None \<Rightarrow> Inr w
      | Some t0 \<Rightarrow>
          if status t0 \<in> TERMINAL_TASK_STATUSES then Inr w
          else
            ebind (swap_status tid CANCELLED w) (\<lambda>w.
            let t = find_or w tid t0
            in ebind (sync_pin t CANCELLED w) (\<lambda>w.
            let w = emit_new (TaskCancelled tid reason) (drop_lineage tid w);
                w = emit_task_transitioned t (status t0) CANCELLED source w;
                w = maybe_run_goal_drift_on_task_boundary (Some t) w
            in cascade_cancel_downstream tid ''cancellation'' w)))"

definition mark_task_not_needed :: "string \<Rightarrow> string \<Rightarrow> string \<Rightarrow> world \<Rightarrow> py_error + world" where
  "mark_task_not_needed tid reason source w =
     (case find_task w tid of
        None \<Rightarrow> Inr w
      | Some t0 \<Rightarrow>
          if status t0 \<in> TERMINAL_TASK_STATUSES then Inr w
          else
            ebind (swap_status tid NOT_NEEDED w) (\<lambda>w.
            let t = find_or w tid t0
            in ebind (sync_pin t NOT_NEEDED w) (\<lambda>w.
            let w = emit_new (TaskCancelled tid (if reason \<noteq> [] then ''not_needed: '' @ reason else ''not_needed''))
                      (drop_lineage tid w);
                w = emit_task_transitioned t (status t0) NOT_NEEDED source w
            in Inr (maybe_run_goal_drift_on_task_boundary (Some t) w))))"

text \<open>\<open>DefaultSteerer.transition\<close>: the generic entry point; PENDING is not a target.\<close>

fun transition :: "string \<Rightarrow> TaskStatus \<Rightarrow> string \<Rightarrow> string \<Rightarrow> string \<Rightarrow> world \<Rightarrow> py_error + world" where
  "transition tid RUNNING detail creason source w = mark_task_running tid detail source w"
| "transition tid COMPLETED detail creason source w = mark_task_completed tid detail [] source w"
| "transition tid FAILED detail creason source w =
     mark_task_failed tid (if creason \<noteq> [] then creason else detail) True source True w"
| "transition tid BLOCKED detail creason source w = mark_task_blocked tid detail [] source w"
| "transition tid CANCELLED detail creason source w =
     mark_task_cancelled tid (if creason \<noteq> [] then creason else detail) source w"
| "transition tid NOT_NEEDED detail creason source w = mark_task_not_needed tid detail source w"
| "transition tid PENDING detail creason source w = Inr w"

section \<open>Transitions carried by a revision\<close>

fun revision_transitions :: "(string, task) dict \<Rightarrow> task list \<Rightarrow> world \<Rightarrow> world" where
  "revision_transitions prev [] w = w"
| "revision_transitions prev (t # ts) w =
     (let old = (case map_of prev (task_id t) of None \<Rightarrow> PENDING | Some o' \<Rightarrow> status o')
      in if task_id t = [] \<or> old = status t then revision_transitions prev ts w
         else revision_transitions prev ts (emit_task_transitioned t old (status t) ''plan_revision'' w))"

definition emit_plan_revision_transitions :: "plan option \<Rightarrow> plan \<Rightarrow> world \<Rightarrow> world" where
  "emit_plan_revision_transitions prev revised w =
     (if \<not> has_sinks (cfg w) then w
      else revision_transitions (case prev of None \<Rightarrow> [] | Some p \<Rightarrow> tasks_by_id p) (tasks revised) w)"

end
