(* ===== verification/Task_Lifecycle.thy ===== *)
theory Task_Lifecycle
  imports Task_State_Machine
begin

text \<open>
  What the transitions of \<open>task_state_machine.py\<close> guarantee, for every sequence of calls.

  A change is a triple of a task id, the status it leaves and the status it enters.
  \<open>evolves w w' cs\<close> says that going from \<open>w\<close> to \<open>w'\<close> applies exactly the changes \<open>cs\<close> to the plan, each
  of them to a task that is not yet terminal, reports exactly those changes, in that order, with fresh
  increasing sequence numbers, and keeps the goal-drift checks paced. Every \<open>mark_task_*\<close> operation is
  shown to evolve the world by the changes its specification names; the locale \<open>lifecycle\<close> then proves
  the properties of runs once for all operations.
\<close>

section \<open>Changes\<close>

type_synonym change = "string \<times> TaskStatus \<times> TaskStatus"

fun apply_changes :: "change list \<Rightarrow> plan \<Rightarrow> plan option" where
  "apply_changes [] p = Some p"
| "apply_changes ((i, src, dst) # cs) p =
     (case plan_find p i of
        None \<Rightarrow> None
      | Some t \<Rightarrow>
          if status t \<noteq> src \<or> src \<in> TERMINAL_TASK_STATUSES then None
          else (case with_task_status p i dst of Inl _ \<Rightarrow> None | Inr q \<Rightarrow> apply_changes cs q))"

lemma apply_changes_append:
  "apply_changes (cs @ ds) p = (case apply_changes cs p of None \<Rightarrow> None | Some q \<Rightarrow> apply_changes ds q)"
  by (induction cs p rule: apply_changes.induct) (auto split: option.splits sum.splits)

text \<open>What survives any changes: everything but the status of tasks that were not terminal.\<close>

definition task_step :: "task \<Rightarrow> task \<Rightarrow> bool" where
  "task_step t t' \<longleftrightarrow> t' = t\<lparr>status := status t'\<rparr> \<and> (status t \<in> TERMINAL_TASK_STATUSES \<longrightarrow> t' = t)"

definition lifecycle_step :: "plan \<Rightarrow> plan \<Rightarrow> bool" where
  "lifecycle_step p q \<longleftrightarrow>
     map task_id (tasks q) = map task_id (tasks p) \<and> edges q = edges p \<and> revision_index q = revision_index p \<and>
     (\<forall>i t. plan_find p i = Some t \<longrightarrow> (\<exists>t'. plan_find q i = Some t' \<and> task_step t t'))"

lemma task_step_refl [simp]: "task_step t t"
  by (simp add: task_step_def)

lemma task_step_trans: "task_step t u \<Longrightarrow> task_step u v \<Longrightarrow> task_step t v"
  by (cases t; cases u; cases v) (auto simp: task_step_def)

lemma lifecycle_step_refl: "lifecycle_step p p"
  by (simp add: lifecycle_step_def)

lemma lifecycle_step_trans: "lifecycle_step p q \<Longrightarrow> lifecycle_step q r \<Longrightarrow> lifecycle_step p r"
  unfolding lifecycle_step_def by simp (meson task_step_trans)

lemma with_task_status_step:
  assumes "with_task_status p i s = Inr q" "plan_find p i = Some t" "status t \<notin> TERMINAL_TASK_STATUSES"
  shows "lifecycle_step p q"
  using assms by (auto simp: lifecycle_step_def task_step_def with_task_status_find with_task_status_ids with_task_status_revision)

lemma apply_changes_step: "apply_changes cs p = Some q \<Longrightarrow> lifecycle_step p q"
proof (induction cs p rule: apply_changes.induct)
  case (2 i src dst cs p)
  from 2(2) obtain t r where "plan_find p i = Some t" "status t \<notin> TERMINAL_TASK_STATUSES"
    "with_task_status p i dst = Inr r" "apply_changes cs r = Some q" "status t = src"
    by (auto split: option.splits if_splits sum.splits)
  with 2(1) show ?case using with_task_status_step lifecycle_step_trans by blast
qed (simp add: lifecycle_step_refl)

definition last_change :: "change list \<Rightarrow> string \<Rightarrow> TaskStatus option" where
  "last_change cs i = map_of (rev (map (\<lambda>(i, src, dst). (i, dst)) cs)) i"

lemma last_change_Cons:
  "last_change ((j, src, dst) # cs) i = (case last_change cs i of Some s \<Rightarrow> Some s | None \<Rightarrow> if i = j then Some dst else None)"
  by (auto simp: last_change_def map_add_def split: option.splits)

lemma apply_changes_status:
  "apply_changes cs p = Some q \<Longrightarrow>
   map_option status (plan_find q i) =
     (case last_change cs i of Some s \<Rightarrow> Some s | None \<Rightarrow> map_option status (plan_find p i))"
proof (induction cs p rule: apply_changes.induct)
  case (2 j src dst cs p)
  from 2(2) obtain t r where r: "plan_find p j = Some t" "status t = src" "status t \<notin> TERMINAL_TASK_STATUSES"
    "with_task_status p j dst = Inr r" "apply_changes cs r = Some q"
    by (auto split: option.splits if_splits sum.splits)
  have "map_option status (plan_find q i) =
     (case last_change cs i of Some s \<Rightarrow> Some s | None \<Rightarrow> map_option status (plan_find r i))"
    using 2(1) r by blast
  then show ?case
    using with_task_status_find [OF r(4), of i] r(1) by (auto simp: last_change_Cons split: option.splits)
qed (simp add: last_change_def)

section \<open>Evolution of the world\<close>

definition transitions :: "event list \<Rightarrow> change list" where
  "transitions es = concat (map (\<lambda>e. case ev_payload e of TaskTransitioned i a b _ _ _ _ \<Rightarrow> [(i, a, b)] | _ \<Rightarrow> []) es)"

lemma transitions_simps [simp]:
  "transitions [] = []" "transitions (es @ fs) = transitions es @ transitions fs"
  by (simp_all add: transitions_def)

definition pace :: "world \<Rightarrow> int" where
  "pace w = GOAL_DRIFT_TASK_BOUNDARY_MIN_INTERVAL_NS * int (count_list (background_judges w) GoalDriftJudge)
            - last_goal_drift_check_ts (sess w)"

definition extends :: "world \<Rightarrow> world \<Rightarrow> change list \<Rightarrow> bool" where
  "extends w w' cs \<longleftrightarrow>
     cfg w' = cfg w \<and> pace w' \<le> pace w \<and> next_seq (sess w) \<le> next_seq (sess w') \<and>
     (\<exists>es. log w' = log w @ es \<and> sorted_wrt (<) (map ev_seq es) \<and>
        (\<forall>e\<in>set es. next_seq (sess w) \<le> ev_seq e \<and> ev_seq e < next_seq (sess w')) \<and>
        transitions es = (if has_sinks (cfg w) then cs else []))"

lemma extends_same:
  assumes "cfg w' = cfg w" "log w' = log w" "next_seq (sess w') = next_seq (sess w)" "pace w' \<le> pace w"
  shows "extends w w' []"
  using assms by (auto simp: extends_def)

lemma extends_trans: "extends w w' cs \<Longrightarrow> extends w' w'' ds \<Longrightarrow> extends w w'' (cs @ ds)"
proof -
  assume a: "extends w w' cs" and b: "extends w' w'' ds"
  from a obtain es where es: "log w' = log w @ es" "sorted_wrt (<) (map ev_seq es)"
    "\<forall>e\<in>set es. next_seq (sess w) \<le> ev_seq e \<and> ev_seq e < next_seq (sess w')"
    "transitions es = (if has_sinks (cfg w) then cs else [])" by (auto simp: extends_def)
  from b obtain fs where fs: "log w'' = log w' @ fs" "sorted_wrt (<) (map ev_seq fs)"
    "\<forall>e\<in>set fs. next_seq (sess w') \<le> ev_seq e \<and> ev_seq e < next_seq (sess w'')"
    "transitions fs = (if has_sinks (cfg w') then ds else [])" by (auto simp: extends_def)
  have le: "next_seq (sess w) \<le> next_seq (sess w')" "next_seq (sess w') \<le> next_seq (sess w'')"
    "cfg w' = cfg w" "cfg w'' = cfg w'" "pace w' \<le> pace w" "pace w'' \<le> pace w'"
    using a b by (auto simp: extends_def)
  have "sorted_wrt (<) (map ev_seq (es @ fs))"
    using es(2,3) fs(2,3) by (force simp: sorted_wrt_append)
  moreover have "\<forall>e\<in>set (es @ fs). next_seq (sess w) \<le> ev_seq e \<and> ev_seq e < next_seq (sess w'')"
    using es(3) fs(3) le by fastforce
  moreover have "transitions (es @ fs) = (if has_sinks (cfg w) then cs @ ds else [])"
    using es(4) fs(4) le by simp
  moreover have "log w'' = log w @ (es @ fs)" using es(1) fs(1) by simp
  ultimately show ?thesis using le unfolding extends_def by (intro conjI exI [of _ "es @ fs"]) simp_all
qed

text \<open>A collection of rules that push \<^const>\<open>extends\<close> through one more step of a method body.\<close>

named_theorems evolve_intros
named_theorems frame_simps

lemma extends_refl [evolve_intros]: "extends w w []"
  by (rule extends_same) simp_all

lemma extends_quiet:
  "extends w w1 cs \<Longrightarrow> extends w1 w' [] \<Longrightarrow> extends w w' cs"
  using extends_trans [of w w1 cs w' "[]"] by simp

lemma extends_tick [evolve_intros]: "extends w w1 cs \<Longrightarrow> extends w (tick w1) cs"
  by (erule extends_quiet) (auto intro!: extends_same simp: tick_def pace_def)

lemma extends_on_sess [evolve_intros]:
  assumes "extends w w1 cs" "\<And>s. next_seq (f s) = next_seq s" "\<And>s. last_goal_drift_check_ts (f s) = last_goal_drift_check_ts s"
  shows "extends w (on_sess f w1) cs"
  using assms(1) by (rule extends_quiet) (auto intro!: extends_same simp: on_sess_def pace_def assms)

lemma extends_emit:
  "extends w (emit_new p w) (case p of TaskTransitioned i a b _ _ _ _ \<Rightarrow> [(i, a, b)] | _ \<Rightarrow> [])"
  by (auto simp: extends_def emit_new_def next_sequence_def Let_def transitions_def pace_def split: payload.splits)

definition is_transition :: "payload \<Rightarrow> bool" where
  "is_transition p \<longleftrightarrow> (case p of TaskTransitioned _ _ _ _ _ _ _ \<Rightarrow> True | _ \<Rightarrow> False)"

lemma is_transition_simps [simp]:
  "\<not> is_transition (TaskStarted a b)" "\<not> is_transition (TaskProgress a f b)" "\<not> is_transition (TaskCompleted a b xs)"
  "\<not> is_transition (TaskFailed a b c)" "\<not> is_transition (TaskBlocked a b d)" "\<not> is_transition (TaskCancelled a b)"
  "\<not> is_transition (SignalOutcome a b d i n c)" "\<not> is_transition (ConditionResolved k v a b d e g)"
  "\<not> is_transition (DriftDetected x)" "\<not> is_transition (SteeringDecisionMade y)" "\<not> is_transition (JudgementEmitted l m a)"
  "\<not> is_transition (PlanRevised z)" "\<not> is_transition (RefineAttempted u)" "\<not> is_transition (RefineFailed u a b d)"
  "\<not> is_transition (PlanRevisedCorrelation u i)" "\<not> is_transition (LadderTransitionDecided v1)"
  "\<not> is_transition (PolicyApplied a b d e)" "\<not> is_transition (SignalDelivered v2)"
  "\<not> is_transition (ApprovalRequested a b d e)" "\<not> is_transition (ApprovalGranted a b)" "\<not> is_transition (ApprovalRejected a b)"
  "\<not> is_transition (TaskTransitionRefused a st1 st2 b i j)" "\<not> is_transition (TaskDeclarationReceived a b d)"
  "\<not> is_transition (RunAborted a)" "\<not> is_transition (RunCompleted a)" "\<not> is_transition (DetectorDispatchOrdered as b)"
  "\<not> is_transition (PlanSwapSeen pl a)"
  by (simp_all add: is_transition_def)

lemma extends_emit_quiet [evolve_intros]:
  "extends w w1 cs \<Longrightarrow> \<not> is_transition p \<Longrightarrow> extends w (emit_new p w1) cs"
  using extends_emit [of w1 p] by (auto simp: is_transition_def intro: extends_quiet split: payload.splits)

lemma extends_foldl:
  assumes "extends w w1 cs" "\<And>v x. extends v (f v x) []"
  shows "extends w (foldl f w1 xs) cs"
  using assms(1) by (induction xs arbitrary: w1) (auto intro: extends_quiet [OF _ assms(2)])

lemma sess_simps [frame_simps]:
  "session_plan (sess (tick w)) = session_plan (sess w)" "cfg (tick w) = cfg w" "state (sess (tick w)) = state (sess w)"
  "cfg (on_sess f w) = cfg w" "sess (on_sess f w) = f (sess w)"
  "session_plan (sess (emit_new p w)) = session_plan (sess w)" "cfg (emit_new p w) = cfg w"
  "state (sess (emit_new p w)) = state (sess w)"
  by (simp_all add: tick_def on_sess_def emit_new_def next_sequence_def Let_def)

lemma foldl_frame:
  assumes "\<And>v x. g (f v x) = g v"
  shows "g (foldl f w xs) = g w"
  by (induction xs arbitrary: w) (simp_all add: assms)

lemma extends_emit_signal_outcome [evolve_intros]:
  "extends w w1 cs \<Longrightarrow> extends w (emit_signal_outcome e w1) cs"
  by (auto simp: emit_signal_outcome_def intro!: evolve_intros)

lemma extends_record_signal_outcomes [evolve_intros]:
  "extends w w1 cs \<Longrightarrow> extends w (record_signal_outcomes_for_task i w1) cs"
  by (auto simp: record_signal_outcomes_for_task_def Let_def intro!: evolve_intros extends_foldl split: sum.splits)

lemma extends_resolve_conditions [evolve_intros]:
  "extends w w1 cs \<Longrightarrow> extends w (resolve_conditions_for_terminal_task i s w1) cs"
  by (auto simp: resolve_conditions_for_terminal_task_def emit_resolved_conditions_def Let_def
      intro!: evolve_intros extends_foldl split: sum.splits)

lemma extends_stamps [evolve_intros]:
  assumes "extends w w1 cs"
  shows "extends w (stamp_progress i w1) cs" "extends w (stamp_last_observed w1) cs"
    "extends w (note_agent_activity k a i d w1) cs" "extends w (drop_lineage i w1) cs"
    "extends w (note_if i d w1) cs" "extends w (note_completed_activity t i w1) cs"
  using assms
  by (auto simp: stamp_progress_def stamp_last_observed_def note_agent_activity_def drop_lineage_def note_if_def
      note_completed_activity_def Let_def intro!: evolve_intros)

lemma extends_emit_transitioned [evolve_intros]:
  assumes "extends w w1 []" "task_id t = i"
  shows "extends w (emit_task_transitioned t a b source w1) [(i, a, b)]"
proof -
  define w2 where "w2 = (let w1 = (if i \<noteq> [] then stamp_progress i w1 else w1) in
    if i \<noteq> [] \<and> b \<in> TERMINAL_TASK_STATUSES
    then resolve_conditions_for_terminal_task i b (record_signal_outcomes_for_task i w1) else w1)"
  have w2: "extends w1 w2 []" by (auto simp: w2_def Let_def intro!: evolve_intros)
  have "extends w2 (emit_task_transitioned t a b source w1) [(i, a, b)]"
  proof (cases "has_sinks (cfg w2)")
    case True
    then show ?thesis
      using extends_emit [of w2 "TaskTransitioned i a b (if source = [] then ''other'' else source)
          (case session_plan (sess w2) of None \<Rightarrow> 0 | Some p \<Rightarrow> revision_index p)
          (assignee_agent_id t) (resolve_invocation_id_for_agent w2 (assignee_agent_id t))"]
      by (simp add: emit_task_transitioned_def w2_def assms(2) Let_def)
  next
    case False
    then have "emit_task_transitioned t a b source w1 = w2"
      by (simp add: emit_task_transitioned_def w2_def assms(2) Let_def)
    with False show ?thesis by (simp add: extends_def)
  qed
  from extends_trans [OF extends_trans [OF assms(1) w2] this] show ?thesis by simp
qed

lemma extends_spawn_drift [evolve_intros]:
  "extends w w1 cs \<Longrightarrow> extends w (spawn_drift_handler_background d w1) cs"
  by (erule extends_quiet) (auto intro!: extends_same simp: spawn_drift_handler_background_def pace_def)

lemma spawn_drift_frame [frame_simps]:
  "session_plan (sess (spawn_drift_handler_background d w)) = session_plan (sess w)"
  "cfg (spawn_drift_handler_background d w) = cfg w"
  "state (sess (spawn_drift_handler_background d w)) = state (sess w)"
  by (simp_all add: spawn_drift_handler_background_def)

lemma extends_goal_drift [evolve_intros]:
  "extends w w1 cs \<Longrightarrow> extends w (maybe_run_goal_drift_on_task_boundary t w1) cs"
  by (erule extends_quiet, rule extends_same)
    (auto simp: maybe_run_goal_drift_on_task_boundary_def spawn_goal_drift_judge_background_def
      spawn_outcome_progress_background_def on_sess_def tick_def pace_def Let_def count_list_append
      GOAL_DRIFT_TASK_BOUNDARY_MIN_INTERVAL_NS_def split: option.splits)

section \<open>What the bookkeeping leaves alone\<close>

lemma resolve_task_frame: "resolve_task st i n R = Inr (rs, st') \<Longrightarrow> k \<noteq> KEY_SIGNAL_LEDGER \<Longrightarrow> st' k = st k"
  by (auto simp: resolve_task_def sweep_state_def write_all_def Let_def split: prod.splits if_splits)

lemma resolve_matching_frame:
  "resolve_drifts_matching st a b c d = Inr (rs, st') \<Longrightarrow> k \<noteq> KEY_ACTIVE_DRIFTS \<Longrightarrow> st' k = st k"
  by (auto simp: resolve_drifts_matching_def write_active_drifts_def Let_def ebind_Inr_iff split: prod.splits if_splits)

lemma record_signal_outcomes_frame [frame_simps]:
  "session_plan (sess (record_signal_outcomes_for_task i w)) = session_plan (sess w)"
  "cfg (record_signal_outcomes_for_task i w) = cfg w"
  "k \<noteq> KEY_SIGNAL_LEDGER \<Longrightarrow> state (sess (record_signal_outcomes_for_task i w)) k = state (sess w) k"
  by (auto simp: record_signal_outcomes_for_task_def emit_signal_outcome_def Let_def frame_simps resolve_task_frame
      foldl_frame [of "\<lambda>w. session_plan (sess w)"] foldl_frame [of cfg] foldl_frame [of "\<lambda>w. state (sess w)"]
      split: sum.split)

lemma resolve_conditions_frame [frame_simps]:
  "session_plan (sess (resolve_conditions_for_terminal_task i s w)) = session_plan (sess w)"
  "cfg (resolve_conditions_for_terminal_task i s w) = cfg w"
  "k \<noteq> KEY_ACTIVE_DRIFTS \<Longrightarrow> state (sess (resolve_conditions_for_terminal_task i s w)) k = state (sess w) k"
  by (auto simp: resolve_conditions_for_terminal_task_def emit_resolved_conditions_def Let_def frame_simps
      resolve_matching_frame foldl_frame [of "\<lambda>w. session_plan (sess w)"] foldl_frame [of cfg]
      foldl_frame [of "\<lambda>w. state (sess w)"] split: sum.split)

lemma stamps_frame [frame_simps]:
  "session_plan (sess (stamp_progress i w)) = session_plan (sess w)" "cfg (stamp_progress i w) = cfg w"
  "state (sess (stamp_progress i w)) = state (sess w)"
  "session_plan (sess (note_completed_activity t i w)) = session_plan (sess w)" "cfg (note_completed_activity t i w) = cfg w"
  "state (sess (note_completed_activity t i w)) = state (sess w)"
  "session_plan (sess (drop_lineage i w)) = session_plan (sess w)" "cfg (drop_lineage i w) = cfg w"
  "state (sess (drop_lineage i w)) = state (sess w)"
  "session_plan (sess (note_if i d w)) = session_plan (sess w)" "cfg (note_if i d w) = cfg w"
  "state (sess (note_if i d w)) = state (sess w)"
  by (auto simp: stamp_progress_def stamp_last_observed_def note_completed_activity_def note_agent_activity_def
      drop_lineage_def note_if_def Let_def frame_simps)

lemma emit_transitioned_frame [frame_simps]:
  "session_plan (sess (emit_task_transitioned t a b source w)) = session_plan (sess w)"
  "cfg (emit_task_transitioned t a b source w) = cfg w"
  "k \<noteq> KEY_SIGNAL_LEDGER \<Longrightarrow> k \<noteq> KEY_ACTIVE_DRIFTS \<Longrightarrow>
   state (sess (emit_task_transitioned t a b source w)) k = state (sess w) k"
  by (auto simp: emit_task_transitioned_def Let_def frame_simps)

lemma goal_drift_frame [frame_simps]:
  "session_plan (sess (maybe_run_goal_drift_on_task_boundary t w)) = session_plan (sess w)"
  "cfg (maybe_run_goal_drift_on_task_boundary t w) = cfg w"
  "state (sess (maybe_run_goal_drift_on_task_boundary t w)) = state (sess w)"
  by (auto simp: maybe_run_goal_drift_on_task_boundary_def spawn_goal_drift_judge_background_def
      spawn_outcome_progress_background_def Let_def frame_simps split: option.splits)

section \<open>The head of a transition\<close>

definition evolves :: "world \<Rightarrow> world \<Rightarrow> change list \<Rightarrow> bool" where
  "evolves w w' cs \<longleftrightarrow> extends w w' cs \<and>
     (case session_plan (sess w) of
        None \<Rightarrow> cs = [] \<and> session_plan (sess w') = None
      | Some p \<Rightarrow> \<exists>q. session_plan (sess w') = Some q \<and> apply_changes cs p = Some q)"

lemma evolves_refl: "evolves w w []"
  by (auto simp: evolves_def extends_refl split: option.splits)

lemma evolves_trans: "evolves w w' cs \<Longrightarrow> evolves w' w'' ds \<Longrightarrow> evolves w w'' (cs @ ds)"
  using extends_trans [of w w' cs w'' ds] by (auto simp: evolves_def apply_changes_append split: option.splits)

lemma evolves_quiet:
  "evolves w w1 cs \<Longrightarrow> extends w1 w' [] \<Longrightarrow> session_plan (sess w') = session_plan (sess w1) \<Longrightarrow> evolves w w' cs"
  by (auto simp: evolves_def intro: extends_quiet split: option.splits)

definition swapped :: "string \<Rightarrow> TaskStatus \<Rightarrow> world \<Rightarrow> plan \<Rightarrow> world" where
  "swapped i s w q = w\<lparr>sess := (sess w)\<lparr>session_plan := Some q\<rparr>\<rparr>"

lemma swapped_frame [frame_simps]:
  "session_plan (sess (swapped i s w q)) = Some q" "cfg (swapped i s w q) = cfg w"
  "state (sess (swapped i s w q)) = state (sess w)"
  by (simp_all add: swapped_def)

lemma extends_swapped [evolve_intros]: "extends w w1 cs \<Longrightarrow> extends w (swapped i s w1 q) cs"
  by (erule extends_quiet) (auto intro!: extends_same simp: swapped_def pace_def)

lemma swap_status_ok:
  assumes "session_plan (sess w) = Some p" "with_task_status p i s = Inr q"
  shows "swap_status i s w = Inr (swapped i s w q)"
  using assms by (simp add: swap_status_def set_session_plan_def swapped_def)

definition head_ok :: "world \<Rightarrow> string \<Rightarrow> task \<Rightarrow> TaskStatus \<Rightarrow> plan \<Rightarrow> plan \<Rightarrow> bool" where
  "head_ok w i t s p q \<longleftrightarrow> session_plan (sess w) = Some p \<and> plan_find p i = Some t \<and>
     status t \<notin> TERMINAL_TASK_STATUSES \<and> with_task_status p i s = Inr q"

lemma head_id: "head_ok w i t s p q \<Longrightarrow> task_id t = i"
  by (auto simp: head_ok_def dest: plan_find_SomeD)

lemma head_swap: "head_ok w i t s p q \<Longrightarrow> swap_status i s w = Inr (swapped i s w q)"
  by (simp add: head_ok_def swap_status_ok)

lemma head_find: "head_ok w i t s p q \<Longrightarrow> session_plan (sess w') = Some q \<Longrightarrow> find_or w' i u = t\<lparr>status := s\<rparr>"
  using with_task_status_find [of p i s q i] by (simp add: head_ok_def find_or_def find_task_def)

lemma head_evolves:
  "head_ok w i t s p q \<Longrightarrow> extends w w' [(i, status t, s)] \<Longrightarrow> session_plan (sess w') = Some q \<Longrightarrow>
   evolves w w' [(i, status t, s)]"
  by (simp add: head_ok_def evolves_def)

lemma find_task_head:
  assumes "find_task w i = Some t" "status t \<notin> TERMINAL_TASK_STATUSES"
  obtains p q where "head_ok w i t s p q"
proof -
  from assms obtain p where p: "session_plan (sess w) = Some p" "plan_find p i = Some t"
    by (auto simp: find_task_def split: option.splits)
  from plan_find_defined [OF p(2), of s] obtain q where "with_task_status p i s = Inr q" by blast
  with p assms(2) that show ?thesis by (auto simp: head_ok_def)
qed

definition synced :: "gstate \<Rightarrow> task \<Rightarrow> TaskStatus \<Rightarrow> gstate" where
  "synced st t dst =
     (if dst = RUNNING then st(KEY_CURRENT_TASK_ID \<mapsto> JStr (task_id t), KEY_CURRENT_TASK_TITLE \<mapsto> JStr (title t))
      else if dst \<in> TERMINAL_TASK_STATUSES \<and> read_key st KEY_CURRENT_TASK_ID (JStr []) = JStr (task_id t)
      then st(KEY_CURRENT_TASK_ID := None, KEY_CURRENT_TASK_TITLE := None, KEY_CURRENT_TASK_REVISION := None)
      else st)"

lemma sync_pin_ok: "sync_pin t dst w = Inr (on_sess (\<lambda>s. s\<lparr>state := synced (state (sess w)) t dst\<rparr>) w)"
  by (auto simp: sync_pin_def sync_current_task_from_transition_def set_current_task_def clear_current_task_def
      synced_def TERMINAL_TASK_STATUSES_def)

section \<open>Single-task transitions\<close>

lemmas transition_simps = sync_pin_ok frame_simps Let_def

definition change_of :: "world \<Rightarrow> string \<Rightarrow> TaskStatus \<Rightarrow> change list" where
  "change_of w i s =
     (case find_task w i of
        None \<Rightarrow> []
      | Some t \<Rightarrow> if status t \<in> TERMINAL_TASK_STATUSES then [] else [(i, status t, s)])"

lemma change_ofE:
  obtains (noop) "change_of w i s = []"
      "find_task w i = None \<or> (\<exists>t. find_task w i = Some t \<and> status t \<in> TERMINAL_TASK_STATUSES)"
  | (move) t p q where "find_task w i = Some t" "status t \<notin> TERMINAL_TASK_STATUSES" "head_ok w i t s p q"
      "change_of w i s = [(i, status t, s)]"
proof (cases "\<exists>t. find_task w i = Some t \<and> status t \<notin> TERMINAL_TASK_STATUSES")
  case True
  then obtain t where t: "find_task w i = Some t" "status t \<notin> TERMINAL_TASK_STATUSES" by blast
  then obtain p q where "head_ok w i t s p q" by (rule find_task_head)
  with t that(2) show ?thesis by (simp add: change_of_def)
qed (use that(1) in \<open>cases "find_task w i"; auto simp: change_of_def\<close>)

lemma mark_task_running_evolves:
  "\<exists>w'. mark_task_running i detail source w = Inr w' \<and> evolves w w' (change_of w i RUNNING)"
proof (cases rule: change_ofE [of w i RUNNING])
  case (move t p q)
  note h = head_id [OF move(3)] head_swap [OF move(3)] head_find [OF move(3)]
  show ?thesis
    by (auto simp: mark_task_running_def move transition_simps h intro!: head_evolves [OF move(3)] evolve_intros)
qed (auto simp: mark_task_running_def evolves_refl)

lemma mark_task_progress_evolves:
  "\<exists>w'. mark_task_progress i f detail w = Inr w' \<and> evolves w w' []"
  by (auto simp: mark_task_progress_def Let_def frame_simps evolves_refl
      intro!: evolves_quiet [OF evolves_refl] evolve_intros split: option.splits)

lemma mark_task_completed_evolves:
  "\<exists>w'. mark_task_completed i summ arts source w = Inr w' \<and> evolves w w' (change_of w i COMPLETED)"
proof (cases rule: change_ofE [of w i COMPLETED])
  case (move t p q)
  note h = head_id [OF move(3)] head_swap [OF move(3)] head_find [OF move(3)]
  show ?thesis
    by (auto simp: mark_task_completed_def move transition_simps h intro!: head_evolves [OF move(3)] evolve_intros)
qed (auto simp: mark_task_completed_def evolves_refl)

lemma mark_task_blocked_evolves:
  "\<exists>w'. mark_task_blocked i blocker needed source w = Inr w' \<and> evolves w w' (change_of w i BLOCKED)"
proof (cases rule: change_ofE [of w i BLOCKED])
  case (move t p q)
  note h = head_id [OF move(3)] head_swap [OF move(3)] head_find [OF move(3)]
  show ?thesis
    by (auto simp: mark_task_blocked_def move transition_simps h new_drift_def intro!: head_evolves [OF move(3)] evolve_intros)
qed (auto simp: mark_task_blocked_def evolves_refl)

lemma mark_task_not_needed_evolves:
  "\<exists>w'. mark_task_not_needed i reason source w = Inr w' \<and> evolves w w' (change_of w i NOT_NEEDED)"
proof (cases rule: change_ofE [of w i NOT_NEEDED])
  case (move t p q)
  note h = head_id [OF move(3)] head_swap [OF move(3)] head_find [OF move(3)]
  show ?thesis
    by (auto simp: mark_task_not_needed_def move transition_simps h intro!: head_evolves [OF move(3)] evolve_intros)
qed (auto simp: mark_task_not_needed_def evolves_refl)

section \<open>The cancellation cascade\<close>

text \<open>\<open>live_from es L S V i\<close>: a walk along the edges \<open>es\<close> from \<open>S\<close> to \<open>i\<close>, through live tasks outside \<open>V\<close> only.\<close>

inductive live_from :: "TaskEdge list \<Rightarrow> (string \<Rightarrow> bool) \<Rightarrow> string set \<Rightarrow> string set \<Rightarrow> string \<Rightarrow> bool"
  for es :: "TaskEdge list" and L :: "string \<Rightarrow> bool" and S V :: "string set" where
  live_start: "i \<in> S \<Longrightarrow> L i \<Longrightarrow> i \<notin> V \<Longrightarrow> live_from es L S V i"
| live_next: "live_from es L S V j \<Longrightarrow> i \<in> set (succs es j) \<Longrightarrow> L i \<Longrightarrow> i \<notin> V \<Longrightarrow> live_from es L S V i"

lemma live_from_sound: "live_from es L S V i \<Longrightarrow> L i \<and> i \<notin> V"
  by (induction rule: live_from.induct) auto

lemma live_from_none: "\<not> live_from es L {} V i"
proof
  assume "live_from es L {} V i"
  then show False by (induction rule: live_from.induct) auto
qed

lemma live_from_mono:
  assumes "live_from es L S V i" "\<And>j. j \<in> S \<Longrightarrow> L j \<Longrightarrow> j \<notin> V \<Longrightarrow> live_from es L S' V' j"
    "\<And>j. L j \<Longrightarrow> j \<notin> V \<Longrightarrow> j \<notin> V'"
  shows "live_from es L S' V' i"
  using assms(1)
proof (induction rule: live_from.induct)
  case (live_next j i)
  show ?case by (rule live_from.live_next [OF live_next.IH live_next.hyps(2,3) assms(3) [OF live_next.hyps(3,4)]])
qed (rule assms(2))

lemma live_from_visited: "i \<in> V \<Longrightarrow> live_from es L (insert i S) V = live_from es L S V"
  by (intro ext iffI; erule live_from_mono) (auto intro: live_start)

lemma live_from_dead: "\<not> L i \<Longrightarrow> live_from es L (insert i S) V = live_from es L S (insert i V)"
  by (intro ext iffI; erule live_from_mono) (auto intro: live_start)

lemma live_from_step:
  assumes "L i" "i \<notin> V"
  shows "live_from es L (insert i S) V x \<longleftrightarrow> x = i \<or> live_from es L (S \<union> {g\<in>set (succs es i). g \<notin> insert i V}) (insert i V) x"
    (is "_ \<longleftrightarrow> _ \<or> live_from es L ?S (insert i V) x")
proof
  assume "live_from es L (insert i S) V x"
  then show "x = i \<or> live_from es L ?S (insert i V) x"
    by (induction rule: live_from.induct) (auto intro: live_start live_next)
next
  have i: "live_from es L (insert i S) V i" using assms by (auto intro: live_start)
  assume "x = i \<or> live_from es L ?S (insert i V) x"
  then show "live_from es L (insert i S) V x"
  proof
    assume "live_from es L ?S (insert i V) x"
    then show ?thesis by (rule live_from_mono) (auto intro: live_start live_next [OF i])
  qed (simp add: i)
qed

definition live :: "(string, task) dict \<Rightarrow> string \<Rightarrow> bool" where
  "live by_id i \<longleftrightarrow> (\<exists>t. map_of by_id i = Some t \<and> status t \<notin> TERMINAL_TASK_STATUSES)"

definition cancels :: "(string, task) dict \<Rightarrow> string list \<Rightarrow> change list" where
  "cancels by_id is = map (\<lambda>i. (i, status (the (map_of by_id i)), CANCELLED)) is"

definition state_kept :: "world \<Rightarrow> world \<Rightarrow> bool" where
  "state_kept w w' \<longleftrightarrow> (\<forall>k. k \<noteq> KEY_SIGNAL_LEDGER \<longrightarrow> k \<noteq> KEY_ACTIVE_DRIFTS \<longrightarrow> state (sess w') k = state (sess w) k)"

text \<open>One turn of the loop on a live task.\<close>

definition cancel_one :: "string \<Rightarrow> task \<Rightarrow> string \<Rightarrow> string \<Rightarrow> world \<Rightarrow> world" where
  "cancel_one i dep reason source w =
     (let w = emit_new (TaskCancelled i reason) (drop_lineage i w)
      in emit_task_transitioned (find_or w i dep) (status dep) CANCELLED source w)"

lemma cancel_one_evolves:
  fixes reason source
  assumes h: "head_ok w i dep CANCELLED p q"
  defines "w' \<equiv> cancel_one i dep reason source (swapped i CANCELLED w q)"
  shows "evolves w w' [(i, status dep, CANCELLED)]" "session_plan (sess w') = Some q" "state_kept w w'"
  by (auto simp: w'_def cancel_one_def state_kept_def transition_simps head_find [OF h] head_id [OF h]
      intro!: head_evolves [OF h] evolve_intros)

lemma cascade_loop_spec:
  assumes "session_plan (sess w) = Some p"
    and "\<And>i. i \<notin> set visited \<Longrightarrow> plan_find p i = map_of by_id i"
  shows "\<exists>w' is. cascade_loop es by_id reason source queue visited w = Inr w' \<and>
    evolves w w' (cancels by_id is) \<and> state_kept w w' \<and> distinct is \<and>
    set is = {i. live_from es (live by_id) (set queue) (set visited) i}"
  using assms
proof (induction es by_id reason source queue visited w arbitrary: p rule: cascade_loop.induct)
  case (1 es by_id reason source visited w)
  then show ?case by (auto simp: cancels_def live_from_none evolves_refl state_kept_def intro!: exI [of _ "[]"])
next
  case (2 es by_id reason source i queue visited w)
  consider "i \<in> set visited" | "i \<notin> set visited" "\<not> live by_id i"
    | dep where "i \<notin> set visited" "map_of by_id i = Some dep" "status dep \<notin> TERMINAL_TASK_STATUSES"
    by (auto simp: live_def)
  then show ?case
  proof cases
    case 1
    with "2.IH"(1) [OF 1 "2.prems"] show ?thesis by (simp add: live_from_visited)
  next
    case 2
    then have "cascade_loop es by_id reason source (i # queue) visited w =
        cascade_loop es by_id reason source queue (i # visited) w"
      by (auto simp: live_def split: option.splits)
    moreover have "\<exists>w' is. cascade_loop es by_id reason source queue (i # visited) w = Inr w' \<and>
        evolves w w' (cancels by_id is) \<and> state_kept w w' \<and> distinct is \<and>
        set is = {x. live_from es (live by_id) (set queue) (set (i # visited)) x}"
    proof (cases "map_of by_id i")
      case None
      show ?thesis by (rule "2.IH"(2) [OF 2(1) None "2.prems"(1)]) (simp add: "2.prems"(2))
    next
      case (Some a)
      with 2(2) have "status a \<in> TERMINAL_TASK_STATUSES" by (simp add: live_def)
      from "2.IH"(3) [OF 2(1) Some this "2.prems"(1)] show ?thesis by (simp add: "2.prems"(2))
    qed
    ultimately show ?thesis using 2 by (simp add: live_from_dead)
  next
    case (3 dep)
    with "2.prems" obtain q where h: "head_ok w i dep CANCELLED p q"
      using plan_find_defined [of p i dep CANCELLED] by (auto simp: head_ok_def)
    let ?w = "cancel_one i dep reason source (swapped i CANCELLED w q)"
    let ?queue = "queue @ filter (\<lambda>g. g \<notin> set (i # visited)) (succs es i)"
    note one = cancel_one_evolves [OF h, of reason source]
    have eq: "cascade_loop es by_id reason source (i # queue) visited w =
        cascade_loop es by_id reason source ?queue (i # visited) ?w"
      using 3 head_swap [OF h] by (simp add: cancel_one_def Let_def)
    have q: "\<And>j. j \<notin> set (i # visited) \<Longrightarrow> plan_find q j = map_of by_id j"
      using h "2.prems"(2) with_task_status_find [of p i CANCELLED q] by (auto simp: head_ok_def)
    obtain w' xs where w': "cascade_loop es by_id reason source ?queue (i # visited) ?w = Inr w'"
      "evolves ?w w' (cancels by_id xs)" "state_kept ?w w'" "distinct xs"
      "set xs = {x. live_from es (live by_id) (set ?queue) (set (i # visited)) x}"
      using "2.IH"(4) [OF 3 head_swap [OF h] refl refl, unfolded cancel_one_def [symmetric], of q] one(2) q
      by (auto simp: cancel_one_def Let_def)
    have L: "live by_id i" using 3 by (simp add: live_def)
    have "evolves w w' (cancels by_id (i # xs))"
      using evolves_trans [OF one(1) w'(2)] 3 by (simp add: cancels_def)
    moreover have "state_kept w w'" using one(3) w'(3) by (simp add: state_kept_def)
    moreover have "distinct (i # xs)" using w'(4,5) live_from_sound by fastforce
    moreover have "set (i # xs) = {x. live_from es (live by_id) (set (i # queue)) (set visited) x}"
      using live_from_step [of "live by_id" i "set visited" es "set queue"] L 3(1) w'(5) by auto
    ultimately show ?thesis using w'(1) unfolding eq by (intro exI [of _ w'] exI [of _ "i # xs"] conjI) assumption+
  qed
qed

text \<open>
  The tasks a cancelled or fatally failed task takes down with it: those it reaches along edges
  through tasks that are not terminal.
\<close>

inductive doomed :: "plan \<Rightarrow> string \<Rightarrow> string \<Rightarrow> bool" for p :: plan and tid :: string where
  doomed_direct: "e \<in> set (edges p) \<Longrightarrow> from_task_id e = tid \<Longrightarrow> to_task_id e = i \<Longrightarrow> plan_find p i = Some t \<Longrightarrow>
    status t \<notin> TERMINAL_TASK_STATUSES \<Longrightarrow> doomed p tid i"
| doomed_next: "doomed p tid j \<Longrightarrow> e \<in> set (edges p) \<Longrightarrow> from_task_id e = j \<Longrightarrow> to_task_id e = i \<Longrightarrow>
    plan_find p i = Some t \<Longrightarrow> status t \<notin> TERMINAL_TASK_STATUSES \<Longrightarrow> doomed p tid i"

lemma set_succs: "i \<in> set (succs es j) \<longleftrightarrow> (\<exists>e\<in>set es. from_task_id e = j \<and> to_task_id e = i)"
  by (auto simp: succs_def)

lemma live_plan: "distinct (map task_id (tasks p)) \<Longrightarrow>
  live (tasks_by_id p) i \<longleftrightarrow> (\<exists>t. plan_find p i = Some t \<and> status t \<notin> TERMINAL_TASK_STATUSES)"
  by (simp add: live_def tasks_by_id_lookup)

lemma doomed_live: "doomed p tid i \<Longrightarrow> \<exists>t. plan_find p i = Some t \<and> status t \<notin> TERMINAL_TASK_STATUSES"
  by (erule doomed.cases) auto

lemma doomed_iff:
  assumes "distinct (map task_id (tasks p))"
  shows "live_from (edges p) (live (tasks_by_id p)) (set (succs (edges p) tid)) {} i \<longleftrightarrow> doomed p tid i" (is "?l \<longleftrightarrow> _")
proof
  assume ?l
  then show "doomed p tid i"
    by (induction rule: live_from.induct) (auto simp: set_succs live_plan [OF assms] intro: doomed.intros)
next
  assume "doomed p tid i"
  then show ?l
  proof (induction rule: doomed.induct)
    case (doomed_direct e i t)
    then show ?case by (intro live_start) (auto simp: set_succs live_plan [OF assms])
  next
    case (doomed_next j e i t)
    then show ?case by (intro live_next [OF doomed_next.IH]) (auto simp: set_succs live_plan [OF assms])
  qed
qed

lemma doomed_after_swap:
  assumes w: "with_task_status p tid s = Inr q" and s: "s \<in> TERMINAL_TASK_STATUSES"
  shows "doomed q tid i \<longleftrightarrow> doomed p tid i \<and> i \<noteq> tid"
proof
  have f: "plan_find q j = plan_find p j" if "j \<noteq> tid" for j using with_task_status_find [OF w] that by simp
  have e: "edges q = edges p" using w by simp
  have n: "i \<noteq> tid" if "doomed q tid i" for i
    using doomed_live [OF that] with_task_status_find [OF w, of i] s by auto
  show "doomed p tid i \<and> i \<noteq> tid" if "doomed q tid i"
  proof
    from that show "doomed p tid i"
    proof (induction rule: doomed.induct)
      case (doomed_direct e i t)
      then have "i \<noteq> tid" using n doomed.doomed_direct by blast
      then show ?case using doomed_direct f e by (auto intro: doomed.doomed_direct)
    next
      case (doomed_next j e i t)
      then have "i \<noteq> tid" using n doomed.doomed_next by blast
      then show ?case using doomed_next f e by (auto intro: doomed.doomed_next)
    qed
  qed (rule n [OF that])
  have "i = tid \<or> doomed q tid i" if "doomed p tid i"
    using that
  proof (induction rule: doomed.induct)
    case (doomed_direct e' i t)
    then show ?case using f [of i] e by (auto intro: doomed.doomed_direct)
  next
    case (doomed_next j e' i t)
    then show ?case using f [of i] e by (cases "i = tid") (auto intro: doomed.intros)
  qed
  then show "doomed q tid i" if "doomed p tid i \<and> i \<noteq> tid" using that by blast
qed

definition cancelled_changes :: "plan \<Rightarrow> string list \<Rightarrow> change list" where
  "cancelled_changes p is = map (\<lambda>i. (i, status (the (plan_find p i)), CANCELLED)) is"

lemma cascade_spec:
  assumes "session_plan (sess w) = Some p" "distinct (map task_id (tasks p))"
  shows "\<exists>w' is. cascade_cancel_downstream tid source w = Inr w' \<and> evolves w w' (cancelled_changes p is) \<and>
    state_kept w w' \<and> distinct is \<and> set is = {i. doomed p tid i}"
proof -
  obtain w' xs where "cascade_loop (edges p) (tasks_by_id p) (''upstream_failed:'' @ tid) source
      (succs (edges p) tid) [] w = Inr w'" "evolves w w' (cancels (tasks_by_id p) xs)" "state_kept w w'" "distinct xs"
    "set xs = {i. live_from (edges p) (live (tasks_by_id p)) (set (succs (edges p) tid)) (set []) i}"
    using cascade_loop_spec [OF assms(1) tasks_by_id_lookup [OF assms(2), symmetric],
        of "edges p" "''upstream_failed:'' @ tid" source "succs (edges p) tid" "[]"] by blast
  moreover have "cancels (tasks_by_id p) xs = cancelled_changes p xs"
    by (simp add: cancels_def cancelled_changes_def tasks_by_id_lookup [OF assms(2)])
  ultimately show ?thesis
    using assms(1) by (auto simp: cascade_cancel_downstream_def doomed_iff [OF assms(2)] intro!: exI [of _ xs])
qed

lemma cascade_after_swap:
  assumes h: "head_ok w i t s p q" and s: "s \<in> TERMINAL_TASK_STATUSES" and d: "distinct (map task_id (tasks p))"
    and w1: "evolves w w1 [(i, status t, s)]" "session_plan (sess w1) = Some q"
  shows "\<exists>w' is. cascade_cancel_downstream i source w1 = Inr w' \<and>
    evolves w w' ((i, status t, s) # cancelled_changes p is) \<and> state_kept w1 w' \<and> distinct (i # is) \<and>
    set is = {j. doomed p i j \<and> j \<noteq> i}"
proof -
  have pq: "with_task_status p i s = Inr q" using h by (simp add: head_ok_def)
  have "distinct (map task_id (tasks q))" using with_task_status_ids [OF pq] d by simp
  from cascade_spec [OF w1(2) this] obtain w' xs where w': "cascade_cancel_downstream i source w1 = Inr w'"
    "evolves w1 w' (cancelled_changes q xs)" "state_kept w1 w'" "distinct xs" "set xs = {j. doomed q i j}" by blast
  have xs: "set xs = {j. doomed p i j \<and> j \<noteq> i}" using w'(5) doomed_after_swap [OF pq s] by simp
  then have "cancelled_changes q xs = cancelled_changes p xs"
    using with_task_status_find [OF pq] by (auto simp: cancelled_changes_def)
  then show ?thesis using evolves_trans [OF w1(1) w'(2)] w' xs by auto
qed

section \<open>Cascading transitions\<close>

definition plan_ids_ok :: "world \<Rightarrow> bool" where
  "plan_ids_ok w \<longleftrightarrow> (\<forall>p. session_plan (sess w) = Some p \<longrightarrow> distinct (map task_id (tasks p)))"

lemma head_ids_ok: "head_ok w i t s p q \<Longrightarrow> plan_ids_ok w \<Longrightarrow> distinct (map task_id (tasks p))"
  by (simp add: head_ok_def plan_ids_ok_def)

text \<open>The world in which \<open>mark_task_cancelled\<close> and \<open>mark_task_failed\<close> call the cascade.\<close>

definition pre_cascade :: "string \<Rightarrow> task \<Rightarrow> TaskStatus \<Rightarrow> payload \<Rightarrow> (world \<Rightarrow> world) \<Rightarrow> string \<Rightarrow> plan \<Rightarrow> world \<Rightarrow> world" where
  "pre_cascade i t s ev act source q w =
     (let u = t\<lparr>status := s\<rparr>;
          w1 = on_sess (\<lambda>ss. ss\<lparr>state := synced (state (sess w)) u s\<rparr>) (swapped i s w q);
          w2 = emit_new ev (act (drop_lineage i w1))
      in maybe_run_goal_drift_on_task_boundary (Some u) (emit_task_transitioned u (status t) s source w2))"

lemma pre_cascade_evolves:
  assumes h: "head_ok w i t s p q" and ev: "\<not> is_transition ev"
    and act: "\<And>w1 cs. extends w w1 cs \<Longrightarrow> extends w (act w1) cs" "\<And>w. session_plan (sess (act w)) = session_plan (sess w)"
  shows "evolves w (pre_cascade i t s ev act source q w) [(i, status t, s)]"
    "session_plan (sess (pre_cascade i t s ev act source q w)) = Some q"
  by (auto simp: pre_cascade_def transition_simps act head_id [OF h] ev intro!: head_evolves [OF h] evolve_intros act)

lemma mark_task_cancelled_eq:
  assumes "find_task w i = Some t" and h: "head_ok w i t CANCELLED p q"
  shows "mark_task_cancelled i reason source w =
    cascade_cancel_downstream i ''cancellation'' (pre_cascade i t CANCELLED (TaskCancelled i reason) id source q w)"
  using assms(1) h
  by (simp add: mark_task_cancelled_def pre_cascade_def head_ok_def head_swap [OF h] head_find [OF h] transition_simps)

definition dispatch_failure :: "string \<Rightarrow> string \<Rightarrow> bool \<Rightarrow> bool \<Rightarrow> world \<Rightarrow> world" where
  "dispatch_failure i reason recoverable dispatch w =
     (if \<not> dispatch then w
      else let (d, w) = new_drift (if recoverable then TASK_FAILED_RECOVERABLE else TASK_FAILED_FATAL)
                    (if recoverable then WARNING else CRITICAL)
                    (if reason \<noteq> [] then ''task '' @ i @ '' failed: '' @ reason else ''task '' @ i @ '' failed'') i w
           in spawn_drift_handler_background d w)"

lemma dispatch_failure_quiet:
  "extends w (dispatch_failure i reason rec disp w) []"
  "session_plan (sess (dispatch_failure i reason rec disp w)) = session_plan (sess w)"
  "state (sess (dispatch_failure i reason rec disp w)) = state (sess w)"
  by (auto simp: dispatch_failure_def new_drift_def Let_def frame_simps intro!: evolve_intros)

lemma mark_task_failed_eq:
  assumes "find_task w i = Some t" and h: "head_ok w i t FAILED p q"
  shows "mark_task_failed i reason rec source disp w =
    (let w1 = pre_cascade i t FAILED (TaskFailed i reason rec) (note_completed_activity (t\<lparr>status := FAILED\<rparr>) i) source q w
     in ebind (if rec then Inr w1 else cascade_cancel_downstream i ''cancellation'' w1)
          (\<lambda>w. Inr (dispatch_failure i reason rec disp w)))"
  using assms(1) h
  by (simp add: mark_task_failed_def pre_cascade_def head_ok_def head_swap [OF h] head_find [OF h] transition_simps
      dispatch_failure_def if_distrib [of Inr] split_def)

lemma mark_task_cancelled_evolves:
  assumes "find_task w i = Some t" and h: "head_ok w i t CANCELLED p q" and "plan_ids_ok w"
  shows "\<exists>w' is. mark_task_cancelled i reason source w = Inr w' \<and>
    evolves w w' ((i, status t, CANCELLED) # cancelled_changes p is) \<and> distinct (i # is) \<and>
    set is = {j. doomed p i j \<and> j \<noteq> i}"
proof -
  note pre = pre_cascade_evolves [OF h, of "TaskCancelled i reason" id source]
  show ?thesis
    using cascade_after_swap [OF h _ head_ids_ok [OF h assms(3)], of _ "''cancellation''"] pre
    unfolding mark_task_cancelled_eq [OF assms(1) h] by fastforce
qed

lemma mark_task_failed_evolves:
  assumes "find_task w i = Some t" and h: "head_ok w i t FAILED p q" and "plan_ids_ok w"
  shows "\<exists>w' is. mark_task_failed i reason rec source disp w = Inr w' \<and>
    evolves w w' ((i, status t, FAILED) # cancelled_changes p is) \<and> distinct (i # is) \<and>
    set is = {j. \<not> rec \<and> doomed p i j \<and> j \<noteq> i}"
proof -
  let ?w = "pre_cascade i t FAILED (TaskFailed i reason rec) (note_completed_activity (t\<lparr>status := FAILED\<rparr>) i) source q w"
  have pre: "evolves w ?w [(i, status t, FAILED)]" "session_plan (sess ?w) = Some q"
    by (rule pre_cascade_evolves [OF h]; auto simp: frame_simps intro: evolve_intros)+
  show ?thesis
  proof (cases "rec")
    case True
    then show ?thesis
      using evolves_quiet [OF pre(1) dispatch_failure_quiet(1,2)]
      by (auto simp: mark_task_failed_eq [OF assms(1) h] cancelled_changes_def Let_def intro!: exI [of _ "[]"])
  next
    case False
    obtain w' xs where w': "cascade_cancel_downstream i ''cancellation'' ?w = Inr w'"
      "evolves w w' ((i, status t, FAILED) # cancelled_changes p xs)" "distinct (i # xs)"
      "set xs = {j. doomed p i j \<and> j \<noteq> i}"
      using cascade_after_swap [OF h _ head_ids_ok [OF h assms(3)] pre, of "''cancellation''"] by auto
    then show ?thesis
      using False evolves_quiet [OF w'(2) dispatch_failure_quiet(1,2)]
      by (auto simp: mark_task_failed_eq [OF assms(1) h] Let_def intro!: exI [of _ xs])
  qed
qed

section \<open>Sequences of calls\<close>

datatype task_op =
    Running string string string
  | Progress string pyfloat string
  | Complete string string "(string \<times> string) list" string
  | Fail string string bool string bool
  | Block string string string string
  | Cancel string string string
  | NotNeeded string string string
  | Transition string TaskStatus string string string

fun run_op :: "task_op \<Rightarrow> world \<Rightarrow> py_error + world" where
  "run_op (Running i detail source) w = mark_task_running i detail source w"
| "run_op (Progress i f detail) w = mark_task_progress i f detail w"
| "run_op (Complete i summ arts source) w = mark_task_completed i summ arts source w"
| "run_op (Fail i reason rec source disp) w = mark_task_failed i reason rec source disp w"
| "run_op (Block i blocker needed source) w = mark_task_blocked i blocker needed source w"
| "run_op (Cancel i reason source) w = mark_task_cancelled i reason source w"
| "run_op (NotNeeded i reason source) w = mark_task_not_needed i reason source w"
| "run_op (Transition i s detail creason source) w = transition i s detail creason source w"

fun run_all :: "('o \<Rightarrow> world \<Rightarrow> py_error + world) \<Rightarrow> 'o list \<Rightarrow> world \<Rightarrow> py_error + world" where
  "run_all step [] w = Inr w"
| "run_all step (x # xs) w = ebind (step x w) (run_all step xs)"

lemma evolves_plan_ids_ok: "evolves w w' cs \<Longrightarrow> plan_ids_ok w \<Longrightarrow> plan_ids_ok w'"
  by (auto simp: evolves_def plan_ids_ok_def lifecycle_step_def dest!: apply_changes_step split: option.splits)

definition steps_to :: "world \<Rightarrow> py_error + world \<Rightarrow> bool" where
  "steps_to w r \<longleftrightarrow> (\<exists>w' cs. r = Inr w' \<and> evolves w w' cs)"

lemma steps_to_refl: "steps_to w (Inr w)"
  by (auto simp: steps_to_def intro!: exI [of _ "[]"] evolves_refl)

lemma steps_toI: "\<exists>w'. r = Inr w' \<and> evolves w w' cs \<Longrightarrow> steps_to w r"
  by (auto simp: steps_to_def)

locale lifecycle =
  fixes step :: "'o \<Rightarrow> world \<Rightarrow> py_error + world"
  assumes step_steps: "plan_ids_ok w \<Longrightarrow> steps_to w (step x w)"
begin

lemma run_evolves: "plan_ids_ok w \<Longrightarrow> \<exists>w' cs. run_all step xs w = Inr w' \<and> evolves w w' cs"
proof (induction xs arbitrary: w)
  case (Cons x xs)
  from step_steps [OF Cons.prems, of x] obtain w1 cs where w1: "step x w = Inr w1" "evolves w w1 cs"
    by (auto simp: steps_to_def)
  from Cons.IH [OF evolves_plan_ids_ok [OF w1(2) Cons.prems]] obtain w' ds where
    "run_all step xs w1 = Inr w'" "evolves w1 w' ds" by blast
  with w1 evolves_trans [OF w1(2)] show ?case by auto
qed (auto intro: evolves_refl)

lemma run_plan:
  assumes "plan_ids_ok w" "session_plan (sess w) = Some p"
  shows "\<exists>w' q. run_all step xs w = Inr w' \<and> session_plan (sess w') = Some q \<and> lifecycle_step p q"
  using run_evolves [OF assms(1), of xs] assms(2) apply_changes_step by (fastforce simp: evolves_def)

lemma run_log:
  assumes "plan_ids_ok w" "session_plan (sess w) = Some p" "has_sinks (cfg w)"
  shows "\<exists>w' q es. run_all step xs w = Inr w' \<and> session_plan (sess w') = Some q \<and> log w' = log w @ es \<and>
    apply_changes (transitions es) p = Some q"
  using run_evolves [OF assms(1), of xs] assms(2,3) by (fastforce simp: evolves_def extends_def)

lemma run_sequence:
  assumes "plan_ids_ok w" "sorted_wrt (<) (map ev_seq (log w))" "\<forall>e\<in>set (log w). ev_seq e < next_seq (sess w)"
  shows "\<exists>w'. run_all step xs w = Inr w' \<and> sorted_wrt (<) (map ev_seq (log w')) \<and>
    (\<forall>e\<in>set (log w'). ev_seq e < next_seq (sess w'))"
proof -
  from run_evolves [OF assms(1), of xs] obtain w' cs where w': "run_all step xs w = Inr w'" "extends w w' cs"
    by (auto simp: evolves_def)
  from w'(2) obtain es where es: "log w' = log w @ es" "sorted_wrt (<) (map ev_seq es)"
    "\<forall>e\<in>set es. next_seq (sess w) \<le> ev_seq e \<and> ev_seq e < next_seq (sess w')"
    "next_seq (sess w) \<le> next_seq (sess w')" by (auto simp: extends_def)
  have "sorted_wrt (<) (map ev_seq (log w'))"
    using assms es by (force simp: sorted_wrt_append)
  moreover have "\<forall>e\<in>set (log w'). ev_seq e < next_seq (sess w')" using assms(3) es by fastforce
  ultimately show ?thesis using w'(1) by blast
qed

lemma run_paced: "plan_ids_ok w \<Longrightarrow> \<exists>w'. run_all step xs w = Inr w' \<and> pace w' \<le> pace w"
  using run_evolves [of w xs] by (auto simp: evolves_def extends_def)

end

lemma mark_steps:
  "steps_to w (mark_task_running i detail source w)" "steps_to w (mark_task_progress i f detail w)"
  "steps_to w (mark_task_completed i summ arts source w)" "steps_to w (mark_task_blocked i blocker needed source w)"
  "steps_to w (mark_task_not_needed i reason source w)"
  by (rule steps_toI, rule mark_task_running_evolves mark_task_progress_evolves mark_task_completed_evolves
      mark_task_blocked_evolves mark_task_not_needed_evolves)+

lemma mark_cancelled_steps: "plan_ids_ok w \<Longrightarrow> steps_to w (mark_task_cancelled i reason source w)"
proof (cases rule: change_ofE [of w i CANCELLED])
  case (move t p q)
  assume "plan_ids_ok w"
  from mark_task_cancelled_evolves [OF move(1,3) this, of reason source] show ?thesis
    unfolding steps_to_def by blast
qed (auto simp: mark_task_cancelled_def steps_to_refl)

lemma mark_failed_steps: "plan_ids_ok w \<Longrightarrow> steps_to w (mark_task_failed i reason rec source disp w)"
proof (cases rule: change_ofE [of w i FAILED])
  case (move t p q)
  assume "plan_ids_ok w"
  from mark_task_failed_evolves [OF move(1,3) this, of reason rec source disp] show ?thesis
    unfolding steps_to_def by blast
qed (auto simp: mark_task_failed_def steps_to_refl)

lemmas all_steps = mark_steps mark_cancelled_steps mark_failed_steps steps_to_refl

lemma transition_steps: "plan_ids_ok w \<Longrightarrow> steps_to w (transition i s detail creason source w)"
  by (cases s) (auto intro: all_steps)

interpretation marks: lifecycle run_op
proof
  fix w x
  assume "plan_ids_ok w"
  then show "steps_to w (run_op x w)" by (cases x) (auto intro: all_steps transition_steps)
qed

section \<open>Properties\<close>

text \<open>
  C2: terminal statuses are absorbing. Any sequence of \<open>mark_task_*\<close> and \<open>transition\<close> calls on a session
  with a plan of distinct task ids runs without raising, keeps the task ids and their order, the edges
  and the revision index, changes nothing of a task but its status, and leaves every task that is
  terminal exactly as it is.
\<close>

theorem terminal_statuses_absorbing:
  assumes "session_plan (sess w) = Some p" "distinct (map task_id (tasks p))"
  shows "\<exists>w' q. run_all run_op ops w = Inr w' \<and> session_plan (sess w') = Some q \<and>
    map task_id (tasks q) = map task_id (tasks p) \<and> edges q = edges p \<and> revision_index q = revision_index p \<and>
    (\<forall>i t. plan_find p i = Some t \<longrightarrow>
       (\<exists>t'. plan_find q i = Some t' \<and> t' = t\<lparr>status := status t'\<rparr> \<and> (status t \<in> TERMINAL_TASK_STATUSES \<longrightarrow> t' = t)))"
  using marks.run_plan [of w p ops] assms by (auto simp: plan_ids_ok_def lifecycle_step_def task_step_def)

text \<open>A session with two tasks, \<open>a\<close> before \<open>b\<close>, for the witnesses.\<close>

definition sample_plan :: plan where
  "sample_plan = (plan_empty ''p'' ''r'')\<lparr>tasks := [mk_task ''a'' ''A'', (mk_task ''b'' ''B'')\<lparr>status := RUNNING\<rparr>],
     edges := [mk_edge ''a'' ''b'']\<rparr>"

definition sample_config :: config where
  "sample_config = \<lparr>has_sinks = True, has_goal_judge = True, activity_window = 20, plan_mode_ledger = False,
     signal_telemetry = True, request_context = False, strict_ownership = True,
     is_active_steering = True, cancel_scope_all = False, pin_assigned_task = False, descriptive_growth = True,
     has_judges = True, has_plugin = True, sha1_hex = (\<lambda>s. s), discovery_hash = (\<lambda>a b. a @ b), monotonic = (\<lambda>n. int n),
     wall_clock = (\<lambda>n. 10 ^ 10 * int n), uuid_hex = (\<lambda>n. show_nat n)\<rparr>"

definition sample_world :: world where
  "sample_world = \<lparr>sess = (mk_session ''r'')\<lparr>session_plan := Some sample_plan\<rparr>, cfg = sample_config, log = [],
     background_judges = [], background_drifts = [], outcome_inflight = False, invocation_agent = [], top_invocation = [], regs = no_registries,
     cancelled_drift_ids = {}, plugin_calls = [], ticks = 0\<rparr>"

lemma sample_ok [simp]:
  "session_plan (sess sample_world) = Some sample_plan" "distinct (map task_id (tasks sample_plan))"
  "has_sinks (cfg sample_world)" "log sample_world = []" "plan_ids_ok sample_world"
  by (simp_all add: sample_world_def sample_plan_def sample_config_def mk_task_def plan_ids_ok_def)

lemma sample_find [simp]:
  "plan_find sample_plan ''a'' = Some (mk_task ''a'' ''A'')"
  "plan_find sample_plan ''b'' = Some ((mk_task ''b'' ''B'')\<lparr>status := RUNNING\<rparr>)"
  by (simp_all add: sample_plan_def plan_find_def mk_task_def)

lemma sample_doomed: "doomed sample_plan ''a'' ''b''"
  by (rule doomed_direct [of "mk_edge ''a'' ''b''" _ _ _ "(mk_task ''b'' ''B'')\<lparr>status := RUNNING\<rparr>"])
    (simp_all, simp_all add: sample_plan_def mk_edge_def)

theorem terminal_statuses_absorbing_witness:
  "\<exists>w' q. run_all run_op [Complete ''a'' ''done'' [] [], Fail ''a'' ''late'' False [] True] sample_world = Inr w' \<and>
    session_plan (sess w') = Some q \<and> map task_id (tasks q) = [''a'', ''b''] \<and> edges q = [mk_edge ''a'' ''b'']"
  using terminal_statuses_absorbing [of sample_world sample_plan "[Complete ''a'' ''done'' [] [], Fail ''a'' ''late'' False [] True]"]
  by (auto simp: sample_plan_def mk_task_def)



text \<open>
  Sequence numbers. From a session whose log is strictly increasing and below the counter, any
  sequence of calls keeps it so: no two events of a run ever carry the same sequence number and the log
  order is the sequence order.
\<close>

theorem event_sequence_strict:
  assumes "plan_ids_ok w" "sorted_wrt (<) (map ev_seq (log w))" "\<forall>e\<in>set (log w). ev_seq e < next_seq (sess w)"
  shows "\<exists>w'. run_all run_op ops w = Inr w' \<and> sorted_wrt (<) (map ev_seq (log w')) \<and>
    (\<forall>e\<in>set (log w'). ev_seq e < next_seq (sess w'))"
  using marks.run_sequence assms by blast

theorem event_sequence_strict_witness:
  "\<exists>w'. run_all run_op [Running ''a'' [] [], Cancel ''a'' ''stop'' []] sample_world = Inr w' \<and>
    sorted_wrt (<) (map ev_seq (log w'))"
  using event_sequence_strict [of sample_world "[Running ''a'' [] [], Cancel ''a'' ''stop'' []]"] by auto

text \<open>
  Goal-drift checks at task boundaries are rate limited. Over any sequence of calls the number of
  checks spawned, times the ten-second minimum interval, is at most the time by which the stamp of the
  last check moved forward: two checks are never less than ten seconds apart, whatever the clock does.
\<close>

theorem goal_checks_paced:
  assumes "plan_ids_ok w"
  shows "\<exists>w'. run_all run_op ops w = Inr w' \<and>
    10000000000 * (int (count_list (background_judges w') GoalDriftJudge) - int (count_list (background_judges w) GoalDriftJudge))
      \<le> last_goal_drift_check_ts (sess w') - last_goal_drift_check_ts (sess w)"
  using marks.run_paced [OF assms, of ops] by (auto simp: pace_def GOAL_DRIFT_TASK_BOUNDARY_MIN_INTERVAL_NS_def)

theorem goal_checks_paced_witness:
  "\<exists>w'. run_all run_op [Complete ''a'' [] [] [], Complete ''b'' [] [] []] sample_world = Inr w' \<and>
    10000000000 * int (count_list (background_judges w') GoalDriftJudge) \<le> last_goal_drift_check_ts (sess w')"
  using goal_checks_paced [of sample_world "[Complete ''a'' [] [] [], Complete ''b'' [] [] []]"]
  by (auto simp: sample_world_def mk_session_def plan_ids_ok_def sample_plan_def mk_task_def)

section \<open>The cascade, exactly\<close>

lemma changes_final:
  assumes "apply_changes cs p = Some q" "plan_find p j = Some u"
  shows "plan_find q j = Some (case last_change cs j of None \<Rightarrow> u | Some s \<Rightarrow> u\<lparr>status := s\<rparr>)"
proof -
  from apply_changes_step [OF assms(1)] assms(2) obtain u' where
    u': "plan_find q j = Some u'" "u' = u\<lparr>status := status u'\<rparr>" by (auto simp: lifecycle_step_def task_step_def)
  have "status u' = (case last_change cs j of Some s \<Rightarrow> s | None \<Rightarrow> status u)"
    using apply_changes_status [OF assms(1), of j] u'(1) assms(2) by (auto split: option.splits)
  then have "u' = u\<lparr>status := (case last_change cs j of Some s \<Rightarrow> s | None \<Rightarrow> status u)\<rparr>"
    by (intro trans [OF u'(2)]) simp
  then show ?thesis using u'(1) by (cases u; cases "last_change cs j") simp_all
qed

lemma last_change_cancelled:
  "last_change ((i, src, s) # cancelled_changes p is) j =
     (if j \<in> set is then Some CANCELLED else if j = i then Some s else None)"
  by (induction "is" rule: rev_induct)
    (auto simp: last_change_def cancelled_changes_def map_add_def split: option.splits)

text \<open>The final plan and the emitted transitions of a change of \<open>i\<close> followed by a cascade.\<close>

definition fallout :: "plan \<Rightarrow> plan \<Rightarrow> string \<Rightarrow> TaskStatus \<Rightarrow> string set \<Rightarrow> bool" where
  "fallout p q i s D \<longleftrightarrow> edges q = edges p \<and> map task_id (tasks q) = map task_id (tasks p) \<and>
     (\<forall>j u. plan_find p j = Some u \<longrightarrow> plan_find q j =
        Some (if j = i then u\<lparr>status := s\<rparr> else if j \<in> D then u\<lparr>status := CANCELLED\<rparr> else u))"

lemma cascade_result:
  assumes "session_plan (sess w) = Some p" "evolves w w' ((i, src, s) # cancelled_changes p is)" "distinct (i # is)"
  shows "\<exists>q es. session_plan (sess w') = Some q \<and> fallout p q i s (set is) \<and> log w' = log w @ es \<and>
    (has_sinks (cfg w) \<longrightarrow> map fst (transitions es) = i # is)"
proof -
  from assms(1,2) obtain q es where q: "session_plan (sess w') = Some q"
    "apply_changes ((i, src, s) # cancelled_changes p is) p = Some q" "log w' = log w @ es"
    "has_sinks (cfg w) \<longrightarrow> transitions es = (i, src, s) # cancelled_changes p is"
    by (auto simp: evolves_def extends_def)
  have "fallout p q i s (set is)"
    using changes_final [OF q(2)] apply_changes_step [OF q(2)] assms(3)
    by (auto simp: fallout_def lifecycle_step_def last_change_cancelled)
  moreover have "has_sinks (cfg w) \<longrightarrow> map fst (transitions es) = i # is"
    using q(4) by (simp add: cancelled_changes_def comp_def)
  ultimately show ?thesis using q by (intro exI conjI)
qed

lemma fallout_orphans:
  assumes q: "fallout p q i s {j. doomed p i j \<and> j \<noteq> i}" and s: "s \<in> TERMINAL_TASK_STATUSES"
    and e: "e \<in> set (edges q)" "from_task_id e = i \<or> doomed p i (from_task_id e)" "plan_find q (to_task_id e) = Some u"
  shows "status u \<in> TERMINAL_TASK_STATUSES"
proof -
  have u: "u \<in> set (tasks q)" "task_id u = to_task_id e" "to_task_id e \<noteq> []" using plan_find_SomeD [OF e(3)] by auto
  have "task_id ` set (tasks q) = task_id ` set (tasks p)" using q unfolding fallout_def by (metis set_map)
  then have "to_task_id e \<in> task_id ` set (tasks p)" using u(1,2) by (metis image_eqI)
  then obtain v where v: "plan_find p (to_task_id e) = Some v"
    using plan_find_None [OF u(3), of p] by (cases "plan_find p (to_task_id e)") simp_all
  show ?thesis
  proof (cases "status v \<in> TERMINAL_TASK_STATUSES")
    case False
    then have "doomed p i (to_task_id e)" using e v q unfolding fallout_def by (metis doomed.intros)
    then show ?thesis using q v e(3) s by (auto simp: fallout_def split: if_splits)
  next
    case True
    then show ?thesis using q v e(3) s by (auto simp: fallout_def split: if_splits)
  qed
qed

lemma find_task_plan: "session_plan (sess w) = Some p \<Longrightarrow> find_task w i = plan_find p i"
  by (simp add: find_task_def)

lemma mark_cancelled_result:
  assumes p: "session_plan (sess w) = Some p" "distinct (map task_id (tasks p))"
    and t: "plan_find p i = Some t" "status t \<notin> TERMINAL_TASK_STATUSES"
  shows "\<exists>w' q es. mark_task_cancelled i reason source w = Inr w' \<and> session_plan (sess w') = Some q \<and>
    fallout p q i CANCELLED {j. doomed p i j \<and> j \<noteq> i} \<and> log w' = log w @ es \<and>
    (has_sinks (cfg w) \<longrightarrow> distinct (map fst (transitions es)) \<and> set (map fst (transitions es)) = {j. j = i \<or> doomed p i j})"
proof -
  have f: "find_task w i = Some t" using p t by (simp add: find_task_plan)
  from find_task_head [OF f t(2), of CANCELLED] obtain p' q' where h: "head_ok w i t CANCELLED p' q'" by blast
  then have "p' = p" using p by (simp add: head_ok_def)
  with mark_task_cancelled_evolves [OF f, of p q' reason source] h p obtain w' xs where
    w': "mark_task_cancelled i reason source w = Inr w'" "evolves w w' ((i, status t, CANCELLED) # cancelled_changes p xs)"
    "distinct (i # xs)" "set xs = {j. doomed p i j \<and> j \<noteq> i}" by (auto simp: plan_ids_ok_def)
  from cascade_result [OF p(1) w'(2,3)] obtain q es where "session_plan (sess w') = Some q"
    "fallout p q i CANCELLED (set xs)" "log w' = log w @ es"
    "has_sinks (cfg w) \<longrightarrow> map fst (transitions es) = i # xs" by (elim exE conjE)
  then show ?thesis using w' by (intro exI [of _ w'] exI [of _ q] exI [of _ es]) auto
qed

text \<open>
  C3: the cancellation cascade is exact. Cancelling a live task returns and cancels that task and every
  task it reaches along edges through live tasks, and no other: completed, failed, cancelled and not-needed
  tasks are kept verbatim and stop the walk, tasks outside its reach are untouched, and with a sink
  exactly one transition is reported per cancelled task, diamonds included.
\<close>

theorem cancel_cascade_exact:
  assumes p: "session_plan (sess w) = Some p" "distinct (map task_id (tasks p))"
    and t: "plan_find p i = Some t" "status t \<notin> TERMINAL_TASK_STATUSES"
  shows "\<exists>w' q es. mark_task_cancelled i reason source w = Inr w' \<and> session_plan (sess w') = Some q \<and> edges q = edges p \<and>
    log w' = log w @ es \<and>
    (\<forall>j u. plan_find p j = Some u \<longrightarrow>
       plan_find q j = Some (if j = i \<or> doomed p i j then u\<lparr>status := CANCELLED\<rparr> else u)) \<and>
    (has_sinks (cfg w) \<longrightarrow> distinct (map fst (transitions es)) \<and>
       set (map fst (transitions es)) = {j. j = i \<or> doomed p i j})"
  using mark_cancelled_result [OF assms, of reason source] by (fastforce simp: fallout_def)

theorem cancel_cascade_exact_witness:
  "\<exists>w' q. mark_task_cancelled ''a'' ''stop'' [] sample_world = Inr w' \<and> session_plan (sess w') = Some q \<and>
    map_option status (plan_find q ''a'') = Some CANCELLED \<and> map_option status (plan_find q ''b'') = Some CANCELLED"
proof -
  have "status (mk_task ''a'' ''A'') \<notin> TERMINAL_TASK_STATUSES" by (simp add: mk_task_def)
  from cancel_cascade_exact [OF sample_ok(1,2) sample_find(1) this, of "''stop''" "[]"] obtain w' q where
    q: "mark_task_cancelled ''a'' ''stop'' [] sample_world = Inr w'" "session_plan (sess w') = Some q"
    "\<forall>j u. plan_find sample_plan j = Some u \<longrightarrow>
       plan_find q j = Some (if j = ''a'' \<or> doomed sample_plan ''a'' j then u\<lparr>status := CANCELLED\<rparr> else u)" by blast
  have "plan_find q ''a'' = Some ((mk_task ''a'' ''A'')\<lparr>status := CANCELLED\<rparr>)" using q(3) sample_find(1) by simp
  moreover have "plan_find q ''b'' = Some ((mk_task ''b'' ''B'')\<lparr>status := RUNNING, status := CANCELLED\<rparr>)"
    using q(3) sample_find(2) sample_doomed by simp
  ultimately show ?thesis using q by simp
qed

lemma mark_failed_result:
  assumes p: "session_plan (sess w) = Some p" "distinct (map task_id (tasks p))"
    and t: "plan_find p i = Some t" "status t \<notin> TERMINAL_TASK_STATUSES"
  shows "\<exists>w' q. mark_task_failed i reason rec source disp w = Inr w' \<and> session_plan (sess w') = Some q \<and>
    plan_find q i = Some (t\<lparr>status := FAILED\<rparr>) \<and>
    (\<forall>j u. plan_find p j = Some u \<and> j \<noteq> i \<and> (rec \<or> \<not> doomed p i j) \<longrightarrow> plan_find q j = Some u) \<and>
    (\<forall>e u. \<not> rec \<and> e \<in> set (edges q) \<and> (from_task_id e = i \<or> doomed p i (from_task_id e)) \<and>
       plan_find q (to_task_id e) = Some u \<longrightarrow> status u \<in> TERMINAL_TASK_STATUSES)"
proof -
  have f: "find_task w i = Some t" using p t by (simp add: find_task_plan)
  from find_task_head [OF f t(2), of FAILED] obtain p' q' where h: "head_ok w i t FAILED p' q'" by blast
  then have "p' = p" using p by (simp add: head_ok_def)
  with mark_task_failed_evolves [OF f, of p q' reason rec source disp] h p obtain w' xs where
    w': "mark_task_failed i reason rec source disp w = Inr w'" "evolves w w' ((i, status t, FAILED) # cancelled_changes p xs)"
    "distinct (i # xs)" "set xs = {j. \<not> rec \<and> doomed p i j \<and> j \<noteq> i}" by (auto simp: plan_ids_ok_def)
  from cascade_result [OF p(1) w'(2,3)] obtain q where q: "session_plan (sess w') = Some q"
    "fallout p q i FAILED (set xs)" by blast
  have "status u \<in> TERMINAL_TASK_STATUSES"
    if "\<not> rec" "e \<in> set (edges q)" "from_task_id e = i \<or> doomed p i (from_task_id e)" "plan_find q (to_task_id e) = Some u" for e u
    using fallout_orphans [of p q i FAILED e u] q(2) w'(4) that by simp
  then show ?thesis using w' q t
    by (intro exI [of _ w'] exI [of _ q]) (auto simp: fallout_def)
qed

text \<open>
  A failure orphans nobody. \<open>mark_task_failed\<close> on a live task returns and makes it FAILED. A
  recoverable failure touches no other task; after an unrecoverable one every task with an edge from the
  failed task or from a task its cascade cancelled is terminal, so nothing is left waiting for an
  upstream task that will never complete.
\<close>

theorem failure_leaves_no_orphans:
  assumes p: "session_plan (sess w) = Some p" "distinct (map task_id (tasks p))"
    and t: "plan_find p i = Some t" "status t \<notin> TERMINAL_TASK_STATUSES"
  shows "\<exists>w' q. mark_task_failed i reason rec source disp w = Inr w' \<and> session_plan (sess w') = Some q \<and>
    plan_find q i = Some (t\<lparr>status := FAILED\<rparr>) \<and>
    (\<forall>j u. plan_find p j = Some u \<and> j \<noteq> i \<and> (rec \<or> \<not> doomed p i j) \<longrightarrow> plan_find q j = Some u) \<and>
    (\<forall>e u. \<not> rec \<and> e \<in> set (edges q) \<and> (from_task_id e = i \<or> doomed p i (from_task_id e)) \<and>
       plan_find q (to_task_id e) = Some u \<longrightarrow> status u \<in> TERMINAL_TASK_STATUSES)"
  using assms by (rule mark_failed_result)

theorem failure_leaves_no_orphans_witness:
  "\<exists>w' q. mark_task_failed ''a'' ''boom'' False [] True sample_world = Inr w' \<and> session_plan (sess w') = Some q \<and>
    plan_find q ''a'' = Some ((mk_task ''a'' ''A'')\<lparr>status := FAILED\<rparr>)"
proof -
  have "status (mk_task ''a'' ''A'') \<notin> TERMINAL_TASK_STATUSES" by (simp add: mk_task_def)
  from failure_leaves_no_orphans [OF sample_ok(1,2) sample_find(1) this, of "''boom''" False "[]" True]
  show ?thesis by blast
qed

section \<open>The current-task pin\<close>

lemma pin_other_keys: "KEY_CURRENT_TASK_ID \<noteq> KEY_SIGNAL_LEDGER" "KEY_CURRENT_TASK_ID \<noteq> KEY_ACTIVE_DRIFTS"
  by (simp_all add: key_defs KEY_SIGNAL_LEDGER_def)

lemma pin_current_task_cong: "st' KEY_CURRENT_TASK_ID = st KEY_CURRENT_TASK_ID \<Longrightarrow> pin_current_task st' = pin_current_task st"
  by (simp add: pin_current_task_def read_key_def)

lemma pre_cascade_state:
  assumes "s \<noteq> RUNNING" "pin_current_task (state (sess w)) = j" "j \<noteq> task_id t"
  shows "pin_current_task (state (sess (pre_cascade i t s ev id source q w))) = j"
proof -
  have "synced (state (sess w)) (t\<lparr>status := s\<rparr>) s = state (sess w)"
    using assms by (auto simp: synced_def pin_current_task_def)
  then have "state (sess (pre_cascade i t s ev id source q w)) KEY_CURRENT_TASK_ID = state (sess w) KEY_CURRENT_TASK_ID"
    using pin_other_keys by (simp add: pre_cascade_def transition_simps)
  then show ?thesis using assms(2) pin_current_task_cong by blast
qed

text \<open>
  The cascade does not move the pin. When a task is cancelled while the session is pinned to one of
  the tasks its cascade takes down, that task ends CANCELLED and the pin still names it, although every
  direct transition to a terminal status clears the pin of the task it ends.
\<close>

theorem cascade_keeps_stale_pin:
  assumes p: "session_plan (sess w) = Some p" "distinct (map task_id (tasks p))"
    and t: "plan_find p i = Some t" "status t \<notin> TERMINAL_TASK_STATUSES"
    and j: "doomed p i j" "j \<noteq> i" "pin_current_task (state (sess w)) = j"
  shows "\<exists>w' u. mark_task_cancelled i reason source w = Inr w' \<and> find_task w' j = Some u \<and> status u = CANCELLED \<and>
    pin_current_task (state (sess w')) = j"
proof -
  have f: "find_task w i = Some t" using p t by (simp add: find_task_plan)
  from find_task_head [OF f t(2), of CANCELLED] obtain p' q where h: "head_ok w i t CANCELLED p' q" by blast
  then have h: "head_ok w i t CANCELLED p q" using p by (simp add: head_ok_def)
  let ?w = "pre_cascade i t CANCELLED (TaskCancelled i reason) id source q w"
  have pre: "evolves w ?w [(i, status t, CANCELLED)]" "session_plan (sess ?w) = Some q"
    by (rule pre_cascade_evolves [OF h]; simp)+
  from cascade_after_swap [OF h _ p(2) pre, of "''cancellation''"] obtain w' xs where
    w': "cascade_cancel_downstream i ''cancellation'' ?w = Inr w'"
    "evolves w w' ((i, status t, CANCELLED) # cancelled_changes p xs)" "state_kept ?w w'" "distinct (i # xs)"
    "set xs = {j. doomed p i j \<and> j \<noteq> i}" by auto
  from cascade_result [OF p(1) w'(2,4)] obtain q' where "session_plan (sess w') = Some q'"
    "fallout p q' i CANCELLED (set xs)" by blast
  with doomed_live [OF j(1)] have "\<exists>u. find_task w' j = Some u \<and> status u = CANCELLED"
    using j w'(5) by (auto simp: find_task_plan fallout_def)
  moreover have "pin_current_task (state (sess w')) = pin_current_task (state (sess ?w))"
    using w'(3) pin_other_keys by (intro pin_current_task_cong) (simp add: state_kept_def)
  moreover have "pin_current_task (state (sess ?w)) = j"
    using pre_cascade_state [of CANCELLED w j t] j head_id [OF h] by simp
  ultimately show ?thesis using w'(1) mark_task_cancelled_eq [OF f h, of reason source] by auto
qed

definition pinned_world :: world where
  "pinned_world = on_sess (\<lambda>s. s\<lparr>state := [KEY_CURRENT_TASK_ID \<mapsto> JStr ''b'']\<rparr>) sample_world"

theorem cascade_keeps_stale_pin_witness:
  "\<exists>w' u. mark_task_cancelled ''a'' ''stop'' [] pinned_world = Inr w' \<and> find_task w' ''b'' = Some u \<and>
    status u = CANCELLED \<and> pin_current_task (state (sess w')) = ''b''"
proof -
  have "session_plan (sess pinned_world) = Some sample_plan" "pin_current_task (state (sess pinned_world)) = ''b''"
    "status (mk_task ''a'' ''A'') \<notin> TERMINAL_TASK_STATUSES"
    by (simp_all add: pinned_world_def on_sess_def pin_current_task_def mk_task_def)
  then show ?thesis
    using cascade_keeps_stale_pin [of pinned_world sample_plan "''a''" _ "''b''"] sample_doomed by auto
qed

section \<open>The recent-events ring\<close>

lemma drop_first_matching_filter:
  "filter P (drop_first_matching P k xs) = drop k (filter P xs)"
  "filter (\<lambda>x. \<not> P x) (drop_first_matching P k xs) = filter (\<lambda>x. \<not> P x) xs"
  by (induction P k xs rule: drop_first_matching.induct) (auto simp: drop_Cons')

lemma trim_filter:
  assumes "0 < cap"
  shows "filter (event_kind_in K) (trim_recent_events_kind_class evs K cap) = last_n (nat cap) (filter (event_kind_in K) evs)"
    "filter (\<lambda>e. \<not> event_kind_in K e) (trim_recent_events_kind_class evs K cap) = filter (\<lambda>e. \<not> event_kind_in K e) evs"
proof -
  have n: "nat (int n - cap) = n - nat cap" "int n - cap \<le> 0 \<longleftrightarrow> n - nat cap = 0" for n using assms by auto
  show "filter (event_kind_in K) (trim_recent_events_kind_class evs K cap) = last_n (nat cap) (filter (event_kind_in K) evs)"
    using assms by (simp add: trim_recent_events_kind_class_def last_n_def n drop_first_matching_filter(1) Let_def)
  show "filter (\<lambda>e. \<not> event_kind_in K e) (trim_recent_events_kind_class evs K cap) = filter (\<lambda>e. \<not> event_kind_in K e) evs"
    by (simp add: trim_recent_events_kind_class_def drop_first_matching_filter(2) Let_def)
qed

text \<open>
  The activity window. Noting an agent's activity keeps, of the agent start and end entries, exactly
  the newest \<open>max(1, window)\<close> including the new one, in order, and never drops an entry of any other kind.
\<close>

theorem activity_window_exact:
  assumes "kind = ''agent_invocation_started'' \<or> kind = ''agent_invocation_completed''"
  defines "act \<equiv> event_kind_in RECENT_EVENT_AGENT_ACTIVITY_KINDS"
  shows "\<exists>entry. map_of entry ''kind'' = Some (JStr kind) \<and>
    filter act (recent_events (sess (note_agent_activity kind agent task detail w))) =
      last_n (nat (max 1 (activity_window (cfg w)))) (filter act (recent_events (sess w)) @ [entry]) \<and>
    filter (\<lambda>e. \<not> act e) (recent_events (sess (note_agent_activity kind agent task detail w))) =
      filter (\<lambda>e. \<not> act e) (recent_events (sess w))"
proof -
  define entry where "entry = [(''kind'', JStr kind)] @ (if agent \<noteq> [] then [(''agent_name'', JStr agent)] else [])
    @ (if task \<noteq> [] then [(''task_id'', JStr task)] else []) @ (if detail \<noteq> [] then [(''detail'', JStr (take 500 detail))] else [])"
  have k: "map_of entry ''kind'' = Some (JStr kind)" by (simp add: entry_def)
  then have a: "act entry" using assms(1) by (auto simp: act_def event_kind_in_def RECENT_EVENT_AGENT_ACTIVITY_KINDS_def)
  let ?cap = "max 1 (activity_window (cfg w))" and ?evs = "recent_events (sess w) @ [entry]"
  have r: "recent_events (sess (note_agent_activity kind agent task detail w)) =
      trim_recent_events_kind_class ?evs RECENT_EVENT_AGENT_ACTIVITY_KINDS ?cap"
    using assms(1) by (auto simp: note_agent_activity_def stamp_last_observed_def tick_def on_sess_def entry_def Let_def)
  have "0 < ?cap" by simp
  then show ?thesis
    using k a trim_filter [of ?cap RECENT_EVENT_AGENT_ACTIVITY_KINDS ?evs]
    by (intro exI [of _ entry]) (simp add: r act_def)
qed

theorem activity_window_exact_witness:
  "filter (\<lambda>e. \<not> event_kind_in RECENT_EVENT_AGENT_ACTIVITY_KINDS e)
     (recent_events (sess (note_agent_activity ''agent_invocation_started'' ''w'' [] [] sample_world))) = []"
  using activity_window_exact [of "''agent_invocation_started''" "''w''" "[]" "[]" sample_world]
  by (auto simp: sample_world_def mk_session_def)

end
