(* ===== verification/Plan_Revision.thy ===== *)
theory Plan_Revision
  imports Plan_Validate Task_Lifecycle
begin

text \<open>
  \<open>src/goldfive/plan_reviser.py\<close>: how a candidate plan becomes the session's next plan. The theory holds
  the pure steps every install path goes through (folding runtime terminal statuses, keeping the ledger
  identity, the no-op test, wiring of corrections into the graph, stamping of the revision and the
  observation-only gate), the deterministic fallback of a user steer, the re-pinning of the current
  task after a revision, and the growth of the plan by an observed delegation.
\<close>

section \<open>Folding runtime terminal statuses\<close>

definition fold_task :: "(string, task) dict \<Rightarrow> task \<Rightarrow> task" where
  "fold_task prior_terminal t =
     (case map_of prior_terminal (task_id t) of
        None \<Rightarrow> t
      | Some pt \<Rightarrow>
          if status t = status pt then t
          else if status t \<in> TERMINAL_TASK_STATUSES then t
          else t\<lparr>status := status pt,
                 cancel_reason := (if cancel_reason t \<noteq> [] then cancel_reason t else cancel_reason pt)\<rparr>)"

definition prior_terminal_tasks :: "plan \<Rightarrow> (string, task) dict" where
  "prior_terminal_tasks prior =
     dict_of (map (\<lambda>t. (task_id t, t))
       (filter (\<lambda>t. task_id t \<noteq> [] \<and> status t \<in> TERMINAL_TASK_STATUSES) (tasks prior)))"

definition fold_runtime_terminal_statuses :: "plan \<Rightarrow> plan option \<Rightarrow> plan" where
  "fold_runtime_terminal_statuses revised prior =
     (case prior of
        None \<Rightarrow> revised
      | Some pr \<Rightarrow>
          if tasks pr = [] \<or> prior_terminal_tasks pr = [] then revised
          else revised\<lparr>tasks := map (fold_task (prior_terminal_tasks pr)) (tasks revised)\<rparr>)"

section \<open>Ledger identity\<close>

definition preserve_task :: "(string, task) dict \<Rightarrow> task \<Rightarrow> task" where
  "preserve_task prior_by_id t =
     (case map_of prior_by_id (task_id t) of
        Some pt \<Rightarrow>
          if task_kind pt \<noteq> FORECAST
          then t\<lparr>assignee_agent_id := (if assignee_agent_id t \<noteq> [] then assignee_agent_id t else assignee_agent_id pt),
                 discovered := (discovered pt \<or> discovered t),
                 task_discovery_identity_hash := (if task_discovery_identity_hash pt \<noteq> []
                   then task_discovery_identity_hash pt else task_discovery_identity_hash t),
                 task_kind := task_kind pt,
                 contributes_to := (if contributes_to pt \<noteq> [] then contributes_to pt else contributes_to t)\<rparr>
          else t
      | None \<Rightarrow> if task_kind t = FORECAST then t\<lparr>task_kind := OUTCOME\<rparr> else t)"

definition dropped_discovered :: "plan \<Rightarrow> plan \<Rightarrow> task list" where
  "dropped_discovered revised prior =
     filter (\<lambda>pt. task_id pt \<noteq> [] \<and> task_id pt \<notin> task_id ` set (tasks revised) \<and>
                  (task_kind pt = DISCOVERED \<or> discovered pt) \<and> status pt \<notin> TERMINAL_TASK_STATUSES) (tasks prior)"

definition preserve_ledger_identity :: "bool \<Rightarrow> plan \<Rightarrow> plan option \<Rightarrow> plan" where
  "preserve_ledger_identity ledger_mode revised prior =
     (if \<not> ledger_mode then revised
      else case prior of
             None \<Rightarrow> revised
           | Some pr \<Rightarrow>
               if \<not> plan_has_ledger_shape pr then revised
               else revised\<lparr>tasks := map (preserve_task (tasks_by_id pr)) (tasks revised) @ dropped_discovered revised pr\<rparr>)"

section \<open>No-op revisions\<close>

definition plans_structurally_identical :: "plan option \<Rightarrow> plan \<Rightarrow> bool" where
  "plans_structurally_identical prior revised =
     (case prior of
        None \<Rightarrow> False
      | Some pr \<Rightarrow>
          length (tasks pr) = length (tasks revised) \<and>
          list_all (\<lambda>(old, new). task_id old = task_id new \<and> assignee_agent_id old = assignee_agent_id new \<and>
                                 status old = status new) (zip (tasks pr) (tasks revised)) \<and>
          set (map edge_pair (edges pr)) = set (map edge_pair (edges revised)))"

section \<open>Corrections in the graph\<close>

definition corrections_of :: "plan \<Rightarrow> (string \<times> string) list" where
  "corrections_of p =
     map (\<lambda>t. (strip (supersedes t), strip (task_id t)))
       (filter (\<lambda>t. supersedes_kind t = CORRECT \<and> strip (supersedes t) \<noteq> [] \<and> strip (task_id t) \<noteq> [] \<and>
                    strip (supersedes t) \<noteq> strip (task_id t) \<and> map_of (tasks_by_id p) (strip (supersedes t)) \<noteq> None)
         (tasks p))"

text \<open>The inner loop; \<open>ex\<close> is the set \<open>existing_edges\<close>, which a duplicate leaves as it is.\<close>

fun rewrite_out :: "string \<Rightarrow> string \<Rightarrow> (string \<times> string) list \<Rightarrow> (string \<times> string) set \<Rightarrow>
    (string \<times> string) list \<times> (string \<times> string) set" where
  "rewrite_out old new [] ex = ([], ex)"
| "rewrite_out old new ((frm, dst) # es) ex =
     (if frm \<noteq> old \<or> dst = new then
        (let (es', ex') = rewrite_out old new es ex in ((frm, dst) # es', ex'))
      else if (new, dst) \<in> ex then
        (let (es', ex') = rewrite_out old new es ex in ((new, dst) # es', ex'))
      else
        (let (es', ex') = rewrite_out old new es (insert (new, dst) (ex - {(old, dst)})) in ((new, dst) # es', ex')))"

fun apply_corrections :: "(string \<times> string) list \<Rightarrow> (string \<times> string) list \<Rightarrow> (string \<times> string) set \<Rightarrow>
    (string \<times> string) list" where
  "apply_corrections [] es ex = es"
| "apply_corrections ((old, new) # cs) es ex =
     (let (es1, ex1) = (if (old, new) \<in> ex then (es, ex) else (es @ [(old, new)], insert (old, new) ex));
          (es2, ex2) = rewrite_out old new es1 ex1
      in apply_corrections cs es2 ex2)"

fun dedupe_edges :: "(string \<times> string) set \<Rightarrow> (string \<times> string) list \<Rightarrow> (string \<times> string) list" where
  "dedupe_edges seen [] = []"
| "dedupe_edges seen (e # es) = (if e \<in> seen then dedupe_edges seen es else e # dedupe_edges (insert e seen) es)"

definition integrate_correction_supersedes :: "plan \<Rightarrow> plan" where
  "integrate_correction_supersedes p =
     (if corrections_of p = [] then p
      else
        (let es = map edge_pair (edges p)
         in replace_edges p (map Inl (dedupe_edges {} (apply_corrections (corrections_of p) es (set es))))))"

section \<open>Re-pinning\<close>

definition supersession_of :: "plan \<Rightarrow> (string, string) dict" where
  "supersession_of p =
     dict_of (map (\<lambda>t. (strip (supersedes t), strip (task_id t)))
       (filter (\<lambda>t. strip (supersedes t) \<noteq> [] \<and> strip (task_id t) \<noteq> [] \<and> strip (supersedes t) \<noteq> strip (task_id t))
         (tasks p)))"

function resolve_chain :: "(string, string) dict \<Rightarrow> string list \<Rightarrow> string \<Rightarrow> string" where
  "resolve_chain d seen current =
     (case map_of d current of
        None \<Rightarrow> current
      | Some nxt \<Rightarrow> if nxt \<in> set seen then current else resolve_chain d (nxt # seen) nxt)"
  by pat_completeness auto
termination
proof (relation "measure (\<lambda>(d, seen, current). card (snd ` set d - set seen))", goal_cases)
  case (2 d seen current nxt)
  then have "nxt \<in> snd ` set d" by (force dest: map_of_SomeD)
  with 2 have "snd ` set d - set (nxt # seen) \<subset> snd ` set d - set seen" by auto
  then show ?case by (simp add: psubset_card_mono del: set_simps)
qed simp

declare resolve_chain.simps [simp del]

definition repin :: "(string, string) dict \<Rightarrow> string \<Rightarrow> string" where
  "repin d pin = (if pin \<noteq> [] \<and> map_of d pin \<noteq> None then resolve_chain d [pin] pin else pin)"

text \<open>
  \<open>_repin_current_task_on_supersedes\<close>. The second result is the map handed to the adapter's optional
  \<open>rewrite_pinned_task_ids\<close> hook.
\<close>

definition repin_current_task_on_supersedes :: "session \<Rightarrow> plan \<Rightarrow> session \<times> (string, string) dict option" where
  "repin_current_task_on_supersedes s p =
     (let d = supersession_of p in
      if d = [] then (s, None)
      else
        (let s1 = s\<lparr>current_task_id := repin d (current_task_id s)\<rparr>;
             pin = strip (pin_current_task (state s1));
             new = repin d pin
         in (if new \<noteq> pin then s1\<lparr>state := (state s1)(KEY_CURRENT_TASK_ID \<mapsto> JStr new)\<rparr> else s1, Some d)))"

section \<open>Stamping and the observation-only gate\<close>

definition or_else :: "string \<Rightarrow> string \<Rightarrow> string" where
  "or_else a b = (if a \<noteq> [] then a else b)"

definition apply_revision :: "bool \<Rightarrow> bool \<Rightarrow> plan option \<Rightarrow> plan \<Rightarrow> drift_event \<Rightarrow> plan \<times> bool" where
  "apply_revision ledger_mode active_steering prev revised d =
     (let r = preserve_ledger_identity ledger_mode (fold_runtime_terminal_statuses revised prev) prev;
          next_index = (case prev of None \<Rightarrow> 1 | Some p \<Rightarrow> revision_index p + 1);
          r = bump_revision r (Some (max (revision_index r) next_index))
                (Some (or_else (revision_kind r) (drift_kind_value (drift_kind d))))
                (Some (or_else (revision_severity r) (severity_value (drift_severity d))))
                (Some (or_else (revision_reason r) (drift_detail d)))
                (Some (or_else (revision_trigger_event_id r) (or_else (drift_annotation_id d) (drift_id d))));
          gate_active = (prev \<noteq> None \<and> lower (authored_by d) \<noteq> ''user'' \<and> drift_kind d \<noteq> NEW_WORK_DISCOVERED \<and>
                         \<not> active_steering)
      in (r, \<not> gate_active))"

section \<open>The deterministic user-steer evolution\<close>

definition rollover :: "drift_event \<Rightarrow> task \<Rightarrow> task" where
  "rollover d t =
     (if is_terminal (status t) then t
      else t\<lparr>status := CANCELLED,
             cancel_reason := (if drift_id d \<noteq> [] then ''user_steer_rollover:'' @ drift_id d else ''user_steer_rollover'')\<rparr>)"

definition build_minimal_steer_evolution :: "plan \<Rightarrow> drift_event \<Rightarrow> plan" where
  "build_minimal_steer_evolution prior d =
     (let cancelled_ids = task_id ` set (filter (\<lambda>t. \<not> is_terminal (status t)) (tasks prior))
      in \<lparr>plan_id = plan_id prior, plan_run_id = plan_run_id prior, goal_ids = goal_ids prior,
          tasks = map (rollover d) (tasks prior),
          edges = filter (\<lambda>e. \<not> (from_task_id e \<in> cancelled_ids \<or> to_task_id e \<in> cancelled_ids)) (edges prior),
          summary = summary prior, revision_reason = [], revision_kind = [], revision_severity = [],
          revision_index = 0, revision_trigger_event_id = [], goldfive_pivot = False\<rparr>)"

text \<open>The choice of the plan in \<open>install_user_steer\<close>.\<close>

definition choose_user_revision :: "plan \<Rightarrow> plan option \<Rightarrow> drift_event \<Rightarrow> plan" where
  "choose_user_revision prior llm_revision d =
     (case llm_revision of
        None \<Rightarrow> build_minimal_steer_evolution prior d
      | Some r \<Rightarrow>
          (let r = fold_runtime_terminal_statuses r (Some prior)
           in case validate r True (Some prior) of
                None \<Rightarrow> r
              | Some _ \<Rightarrow> build_minimal_steer_evolution prior d))"

section \<open>Descriptive growth\<close>

record growth_request =
  grow_agent :: string
  grow_hash :: string
  grow_title :: string
  grow_description :: string
  grow_task_id :: string
  grow_plan_id :: string
  grow_drift_id :: string

definition growth_detail :: "growth_request \<Rightarrow> string" where
  "growth_detail g = ''descriptive growth: agent='' @ repr_str (grow_agent g) @ '' hash='' @ grow_hash g @
     '' task_id='' @ grow_task_id g"

definition growth_task :: "bool \<Rightarrow> growth_request \<Rightarrow> task" where
  "growth_task ledger_mode g =
     (mk_task (grow_task_id g) (grow_title g))\<lparr>description := grow_description g, assignee_agent_id := grow_agent g,
       status := PENDING, discovered := True, task_discovery_identity_hash := grow_hash g,
       task_kind := (if ledger_mode then DISCOVERED else FORECAST)\<rparr>"

definition growth_plan :: "session \<Rightarrow> task \<Rightarrow> growth_request \<Rightarrow> plan" where
  "growth_plan s t g =
     (case session_plan s of
        None \<Rightarrow> (plan_empty (grow_plan_id g) (run_id s))\<lparr>goal_ids := map goal_id (goals s), tasks := [t], revision_index := 1\<rparr>
      | Some p \<Rightarrow> bump_revision (add_tasks p [t]) (Some (revision_index p + 1))
                   (Some (drift_kind_value NEW_WORK_DISCOVERED)) (Some (severity_value INFO))
                   (Some (growth_detail g)) (Some (grow_drift_id g)))"

definition live_discovered :: "string \<Rightarrow> task \<Rightarrow> bool" where
  "live_discovered h t \<longleftrightarrow> task_discovery_identity_hash t = h \<and> discovered t \<and> status t \<notin> TERMINAL_TASK_STATUSES"

text \<open>The region of \<open>install_descriptive_growth\<close> under the plan lock; the new id and the hash are drawn before it.\<close>

definition grow_under_lock :: "bool \<Rightarrow> bool \<Rightarrow> growth_request \<Rightarrow> session \<Rightarrow> py_error + task \<times> session" where
  "grow_under_lock ledger_mode strict g s =
     (case find (live_discovered (grow_hash g)) (case session_plan s of None \<Rightarrow> [] | Some p \<Rightarrow> tasks p) of
        Some existing \<Rightarrow> Inr (existing, s)
      | None \<Rightarrow>
          (let t = growth_task ledger_mode g; revised = growth_plan s t g
           in case validate revised True (session_plan s) of
                Some _ \<Rightarrow> Inr (t, s)
              | None \<Rightarrow>
                  ebind (set_session_plan True strict s (Some revised)) (\<lambda>s.
                  Inr (t, (case set_current_plan (state s) (Some revised) of
                             Inl _ \<Rightarrow> s | Inr st \<Rightarrow> s\<lparr>state := st\<rparr>)))))"

section \<open>The fold\<close>

lemma prior_terminal_lookup:
  assumes "distinct (map task_id (tasks pr))"
  shows "map_of (prior_terminal_tasks pr) i =
    (case plan_find pr i of None \<Rightarrow> None | Some t \<Rightarrow> if status t \<in> TERMINAL_TASK_STATUSES then Some t else None)"
proof -
  let ?f = "\<lambda>t. task_id t \<noteq> [] \<and> status t \<in> TERMINAL_TASK_STATUSES"
  have d: "distinct (map task_id (filter ?f (tasks pr)))" using assms by (rule distinct_map_filter)
  have F: "find (\<lambda>t. task_id t = i) (filter ?f ts) = (case (if i = [] then None else find (\<lambda>t. task_id t = i) ts) of
      None \<Rightarrow> None | Some t \<Rightarrow> if status t \<in> TERMINAL_TASK_STATUSES then Some t else None)"
    if "distinct (map task_id ts)" for ts
    using that by (induction ts) (auto simp: find_None_iff split: option.splits dest!: find_SomeD)
  have E: "prior_terminal_tasks pr = map (\<lambda>t. (task_id t, t)) (filter ?f (tasks pr))"
    unfolding prior_terminal_tasks_def using d by (intro dict_of_distinct) (simp add: comp_def)
  show ?thesis unfolding E find_map_of [OF d, symmetric] plan_find_def by (rule F [OF assms])
qed

lemma fold_task_id [simp]: "task_id (fold_task d t) = task_id t"
  by (simp add: fold_task_def split: option.split)

lemma find_map_task: "(\<And>t. task_id (f t) = task_id t) \<Longrightarrow>
  find (\<lambda>t. task_id t = i) (map f ts) = map_option f (find (\<lambda>t. task_id t = i) ts)"
  by (induction ts) auto

lemma fold_tasks:
  "tasks (fold_runtime_terminal_statuses r (Some pr)) = map (fold_task (prior_terminal_tasks pr)) (tasks r)"
proof (cases "tasks pr = [] \<or> prior_terminal_tasks pr = []")
  case True
  then have "prior_terminal_tasks pr = []" by (auto simp: prior_terminal_tasks_def dict_of_def)
  with True show ?thesis by (simp add: fold_runtime_terminal_statuses_def fold_task_def map_idI)
next
  case False
  then show ?thesis by (simp add: fold_runtime_terminal_statuses_def)
qed

lemma fold_find:
  "plan_find (fold_runtime_terminal_statuses r (Some pr)) i = map_option (fold_task (prior_terminal_tasks pr)) (plan_find r i)"
  by (simp add: plan_find_def fold_tasks find_map_task)

lemma fold_edges [simp]: "edges (fold_runtime_terminal_statuses r prior) = edges r"
  by (simp add: fold_runtime_terminal_statuses_def split: option.split)

lemma fold_task_status:
  assumes "distinct (map task_id (tasks pr))" "plan_find pr (task_id u) = Some t" "status t \<in> TERMINAL_TASK_STATUSES"
  shows "status (fold_task (prior_terminal_tasks pr) u) = (if status u \<in> TERMINAL_TASK_STATUSES then status u else status t)"
  using assms by (auto simp: fold_task_def prior_terminal_lookup)

section \<open>Properties of the revision steps\<close>

text \<open>
  The fold repairs forgotten history and nothing else. After folding, every task that was terminal in
  the prior plan has its terminal status in the candidate exactly when the candidate had the task and did
  not contradict it with another terminal status; so the validator's rule 6 rejects only tasks that were
  dropped or moved between terminal statuses. Folding again changes nothing.
\<close>

theorem fold_repairs_terminal_statuses:
  assumes d: "distinct (map task_id (tasks prior))" "[] \<notin> task_id ` set (tasks prior)"
  defines "f \<equiv> \<lambda>r. fold_runtime_terminal_statuses r (Some prior)"
  shows "(\<forall>t\<in>set (tasks prior). status t \<in> TERMINAL_TASK_STATUSES \<longrightarrow>
      ((\<exists>n. plan_find (f r) (task_id t) = Some n \<and> status n = status t) \<longleftrightarrow>
       (\<exists>n. plan_find r (task_id t) = Some n \<and> (status n = status t \<or> status n \<notin> TERMINAL_TASK_STATUSES)))) \<and>
    map task_id (tasks (f r)) = map task_id (tasks r) \<and> edges (f r) = edges r \<and> tasks (f (f r)) = tasks (f r)"
proof (intro conjI ballI impI)
  fix t
  assume t: "t \<in> set (tasks prior)" "status t \<in> TERMINAL_TASK_STATUSES"
  then have pt: "plan_find prior (task_id t) = Some t" using d plan_find_in_set by force
  show "(\<exists>n. plan_find (f r) (task_id t) = Some n \<and> status n = status t) \<longleftrightarrow>
       (\<exists>n. plan_find r (task_id t) = Some n \<and> (status n = status t \<or> status n \<notin> TERMINAL_TASK_STATUSES))"
  proof (cases "plan_find r (task_id t)")
    case (Some u)
    then have "task_id u = task_id t" using plan_find_SomeD by blast
    then have "status (fold_task (prior_terminal_tasks prior) u) = (if status u \<in> TERMINAL_TASK_STATUSES then status u else status t)"
      using fold_task_status [OF d(1), of u t] pt t(2) by simp
    with Some t(2) show ?thesis by (auto simp: f_def fold_find)
  qed (simp add: f_def fold_find)
next
  have "fold_task D (fold_task D u) = fold_task D u" for D u
    by (auto simp: fold_task_def split: option.split)
  then show "tasks (f (f r)) = tasks (f r)" by (simp add: f_def fold_tasks)
qed (simp_all add: f_def fold_tasks comp_def)

theorem fold_repairs_terminal_statuses_witness:
  "map task_id (tasks (fold_runtime_terminal_statuses sample_plan (Some sample_plan))) = [''a'', ''b'']"
proof -
  have "[] \<notin> task_id ` set (tasks sample_plan)" by (simp add: sample_plan_def mk_task_def)
  from fold_repairs_terminal_statuses [OF sample_ok(2) this, of sample_plan] show ?thesis
    by (simp add: sample_plan_def mk_task_def)
qed

text \<open>
  Stamping and the observation-only gate. \<open>_apply_revision\<close> always moves the revision index past the
  previous plan's, keeps a kind, severity, reason and trigger the plan already carries and otherwise takes
  the drift's; the revision is held back exactly when there is a previous plan, the drift is neither
  user-authored nor discovered work, and active steering is off.
\<close>

theorem apply_revision_spec:
  "case apply_revision ledger active prev revised d of (r, installed) \<Rightarrow>
    (\<forall>p. prev = Some p \<longrightarrow> revision_index p < revision_index r) \<and> revision_index revised \<le> revision_index r \<and>
    revision_kind r = (if revision_kind revised \<noteq> [] then revision_kind revised else drift_kind_value (drift_kind d)) \<and>
    revision_severity r = (if revision_severity revised \<noteq> [] then revision_severity revised else severity_value (drift_severity d)) \<and>
    revision_reason r = (if revision_reason revised \<noteq> [] then revision_reason revised else drift_detail d) \<and>
    edges r = edges revised \<and>
    (installed \<longleftrightarrow> prev = None \<or> lower (authored_by d) = ''user'' \<or> drift_kind d = NEW_WORK_DISCOVERED \<or> active)"
proof -
  have "revision_index (preserve_ledger_identity ledger (fold_runtime_terminal_statuses revised prev) prev) = revision_index revised \<and>
    revision_kind (preserve_ledger_identity ledger (fold_runtime_terminal_statuses revised prev) prev) = revision_kind revised \<and>
    revision_severity (preserve_ledger_identity ledger (fold_runtime_terminal_statuses revised prev) prev) = revision_severity revised \<and>
    revision_reason (preserve_ledger_identity ledger (fold_runtime_terminal_statuses revised prev) prev) = revision_reason revised \<and>
    edges (preserve_ledger_identity ledger (fold_runtime_terminal_statuses revised prev) prev) = edges revised"
    by (auto simp: preserve_ledger_identity_def fold_runtime_terminal_statuses_def split: option.splits)
  then show ?thesis
    by (auto simp: apply_revision_def bump_revision_def or_else_def Let_def)
qed

theorem apply_revision_spec_witness:
  "case apply_revision False False (Some sample_plan) sample_plan (mk_drift ''d'' OFF_TOPIC WARNING) of
     (r, installed) \<Rightarrow> 0 < revision_index r \<and> \<not> installed"
  using apply_revision_spec [where ledger = False and active = False and prev = "Some sample_plan" and revised = sample_plan
      and d = "mk_drift ''d'' OFF_TOPIC WARNING"]
  by (auto simp: sample_plan_def plan_empty_def mk_drift_def lower_def split: prod.splits)

section \<open>The user-steer fallback\<close>

text \<open>A plan whose supersedes links all name another task of the plan that does not link back.\<close>

definition links_ok :: "plan \<Rightarrow> bool" where
  "links_ok p \<longleftrightarrow> (\<forall>x\<in>set (tasks p). let y = strip (supersedes x) in y \<noteq> [] \<longrightarrow>
     y \<noteq> task_id x \<and> (\<exists>u. plan_find p y = Some u \<and> strip (supersedes u) \<noteq> task_id x))"

lemma rollover_simps [simp]:
  "task_id (rollover d t) = task_id t" "supersedes (rollover d t) = supersedes t"
  "status (rollover d t) \<in> TERMINAL_TASK_STATUSES"
  by (auto simp: rollover_def is_terminal_iff)

lemma minimal_simps [simp]:
  "tasks (build_minimal_steer_evolution p d) = map (rollover d) (tasks p)"
  "edges (build_minimal_steer_evolution p d) = filter (\<lambda>e. \<not> (from_task_id e \<in> task_id ` set (filter (\<lambda>t. \<not> is_terminal (status t)) (tasks p)) \<or>
     to_task_id e \<in> task_id ` set (filter (\<lambda>t. \<not> is_terminal (status t)) (tasks p)))) (edges p)"
  by (simp_all add: build_minimal_steer_evolution_def Let_def)

lemma minimal_find: "plan_find (build_minimal_steer_evolution p d) i = map_option (rollover d) (plan_find p i)"
  by (simp add: plan_find_def find_map_task)

lemma minimal_edge_rel: "edge_rel (build_minimal_steer_evolution p d) \<subseteq> edge_rel p"
  by (auto simp: edge_rel_def)

lemma minimal_dag_ok: "dag_ok p \<Longrightarrow> dag_ok (build_minimal_steer_evolution p d)"
  using minimal_edge_rel [of p d] by (auto simp: dag_ok_def ids_ok_def comp_def image_image intro: acyclic_subset)

lemma minimal_reachable_ok: "reachable_ok (build_minimal_steer_evolution p d)"
proof -
  have "status (rollover d t) \<noteq> PENDING" for t using rollover_simps(3) [of d t] terminal_simps(5) by metis
  then show ?thesis by (auto simp: reachable_ok_def minimal_find)
qed

lemma terminal_ids_iff: "i \<in> set (terminal_ids p) \<longleftrightarrow> (\<exists>t\<in>set (tasks p). task_id t = i \<and> status t \<in> TERMINAL_TASK_STATUSES)"
  by (auto simp: terminal_ids_def)

lemma minimal_preserves:
  assumes "ids_ok p"
  shows "preserves (build_minimal_steer_evolution p d) p"
proof -
  have d: "distinct (map task_id (tasks p))" "[] \<notin> task_id ` set (tasks p)" using assms by (auto simp: ids_ok_def)
  have "\<exists>n. plan_find (build_minimal_steer_evolution p d) (task_id t) = Some n \<and> status n = status t"
    if "t \<in> set (tasks p)" "status t \<in> TERMINAL_TASK_STATUSES" for t
    using that d plan_find_in_set [of p t] by (force simp: minimal_find rollover_def is_terminal_iff)
  moreover have "(a, b) \<in> edge_rel (build_minimal_steer_evolution p d)"
    if "(a, b) \<in> edge_rel p" "a \<in> set (terminal_ids p)" "b \<in> set (terminal_ids p)" for a b
  proof -
    have "c \<notin> task_id ` set (filter (\<lambda>t. \<not> is_terminal (status t)) (tasks p))" if "c \<in> set (terminal_ids p)" for c
      using that d(1) by (auto simp: terminal_ids_iff is_terminal_iff distinct_map inj_on_def)
    with that show ?thesis by (auto simp: edge_rel_def edge_pair_def)
  qed
  ultimately show ?thesis by (auto simp: preserves_def)
qed

lemma minimal_supersede_ok:
  assumes "ids_ok p" "x \<in> set (tasks p)"
  shows "supersede_ok (build_minimal_steer_evolution p d) p (rollover d x) \<longleftrightarrow>
    (let y = strip (supersedes x) in y \<noteq> [] \<longrightarrow> y \<noteq> task_id x \<and> (\<exists>u. plan_find p y = Some u \<and> strip (supersedes u) \<noteq> task_id x))"
proof -
  let ?m = "build_minimal_steer_evolution p d"
  have d: "distinct (map task_id (tasks p))" "distinct (map task_id (tasks ?m))" using assms(1) by (auto simp: ids_ok_def comp_def)
  note look = tasks_by_id_lookup [OF d(1)] tasks_by_id_lookup [OF d(2)] minimal_find
  have "corrective_ok ?m p i y" for i y
    by (auto simp: corrective_ok_def live_in_def terminal_in_def look)
  then show ?thesis
    by (cases "plan_find p (strip (supersedes x))") (auto simp: supersede_ok_def Let_def look)
qed

text \<open>
  When the user-steer fallback is a valid plan. For a prior plan that was itself validated, the
  deterministic minimum evolution passes \<open>Plan.validate\<close> against it exactly when every supersedes link of
  the prior names another task that is still in the prior and does not link back. In particular it always
  passes for plans without supersedes links; a link to a task that an earlier revision dropped breaks it.
\<close>

theorem minimal_steer_evolution_validates:
  assumes "validate prior r prev = None"
  shows "validate (build_minimal_steer_evolution prior d) True (Some prior) = None \<longleftrightarrow> links_ok prior"
proof -
  have dag: "dag_ok prior" using assms by (simp add: validate_None plan_ok_def)
  then have ids: "ids_ok prior" by (simp add: dag_ok_def)
  have "(\<forall>x\<in>set (tasks (build_minimal_steer_evolution prior d)). supersede_ok (build_minimal_steer_evolution prior d) prior x) \<longleftrightarrow> links_ok prior"
    using minimal_supersede_ok [OF ids] by (auto simp: links_ok_def)
  then show ?thesis
    using minimal_dag_ok [OF dag] minimal_reachable_ok minimal_preserves [OF ids] by (simp add: validate_None plan_ok_def)
qed

lemma sample_valid: "validate sample_plan True None = None"
proof -
  have "acyclic {(''a'', ''b'')}" by (simp add: acyclic_def trancl_insert)
  then show ?thesis
    by (simp add: validate_None plan_ok_def dag_ok_def ids_ok_def reachable_ok_def edge_rel_def sample_plan_def mk_task_def
        mk_edge_def edge_pair_def plan_find_def)
qed

theorem minimal_steer_evolution_validates_witness:
  "validate (build_minimal_steer_evolution sample_plan (mk_drift ''d'' USER_STEER WARNING)) True (Some sample_plan) = None"
  using minimal_steer_evolution_validates [OF sample_valid]
  by (simp add: links_ok_def sample_plan_def mk_task_def strip_def)

text \<open>
  A user steer never rewrites history. Whatever revision the planner proposes, the plan
  \<open>install_user_steer\<close> chooses keeps every terminal task of the prior plan with its status and every edge
  between terminal tasks; when it falls back to the minimum evolution no task is left unfinished.
\<close>

theorem user_steer_keeps_history:
  assumes "validate prior r prev = None"
  shows "preserves (choose_user_revision prior llm d) prior \<and>
    ((\<forall>r'. llm = Some r' \<longrightarrow> validate (fold_runtime_terminal_statuses r' (Some prior)) True (Some prior) \<noteq> None) \<longrightarrow>
     (\<forall>t\<in>set (tasks (choose_user_revision prior llm d)). status t \<in> TERMINAL_TASK_STATUSES))"
proof -
  have ids: "ids_ok prior" using assms by (simp add: validate_None plan_ok_def dag_ok_def)
  show ?thesis
    using minimal_preserves [OF ids]
    by (auto simp: choose_user_revision_def Let_def validate_None plan_ok_def split: option.splits)
qed

theorem user_steer_keeps_history_witness:
  "status ` set (tasks (choose_user_revision sample_plan None (mk_drift ''d'' USER_STEER WARNING))) \<subseteq> TERMINAL_TASK_STATUSES"
  using user_steer_keeps_history [OF sample_valid, of None "mk_drift ''d'' USER_STEER WARNING"] by auto

section \<open>Growth\<close>

lemma growth_task_simps [simp]:
  "task_id (growth_task l g) = grow_task_id g" "status (growth_task l g) = PENDING" "supersedes (growth_task l g) = []"
  "discovered (growth_task l g)" "task_discovery_identity_hash (growth_task l g) = grow_hash g"
  by (simp_all add: growth_task_def mk_task_def)

lemma growth_plan_simps:
  "session_plan s = Some p \<Longrightarrow> tasks (growth_plan s t g) = tasks p @ [t]"
  "session_plan s = Some p \<Longrightarrow> edges (growth_plan s t g) = edges p"
  "session_plan s = Some p \<Longrightarrow> revision_index (growth_plan s t g) = revision_index p + 1"
  "session_plan s = None \<Longrightarrow> tasks (growth_plan s t g) = [t]"
  by (simp_all add: growth_plan_def bump_revision_def add_tasks_def)

lemma find_append_new:
  "i \<noteq> task_id t \<Longrightarrow> find (\<lambda>t. task_id t = i) (ts @ [t]) = find (\<lambda>t. task_id t = i) ts"
  by (induction ts) auto

text \<open>\<open>q\<close> is \<open>p\<close> with one fresh, unconnected, PENDING task that supersedes nothing.\<close>

definition grown :: "plan \<Rightarrow> task \<Rightarrow> plan \<Rightarrow> bool" where
  "grown p t q \<longleftrightarrow> tasks q = tasks p @ [t] \<and> edges q = edges p \<and> task_id t \<noteq> [] \<and> task_id t \<notin> task_id ` set (tasks p) \<and>
     supersedes t = [] \<and> (\<forall>x\<in>set (tasks p). strip (supersedes x) \<noteq> task_id t)"

lemma grown_find: "grown p t q \<Longrightarrow> i \<noteq> task_id t \<Longrightarrow> plan_find q i = plan_find p i"
  by (simp add: grown_def plan_find_def find_append_new)

lemma grown_edge_rel: "grown p t q \<Longrightarrow> edge_rel q = edge_rel p"
  by (simp add: grown_def edge_rel_def)

lemma grown_edges_known: "dag_ok p \<Longrightarrow> (a, b) \<in> edge_rel p \<Longrightarrow> a \<in> task_id ` set (tasks p) \<and> b \<in> task_id ` set (tasks p)"
  by (auto simp: dag_ok_def)

lemma grown_dag_ok:
  assumes g: "grown p t q" and d: "dag_ok p"
  shows "dag_ok q"
proof -
  have T: "tasks q = tasks p @ [t]" "task_id t \<noteq> []" "task_id t \<notin> task_id ` set (tasks p)" using g by (simp_all add: grown_def)
  have "ids_ok q" using d T by (auto simp: dag_ok_def ids_ok_def)
  moreover have "task_id ` set (tasks p) \<subseteq> task_id ` set (tasks q)" using T(1) by auto
  ultimately show ?thesis using d unfolding dag_ok_def grown_edge_rel [OF g] by blast
qed

lemma grown_reachable_ok: "grown p t q \<Longrightarrow> dag_ok p \<Longrightarrow> reachable_ok q \<longleftrightarrow> reachable_ok p"
proof -
  assume g: "grown p t q" and d: "dag_ok p"
  have "plan_find q c = plan_find p c" if "c \<in> task_id ` set (tasks p)" for c
    using grown_find [OF g] g that by (metis grown_def)
  then show ?thesis
    using grown_edges_known [OF d] by (fastforce simp: reachable_ok_def grown_edge_rel [OF g])
qed

lemma plan_find_member: "ids_ok p \<Longrightarrow> t \<in> set (tasks p) \<Longrightarrow> plan_find p (task_id t) = Some t"
  by (rule plan_find_in_set) (auto simp: ids_ok_def image_iff)

lemma grown_preserves:
  assumes g: "grown p t q" and "ids_ok p"
  shows "preserves q p"
proof -
  have "plan_find q (task_id u) = Some u" if "u \<in> set (tasks p)" for u
    using plan_find_member [OF assms(2) that] grown_find [OF g, of "task_id u"] that g by (auto simp: grown_def image_iff)
  then show ?thesis by (auto simp: preserves_def grown_edge_rel [OF g])
qed

lemma grown_supersede_ok:
  assumes g: "grown p t q" and d: "dag_ok p" and x: "x \<in> set (tasks p)"
  shows "supersede_ok q p x \<longleftrightarrow> supersede_ok p p x"
proof -
  have ids: "distinct (map task_id (tasks p))" "distinct (map task_id (tasks q))"
    using d grown_dag_ok [OF g d] by (auto simp: dag_ok_def ids_ok_def)
  have look: "map_of (tasks_by_id q) c = map_of (tasks_by_id p) c" if "c \<noteq> task_id t" for c
    using grown_find [OF g that] tasks_by_id_lookup [OF ids(1)] tasks_by_id_lookup [OF ids(2)] by simp
  have y: "strip (supersedes x) \<noteq> task_id t" using g x by (simp add: grown_def)
  have z: "z \<noteq> task_id t" if "(strip (supersedes x), z) \<in> edge_rel p" for z
    using grown_edges_known [OF d that] g by (metis grown_def)
  have "live_in q z = live_in p z" if "(strip (supersedes x), z) \<in> edge_rel p" for z
    using look [OF z [OF that]] by (simp add: live_in_def)
  then have "corrective_ok q p (task_id x) (strip (supersedes x)) = corrective_ok p p (task_id x) (strip (supersedes x))"
    unfolding corrective_ok_def terminal_in_def pending_in_def grown_edge_rel [OF g] look [OF y] by blast
  then show ?thesis using look [OF y] by (simp add: supersede_ok_def Let_def)
qed

lemma grown_validates:
  assumes g: "grown p t q" and d: "dag_ok p"
  shows "validate q True (Some p) = None \<longleftrightarrow> validate p True (Some p) = None"
proof -
  have ids: "ids_ok p" using d by (simp add: dag_ok_def)
  have "supersede_ok q p t" using g by (simp add: grown_def supersede_ok_def strip_def)
  moreover have "preserves p p" using plan_find_member [OF ids] by (auto simp: preserves_def)
  moreover have "set (tasks q) = insert t (set (tasks p))" using g by (simp add: grown_def)
  ultimately show ?thesis
    using grown_dag_ok [OF g d] d grown_reachable_ok [OF g d] grown_preserves [OF g ids] grown_supersede_ok [OF g d]
    by (simp add: validate_None plan_ok_def)
qed

lemma set_current_plan_ok: "set_current_plan st (Some p) = Inr (st(KEY_CURRENT_PLAN_ID \<mapsto> JStr (plan_id p)))"
  by (simp add: set_current_plan_def)

lemma grow_none:
  assumes "session_plan s = Some p" "\<not> (\<exists>t\<in>set (tasks p). live_discovered (grow_hash g) t)"
  shows "grow_under_lock l strict g s =
    (let t = growth_task l g; q = growth_plan s t g
     in if validate q True (Some p) = None
        then Inr (t, s\<lparr>session_plan := Some q, state := (state s)(KEY_CURRENT_PLAN_ID \<mapsto> JStr (plan_id q))\<rparr>) else Inr (t, s))"
proof -
  have "find (live_discovered (grow_hash g)) (tasks p) = None" using assms(2) by (simp add: find_None_iff)
  then show ?thesis
    using assms(1) by (auto simp: grow_under_lock_def set_session_plan_def set_current_plan_ok Let_def split: option.split)
qed

text \<open>
  Growth lands whenever it can. For a session whose plan was validated, with a fresh task id and no
  live discovered task of the same identity, \<open>install_descriptive_growth\<close> returns the new task; the plan
  grows by exactly that task, PENDING, ready to run and one revision later, if the current plan still
  validates against itself, and nothing changes otherwise.
\<close>

theorem growth_lands:
  assumes p: "session_plan s = Some p" "validate p r prev = None"
    and fresh: "grow_task_id g \<noteq> []" "grow_task_id g \<notin> task_id ` set (tasks p)"
      "\<forall>x\<in>set (tasks p). strip (supersedes x) \<noteq> grow_task_id g"
    and new: "\<not> (\<exists>t\<in>set (tasks p). live_discovered (grow_hash g) t)"
  shows "\<exists>s'. grow_under_lock l strict g s = Inr (growth_task l g, s') \<and>
    (if validate p True (Some p) = None
     then (\<exists>q. session_plan s' = Some q \<and> tasks q = tasks p @ [growth_task l g] \<and> edges q = edges p \<and>
             revision_index q = revision_index p + 1 \<and> task_upstream_ready q (grow_task_id g))
     else s' = s)"
proof -
  let ?t = "growth_task l g" and ?q = "growth_plan s (growth_task l g) g"
  have dag: "dag_ok p" using p(2) by (simp add: validate_None plan_ok_def)
  have g: "grown p ?t ?q" using fresh by (simp add: grown_def growth_plan_simps(1,2) [OF p(1)])
  have "to_task_id e \<noteq> grow_task_id g" if "e \<in> set (edges p)" for e
    using grown_edges_known [OF dag, of "from_task_id e" "to_task_id e"] that fresh(2) by (auto simp: edge_rel_def edge_pair_def)
  then have "task_upstream_ready ?q (grow_task_id g)"
    by (auto simp: task_upstream_ready_iff growth_plan_simps(1,2) [OF p(1)])
  then show ?thesis
    using grow_none [OF p(1) new, of l strict] grown_validates [OF g dag] growth_plan_simps(1-3) [OF p(1)] by (simp add: Let_def)
qed

definition sample_growth :: growth_request where
  "sample_growth = \<lparr>grow_agent = ''w'', grow_hash = ''h'', grow_title = ''w: look'', grow_description = [],
     grow_task_id = ''discovered-1'', grow_plan_id = ''p1'', grow_drift_id = ''e1''\<rparr>"

theorem growth_lands_witness:
  "\<exists>s' q. grow_under_lock False True sample_growth (sess sample_world) = Inr (growth_task False sample_growth, s') \<and>
    session_plan s' = Some q \<and> map task_id (tasks q) = [''a'', ''b'', ''discovered-1'']"
proof -
  have v: "validate sample_plan True (Some sample_plan) = None"
    using sample_valid
    by (auto simp: validate_None plan_ok_def preserves_def supersede_ok_def sample_plan_def plan_find_def mk_task_def strip_def terminal_ids_def)
  have f: "grow_task_id sample_growth \<notin> task_id ` set (tasks sample_plan)"
    "\<forall>x\<in>set (tasks sample_plan). strip (supersedes x) \<noteq> grow_task_id sample_growth"
    "\<not> (\<exists>t\<in>set (tasks sample_plan). live_discovered (grow_hash sample_growth) t)" "grow_task_id sample_growth \<noteq> []"
    by (simp_all add: sample_growth_def sample_plan_def mk_task_def strip_def live_discovered_def)
  from growth_lands [OF sample_ok(1) sample_valid f(4,1,2,3), of False True] v obtain s' q where
    "grow_under_lock False True sample_growth (sess sample_world) = Inr (growth_task False sample_growth, s')"
    "session_plan s' = Some q" "tasks q = tasks sample_plan @ [growth_task False sample_growth]" by auto
  then show ?thesis by (auto simp: sample_plan_def mk_task_def sample_growth_def)
qed

text \<open>
  Growth is deduplicated. Once a delegation has grown the plan, any further delegation of the same
  identity returns that very task and leaves the session unchanged, until the task is terminal.
\<close>

theorem growth_deduplicates:
  assumes "grow_under_lock l strict g s = Inr (t, s')" "session_plan s' \<noteq> session_plan s"
    and "grow_hash g2 = grow_hash g"
  shows "grow_under_lock l2 strict2 g2 s' = Inr (t, s') \<and> t = growth_task l g"
proof -
  let ?ts = "\<lambda>s. case session_plan s of None \<Rightarrow> [] | Some p \<Rightarrow> tasks p"
  let ?t = "growth_task l g" and ?q = "growth_plan s (growth_task l g) g"
  have none: "find (live_discovered (grow_hash g)) (?ts s) = None"
    using assms(1,2) by (cases "find (live_discovered (grow_hash g)) (?ts s)") (auto simp: grow_under_lock_def)
  then have s': "t = ?t" "session_plan s' = Some ?q"
    using assms(1,2)
    by (auto simp: grow_under_lock_def set_session_plan_def set_current_plan_ok Let_def split: option.splits)
  have "tasks ?q = ?ts s @ [?t]" by (cases "session_plan s") (simp_all add: growth_plan_simps)
  moreover have "live_discovered (grow_hash g) ?t" by (simp add: live_discovered_def)
  moreover have "find P xs = None \<Longrightarrow> P x \<Longrightarrow> find P (xs @ [x]) = Some x" for P and x :: task and xs
    by (induction xs) (auto split: if_splits)
  ultimately have "find (live_discovered (grow_hash g2)) (?ts s') = Some ?t" using none s'(2) assms(3) by simp
  then show ?thesis using s'(1) by (simp add: grow_under_lock_def)
qed

theorem growth_deduplicates_witness:
  "\<exists>s'. grow_under_lock False True sample_growth (mk_session ''r'') = Inr (growth_task False sample_growth, s') \<and>
    grow_under_lock True False (sample_growth\<lparr>grow_task_id := ''discovered-2''\<rparr>) s' = Inr (growth_task False sample_growth, s')"
proof -
  let ?s = "mk_session ''r''" and ?t = "growth_task False sample_growth"
  have n: "session_plan ?s = None" by (simp add: mk_session_def)
  have "edges (growth_plan ?s ?t sample_growth) = []" by (simp add: growth_plan_def n plan_empty_def)
  then have "validate (growth_plan ?s ?t sample_growth) True None = None"
    by (simp add: validate_None plan_ok_def dag_ok_def ids_ok_def reachable_ok_def edge_rel_def growth_plan_simps n sample_growth_def acyclic_def)
  then obtain s' where s': "grow_under_lock False True sample_growth ?s = Inr (?t, s')" "session_plan s' \<noteq> session_plan ?s"
    by (auto simp: grow_under_lock_def n set_session_plan_def set_current_plan_ok Let_def)
  from growth_deduplicates [OF this, of "sample_growth\<lparr>grow_task_id := ''discovered-2''\<rparr>" True False] s'(1) show ?thesis by auto
qed

text \<open>
  If some task of the current plan supersedes an id that is not in the plan, which is how a validated
  revision that replaces and drops a task leaves it, then no delegation grows the plan.
\<close>

lemma dangling_blocks:
  assumes p: "session_plan s = Some p" "validate p r prev = None"
    and fresh: "grow_task_id g \<noteq> []" "grow_task_id g \<notin> task_id ` set (tasks p)"
      "\<forall>x\<in>set (tasks p). strip (supersedes x) \<noteq> grow_task_id g"
    and new: "\<not> (\<exists>t\<in>set (tasks p). live_discovered (grow_hash g) t)"
    and x: "x \<in> set (tasks p)" "strip (supersedes x) \<noteq> []" "strip (supersedes x) \<notin> task_id ` set (tasks p)"
  shows "grow_under_lock l strict g s = Inr (growth_task l g, s)"
proof -
  have dag: "dag_ok p" using p(2) by (simp add: validate_None plan_ok_def)
  then have "distinct (map task_id (tasks p))" by (simp add: dag_ok_def ids_ok_def)
  then have "map_of (tasks_by_id p) (strip (supersedes x)) = None"
    using x plan_find_None [OF x(2), of p] by (simp add: tasks_by_id_lookup)
  then have "\<not> supersede_ok p p x" using x(2) by (simp add: supersede_ok_def Let_def)
  then have "validate p True (Some p) \<noteq> None" using x(1) by (auto simp: validate_None plan_ok_def)
  moreover have "grown p (growth_task l g) (growth_plan s (growth_task l g) g)"
    using fresh by (simp add: grown_def growth_plan_simps(1,2) [OF p(1)])
  ultimately show ?thesis
    using grow_none [OF p(1) new, of l strict] grown_validates [OF _ dag] by (auto simp: Let_def)
qed

text \<open>\<open>b\<close> replaces the dropped task \<open>a\<close>; the revision validates.\<close>

definition replaced_plan :: plan where
  "replaced_plan = (plan_empty ''p'' ''r'')\<lparr>tasks := [(mk_task ''b'' ''B'')\<lparr>supersedes := ''a'', supersedes_kind := REPLACE\<rparr>]\<rparr>"

definition before_plan :: plan where
  "before_plan = (plan_empty ''p'' ''r'')\<lparr>tasks := [mk_task ''a'' ''A'']\<rparr>"

lemma strip_a [simp]: "strip ''a'' = ''a''"
  by code_simp

lemma replaced_valid: "validate replaced_plan True (Some before_plan) = None"
  by (auto simp: validate_None plan_ok_def dag_ok_def ids_ok_def reachable_ok_def edge_rel_def preserves_def supersede_ok_def
      corrective_ok_def Let_def replaced_plan_def before_plan_def mk_task_def plan_empty_def tasks_by_id_def dict_of_def terminal_ids_def acyclic_def)

section \<open>Ledger identity\<close>

text \<open>
  A revision keeps the ledger. In ledger mode, over a prior plan that is a ledger, every task of the
  candidate that the prior had as an OUTCOME or DISCOVERED task keeps that kind and its discovery identity,
  no new task stays a mere FORECAST, and every unfinished discovered task the candidate dropped is back,
  unchanged; in forecast mode the candidate is returned as it is.
\<close>

theorem ledger_identity_preserved:
  fixes revised :: plan
  assumes "distinct (map task_id (tasks prior))" "plan_has_ledger_shape prior"
  defines "q \<equiv> preserve_ledger_identity True revised (Some prior)"
  shows "(\<forall>u\<in>set (tasks revised). \<exists>v\<in>set (tasks q). task_id v = task_id u \<and> status v = status u \<and> supersedes v = supersedes u \<and>
      (case plan_find prior (task_id u) of
         Some t \<Rightarrow> (task_kind t \<noteq> FORECAST \<longrightarrow> task_kind v = task_kind t \<and> (discovered t \<longrightarrow> discovered v) \<and>
                     (task_discovery_identity_hash t \<noteq> [] \<longrightarrow> task_discovery_identity_hash v = task_discovery_identity_hash t))
       | None \<Rightarrow> task_kind v \<noteq> FORECAST)) \<and>
    (\<forall>t\<in>set (tasks prior). task_id t \<noteq> [] \<and> (task_kind t = DISCOVERED \<or> discovered t) \<and> status t \<notin> TERMINAL_TASK_STATUSES \<longrightarrow>
       t \<in> set (tasks q) \<or> task_id t \<in> task_id ` set (tasks revised)) \<and>
    edges q = edges revised \<and> preserve_ledger_identity False revised (Some prior) = revised"
proof (intro conjI ballI impI)
  have q: "tasks q = map (preserve_task (tasks_by_id prior)) (tasks revised) @ dropped_discovered revised prior" "edges q = edges revised"
    using assms(2) by (simp_all add: q_def preserve_ledger_identity_def)
  show "edges q = edges revised" by (fact q(2))
  show "preserve_ledger_identity False revised (Some prior) = revised" by (simp add: preserve_ledger_identity_def)
  fix t
  assume "t \<in> set (tasks prior)"
    "task_id t \<noteq> [] \<and> (task_kind t = DISCOVERED \<or> discovered t) \<and> status t \<notin> TERMINAL_TASK_STATUSES"
  then show "t \<in> set (tasks q) \<or> task_id t \<in> task_id ` set (tasks revised)" by (auto simp: q dropped_discovered_def)
next
  fix u
  assume u: "u \<in> set (tasks revised)"
  have "preserve_task (tasks_by_id prior) u \<in> set (tasks q)"
    using assms(2) u by (simp add: q_def preserve_ledger_identity_def)
  then show "\<exists>v\<in>set (tasks q). task_id v = task_id u \<and> status v = status u \<and> supersedes v = supersedes u \<and>
      (case plan_find prior (task_id u) of
         Some t \<Rightarrow> (task_kind t \<noteq> FORECAST \<longrightarrow> task_kind v = task_kind t \<and> (discovered t \<longrightarrow> discovered v) \<and>
                     (task_discovery_identity_hash t \<noteq> [] \<longrightarrow> task_discovery_identity_hash v = task_discovery_identity_hash t))
       | None \<Rightarrow> task_kind v \<noteq> FORECAST)"
    by (rule rev_bexI) (auto simp: preserve_task_def tasks_by_id_lookup [OF assms(1)] split: option.split)
qed

definition ledger_plan :: plan where
  "ledger_plan = (plan_empty ''p'' ''r'')\<lparr>tasks := [(mk_task ''o'' ''O'')\<lparr>task_kind := OUTCOME\<rparr>,
     (mk_task ''d'' ''D'')\<lparr>task_kind := DISCOVERED, discovered := True\<rparr>]\<rparr>"

theorem ledger_identity_preserved_witness:
  "(mk_task ''d'' ''D'')\<lparr>task_kind := DISCOVERED, discovered := True\<rparr>
     \<in> set (tasks (preserve_ledger_identity True (plan_empty ''p'' ''r'') (Some ledger_plan)))"
proof -
  have "distinct (map task_id (tasks ledger_plan))" "plan_has_ledger_shape ledger_plan"
    by (simp_all add: ledger_plan_def mk_task_def plan_has_ledger_shape_def)
  from ledger_identity_preserved [OF this, of "plan_empty ''p'' ''r''"] show ?thesis
    by (simp add: ledger_plan_def mk_task_def plan_empty_def)
qed

section \<open>Corrections\<close>

lemma rewrite_out_edges:
  "fst (rewrite_out old new es ex) = map (\<lambda>(f, t). if f = old \<and> t \<noteq> new then (new, t) else (f, t)) es"
  by (induction old new es ex rule: rewrite_out.induct) (auto simp: Let_def split: prod.splits)

lemma set_dedupe: "set (dedupe_edges seen es) = set es - seen"
  by (induction seen es rule: dedupe_edges.induct) auto

lemma distinct_dedupe: "distinct (dedupe_edges seen es)"
  by (induction seen es rule: dedupe_edges.induct) (auto simp: set_dedupe)

lemma edge_rel_replace: "edge_rel (replace_edges p (map Inl es)) = set es"
  by (force simp: edge_rel_def replace_edges_def mk_edge_def edge_pair_def)

lemma integrate_tasks [simp]: "tasks (integrate_correction_supersedes p) = tasks p"
  by (simp add: integrate_correction_supersedes_def replace_edges_def Let_def)

lemma corrections_integrate [simp]: "corrections_of (integrate_correction_supersedes p) = corrections_of p"
  by (simp add: corrections_of_def tasks_by_id_def)

lemma apply_corrections_single:
  "apply_corrections [(old, new)] es ex =
     map (\<lambda>(f, t). if f = old \<and> t \<noteq> new then (new, t) else (f, t)) (if (old, new) \<in> ex then es else es @ [(old, new)])"
  using rewrite_out_edges [of old new] by (simp add: split_def Let_def)

lemma integrate_single:
  assumes "corrections_of p = [(old, new)]"
  shows "edge_rel (integrate_correction_supersedes p) =
    insert (old, new) ({(new, z) |z. (old, z) \<in> edge_rel p \<and> z \<noteq> new} \<union> {(a, b) \<in> edge_rel p. a \<noteq> old})"
proof -
  have e: "edge_pair ` set (edges p) = edge_rel p" by (simp add: edge_rel_def)
  have s: "set (if (old, new) \<in> edge_rel p then map edge_pair (edges p) else map edge_pair (edges p) @ [(old, new)]) =
      insert (old, new) (edge_rel p)" by (auto simp: edge_rel_def)
  have "edge_rel (integrate_correction_supersedes p) = set (apply_corrections [(old, new)] (map edge_pair (edges p)) (edge_rel p))"
    using assms by (simp add: integrate_correction_supersedes_def edge_rel_replace set_dedupe Let_def e)
  also have "\<dots> = (\<lambda>(f, t). if f = old \<and> t \<noteq> new then (new, t) else (f, t)) ` insert (old, new) (edge_rel p)"
    by (simp only: apply_corrections_single list.set_map s)
  also have "\<dots> = insert (old, new) ({(new, z) |z. (old, z) \<in> edge_rel p \<and> z \<noteq> new} \<union> {(a, b) \<in> edge_rel p. a \<noteq> old})"
    by (auto split: if_splits intro: rev_image_eqI)
  finally show ?thesis .
qed

text \<open>
  A correction is wired in as documented. For a plan with one CORRECT link, \<open>new\<close> superseding \<open>old\<close>, the
  integrated graph has the edge from \<open>old\<close> to \<open>new\<close>, every other edge out of \<open>old\<close> now starts at \<open>new\<close>, all
  edges that do not start at \<open>old\<close> are kept, there is nothing else and no edge twice; tasks are untouched and
  integrating again changes nothing.
\<close>

theorem correction_rewired:
  assumes "corrections_of p = [(old, new)]" "old \<noteq> new"
  shows "edge_rel (integrate_correction_supersedes p) =
      insert (old, new) ({(new, z) |z. (old, z) \<in> edge_rel p \<and> z \<noteq> new} \<union> {(a, b) \<in> edge_rel p. a \<noteq> old}) \<and>
    distinct (map edge_pair (edges (integrate_correction_supersedes p))) \<and>
    tasks (integrate_correction_supersedes p) = tasks p \<and>
    edge_rel (integrate_correction_supersedes (integrate_correction_supersedes p)) = edge_rel (integrate_correction_supersedes p)"
proof (intro conjI)
  note one = integrate_single [OF assms(1)]
  show "edge_rel (integrate_correction_supersedes p) =
      insert (old, new) ({(new, z) |z. (old, z) \<in> edge_rel p \<and> z \<noteq> new} \<union> {(a, b) \<in> edge_rel p. a \<noteq> old})" by (rule one)
  have "map edge_pair (edges (replace_edges q (map Inl es))) = es" for q es
    by (simp add: replace_edges_def mk_edge_def edge_pair_def comp_def case_prod_unfold)
  then show "distinct (map edge_pair (edges (integrate_correction_supersedes p)))"
    using assms(1) distinct_dedupe by (simp add: integrate_correction_supersedes_def Let_def)
  have "corrections_of (integrate_correction_supersedes p) = [(old, new)]" using assms(1) by simp
  from integrate_single [OF this]
  show "edge_rel (integrate_correction_supersedes (integrate_correction_supersedes p)) = edge_rel (integrate_correction_supersedes p)"
    unfolding one using assms(2) by auto
qed simp

text \<open>\<open>b\<close> corrects the completed task \<open>a\<close>; \<open>c\<close> is new work between the two.\<close>

definition correct_plan :: plan where
  "correct_plan = (plan_empty ''p'' ''r'')\<lparr>
     tasks := [(mk_task ''a'' ''A'')\<lparr>status := COMPLETED\<rparr>, mk_task ''c'' ''C'',
               (mk_task ''b'' ''B'')\<lparr>supersedes := ''a'', supersedes_kind := CORRECT\<rparr>],
     edges := [mk_edge ''a'' ''c'', mk_edge ''c'' ''b'']\<rparr>"

lemma strip_names [simp]: "strip ''b'' = ''b''" "strip ''c'' = ''c''" "strip [] = []"
  by code_simp+

lemma correct_corrections: "corrections_of correct_plan = [(''a'', ''b'')]"
  by (simp add: corrections_of_def correct_plan_def mk_task_def tasks_by_id_def dict_of_def)

lemma correct_edges: "edge_rel correct_plan = {(''a'', ''c''), (''c'', ''b'')}"
  by (auto simp: edge_rel_def correct_plan_def mk_edge_def edge_pair_def)

theorem correction_rewired_witness:
  "edge_rel (integrate_correction_supersedes correct_plan) = {(''a'', ''b''), (''b'', ''c''), (''c'', ''b'')}"
  using correction_rewired [OF correct_corrections] by (auto simp: correct_edges)

text \<open>
  Integration can break a validated plan. There is a revision that \<open>Plan.validate\<close> accepts and that
  becomes cyclic when its correction is wired into the graph, so that it would no longer validate: new work
  that depends on the corrected task and feeds the correction. The integrated plan is what is installed.
\<close>

theorem integration_can_create_cycle:
  "\<exists>p prior. validate p True (Some prior) = None \<and>
     \<not> acyclic (edge_rel (integrate_correction_supersedes p)) \<and> validate (integrate_correction_supersedes p) True (Some prior) \<noteq> None"
proof (intro exI conjI)
  let ?prior = "(plan_empty ''p'' ''r'')\<lparr>tasks := [(mk_task ''a'' ''A'')\<lparr>status := COMPLETED\<rparr>]\<rparr>"
  let ?r = "edge_rel (integrate_correction_supersedes correct_plan)"
  have "acyclic {(''a'', ''c''), (''c'', ''b'')}"
    by (rule acyclicI_order [of _ "\<lambda>x. if x = ''a'' then 2 else if x = ''c'' then 1 else (0::nat)"]) auto
  moreover have "preserves correct_plan ?prior"
    by (auto simp: preserves_def correct_plan_def plan_find_def mk_task_def plan_empty_def edge_rel_def terminal_ids_def)
  moreover have "supersede_ok correct_plan ?prior x" if "x \<in> set (tasks correct_plan)" for x
    using that by (auto simp: supersede_ok_def corrective_ok_def correct_plan_def mk_task_def plan_empty_def edge_rel_def
        tasks_by_id_def dict_of_def live_in_def Let_def)
  moreover have "reachable_ok correct_plan"
    by (auto simp: reachable_ok_def correct_edges correct_plan_def plan_find_def mk_task_def UNREACHABLE_PREDECESSOR_STATUSES_def)
  moreover have "ids_ok correct_plan" "edge_rel correct_plan \<subseteq> task_id ` set (tasks correct_plan) \<times> task_id ` set (tasks correct_plan)"
    unfolding correct_edges by (auto simp: ids_ok_def correct_plan_def mk_task_def)
  ultimately show "validate correct_plan True (Some ?prior) = None"
    by (simp add: validate_None plan_ok_def dag_ok_def correct_edges)
  have "(''b'', ''c'') \<in> ?r" "(''c'', ''b'') \<in> ?r" by (auto simp: integrate_single [OF correct_corrections] correct_edges)
  then have "(''b'', ''b'') \<in> ?r\<^sup>+" by (meson trancl.r_into_trancl trancl.trancl_into_trancl)
  then show c: "\<not> acyclic ?r" by (auto simp: acyclic_def)
  then show "validate (integrate_correction_supersedes correct_plan) True (Some ?prior) \<noteq> None"
    by (auto simp: validate_None plan_ok_def dag_ok_def)
qed

lemma replacement_unique:
  assumes "t \<in> set (tasks p)" "supersedes t = old" "old \<noteq> []" "map_of (tasks_by_id p) old \<noteq> None"
    and "\<forall>u\<in>set (tasks p). supersedes u = old \<longrightarrow> u = t"
  shows "map_of (replacement_of p) old = Some t"
proof -
  let ?f = "filter (\<lambda>t. supersedes t \<noteq> [] \<and> map_of (tasks_by_id p) (supersedes t) \<noteq> None) (tasks p)"
  let ?kvs = "map (\<lambda>t. (supersedes t, t)) ?f"
  have eq: "map_of (replacement_of p) old = map_of (rev ?kvs) old"
    by (simp add: replacement_of_def Let_def map_of_dict_of)
  have "t \<in> set ?f" using assms(1-4) by simp
  then have "(old, t) \<in> set (rev ?kvs)" unfolding set_rev set_map using assms(2) by (intro image_eqI [of _ _ t]) simp_all
  then obtain v where v: "map_of (rev ?kvs) old = Some v" by (blast dest: weak_map_of_SomeI)
  then have "(old, v) \<in> set ?kvs" using map_of_SomeD [OF v] unfolding set_rev by blast
  then have "v \<in> set (tasks p)" "supersedes v = old" by auto
  then have "v = t" using assms(5) by blast
  with eq v show ?thesis by simp
qed

text \<open>
  A correction waits for itself. After integration, the only task that corrects a known task \<open>old\<close> has
  \<open>old\<close> as its predecessor, and the readiness test reads \<open>old\<close> through its replacement, which is the
  correction: the correction is ready only once it is already COMPLETED, whatever the status of \<open>old\<close>.
\<close>

theorem correction_waits_for_itself:
  assumes "corrections_of p = [(old, new)]"
    and t: "t \<in> set (tasks p)" "task_id t = new" "supersedes t = old"
    and only: "\<forall>u\<in>set (tasks p). supersedes u = old \<longrightarrow> u = t"
    and ready: "task_upstream_ready (integrate_correction_supersedes p) new"
  shows "status t = COMPLETED"
proof -
  let ?q = "integrate_correction_supersedes p"
  have known0: "(old, new) \<in> set (corrections_of p)" using assms(1) by simp
  then have known: "map_of (tasks_by_id p) old \<noteq> None" "old \<noteq> []" "new \<noteq> []"
    using known0 unfolding corrections_of_def by auto
  have same: "tasks_by_id ?q = tasks_by_id p" "replacement_of ?q = replacement_of p"
    by (simp_all add: tasks_by_id_def replacement_of_def)
  have "effective_upstream ?q old = Some t"
    using replacement_unique [OF t(1,3) known(2,1) only] known(1) by (auto simp: effective_upstream_def same)
  moreover have "(old, new) \<in> edge_rel ?q" by (simp add: integrate_single [OF assms(1)])
  ultimately show ?thesis using ready known(3) by (auto simp: task_upstream_ready_iff edge_rel_def edge_pair_def)
qed

theorem correction_waits_for_itself_witness:
  "\<not> task_upstream_ready (integrate_correction_supersedes correct_plan) ''b''"
proof
  let ?t = "(mk_task ''b'' ''B'')\<lparr>supersedes := ''a'', supersedes_kind := CORRECT\<rparr>"
  assume "task_upstream_ready (integrate_correction_supersedes correct_plan) ''b''"
  then have "status ?t = COMPLETED"
    by (intro correction_waits_for_itself [OF correct_corrections]) (auto simp: correct_plan_def mk_task_def)
  then show False by (simp add: mk_task_def)
qed

section \<open>Re-pinning\<close>

definition link_rel :: "(string, string) dict \<Rightarrow> (string \<times> string) set" where
  "link_rel d = {(a, b). map_of d a = Some b}"

lemma resolve_chain_reaches:
  assumes "\<forall>x\<in>set seen. (x, current) \<in> (link_rel d)\<^sup>*"
  shows "(current, resolve_chain d seen current) \<in> (link_rel d)\<^sup>* \<and>
    (\<forall>n. map_of d (resolve_chain d seen current) = Some n \<longrightarrow> (n, resolve_chain d seen current) \<in> (link_rel d)\<^sup>*)"
  using assms
proof (induction d seen current rule: resolve_chain.induct)
  case (1 d seen current)
  note unf = resolve_chain.simps [of d seen current]
  show ?case
  proof (cases "map_of d current")
    case None
    then show ?thesis by (simp add: unf)
  next
    case (Some nxt)
    then have step: "(current, nxt) \<in> link_rel d" by (simp add: link_rel_def)
    show ?thesis
    proof (cases "nxt \<in> set seen")
      case True
      with Some 1(2) show ?thesis by (simp add: unf)
    next
      case False
      have r: "resolve_chain d seen current = resolve_chain d (nxt # seen) nxt" using Some False by (simp add: unf)
      have "\<forall>x\<in>set (nxt # seen). (x, nxt) \<in> (link_rel d)\<^sup>*"
        using 1(2) step by (auto intro: rtrancl_into_rtrancl)
      from 1(1) [OF Some False this] show ?thesis unfolding r
        by (auto intro: converse_rtrancl_into_rtrancl [OF step])
    qed
  qed
qed

lemma repin_spec:
  assumes "acyclic (link_rel d)"
  shows "(pin, repin d pin) \<in> (link_rel d)\<^sup>*" "pin \<noteq> [] \<Longrightarrow> map_of d (repin d pin) = None"
proof -
  have r: "(pin, resolve_chain d [pin] pin) \<in> (link_rel d)\<^sup>*"
    "\<And>n. map_of d (resolve_chain d [pin] pin) = Some n \<Longrightarrow> (n, resolve_chain d [pin] pin) \<in> (link_rel d)\<^sup>*"
    using resolve_chain_reaches [of "[pin]" pin d] by auto
  have "map_of d (resolve_chain d [pin] pin) = None"
  proof (rule ccontr)
    assume "map_of d (resolve_chain d [pin] pin) \<noteq> None"
    then obtain n where n: "map_of d (resolve_chain d [pin] pin) = Some n" by blast
    then have "(resolve_chain d [pin] pin, n) \<in> link_rel d" by (simp add: link_rel_def)
    with r(2) [OF n] have "(n, n) \<in> (link_rel d)\<^sup>+" by (rule rtrancl_into_trancl1)
    with assms show False by (auto simp: acyclic_def)
  qed
  with r(1) show "(pin, repin d pin) \<in> (link_rel d)\<^sup>*" "pin \<noteq> [] \<Longrightarrow> map_of d (repin d pin) = None"
    by (auto simp: repin_def)
qed

text \<open>
  The pin follows replacements to the end. When the supersession links of a revision do not go in a
  circle, the re-pinned current task of the session is reached from the old pin by following the links and
  is itself not superseded; so is the pin kept in the orchestration state, and nothing but the two pins
  changes.
\<close>

theorem repin_follows_replacements:
  assumes "acyclic (link_rel (supersession_of p))"
  shows "case repin_current_task_on_supersedes s p of (s', hook) \<Rightarrow>
    (current_task_id s, current_task_id s') \<in> (link_rel (supersession_of p))\<^sup>* \<and>
    (current_task_id s \<noteq> [] \<longrightarrow> map_of (supersession_of p) (current_task_id s') = None) \<and>
    (pin_current_task (state s) \<noteq> [] \<and> strip (pin_current_task (state s)) = pin_current_task (state s) \<longrightarrow>
      map_of (supersession_of p) (pin_current_task (state s')) = None) \<and>
    s' = s\<lparr>current_task_id := current_task_id s', state := (state s)(KEY_CURRENT_TASK_ID := state s' KEY_CURRENT_TASK_ID)\<rparr>"
proof (cases "supersession_of p = []")
  case False
  let ?d = "supersession_of p"
  note spec = repin_spec [OF assms]
  have id: "(st::gstate)(k := st k) = st" for st k by simp
  show ?thesis
    using spec(1) [of "current_task_id s"] spec(2) [of "current_task_id s"] spec(2) [of "pin_current_task (state s)"] False
    by (auto simp: repin_current_task_on_supersedes_def Let_def pin_current_task_def)
qed (simp add: repin_current_task_on_supersedes_def Let_def)

theorem repin_follows_replacements_witness:
  "case repin_current_task_on_supersedes ((mk_session ''r'')\<lparr>current_task_id := ''a''\<rparr>) correct_plan of (s', hook) \<Rightarrow>
     map_of (supersession_of correct_plan) (current_task_id s') = None"
proof -
  have d: "supersession_of correct_plan = [(''a'', ''b'')]"
    by (simp add: supersession_of_def correct_plan_def mk_task_def dict_of_def)
  have "link_rel [(''a'', ''b'')] = {(''a'', ''b'')}" by (auto simp: link_rel_def split: if_splits)
  then have "acyclic (link_rel (supersession_of correct_plan))" by (simp add: d acyclic_def trancl_insert)
  from repin_follows_replacements [OF this, of "(mk_session ''r'')\<lparr>current_task_id := ''a''\<rparr>"] show ?thesis
    by (simp add: split_def)
qed

end
