(* ===== verification/Corrections.thy ===== *)
theory Corrections
  imports Observer_Notes
begin

text \<open>
  \<open>src/goldfive/_correction_injection.py\<close> and the readers of \<open>state_store.py\<close> it serves: the
  corrections a revision leaves for the agents it reassigns, one JSON dictionary per agent and task
  under \<open>goldfive.pending_corrections.<agent>.<task>\<close> in \<open>Session.state\<close>, or one observer note in
  the regime that retired the slot. The theory holds writing, the sweep of obsolete corrections, the
  acknowledgement, and what a whole revision does to the slots.
\<close>

section \<open>Keys\<close>

definition KEY_PENDING_CORRECTIONS :: string where
  "KEY_PENDING_CORRECTIONS = ''goldfive.pending_corrections''"

definition pending_correction_key :: "string \<Rightarrow> string \<Rightarrow> string" where
  "pending_correction_key agent task = KEY_PENDING_CORRECTIONS @ ''.'' @ agent @ ''.'' @ task"

definition is_pending_correction_key :: "string \<Rightarrow> bool" where
  "is_pending_correction_key key = starts_with (KEY_PENDING_CORRECTIONS @ ''.'') key"

definition ends_with :: "string \<Rightarrow> string \<Rightarrow> bool" where
  "ends_with suf s = starts_with (rev suf) (rev s)"

definition normalize_agent_name :: "string \<Rightarrow> string" where
  "normalize_agent_name value = strip value"

section \<open>Writing\<close>

definition build_correction_payload :: "task \<Rightarrow> task \<Rightarrow> drift_event \<Rightarrow> int \<Rightarrow> int \<Rightarrow> (string \<times> json) list" where
  "build_correction_payload new old d rev_number ts =
     [(''agent_name'', JStr (normalize_agent_name (assignee_agent_id new))),
      (''task_id'', JStr (task_id new)), (''task_title'', JStr (title new)),
      (''superseded_task_id'', JStr (supersedes new)), (''superseded_task_title'', JStr (title old)),
      (''drift_kind'', JStr (lower (drift_kind_value (drift_kind d)))), (''drift_reason'', JStr (drift_detail d)),
      (''revision_number'', JInt rev_number), (''issued_at_ms'', JInt ts)]"

definition write_correction :: "gstate \<Rightarrow> (string \<times> json) list \<Rightarrow> string option \<times> gstate" where
  "write_correction st c =
     (let agent = str_or_empty (jget c ''agent_name'' (JStr [])); task = str_or_empty (jget c ''task_id'' (JStr []))
      in if agent = [] \<or> task = [] then (None, st)
         else (Some (pending_correction_key agent task), st(pending_correction_key agent task \<mapsto> JDict c)))"

text \<open>
  \<open>format_correction_block(payload, self_contained=True)\<close> of
  \<open>adapters/adk_llm_instrumentation.py\<close>, the text of a correction that travels as a note.
\<close>

definition quoted :: "string \<Rightarrow> string" where
  "quoted s = [CHR 0x22] @ s @ [CHR 0x22]"

definition correction_target_text :: "string \<Rightarrow> string \<Rightarrow> string" where
  "correction_target_text ttl tid =
     (if ttl \<noteq> [] \<and> tid \<noteq> [] then ''task '' @ quoted ttl @ '' (id '' @ tid @ '')''
      else if ttl \<noteq> [] then ''task '' @ quoted ttl
      else if tid \<noteq> [] then ''task '' @ tid
      else ''the corrected task on the revised plan'')"

definition format_correction_block :: "(string \<times> json) list \<Rightarrow> bool \<Rightarrow> string" where
  "format_correction_block c self_contained =
     (let str = (\<lambda>k. str_or_empty (jget c k (JStr [])));
          rev_num = (case jget c ''revision_number'' (JInt 0) of
                       JNull \<Rightarrow> 0 | v \<Rightarrow> (case py_int v of Inl _ \<Rightarrow> 0 | Inr n \<Rightarrow> n));
          sup_title = (if str ''superseded_task_title'' \<noteq> [] then str ''superseded_task_title'' else ''(prior task)'');
          id_fragment = (if str ''superseded_task_id'' \<noteq> [] then '' (id '' @ str ''superseded_task_id'' @ '')'' else []);
          nl = [CHR 0x0A];
          directive =
            (if self_contained
             then ''Your current assigned task is now '' @ correction_target_text (str ''task_title'') (str ''task_id'') @
               ''. Focus only on its revised scope. Do not propagate the superseded content into downstream dispatches.''
             else ''Focus only on the revised scope as described above in '' @ quoted ''Current assigned task.'' @
               '' Do not propagate the superseded content into downstream dispatches.'')
      in ''---'' @ nl @ ''Plan was revised (REV '' @ show_int rev_num @ ''). Your prior output for task '' @
         quoted sup_title @ id_fragment @ '' was superseded.'' @ nl @ nl @ directive @ nl @ ''---'')"

definition correction_note_args :: "(string \<times> json) list \<Rightarrow> drift_event \<Rightarrow> int \<Rightarrow> int \<Rightarrow> note_args" where
  "correction_note_args c d rev_number turn =
     (let agent = str_or_empty (jget c ''agent_name'' (JStr [])); task = str_or_empty (jget c ''task_id'' (JStr []));
          sup = str_or_empty (jget c ''superseded_task_id'' (JStr []))
      in \<lparr>arg_body = format_correction_block c True,
          arg_observation = ''the plan was revised (rev '' @ show_int rev_number @ ''); task '' @ task @ '' supersedes '' @
            (if sup \<noteq> [] then sup else ''(prior task)''),
          arg_severity = lower (severity_value (drift_severity d)),
          arg_drift_id = CORRECTION_DRIFT_ID_PREFIX @ agent @ '':'' @ task @ '':'' @ show_int rev_number,
          arg_kind = drift_kind_value (drift_kind d), arg_task = task, arg_agent = agent, arg_turn = turn,
          arg_level = ''correction''\<rparr>)"

definition enqueue_correction_note ::
  "(string \<Rightarrow> string) \<Rightarrow> gstate \<Rightarrow> (string \<times> json) list \<Rightarrow> drift_event \<Rightarrow> int \<Rightarrow> string option \<times> gstate" where
  "enqueue_correction_note sha1 st c d turn =
     (let agent = str_or_empty (jget c ''agent_name'' (JStr [])); task = str_or_empty (jget c ''task_id'' (JStr []));
          rv = jget c ''revision_number'' (JInt 0)
      in case py_int (if truthy rv then rv else JInt 0) of
           Inl _ \<Rightarrow> (None, st)
         | Inr rev_number \<Rightarrow>
             if agent = [] \<or> task = [] then (None, st)
             else case enqueue sha1 st (correction_note_args c d rev_number turn) of
                    Inl _ \<Rightarrow> (None, st)
                  | Inr (n, st') \<Rightarrow> (Some (note_id n), st'))"

text \<open>The superseded task of a task that gets a correction; \<open>None\<close> is every \<open>continue\<close> of the loop.\<close>

definition corrected_task :: "plan \<Rightarrow> plan option \<Rightarrow> task \<Rightarrow> task option" where
  "corrected_task revised prev t =
     (if supersedes_kind t \<noteq> CORRECT \<or> strip (supersedes t) = [] \<or> strip (task_id t) = [] \<or>
         normalize_agent_name (assignee_agent_id t) = [] then None
      else case map_of (tasks_by_id revised) (strip (supersedes t)) of
             Some old \<Rightarrow> Some old
           | None \<Rightarrow> (case prev of None \<Rightarrow> None | Some p \<Rightarrow> map_of (tasks_by_id p) (strip (supersedes t))))"

fun queue_loop ::
  "(string \<Rightarrow> string) \<Rightarrow> bool \<Rightarrow> plan \<Rightarrow> plan option \<Rightarrow> drift_event \<Rightarrow> int \<Rightarrow> int \<Rightarrow> task list \<Rightarrow> gstate \<Rightarrow> string list \<times> gstate" where
  "queue_loop sha1 via_notes revised prev d now turn [] st = ([], st)"
| "queue_loop sha1 via_notes revised prev d now turn (t # ts) st =
     (case corrected_task revised prev t of
        None \<Rightarrow> queue_loop sha1 via_notes revised prev d now turn ts st
      | Some old \<Rightarrow>
          (let c = build_correction_payload t old d (revision_index revised) now;
               (k, st1) = (if via_notes then enqueue_correction_note sha1 st c d turn else write_correction st c);
               (ks, st2) = queue_loop sha1 via_notes revised prev d now turn ts st1
           in (case k of None \<Rightarrow> ks | Some k \<Rightarrow> k # ks, st2)))"

definition queue_corrections_for_revision ::
  "(string \<Rightarrow> string) \<Rightarrow> bool \<Rightarrow> plan \<Rightarrow> plan option \<Rightarrow> drift_event \<Rightarrow> int \<Rightarrow> int \<Rightarrow> gstate \<Rightarrow> string list \<times> gstate" where
  "queue_corrections_for_revision sha1 via_notes revised prev d now turn st =
     queue_loop sha1 via_notes revised prev d now turn (tasks revised) st"

section \<open>Clearing\<close>

definition evict_correction_notes :: "gstate \<Rightarrow> string \<Rightarrow> string \<Rightarrow> string list \<times> gstate" where
  "evict_correction_notes st task agent =
     (case evict_pending_correction_notes st task agent of Inl _ \<Rightarrow> ([], st) | Inr r \<Rightarrow> r)"

definition clear_correction :: "gstate \<Rightarrow> string \<Rightarrow> string \<Rightarrow> bool \<times> gstate" where
  "clear_correction st agent task =
     (if agent = [] \<or> task = [] then (False, st)
      else
        (let (evicted, st1) = evict_correction_notes st task agent; k = pending_correction_key agent task
         in if st1 k \<noteq> None then (True, st1(k := None)) else (evicted \<noteq> [], st1)))"

definition scoped_to :: "string \<Rightarrow> string \<Rightarrow> bool" where
  "scoped_to task key \<longleftrightarrow> starts_with (KEY_PENDING_CORRECTIONS @ ''.'') key \<and> ends_with (''.'' @ task) key"

text \<open>The identifiers the sweeps return are only counted and logged; the model keeps the state.\<close>

definition clear_corrections_for_task :: "gstate \<Rightarrow> string \<Rightarrow> gstate" where
  "clear_corrections_for_task st task =
     (if task = [] then st
      else snd (evict_correction_notes (\<lambda>k. if scoped_to task k then None else st k) task []))"

text \<open>Python iterates a set here; the order of first occurrence is one of its orders.\<close>

definition superseded_ids :: "plan \<Rightarrow> string list" where
  "superseded_ids p = remdups (filter (\<lambda>s. s \<noteq> []) (map (\<lambda>t. strip (supersedes t)) (tasks p)))"

definition clear_obsolete_corrections_on_revision :: "gstate \<Rightarrow> plan \<Rightarrow> gstate" where
  "clear_obsolete_corrections_on_revision st revised = foldl clear_corrections_for_task st (superseded_ids revised)"

section \<open>Reading\<close>

definition get_correction :: "gstate \<Rightarrow> string \<Rightarrow> string \<Rightarrow> json option" where
  "get_correction st agent task =
     (if agent = [] \<or> task = [] then None
      else case st (pending_correction_key agent task) of Some JNull \<Rightarrow> None | v \<Rightarrow> v)"

definition has_correction :: "gstate \<Rightarrow> string \<Rightarrow> string \<Rightarrow> bool" where
  "has_correction st agent task \<longleftrightarrow> get_correction st agent task \<noteq> None"

section \<open>A revision's effect on the slots\<close>

text \<open>The two calls \<open>_emit_plan_revised\<close> makes, in its order: first the sweep, then the queue.\<close>

definition revise_corrections ::
  "(string \<Rightarrow> string) \<Rightarrow> bool \<Rightarrow> plan \<Rightarrow> plan option \<Rightarrow> drift_event \<Rightarrow> int \<Rightarrow> int \<Rightarrow> gstate \<Rightarrow> gstate" where
  "revise_corrections sha1 via_notes revised prev d now turn st =
     snd (queue_corrections_for_revision sha1 via_notes revised prev d now turn
            (clear_obsolete_corrections_on_revision st revised))"

definition correction_key :: "task \<Rightarrow> string" where
  "correction_key t = pending_correction_key (normalize_agent_name (assignee_agent_id t)) (task_id t)"

definition correction_of :: "plan \<Rightarrow> plan option \<Rightarrow> drift_event \<Rightarrow> int \<Rightarrow> task \<Rightarrow> json" where
  "correction_of revised prev d now t =
     JDict (build_correction_payload t (the (corrected_task revised prev t)) d (revision_index revised) now)"

lemma starts_with_iff: "starts_with p s \<longleftrightarrow> (\<exists>t. s = p @ t)"
  by (induction p s rule: starts_with.induct) auto

lemma ends_with_iff: "ends_with p s \<longleftrightarrow> (\<exists>t. s = t @ p)"
proof -
  have "(rev s = rev p @ t) \<longleftrightarrow> s = rev t @ p" for t by (metis rev_append rev_rev_ident)
  then show ?thesis by (auto simp: ends_with_def starts_with_iff intro: exI [of _ "rev _"])
qed

lemma pending_key_not_notes [simp]:
  "pending_correction_key a i \<noteq> KEY_OBSERVER_NOTE_QUEUE" "KEY_OBSERVER_NOTE_QUEUE \<noteq> pending_correction_key a i"
  by (simp_all add: pending_correction_key_def KEY_PENDING_CORRECTIONS_def KEY_OBSERVER_NOTE_QUEUE_def)

lemma scoped_to_key: "scoped_to i (pending_correction_key a i)"
  by (auto simp: scoped_to_def pending_correction_key_def starts_with_iff ends_with_iff)

lemma scoped_to_dotted: "scoped_to i (pending_correction_key a (j @ ''.'' @ i))"
  by (auto simp: scoped_to_def pending_correction_key_def starts_with_iff ends_with_iff intro: exI [of _ "_ @ ''.'' @ _ @ ''.'' @ _"])

lemma write_notes_frame: "write_notes st ns = Inr st' \<Longrightarrow> k \<noteq> KEY_OBSERVER_NOTE_QUEUE \<Longrightarrow> st' k = st k"
  by (auto simp: write_notes_def write_key_def ebind_Inr_iff)

lemma evict_frame: "k \<noteq> KEY_OBSERVER_NOTE_QUEUE \<Longrightarrow> snd (evict_correction_notes st i a) k = st k"
  by (auto simp: evict_correction_notes_def evict_pending_correction_notes_def Let_def ebind_Inr_iff
      split: sum.splits if_splits dest: write_notes_frame)

lemma clear_task_slot:
  "k \<noteq> KEY_OBSERVER_NOTE_QUEUE \<Longrightarrow>
   clear_corrections_for_task st i k = (if i \<noteq> [] \<and> scoped_to i k then None else st k)"
  by (simp add: clear_corrections_for_task_def evict_frame)

lemma clear_obsolete_slot:
  assumes "k \<noteq> KEY_OBSERVER_NOTE_QUEUE"
  shows "clear_obsolete_corrections_on_revision st revised k =
    (if list_ex (\<lambda>s. scoped_to s k) (superseded_ids revised) then None else st k)"
proof -
  have "foldl clear_corrections_for_task st is k = (if list_ex (\<lambda>s. s \<noteq> [] \<and> scoped_to s k) is then None else st k)" for "is"
    using assms by (induction "is" arbitrary: st) (auto simp: clear_task_slot)
  moreover have "list_ex (\<lambda>s. s \<noteq> [] \<and> scoped_to s k) (superseded_ids revised) =
      list_ex (\<lambda>s. scoped_to s k) (superseded_ids revised)"
    by (auto simp: list_ex_iff superseded_ids_def)
  ultimately show ?thesis by (simp add: clear_obsolete_corrections_on_revision_def)
qed

lemma write_correction_payload:
  assumes "corrected_task revised prev t = Some old"
  shows "write_correction st (build_correction_payload t old d r now) =
    (Some (correction_key t), st(correction_key t \<mapsto> JDict (build_correction_payload t old d r now)))"
proof -
  have "task_id t \<noteq> []" "normalize_agent_name (assignee_agent_id t) \<noteq> []"
    using assms by (auto simp: corrected_task_def strip_def split: if_splits)
  then show ?thesis by (simp add: write_correction_def build_correction_payload_def jget_def correction_key_def Let_def)
qed

lemma queue_loop_slot:
  "snd (queue_loop sha1 False revised prev d now turn ts st) k =
    (case find (\<lambda>t. corrected_task revised prev t \<noteq> None \<and> correction_key t = k) (rev ts) of
       None \<Rightarrow> st k | Some t \<Rightarrow> Some (correction_of revised prev d now t))"
proof (induction ts arbitrary: st)
  case (Cons t ts)
  have F: "find P (xs @ [t]) = (case find P xs of None \<Rightarrow> if P t then Some t else None | Some x \<Rightarrow> Some x)" for P xs
    by (induction xs) auto
  show ?case
    by (cases "corrected_task revised prev t")
       (auto simp: Cons.IH F write_correction_payload correction_of_def split_beta Let_def split: option.split)
qed simp

lemma revise_slot:
  "k \<noteq> KEY_OBSERVER_NOTE_QUEUE \<Longrightarrow> revise_corrections sha1 False revised prev d now turn st k =
    (case find (\<lambda>t. corrected_task revised prev t \<noteq> None \<and> correction_key t = k) (rev (tasks revised)) of
       Some t \<Rightarrow> Some (correction_of revised prev d now t)
     | None \<Rightarrow> if list_ex (\<lambda>s. scoped_to s k) (superseded_ids revised) then None else st k)"
  by (simp add: revise_corrections_def queue_corrections_for_revision_def queue_loop_slot clear_obsolete_slot
      split: option.split)

section \<open>Properties\<close>

text \<open>
  What a revision does to the correction slots. After the sweep and the queue of a revision, the
  slot of agent \<open>a\<close> and task \<open>i\<close> holds the correction of the last task of the revised plan that carries
  a CORRECT link, has an assignee and maps to that slot; a slot with no such task is emptied when its
  key ends in a superseded id, and keeps its value otherwise.
\<close>

theorem revision_corrections_exact:
  "revise_corrections sha1 False revised prev d now turn st (pending_correction_key a i) =
    (case find (\<lambda>t. corrected_task revised prev t \<noteq> None \<and> correction_key t = pending_correction_key a i) (rev (tasks revised)) of
       Some t \<Rightarrow> Some (correction_of revised prev d now t)
     | None \<Rightarrow> if list_ex (\<lambda>s. scoped_to s (pending_correction_key a i)) (superseded_ids revised) then None
               else st (pending_correction_key a i))"
  by (rule revise_slot) simp

text \<open>
  The sweep is undone by the queue. When a revision corrects a correction (task \<open>u\<close> supersedes task
  \<open>t\<close>, and \<open>t\<close> itself still carries its CORRECT link, an assignee and a known target), the sweep drops the
  pending correction of \<open>t\<close> as obsolete, and the queue of the same revision writes it again: the agent of
  \<open>t\<close> is still told to work on a task that has been superseded. Nothing depends on whether \<open>t\<close> was
  acknowledged or is finished, so every revision brings such a correction back.
\<close>

theorem superseded_correction_survives:
  assumes "t \<in> set (tasks revised)" "corrected_task revised prev t = Some old"
    and "u \<in> set (tasks revised)" "strip (supersedes u) = task_id t"
  shows "\<not> has_correction (clear_obsolete_corrections_on_revision st revised)
            (normalize_agent_name (assignee_agent_id t)) (task_id t) \<and>
         has_correction (revise_corrections sha1 False revised prev d now turn st)
            (normalize_agent_name (assignee_agent_id t)) (task_id t)"
proof -
  let ?a = "normalize_agent_name (assignee_agent_id t)"
  have ne: "task_id t \<noteq> []" "?a \<noteq> []"
    using assms(2) by (auto simp: corrected_task_def strip_def split: if_splits)
  have "task_id t \<in> set (superseded_ids revised)" using assms ne by (force simp: superseded_ids_def)
  then have "list_ex (\<lambda>s. scoped_to s (pending_correction_key ?a (task_id t))) (superseded_ids revised)"
    using scoped_to_key by (auto simp: list_ex_iff)
  then have 1: "clear_obsolete_corrections_on_revision st revised (pending_correction_key ?a (task_id t)) = None"
    by (simp add: clear_obsolete_slot)
  let ?P = "\<lambda>t'. corrected_task revised prev t' \<noteq> None \<and> correction_key t' = pending_correction_key ?a (task_id t)"
  have "?P t" using assms(2) by (simp add: correction_key_def)
  with assms(1) have "find ?P (rev (tasks revised)) \<noteq> None" by (auto simp: find_None_conv)
  then obtain t' where t': "find ?P (rev (tasks revised)) = Some t'" by blast
  have "revise_corrections sha1 False revised prev d now turn st (pending_correction_key ?a (task_id t)) =
      Some (correction_of revised prev d now t')"
    unfolding revise_slot [OF pending_key_not_notes(1)] t' by simp
  with 1 ne show ?thesis by (simp add: has_correction_def get_correction_def correction_of_def)
qed

definition corrected_twice :: plan where
  "corrected_twice = (plan_empty ''p'' ''r'')\<lparr>tasks :=
     [(mk_task ''a'' ''A'')\<lparr>status := COMPLETED\<rparr>,
      (mk_task ''b'' ''B'')\<lparr>status := COMPLETED, supersedes := ''a'', supersedes_kind := CORRECT, assignee_agent_id := ''w''\<rparr>,
      (mk_task ''c'' ''C'')\<lparr>supersedes := ''b'', supersedes_kind := CORRECT, assignee_agent_id := ''w''\<rparr>]\<rparr>"

theorem superseded_correction_survives_witness:
  "\<not> has_correction (clear_obsolete_corrections_on_revision (Map.empty(pending_correction_key ''w'' ''b'' \<mapsto> JDict [])) corrected_twice) ''w'' ''b'' \<and>
   has_correction (revise_corrections (\<lambda>_. []) False corrected_twice None (mk_drift ''d'' OFF_TOPIC WARNING) 0 0
     (Map.empty(pending_correction_key ''w'' ''b'' \<mapsto> JDict []))) ''w'' ''b''"
proof -
  let ?b = "(mk_task ''b'' ''B'')\<lparr>status := COMPLETED, supersedes := ''a'', supersedes_kind := CORRECT, assignee_agent_id := ''w''\<rparr>"
  let ?c = "(mk_task ''c'' ''C'')\<lparr>supersedes := ''b'', supersedes_kind := CORRECT, assignee_agent_id := ''w''\<rparr>"
  have "?b \<in> set (tasks corrected_twice)" "?c \<in> set (tasks corrected_twice)" by (simp_all add: corrected_twice_def)
  moreover have "strip (supersedes ?c) = task_id ?b" by (simp add: mk_task_def strip_def is_space_def)
  moreover have "corrected_task corrected_twice None ?b = Some ((mk_task ''a'' ''A'')\<lparr>status := COMPLETED\<rparr>)"
    by (simp add: corrected_task_def corrected_twice_def mk_task_def plan_empty_def strip_def is_space_def
        normalize_agent_name_def tasks_by_id_def dict_of_def)
  ultimately show ?thesis
    using superseded_correction_survives [of ?b corrected_twice None _ ?c]
    by (simp add: mk_task_def normalize_agent_name_def strip_def is_space_def)
qed

text \<open>
  An acknowledged correction is gone from both channels. \<open>clear_correction\<close> for an agent and a task
  leaves no correction in their slot and no pending correction note for them, reports exactly whether
  there was something to clear, and touches no other key of the state.
\<close>

theorem acknowledged_correction_cleared:
  assumes "notes_inv st ns" "agent \<noteq> []" "task \<noteq> []" "clear_correction st agent task = (cleared, st')"
  shows "\<not> has_correction st' agent task \<and>
    pending_notes st' = filter (\<lambda>n. \<not> stale_correction task agent n) (pending_notes st) \<and>
    (cleared \<longleftrightarrow> st (pending_correction_key agent task) \<noteq> None \<or> list_ex (stale_correction task agent) ns) \<and>
    (k \<noteq> KEY_OBSERVER_NOTE_QUEUE \<longrightarrow> k \<noteq> pending_correction_key agent task \<longrightarrow> st' k = st k)"
proof -
  let ?k = "pending_correction_key agent task"
  from evict_refines [OF assms(1), of task agent] assms(3) obtain st1 out where
    e: "evict_pending_correction_notes st task agent = Inr (out, st1)"
    "notes_inv st1 (filter (\<lambda>n. \<not> stale_correction task agent n) ns)" by auto
  have r: "read_notes st = map note_to_dict ns" using assms(1) by (simp add: notes_inv_def)
  have out: "out \<noteq> [] \<longleftrightarrow> list_ex (stale_correction task agent) ns"
    using e(1) assms(3) by (auto simp: evict_pending_correction_notes_def r filter_map comp_def Let_def ebind_Inr_iff
        filter_empty_conv list_ex_iff split: if_splits)
  have fr: "st1 j = st j" if "j \<noteq> KEY_OBSERVER_NOTE_QUEUE" for j
    using evict_frame [OF that, of st task agent] e(1) by (simp add: evict_correction_notes_def)
  have q: "queue_notes st = ns" "queue_notes st1 = filter (\<lambda>n. \<not> stale_correction task agent n) ns"
    using assms(1) e(2) by (simp_all add: queue_notes_inv)
  have q': "queue_notes (st1(?k := v)) = queue_notes st1" for v
    by (simp add: queue_notes_def read_notes_def read_key_def)
  have st': "st' = (if st ?k \<noteq> None then st1(?k := None) else st1)" and c: "cleared \<longleftrightarrow> st ?k \<noteq> None \<or> out \<noteq> []"
    using assms(2-4) by (auto simp: clear_correction_def evict_correction_notes_def e(1) fr Let_def split: if_splits)
  show ?thesis
    using assms(2,3) by (auto simp: st' c out fr has_correction_def get_correction_def pending_notes_def q q' conj_commute)
qed

theorem acknowledged_correction_cleared_witness:
  "\<not> has_correction (snd (clear_correction (Map.empty(pending_correction_key ''w'' ''b'' \<mapsto> JDict [])) ''w'' ''b'')) ''w'' ''b''"
proof -
  let ?st = "Map.empty(pending_correction_key ''w'' ''b'' \<mapsto> JDict []) :: gstate"
  have "notes_inv ?st []" by (simp add: notes_inv_def read_notes_def read_key_def jget_def)
  from acknowledged_correction_cleared [OF this, of "''w''" "''b''" "fst (clear_correction ?st ''w'' ''b'')"
      "snd (clear_correction ?st ''w'' ''b'')" "[]"]
  show ?thesis by simp
qed

text \<open>The sweep matches a suffix of the key, so it also drops the corrections of tasks whose id ends in a dot and the swept id.\<close>

lemma sweep_hits_dotted_ids:
  "i \<noteq> [] \<Longrightarrow> \<not> has_correction (clear_corrections_for_task st i) agent (j @ ''.'' @ i)"
  using scoped_to_dotted [of i agent j] by (simp add: has_correction_def get_correction_def clear_task_slot)

end
