(* ===== verification/Drift_Emission.thy ===== *)
theory Drift_Emission
  imports Task_Lifecycle
begin

text \<open>
  The chokepoint every drift passes (\<open>DriftObserver._emit_drift_detected\<close> of
  \<open>src/goldfive/drift_observer.py\<close>) with what it calls, the bookkeeping of user steers and of refine
  outcomes, and the authority to cancel running invocations. Calls on the adapter's plugin are recorded
  in the order they are made; what the plugin does with them is not part of the model.
\<close>

section \<open>Classification of drifts\<close>

definition TERMINAL_DRIFT_KINDS :: "DriftKind set" where
  "TERMINAL_DRIFT_KINDS = {HUMAN_INTERVENTION_REQUIRED, REPEATED_FAILURE}"

definition HARD_SAFETY_DRIFT_KINDS :: "DriftKind set" where
  "HARD_SAFETY_DRIFT_KINDS =
     {RESOURCE_EXHAUSTED, RUNAWAY_DELEGATION, TOO_MANY_STEPS, TASK_TIMEOUT, LLM_CALL_TIMEOUT, HUMAN_INTERVENTION_REQUIRED}"

definition USER_OR_TRAJECTORY_DRIFT_KINDS :: "DriftKind set" where
  "USER_OR_TRAJECTORY_DRIFT_KINDS = {USER_STEER, USER_CANCEL, GOAL_DRIFT}"

definition is_terminal_drift :: "drift_event \<Rightarrow> bool" where
  "is_terminal_drift d \<longleftrightarrow> drift_kind d \<in> TERMINAL_DRIFT_KINDS"

definition DETECTOR_NAME_BY_KIND :: "DriftKind \<Rightarrow> string option" where
  "DETECTOR_NAME_BY_KIND k =
     (case k of
        LOOPING_REASONING \<Rightarrow> Some ''reasoning_loop_embedding''
      | REASONING_CLUSTER_TIGHTENING \<Rightarrow> Some ''reasoning_cluster_embedding''
      | OFF_TOPIC \<Rightarrow> Some ''reasoning_judge''
      | JUSTIFIED_DEVIATION \<Rightarrow> Some ''reasoning_judge''
      | INTENT_DIVERGENCE \<Rightarrow> Some ''intent_divergence_embedding''
      | GOAL_DRIFT \<Rightarrow> Some ''goal_drift_judge''
      | LOOPING_TOOL_CALL \<Rightarrow> Some ''tool_loops''
      | CAPABILITY_MISMATCH \<Rightarrow> Some ''capability_check''
      | CONFABULATION_RISK \<Rightarrow> Some ''confabulation_risk''
      | HUMAN_INTERVENTION_REQUIRED \<Rightarrow> Some ''human_intervention''
      | PLAN_DIVERGENCE \<Rightarrow> Some ''plan_reconciler''
      | USER_STEER \<Rightarrow> Some ''user_control''
      | USER_CANCEL \<Rightarrow> Some ''user_control''
      | USER_PAUSE \<Rightarrow> Some ''user_control''
      | UNCERTAIN_PROGRESS \<Rightarrow> Some ''reflective_check''
      | SELF_REPORTED_STUCK \<Rightarrow> Some ''reflective_check''
      | _ \<Rightarrow> None)"

definition detector_name_for_drift :: "drift_event \<Rightarrow> string" where
  "detector_name_for_drift d =
     (if detector_name d \<noteq> [] then detector_name d
      else case DETECTOR_NAME_BY_KIND (drift_kind d) of Some n \<Rightarrow> n | None \<Rightarrow> drift_kind_value (drift_kind d))"

text \<open>The ellipsis of the suffix is written as its three UTF-8 bytes.\<close>

definition TRUNCATE_SUFFIX :: string where
  "TRUNCATE_SUFFIX = '' '' @ [CHR 0xE2, CHR 0x80, CHR 0xA6] @ '' [truncated]''"

definition truncate_for_observability :: "string \<Rightarrow> int \<Rightarrow> string" where
  "truncate_for_observability text limit =
     (if limit \<le> 0 \<or> int (length text) \<le> limit then text else take (nat limit) text @ TRUNCATE_SUFFIX)"

section \<open>Emitting a drift\<close>

definition stamp_drift_lifecycle :: "drift_event \<Rightarrow> drift_detected \<Rightarrow> world \<Rightarrow> drift_detected \<times> world" where
  "stamp_drift_lifecycle d p w =
     (case open_or_escalate_drift (sha1_hex (cfg w)) (state (sess w)) (drift_kind d) (drift_task d) (drift_agent d)
             (run_id (sess w)) (drift_severity d) of
        Inl _ \<Rightarrow> (p, w)
      | Inr (tracked, st) \<Rightarrow>
          (p\<lparr>dd_condition := condition_id tracked, dd_lifecycle := Drift.lifecycle tracked, dd_prev_severity := prev_severity tracked\<rparr>,
           on_sess (\<lambda>s. s\<lparr>state := st\<rparr>) w))"

definition drift_payload :: "drift_event \<Rightarrow> drift_detected" where
  "drift_payload d =
     \<lparr>dd_kind = drift_kind d, dd_severity = drift_severity d, dd_detail = drift_detail d, dd_task = drift_task d,
      dd_agent = drift_agent d, dd_observed_revision = observed_revision_index d, dd_authored_by = resolve_authored_by d,
      dd_suppressed = suppressed_by_user_steer d, dd_id = drift_id d, dd_annotation = drift_annotation_id d,
      dd_trigger_input = truncate_for_observability (trigger_input d) 2048, dd_condition = [], dd_lifecycle = [],
      dd_prev_severity = None\<rparr>"

definition emit_steering_decision :: "steering_decision \<Rightarrow> world \<Rightarrow> world" where
  "emit_steering_decision sd w = tick (emit_new (SteeringDecisionMade sd) w)"

definition emit_no_drift_decision :: "string \<Rightarrow> string \<Rightarrow> string \<Rightarrow> string \<Rightarrow> world \<Rightarrow> world" where
  "emit_no_drift_decision detector reason task agent w =
     emit_steering_decision \<lparr>sd_detector = detector, sd_outcome = ''no_drift'', sd_reason = reason, sd_considered = [],
       sd_chosen = [], sd_drift_id = [], sd_task = task, sd_agent = agent\<rparr> w"

definition emit_judgement_from_drift :: "drift_event \<Rightarrow> world \<Rightarrow> world" where
  "emit_judgement_from_drift d w =
     (if \<not> has_judges (cfg w) \<or> \<not> has_sinks (cfg w) then w
      else tick (emit_new (JudgementEmitted (drift_kind d) (drift_severity d) (drift_detail d)) w))"

definition plugin_do :: "plugin_call \<Rightarrow> world \<Rightarrow> world" where
  "plugin_do c w = (if has_plugin (cfg w) then w\<lparr>plugin_calls := plugin_calls w @ [c]\<rparr> else w)"

definition close_open_boundaries_for_terminal_drift :: "drift_event \<Rightarrow> world \<Rightarrow> world" where
  "close_open_boundaries_for_terminal_drift d w =
     plugin_do (CloseOpenBoundaries (''terminal_drift:'' @ drift_kind_value (drift_kind d))) w"

definition note_signal_drift_fire :: "drift_event \<Rightarrow> world \<Rightarrow> world" where
  "note_signal_drift_fire d w =
     (if \<not> signal_telemetry (cfg w) then w
      else if drift_kind d = USER_PAUSE then w
      else if lower (authored_by d) = ''user'' \<or> drift_kind d \<in> USER_AUTHORED_DRIFT_KINDS then
        (case resolve_user_intervened (state (sess w)) (int (reasoning_turn (sess w))) of
           Inl _ \<Rightarrow> w
         | Inr (rs, st) \<Rightarrow> foldl (\<lambda>w e. emit_signal_outcome e w) (on_sess (\<lambda>s. s\<lparr>state := st\<rparr>) w) rs)
      else
        (case record_fire (state (sess w)) (drift_kind_value (drift_kind d)) (drift_task d)
                (int (reasoning_turn (sess w))) (drift_id d) of
           Inl _ \<Rightarrow> w
         | Inr (_, st) \<Rightarrow> on_sess (\<lambda>s. s\<lparr>state := st\<rparr>) w))"

definition note_drift_event :: "drift_event \<Rightarrow> session \<Rightarrow> session" where
  "note_drift_event d s =
     (if drift_id d = [] \<or> drift_id d \<notin> drift_id ` set (drift_events s) then s\<lparr>drift_events := drift_events s @ [d]\<rparr> else s)"

definition drift_decision :: "drift_event \<Rightarrow> string \<Rightarrow> string \<Rightarrow> steering_decision" where
  "drift_decision d outcome reason =
     (let (oc, rsn) =
        (if outcome \<noteq> [] then (outcome, if reason \<noteq> [] then reason else drift_detail d)
         else if suppressed_by_user_steer d then (''drift_suppressed'', ''suppressed by recent user steer'')
         else (''drift_emitted'', drift_detail d))
      in \<lparr>sd_detector = detector_name_for_drift d, sd_outcome = oc, sd_reason = rsn,
          sd_considered = severity_value (drift_severity d),
          sd_chosen = (if oc = ''drift_emitted'' then severity_value (drift_severity d) else []),
          sd_drift_id = drift_id d, sd_task = drift_task d, sd_agent = drift_agent d\<rparr>)"

definition emit_drift_detected :: "drift_event \<Rightarrow> string \<Rightarrow> string \<Rightarrow> world \<Rightarrow> world" where
  "emit_drift_detected d outcome reason w =
     (let w = on_sess (note_drift_event d) w;
          (p, w) = stamp_drift_lifecycle d (drift_payload d) w;
          w = emit_new (DriftDetected p) w;
          w = emit_steering_decision (drift_decision d outcome reason) w;
          w = (if judge_emitted d then w else emit_judgement_from_drift d w);
          w = (if is_terminal_drift d then close_open_boundaries_for_terminal_drift d w else w)
      in note_signal_drift_fire d w)"

section \<open>User steers\<close>

definition apply_user_steer_state :: "drift_event \<Rightarrow> world \<Rightarrow> world" where
  "apply_user_steer_state d w =
     (let (raw_body, author, steer_id) = unpack_steer_context d;
          w = (case set_active_steer (state (sess w)) (strip raw_body) (int (reasoning_turn (sess w))) author ''user'' of
                 Inl _ \<Rightarrow> w | Inr st \<Rightarrow> on_sess (\<lambda>s. s\<lparr>state := st\<rparr>) w)
      in if steer_id = [] then w
         else (case record_processed_steer_id (state (sess w)) steer_id of
                 Inl _ \<Rightarrow> w | Inr st \<Rightarrow> on_sess (\<lambda>s. s\<lparr>state := st\<rparr>) w))"

section \<open>Cancelling running invocations\<close>

definition drift_authorizes_inflight_cancel :: "config \<Rightarrow> drift_event \<Rightarrow> bool" where
  "drift_authorizes_inflight_cancel c d \<longleftrightarrow>
     cancel_scope_all c \<or> drift_kind d \<in> USER_AUTHORED_DRIFT_KINDS \<or> drift_kind d \<in> HARD_SAFETY_DRIFT_KINDS"

definition should_request_cancel_for_drift :: "config \<Rightarrow> drift_event \<Rightarrow> bool" where
  "should_request_cancel_for_drift c d =
     (if drift_kind d \<in> USER_AUTHORED_DRIFT_KINDS then True
      else if \<not> drift_authorizes_inflight_cancel c d then False
      else drift_severity d = CRITICAL)"

definition cancel_reason_for_drift :: "drift_event \<Rightarrow> string" where
  "cancel_reason_for_drift d =
     (case drift_kind d of USER_STEER \<Rightarrow> ''user_steer'' | USER_CANCEL \<Rightarrow> ''user_cancel''
      | USER_PAUSE \<Rightarrow> ''user_pause'' | _ \<Rightarrow> ''drift'')"

text \<open>The reconciler, and the invocation id of the running dispatch, are reached through the plugin.\<close>

definition resolve_active_invocation_ids :: "drift_event \<Rightarrow> world \<Rightarrow> string list" where
  "resolve_active_invocation_ids d w =
     (let candidates =
        (if has_plugin (cfg w) \<and> drift_agent d \<noteq> []
         then map fst (filter (\<lambda>(i, a). a = drift_agent d \<and> i \<noteq> []) (invocation_agent w)) else [])
      in if candidates = [] \<and> has_plugin (cfg w) \<and> top_invocation w \<noteq> [] then [top_invocation w] else candidates)"

definition cancellation_request :: "drift_event \<Rightarrow> string \<Rightarrow> int \<Rightarrow> cancellation_request" where
  "cancellation_request d i now =
     \<lparr>req_invocation = i, req_reason = cancel_reason_for_drift d, req_severity = drift_severity d, req_drift_id = drift_id d,
      req_drift_kind = drift_kind_value (drift_kind d), req_at_ms = now, req_detail = take 200 (drift_detail d)\<rparr>"

definition on_regs :: "(nat registries \<Rightarrow> nat registries) \<Rightarrow> world \<Rightarrow> world" where
  "on_regs f w = w\<lparr>regs := f (regs w)\<rparr>"

definition request_invocation_cancel :: "drift_event \<Rightarrow> bool \<Rightarrow> world \<Rightarrow> world" where
  "request_invocation_cancel d inflight w =
     (if \<not> is_active_steering (cfg w) \<or> \<not> has_plugin (cfg w) then w
      else
        (let ids = resolve_active_invocation_ids d w;
             w = on_regs (\<lambda>r. foldl (\<lambda>r i. mark_invocation_cancel_requested (session_id (sess w)) i r) r ids) w
         in if ids = [] then w
            else let req = cancellation_request d (hd ids) (wall_clock (cfg w) (ticks w) div 1000000); w = tick w
                 in foldl (\<lambda>w i. plugin_do (RequestInvocationCancel i req inflight) w) w ids))"

definition cancel_inflight_for_revision :: "drift_event \<Rightarrow> world \<Rightarrow> world" where
  "cancel_inflight_for_revision d w =
     (if \<not> drift_authorizes_inflight_cancel (cfg w) d then w
      else
        (let w = on_sess (\<lambda>s. s\<lparr>supersede_flag := True\<rparr>) w
         in if drift_id d \<noteq> [] \<and> drift_id d \<in> cancelled_drift_ids w
            then w\<lparr>cancelled_drift_ids := cancelled_drift_ids w - {drift_id d}\<rparr>
            else request_invocation_cancel d True
                   (on_regs (\<lambda>r. foldl (\<lambda>r i. mark_supersede_pending (session_id (sess w)) i r) r
                      (resolve_active_invocation_ids d w)) w)))"

section \<open>Refine outcomes\<close>

definition REFINE_FAILURE_THRESHOLD :: nat where "REFINE_FAILURE_THRESHOLD = 2"

definition refine_key :: "drift_event \<Rightarrow> string \<times> string" where
  "refine_key d = (drift_kind_value (drift_kind d), drift_task d)"

definition record_refine_outcome :: "drift_event \<Rightarrow> bool \<Rightarrow> world \<Rightarrow> py_error + world" where
  "record_refine_outcome d succeeded w =
     (if drift_kind d \<in> USER_OR_TRAJECTORY_DRIFT_KINDS then Inr w
      else if succeeded then
        Inr (on_sess (\<lambda>s. s\<lparr>refine_outcomes := (refine_outcomes s)(refine_key d \<mapsto> \<lparr>refine_state = Succeeded, fail_count = 0\<rparr>)\<rparr>) w)
      else
        (let n = (case refine_outcomes (sess w) (refine_key d) of
                    Some r \<Rightarrow> if refine_state r = Failed then fail_count r + 1 else 1 | None \<Rightarrow> 1);
             w = on_sess (\<lambda>s. s\<lparr>refine_outcomes := (refine_outcomes s)(refine_key d \<mapsto> \<lparr>refine_state = Failed, fail_count = n\<rparr>)\<rparr>) w
         in if n < REFINE_FAILURE_THRESHOLD then Inr w
            else
              ebind (if drift_task d \<noteq> []
                     then mark_task_failed (drift_task d) (''refine repeatedly failed for '' @ drift_kind_value (drift_kind d))
                            False ''other'' True w
                     else Inr w) (\<lambda>w.
              let (r, w) = new_drift REPEATED_FAILURE CRITICAL
                    (''refine failed '' @ show_nat n @ '' consecutive times for '' @ drift_kind_value (drift_kind d) @
                     '' (task '' @ (if drift_task d \<noteq> [] then drift_task d else ''n/a'') @ '')'') (drift_task d) w
              in Inr (emit_drift_detected (r\<lparr>drift_agent := drift_agent d\<rparr>) [] [] w))))"

definition reset_for_turn :: "world \<Rightarrow> world" where
  "reset_for_turn w = on_sess (\<lambda>s. s\<lparr>refine_outcomes := Map.empty\<rparr>) w"

definition occurrence_count_for_ladder :: "session \<Rightarrow> drift_event \<Rightarrow> nat" where
  "occurrence_count_for_ladder s d =
     (case refine_outcomes s (refine_key d) of
        None \<Rightarrow> 0 | Some r \<Rightarrow> if refine_state r = Succeeded then 0 else fail_count r)"

definition escalate_refine_failure_as_critical_drift :: "drift_event \<Rightarrow> string \<Rightarrow> world \<Rightarrow> world" where
  "escalate_refine_failure_as_critical_drift source reason w =
     (let (f, w) = new_drift (drift_kind source) CRITICAL
            (''refine failed ('' @ drift_kind_value (drift_kind source) @ ''): '' @ reason) (drift_task source) w
      in emit_drift_detected (f\<lparr>drift_agent := drift_agent source\<rparr>) [] [] w)"

section \<open>What emitting leaves alone\<close>

text \<open>
  Telemetry only touches the drift list, the sequence counter, the progress stamps and the two telemetry
  slots of the state.
\<close>

definition telemetry_keys :: "string set" where
  "telemetry_keys = {KEY_ACTIVE_DRIFTS, KEY_SIGNAL_LEDGER}"

definition telemetry_only :: "world \<Rightarrow> world \<Rightarrow> bool" where
  "telemetry_only w w' \<longleftrightarrow> cfg w' = cfg w \<and> regs w' = regs w \<and> cancelled_drift_ids w' = cancelled_drift_ids w \<and>
     invocation_agent w' = invocation_agent w \<and> top_invocation w' = top_invocation w \<and>
     (\<exists>ds n st pg. sess w' = (sess w)\<lparr>drift_events := ds, next_seq := n, state := st, task_last_progress_at := pg\<rparr> \<and>
        (\<forall>k. k \<notin> telemetry_keys \<longrightarrow> st k = state (sess w) k))"

named_theorems telemetry_intros

lemma telemetry_refl [telemetry_intros]: "telemetry_only w w"
proof -
  have "sess w = (sess w)\<lparr>drift_events := drift_events (sess w), next_seq := next_seq (sess w), state := state (sess w),
      task_last_progress_at := task_last_progress_at (sess w)\<rparr>" by simp
  then show ?thesis unfolding telemetry_only_def by blast
qed

lemma telemetry_trans:
  assumes "telemetry_only w w1" "telemetry_only w1 w2"
  shows "telemetry_only w w2"
proof -
  from assms obtain ds n st pg es m st' pg' where
    1: "sess w1 = (sess w)\<lparr>drift_events := ds, next_seq := n, state := st, task_last_progress_at := pg\<rparr>"
      "\<forall>k. k \<notin> telemetry_keys \<longrightarrow> st k = state (sess w) k" and
    2: "sess w2 = (sess w1)\<lparr>drift_events := es, next_seq := m, state := st', task_last_progress_at := pg'\<rparr>"
      "\<forall>k. k \<notin> telemetry_keys \<longrightarrow> st' k = state (sess w1) k"
    unfolding telemetry_only_def by blast
  have "sess w2 = (sess w)\<lparr>drift_events := es, next_seq := m, state := st', task_last_progress_at := pg'\<rparr>" using 1 2 by simp
  moreover have "\<forall>k. k \<notin> telemetry_keys \<longrightarrow> st' k = state (sess w) k" using 1 2 by simp
  ultimately show ?thesis using assms unfolding telemetry_only_def by (metis (no_types, lifting))
qed

lemma telemetry_step:
  assumes "telemetry_only w w1" "cfg w2 = cfg w1" "regs w2 = regs w1" "cancelled_drift_ids w2 = cancelled_drift_ids w1"
    "invocation_agent w2 = invocation_agent w1" "top_invocation w2 = top_invocation w1"
    "sess w2 = (sess w1)\<lparr>drift_events := ds, next_seq := n, state := st, task_last_progress_at := pg\<rparr>"
    "\<And>k. k \<notin> telemetry_keys \<Longrightarrow> st k = state (sess w1) k"
  shows "telemetry_only w w2"
proof (rule telemetry_trans [OF assms(1)])
  show "telemetry_only w1 w2" unfolding telemetry_only_def using assms(2-8) by blast
qed

lemma telemetry_tick [telemetry_intros]: "telemetry_only w w1 \<Longrightarrow> telemetry_only w (tick w1)"
  by (erule telemetry_step [where ds = "drift_events (sess w1)" and n = "next_seq (sess w1)" and
        st = "state (sess w1)" and pg = "task_last_progress_at (sess w1)"])
     (simp_all add: tick_def)

lemma telemetry_emit [telemetry_intros]: "telemetry_only w w1 \<Longrightarrow> telemetry_only w (emit_new p w1)"
  by (erule telemetry_step [where ds = "drift_events (sess w1)" and n = "Suc (next_seq (sess w1))" and
        st = "state (sess w1)" and pg = "task_last_progress_at (sess w1)"])
     (simp_all add: emit_new_def next_sequence_def Let_def)

lemma telemetry_state:
  "telemetry_only w w1 \<Longrightarrow> (\<And>k. k \<notin> telemetry_keys \<Longrightarrow> st k = state (sess w1) k) \<Longrightarrow>
   telemetry_only w (on_sess (\<lambda>s. s\<lparr>state := st\<rparr>) w1)"
  by (erule telemetry_step [where ds = "drift_events (sess w1)" and n = "next_seq (sess w1)" and
        st = st and pg = "task_last_progress_at (sess w1)"])
     (simp_all add: on_sess_def)

lemma telemetry_note [telemetry_intros]: "telemetry_only w w1 \<Longrightarrow> telemetry_only w (on_sess (note_drift_event d) w1)"
  by (erule telemetry_step [where ds = "drift_events (note_drift_event d (sess w1))" and n = "next_seq (sess w1)" and
        st = "state (sess w1)" and pg = "task_last_progress_at (sess w1)"])
     (simp_all add: on_sess_def note_drift_event_def)

lemma telemetry_progress [telemetry_intros]: "telemetry_only w w1 \<Longrightarrow> telemetry_only w (stamp_progress i w1)"
  by (erule telemetry_step [where ds = "drift_events (sess w1)" and n = "next_seq (sess w1)" and
        st = "state (sess w1)" and pg = "(task_last_progress_at (sess w1))(i \<mapsto> monotonic (cfg w1) (ticks w1))"])
     (simp_all add: stamp_progress_def tick_def on_sess_def)

lemma telemetry_plugin [telemetry_intros]: "telemetry_only w w1 \<Longrightarrow> telemetry_only w (plugin_do c w1)"
  by (erule telemetry_step [where ds = "drift_events (sess w1)" and n = "next_seq (sess w1)" and
        st = "state (sess w1)" and pg = "task_last_progress_at (sess w1)"])
     (simp_all add: plugin_do_def)

lemma telemetry_foldl:
  assumes "telemetry_only w w1" "\<And>v x. telemetry_only v (f v x)"
  shows "telemetry_only w (foldl f w1 xs)"
  using assms(1) by (induction xs arbitrary: w1) (auto intro: telemetry_trans [OF _ assms(2)])

lemma telemetry_key_simps [simp]: "k \<notin> telemetry_keys \<Longrightarrow> k \<noteq> KEY_ACTIVE_DRIFTS" "k \<notin> telemetry_keys \<Longrightarrow> k \<noteq> KEY_SIGNAL_LEDGER"
  by (auto simp: telemetry_keys_def)

lemma open_or_escalate_frame:
  "open_or_escalate_drift h st k t a u sev = Inr (d, st') \<Longrightarrow> x \<noteq> KEY_ACTIVE_DRIFTS \<Longrightarrow> st' x = st x"
  by (auto simp: open_or_escalate_drift_def write_active_drifts_def Let_def ebind_Inr_iff
      split: option.splits if_splits)

lemma ledger_frame:
  "resolve_user_intervened st n = Inr (rs, st') \<Longrightarrow> x \<noteq> KEY_SIGNAL_LEDGER \<Longrightarrow> st' x = st x"
  "record_fire st a b m c = Inr (e, st') \<Longrightarrow> x \<noteq> KEY_SIGNAL_LEDGER \<Longrightarrow> st' x = st x"
  by (auto simp: resolve_user_intervened_def record_fire_def sweep_state_def write_all_def Let_def ebind_Inr_iff
      split: prod.splits if_splits)

lemma telemetry_signal_outcome [telemetry_intros]: "telemetry_only w w1 \<Longrightarrow> telemetry_only w (emit_signal_outcome e w1)"
  by (auto simp: emit_signal_outcome_def intro!: telemetry_intros)

lemma telemetry_note_fire [telemetry_intros]: "telemetry_only w w1 \<Longrightarrow> telemetry_only w (note_signal_drift_fire d w1)"
  by (auto simp: note_signal_drift_fire_def ledger_frame intro!: telemetry_intros telemetry_foldl telemetry_state split: sum.splits)

lemma telemetry_stamp_lifecycle [telemetry_intros]:
  "telemetry_only w w1 \<Longrightarrow> telemetry_only w (snd (stamp_drift_lifecycle d p w1))"
  by (auto simp: stamp_drift_lifecycle_def open_or_escalate_frame intro!: telemetry_state split: sum.splits)

lemma telemetry_drift_detected [telemetry_intros]: "telemetry_only w w1 \<Longrightarrow> telemetry_only w (emit_drift_detected d oc rsn w1)"
  by (auto simp: emit_drift_detected_def Let_def split_beta emit_steering_decision_def emit_judgement_from_drift_def
      close_open_boundaries_for_terminal_drift_def intro!: telemetry_intros)

lemma telemetry_record_outcomes [telemetry_intros]:
  "telemetry_only w w1 \<Longrightarrow> telemetry_only w (record_signal_outcomes_for_task i w1)"
  by (auto simp: record_signal_outcomes_for_task_def Let_def resolve_task_frame
      intro!: telemetry_intros telemetry_foldl telemetry_state split: sum.splits)

lemma telemetry_resolve_conditions [telemetry_intros]:
  "telemetry_only w w1 \<Longrightarrow> telemetry_only w (resolve_conditions_for_terminal_task i s w1)"
  by (auto simp: resolve_conditions_for_terminal_task_def emit_resolved_conditions_def Let_def resolve_matching_frame
      intro!: telemetry_intros telemetry_foldl telemetry_state split: sum.splits)

lemma telemetry_transitioned [telemetry_intros]:
  "telemetry_only w w1 \<Longrightarrow> telemetry_only w (emit_task_transitioned t a b source w1)"
  unfolding emit_task_transitioned_def Let_def by (simp split: if_split, intro conjI impI telemetry_intros; assumption)

lemma telemetry_revision_transitions [telemetry_intros]:
  "telemetry_only w w1 \<Longrightarrow> telemetry_only w (emit_plan_revision_transitions prev p w1)"
proof -
  assume *: "telemetry_only w w1"
  have "telemetry_only w (revision_transitions m ts w1)" if "telemetry_only w w1" for m ts w1
    using that by (induction m ts w1 rule: revision_transitions.induct) (auto simp: Let_def intro!: telemetry_intros)
  with * show ?thesis by (simp add: emit_plan_revision_transitions_def)
qed

lemma telemetryD:
  assumes "telemetry_only w w'"
  shows "session_plan (sess w') = session_plan (sess w)" "cfg w' = cfg w" "current_task_id (sess w') = current_task_id (sess w)"
    "last_addressed (sess w') = last_addressed (sess w)" "refine_outcomes (sess w') = refine_outcomes (sess w)"
    "supersede_flag (sess w') = supersede_flag (sess w)" "regs w' = regs w" "session_id (sess w') = session_id (sess w)"
    "run_id (sess w') = run_id (sess w)" "reasoning_turn (sess w') = reasoning_turn (sess w)"
    "k \<notin> telemetry_keys \<Longrightarrow> state (sess w') k = state (sess w) k"
    "cancelled_drift_ids w' = cancelled_drift_ids w" "invocation_agent w' = invocation_agent w" "top_invocation w' = top_invocation w"
    "completed_outputs (sess w') = completed_outputs (sess w)"
  using assms by (auto simp: telemetry_only_def)

lemmas drift_detected_frame = telemetryD [OF telemetry_drift_detected [OF telemetry_refl]]

lemma extends_drift_detected [evolve_intros]: "extends w w1 cs \<Longrightarrow> extends w (emit_drift_detected d oc rsn w1) cs"
proof -
  have nt: "extends w (on_sess (note_drift_event d) w1) cs" if "extends w w1 cs" for w w1
    using that by (rule extends_on_sess) (simp_all add: note_drift_event_def)
  have stamp: "extends w (snd (stamp_drift_lifecycle d q w1)) cs" if "extends w w1 cs" for w w1 q
    using that by (auto simp: stamp_drift_lifecycle_def intro!: evolve_intros split: sum.splits)
  have plug: "extends w (plugin_do c w1) cs" if "extends w w1 cs" for w w1 c
    using that by (rule extends_quiet) (auto intro!: extends_same simp: plugin_do_def pace_def)
  have fire: "extends w (note_signal_drift_fire d w1) cs" if "extends w w1 cs" for w w1
    using that by (auto simp: note_signal_drift_fire_def intro!: evolve_intros extends_foldl split: sum.splits)
  assume "extends w w1 cs"
  then show ?thesis
    by (auto simp: emit_drift_detected_def Let_def split_beta emit_steering_decision_def emit_judgement_from_drift_def
        close_open_boundaries_for_terminal_drift_def intro!: nt stamp plug fire evolve_intros)
qed

section \<open>The wire and the session's drift list\<close>

definition drift_log :: "event list \<Rightarrow> (string \<times> DriftKind \<times> string) list" where
  "drift_log es = concat (map (\<lambda>e. case ev_payload e of DriftDetected p \<Rightarrow> [(dd_id p, dd_kind p, dd_task p)] | _ \<Rightarrow> []) es)"

definition wires :: "world \<Rightarrow> world \<Rightarrow> (string \<times> DriftKind \<times> string) list \<Rightarrow> bool" where
  "wires w w' is \<longleftrightarrow> cfg w' = cfg w \<and> (\<exists>es. log w' = log w @ es \<and> drift_log es = (if has_sinks (cfg w) then is else []))"

lemma drift_log_append [simp]: "drift_log [] = []" "drift_log (es @ fs) = drift_log es @ drift_log fs"
  by (simp_all add: drift_log_def)

lemma wires_trans: "wires w w1 is \<Longrightarrow> wires w1 w2 js \<Longrightarrow> wires w w2 (is @ js)"
  unfolding wires_def by fastforce

lemma wires_quiet: "wires w w1 is \<Longrightarrow> wires w1 w2 [] \<Longrightarrow> wires w w2 is"
  using wires_trans [of w w1 "is" w2 "[]"] by simp

lemma wires_same: "cfg w' = cfg w \<Longrightarrow> log w' = log w \<Longrightarrow> wires w w' []"
  by (simp add: wires_def)

lemma wires_emit: "wires w (emit_new p w) (case p of DriftDetected q \<Rightarrow> [(dd_id q, dd_kind q, dd_task q)] | _ \<Rightarrow> [])"
  by (auto simp: wires_def emit_new_def next_sequence_def Let_def drift_log_def split: payload.splits)

lemma wires_signal_outcomes: "wires w (foldl (\<lambda>w e. emit_signal_outcome e w) w es) []"
proof (induction es arbitrary: w)
  case (Cons e es)
  have "wires w (emit_signal_outcome e w) []"
    using wires_emit [of w "SignalOutcome (le_kind e) (le_task e) (le_outcome e) (turns_to_resolution e)
        (length (deliveries e)) (has_real_delivery e)"]
    by (simp add: emit_signal_outcome_def wires_def tick_def)
  from wires_trans [OF this Cons.IH] show ?case by simp
qed (simp add: wires_same)

lemma wires_note_fire: "wires w (note_signal_drift_fire d w) []"
proof -
  have "wires w (foldl (\<lambda>w e. emit_signal_outcome e w) (on_sess (\<lambda>s. s\<lparr>state := st\<rparr>) w) rs) []" for st rs
    using wires_quiet [OF wires_same wires_signal_outcomes] by (simp add: on_sess_def)
  then show ?thesis by (auto simp: note_signal_drift_fire_def on_sess_def intro!: wires_same split: sum.splits)
qed

lemma wires_drift_detected: "wires w (emit_drift_detected d oc rsn w) [(drift_id d, drift_kind d, drift_task d)]"
proof -
  define w1 where "w1 = on_sess (note_drift_event d) w"
  define pw where "pw = stamp_drift_lifecycle d (drift_payload d) w1"
  define w3 where "w3 = emit_new (DriftDetected (fst pw)) (snd pw)"
  define w4 where "w4 = emit_steering_decision (drift_decision d oc rsn) w3"
  define w5 where "w5 = (if judge_emitted d then w4 else emit_judgement_from_drift d w4)"
  define w6 where "w6 = (if is_terminal_drift d then close_open_boundaries_for_terminal_drift d w5 else w5)"
  have "dd_id (fst pw) = drift_id d" "dd_kind (fst pw) = drift_kind d" "dd_task (fst pw) = drift_task d"
    by (auto simp: pw_def stamp_drift_lifecycle_def drift_payload_def split: sum.splits)
  moreover have "wires w (snd pw) []"
    by (rule wires_same) (auto simp: pw_def w1_def stamp_drift_lifecycle_def on_sess_def split: sum.splits)
  ultimately have 3: "wires w w3 [(drift_id d, drift_kind d, drift_task d)]"
    using wires_trans [OF _ wires_emit, of w "snd pw" "[]" "DriftDetected (fst pw)"] by (simp add: w3_def)
  have 4: "wires w3 w4 []"
    using wires_emit [of w3 "SteeringDecisionMade (drift_decision d oc rsn)"]
    by (simp add: w4_def emit_steering_decision_def tick_def wires_def)
  have 5: "wires w4 w5 []"
    using wires_emit [of w4 "JudgementEmitted (drift_kind d) (drift_severity d) (drift_detail d)"] wires_same [of w4 w4]
    by (simp add: w5_def emit_judgement_from_drift_def tick_def wires_def)
  have 6: "wires w5 w6 []"
    by (rule wires_same) (simp_all add: w6_def close_open_boundaries_for_terminal_drift_def plugin_do_def)
  have "emit_drift_detected d oc rsn w = note_signal_drift_fire d w6"
    by (simp add: emit_drift_detected_def Let_def split_beta w1_def pw_def w3_def w4_def w5_def w6_def)
  with wires_quiet [OF wires_quiet [OF wires_quiet [OF wires_quiet [OF 3 4] 5] 6] wires_note_fire] show ?thesis by simp
qed

lemma drift_events_frame:
  "drift_events (sess (tick w)) = drift_events (sess w)" "drift_events (sess (emit_new p w)) = drift_events (sess w)"
  "drift_events (sess (plugin_do c w)) = drift_events (sess w)"
  "drift_events (sess (note_signal_drift_fire d w)) = drift_events (sess w)"
  "drift_events (sess (snd (stamp_drift_lifecycle d q w))) = drift_events (sess w)"
proof -
  show e: "drift_events (sess (tick w)) = drift_events (sess w)" "drift_events (sess (emit_new p w)) = drift_events (sess w)" for w p
    by (simp_all add: tick_def emit_new_def next_sequence_def Let_def)
  have "drift_events (sess (foldl (\<lambda>w e. emit_signal_outcome e w) w es)) = drift_events (sess w)" for w es
    by (rule foldl_frame [of "\<lambda>w. drift_events (sess w)"]) (simp add: emit_signal_outcome_def e)
  then show "drift_events (sess (note_signal_drift_fire d w)) = drift_events (sess w)"
    by (simp add: note_signal_drift_fire_def on_sess_def split: sum.split)
  show "drift_events (sess (snd (stamp_drift_lifecycle d q w))) = drift_events (sess w)"
    by (simp add: stamp_drift_lifecycle_def on_sess_def split: sum.split)
qed (simp add: plugin_do_def)

lemma drift_events_emit:
  "drift_events (sess (emit_drift_detected d oc rsn w)) = drift_events (note_drift_event d (sess w))"
  by (simp add: emit_drift_detected_def Let_def split_beta emit_steering_decision_def emit_judgement_from_drift_def
      close_open_boundaries_for_terminal_drift_def drift_events_frame) (simp add: on_sess_def)

definition emit_all :: "(drift_event \<times> string \<times> string) list \<Rightarrow> world \<Rightarrow> world" where
  "emit_all ds w = foldl (\<lambda>w (d, oc, rsn). emit_drift_detected d oc rsn w) w ds"

text \<open>
  The session's drift list agrees with the event stream. Whatever drifts are emitted, every emission
  puts one \<open>DriftDetected\<close> with the drift's id on the wire, in order; the list behind
  \<open>Session.drift_summary\<close> holds exactly the ids that were emitted, each once, however often a drift is
  re-emitted; and the plan is untouched.
\<close>

theorem drift_list_matches_wire:
  assumes "drift_events (sess w) = []" "\<forall>(d, oc, rsn)\<in>set ds. drift_id d \<noteq> []" "has_sinks (cfg w)"
  shows "\<exists>es. log (emit_all ds w) = log w @ es \<and> map fst (drift_log es) = map (\<lambda>(d, oc, rsn). drift_id d) ds \<and>
    distinct (map drift_id (drift_events (sess (emit_all ds w)))) \<and>
    set (map drift_id (drift_events (sess (emit_all ds w)))) = fst ` set (drift_log es) \<and>
    session_plan (sess (emit_all ds w)) = session_plan (sess w)"
proof -
  have wire: "wires w (emit_all ds w) (map (\<lambda>(d, oc, rsn). (drift_id d, drift_kind d, drift_task d)) ds)" for w
  proof (induction ds arbitrary: w)
    case (Cons x ds)
    obtain d oc rsn where x: "x = (d, oc, rsn)" by (cases x)
    from wires_trans [OF wires_drift_detected Cons.IH] show ?case by (simp add: emit_all_def x)
  qed (simp add: emit_all_def wires_same)
  have ids: "set (map drift_id (drift_events (sess (emit_all ds w)))) =
      set (map drift_id (drift_events (sess w))) \<union> set (map (\<lambda>(d, oc, rsn). drift_id d) ds) \<and>
      distinct (map drift_id (drift_events (sess (emit_all ds w)))) \<and>
      session_plan (sess (emit_all ds w)) = session_plan (sess w)"
    if "distinct (map drift_id (drift_events (sess w)))" "\<forall>(d, oc, rsn)\<in>set ds. drift_id d \<noteq> []" for w
    using that
  proof (induction ds arbitrary: w)
    case (Cons x ds)
    obtain d oc rsn where x: "x = (d, oc, rsn)" by (cases x)
    let ?w = "emit_drift_detected d oc rsn w"
    have "distinct (map drift_id (drift_events (sess ?w)))"
      "set (map drift_id (drift_events (sess ?w))) = insert (drift_id d) (set (map drift_id (drift_events (sess w))))"
      using Cons.prems by (auto simp: drift_events_emit note_drift_event_def x)
    with Cons.IH [of ?w] Cons.prems(2) show ?case by (auto simp: emit_all_def x drift_detected_frame)
  qed (simp add: emit_all_def)
  obtain es where es: "log (emit_all ds w) = log w @ es"
    "drift_log es = map (\<lambda>(d, oc, rsn). (drift_id d, drift_kind d, drift_task d)) ds"
    using wire [of w] assms(3) by (auto simp: wires_def)
  have "map fst (drift_log es) = map (\<lambda>(d, oc, rsn). drift_id d) ds" by (simp add: es(2) comp_def split_beta)
  moreover from this have "fst ` set (drift_log es) = set (map (\<lambda>(d, oc, rsn). drift_id d) ds)" by (metis set_map)
  ultimately show ?thesis using ids [of w] assms(1,2) es(1) by auto
qed

theorem drift_list_matches_wire_witness:
  "\<exists>es. log (emit_all [(mk_drift ''1'' OFF_TOPIC WARNING, [], []), (mk_drift ''1'' OFF_TOPIC CRITICAL, [], [])] sample_world) = es \<and>
    map fst (drift_log es) = [''1'', ''1''] \<and>
    distinct (map drift_id (drift_events (sess (emit_all [(mk_drift ''1'' OFF_TOPIC WARNING, [], []),
      (mk_drift ''1'' OFF_TOPIC CRITICAL, [], [])] sample_world))))"
proof -
  have "drift_events (sess sample_world) = []" by (simp add: sample_world_def mk_session_def)
  from drift_list_matches_wire [OF this, of "[(mk_drift ''1'' OFF_TOPIC WARNING, [], []), (mk_drift ''1'' OFF_TOPIC CRITICAL, [], [])]"]
  show ?thesis by (simp add: mk_drift_def)
qed

section \<open>Cancels\<close>

lemma request_cancel_calls:
  "plugin_calls (request_invocation_cancel d fl w) = plugin_calls w @
     (if is_active_steering (cfg w) \<and> has_plugin (cfg w)
      then map (\<lambda>i. RequestInvocationCancel i (cancellation_request d (hd (resolve_active_invocation_ids d w))
             (wall_clock (cfg w) (ticks w) div 1000000)) fl) (resolve_active_invocation_ids d w)
      else [])"
proof -
  have "plugin_calls (foldl (\<lambda>w i. plugin_do (RequestInvocationCancel i q fl) w) w is) =
      plugin_calls w @ (if has_plugin (cfg w) then map (\<lambda>i. RequestInvocationCancel i q fl) is else [])" for q w "is"
    by (induction "is" arbitrary: w) (auto simp: plugin_do_def)
  then show ?thesis by (simp add: request_invocation_cancel_def Let_def on_regs_def tick_def)
qed

lemma request_cancel_frame:
  "sess (request_invocation_cancel d fl w) = sess w" "cfg (request_invocation_cancel d fl w) = cfg w"
  "log (request_invocation_cancel d fl w) = log w" "background_judges (request_invocation_cancel d fl w) = background_judges w"
  "supersede_pending (regs (request_invocation_cancel d fl w)) = supersede_pending (regs w)"
  "is_invocation_cancel_requested sid j (regs (request_invocation_cancel d fl w)) \<longleftrightarrow>
     is_invocation_cancel_requested sid j (regs w) \<or>
     (is_active_steering (cfg w) \<and> has_plugin (cfg w) \<and> sid = session_id (sess w) \<and> sid \<noteq> [] \<and> j \<noteq> [] \<and>
      j \<in> set (resolve_active_invocation_ids d w))"
proof -
  have f: "g (foldl (\<lambda>w i. plugin_do (RequestInvocationCancel i q fl) w) w is) = g w"
    if "\<And>c w. g (plugin_do c w) = g w" for g :: "world \<Rightarrow> 'a" and q w "is"
    by (rule foldl_frame) (rule that)
  have p: "sess (plugin_do c w) = sess w" "cfg (plugin_do c w) = cfg w" "log (plugin_do c w) = log w"
    "background_judges (plugin_do c w) = background_judges w" "regs (plugin_do c w) = regs w" for c w
    by (simp_all add: plugin_do_def)
  note F = f [of sess, OF p(1)] f [of cfg, OF p(2)] f [of log, OF p(3)] f [of background_judges, OF p(4)] f [of regs, OF p(5)]
  show "sess (request_invocation_cancel d fl w) = sess w" "cfg (request_invocation_cancel d fl w) = cfg w"
    "log (request_invocation_cancel d fl w) = log w" "background_judges (request_invocation_cancel d fl w) = background_judges w"
    by (simp_all add: request_invocation_cancel_def Let_def F on_regs_def tick_def)
  have "supersede_pending (foldl (\<lambda>r i. mark_invocation_cancel_requested s i r) r is) = supersede_pending r"
    for r :: "nat registries" and s "is"
    by (rule foldl_frame) (simp add: gf_frame)
  then show "supersede_pending (regs (request_invocation_cancel d fl w)) = supersede_pending (regs w)"
    by (simp add: request_invocation_cancel_def Let_def F on_regs_def tick_def)
  show "is_invocation_cancel_requested sid j (regs (request_invocation_cancel d fl w)) \<longleftrightarrow>
     is_invocation_cancel_requested sid j (regs w) \<or>
     (is_active_steering (cfg w) \<and> has_plugin (cfg w) \<and> sid = session_id (sess w) \<and> sid \<noteq> [] \<and> j \<noteq> [] \<and>
      j \<in> set (resolve_active_invocation_ids d w))"
    by (auto simp: request_invocation_cancel_def Let_def F on_regs_def tick_def cancels.marked_fold)
qed

lemma supersede_marks:
  "is_supersede_pending sid j (regs (on_regs (\<lambda>r. foldl (\<lambda>r i. mark_supersede_pending s i r) r is) w)) \<longleftrightarrow>
     is_supersede_pending sid j (regs w) \<or> (sid = s \<and> s \<noteq> [] \<and> j \<noteq> [] \<and> j \<in> set is)"
  by (simp add: on_regs_def superseding.marked_fold)

lemma resolve_ids_cong:
  "cfg w' = cfg w \<Longrightarrow> invocation_agent w' = invocation_agent w \<Longrightarrow> top_invocation w' = top_invocation w \<Longrightarrow>
   resolve_active_invocation_ids d w' = resolve_active_invocation_ids d w"
  by (simp add: resolve_active_invocation_ids_def)

definition already_cancelled :: "drift_event \<Rightarrow> world \<Rightarrow> bool" where
  "already_cancelled d w \<longleftrightarrow> drift_id d \<noteq> [] \<and> drift_id d \<in> cancelled_drift_ids w"

lemma cancel_spec:
  assumes "drift_authorizes_inflight_cancel (cfg w) d"
  shows "supersede_flag (sess (cancel_inflight_for_revision d w))"
    "plugin_calls (cancel_inflight_for_revision d w) = plugin_calls w @
       (if \<not> already_cancelled d w \<and> is_active_steering (cfg w) \<and> has_plugin (cfg w)
        then map (\<lambda>i. RequestInvocationCancel i (cancellation_request d (hd (resolve_active_invocation_ids d w))
               (wall_clock (cfg w) (ticks w) div 1000000)) True) (resolve_active_invocation_ids d w)
        else [])"
    "is_supersede_pending sid j (regs (cancel_inflight_for_revision d w)) \<longleftrightarrow> is_supersede_pending sid j (regs w) \<or>
       (\<not> already_cancelled d w \<and> sid = session_id (sess w) \<and> sid \<noteq> [] \<and> j \<noteq> [] \<and> j \<in> set (resolve_active_invocation_ids d w))"
proof -
  let ?w = "on_sess (\<lambda>s. s\<lparr>supersede_flag := True\<rparr>) w"
  let ?v = "on_regs (\<lambda>r. foldl (\<lambda>r i. mark_supersede_pending (session_id (sess w)) i r) r (resolve_active_invocation_ids d w)) ?w"
  have ids: "resolve_active_invocation_ids d ?v = resolve_active_invocation_ids d w"
    "resolve_active_invocation_ids d ?w = resolve_active_invocation_ids d w"
    by (rule resolve_ids_cong; simp add: on_sess_def on_regs_def)+
  have fr: "cfg ?v = cfg w" "ticks ?v = ticks w" "plugin_calls ?v = plugin_calls w" "supersede_flag (sess ?v)"
    "session_id (sess ?w) = session_id (sess w)" "cancelled_drift_ids ?w = cancelled_drift_ids w" "plugin_calls ?w = plugin_calls w"
    "supersede_flag (sess ?w)" "regs ?w = regs w" by (simp_all add: on_sess_def on_regs_def)
  have eq: "cancel_inflight_for_revision d w =
      (if already_cancelled d w then ?w\<lparr>cancelled_drift_ids := cancelled_drift_ids w - {drift_id d}\<rparr>
       else request_invocation_cancel d True ?v)"
    using assms by (simp add: cancel_inflight_for_revision_def already_cancelled_def Let_def fr ids)
  have pend: "is_supersede_pending sid j (regs (request_invocation_cancel d True ?v)) \<longleftrightarrow> is_supersede_pending sid j (regs ?v)"
    by (simp add: is_supersede_pending_def request_cancel_frame)
  show "supersede_flag (sess (cancel_inflight_for_revision d w))" by (simp add: eq request_cancel_frame fr)
  show "plugin_calls (cancel_inflight_for_revision d w) = plugin_calls w @
       (if \<not> already_cancelled d w \<and> is_active_steering (cfg w) \<and> has_plugin (cfg w)
        then map (\<lambda>i. RequestInvocationCancel i (cancellation_request d (hd (resolve_active_invocation_ids d w))
               (wall_clock (cfg w) (ticks w) div 1000000)) True) (resolve_active_invocation_ids d w)
        else [])"
    by (simp add: eq request_cancel_calls ids fr)
  show "is_supersede_pending sid j (regs (cancel_inflight_for_revision d w)) \<longleftrightarrow> is_supersede_pending sid j (regs w) \<or>
       (\<not> already_cancelled d w \<and> sid = session_id (sess w) \<and> sid \<noteq> [] \<and> j \<noteq> [] \<and> j \<in> set (resolve_active_invocation_ids d w))"
    by (auto simp: eq pend supersede_marks fr)
qed


text \<open>
  In observation mode the supersede marker is left without a cancel. For an authorised drift under
  \<open>observation_only\<close> (an operator's STEER, say, whose revision does land) the session-wide supersede flag
  and the registry entries of the resolved invocations are set, but no cancel is requested and the plugin
  is not called, so nothing will ever consume the markers: the state the method's own documentation
  rules out.
\<close>

theorem observation_only_strands_supersede:
  assumes "\<not> is_active_steering (cfg w)" "drift_authorizes_inflight_cancel (cfg w) d" "\<not> already_cancelled d w"
    "i \<in> set (resolve_active_invocation_ids d w)" "i \<noteq> []" "session_id (sess w) \<noteq> []"
  shows "supersede_flag (sess (cancel_inflight_for_revision d w)) \<and>
    is_supersede_pending (session_id (sess w)) i (regs (cancel_inflight_for_revision d w)) \<and>
    plugin_calls (cancel_inflight_for_revision d w) = plugin_calls w"
  using cancel_spec [OF assms(2)] assms by simp

definition observing_world :: world where
  "observing_world = sample_world\<lparr>cfg := (cfg sample_world)\<lparr>is_active_steering := False\<rparr>, top_invocation := ''inv''\<rparr>"

theorem observation_only_strands_supersede_witness:
  "is_supersede_pending ''r'' ''inv'' (regs (cancel_inflight_for_revision (mk_drift ''d'' USER_STEER WARNING) observing_world)) \<and>
   plugin_calls (cancel_inflight_for_revision (mk_drift ''d'' USER_STEER WARNING) observing_world) = []"
  using observation_only_strands_supersede [of observing_world "mk_drift ''d'' USER_STEER WARNING" "''inv''"]
  by (simp add: observing_world_def sample_world_def sample_config_def mk_session_def mk_drift_def already_cancelled_def
      drift_authorizes_inflight_cancel_def USER_AUTHORED_DRIFT_KINDS_def resolve_active_invocation_ids_def)

section \<open>Repeated refine failures\<close>

lemma record_failure:
  assumes "drift_kind d \<notin> USER_OR_TRAJECTORY_DRIFT_KINDS" "n = occurrence_count_for_ladder (sess w) d + 1"
    "n < REFINE_FAILURE_THRESHOLD"
  shows "record_refine_outcome d False w =
    Inr (on_sess (\<lambda>s. s\<lparr>refine_outcomes := (refine_outcomes s)(refine_key d \<mapsto> \<lparr>refine_state = Failed, fail_count = n\<rparr>)\<rparr>) w)"
proof -
  have "(case refine_outcomes (sess w) (refine_key d) of
      Some r \<Rightarrow> if refine_state r = Failed then fail_count r + 1 else 1 | None \<Rightarrow> 1) = n"
    using assms(2) by (auto simp: occurrence_count_for_ladder_def split: option.splits) (metis refine_state.exhaust)
  then show ?thesis using assms(1,3) by (simp add: record_refine_outcome_def Let_def)
qed

lemma occurrence_count_stored:
  "occurrence_count_for_ladder (s\<lparr>refine_outcomes := (refine_outcomes s)(refine_key d \<mapsto> \<lparr>refine_state = Failed, fail_count = n\<rparr>)\<rparr>) d = n"
  by (simp add: occurrence_count_for_ladder_def)

text \<open>
  Refining gives up after two failures in a row. For a drift about a live task whose refine has not
  failed yet this turn, a first failure is only counted and leaves the plan alone; a second one fails the
  task for good and cancels its live dependents, so that no task is left waiting for it, and puts a
  REPEATED_FAILURE drift on the wire. A success in between starts the count again.
\<close>

theorem second_refine_failure_fails_task:
  assumes p: "session_plan (sess w) = Some p" "distinct (map task_id (tasks p))"
    and t: "plan_find p (drift_task d) = Some t" "status t \<notin> TERMINAL_TASK_STATUSES" "drift_task d \<noteq> []"
    and k: "drift_kind d \<notin> USER_OR_TRAJECTORY_DRIFT_KINDS" and z: "occurrence_count_for_ladder (sess w) d = 0"
    and s: "has_sinks (cfg w)"
  shows "\<exists>w1 w2 q es. record_refine_outcome d False w = Inr w1 \<and> session_plan (sess w1) = Some p \<and>
    occurrence_count_for_ladder (sess w1) d = 1 \<and>
    record_refine_outcome d False w1 = Inr w2 \<and> session_plan (sess w2) = Some q \<and>
    plan_find q (drift_task d) = Some (t\<lparr>status := FAILED\<rparr>) \<and>
    (\<forall>e u. e \<in> set (edges q) \<and> (from_task_id e = drift_task d \<or> doomed p (drift_task d) (from_task_id e)) \<and>
       plan_find q (to_task_id e) = Some u \<longrightarrow> status u \<in> TERMINAL_TASK_STATUSES) \<and>
    log w2 = es \<and> REPEATED_FAILURE \<in> fst ` snd ` set (drift_log es) \<and>
    (\<forall>w3. record_refine_outcome d True w1 = Inr w3 \<longrightarrow> occurrence_count_for_ladder (sess w3) d = 0)"
proof -
  let ?st = "\<lambda>n s. s\<lparr>refine_outcomes := (refine_outcomes s)(refine_key d \<mapsto> \<lparr>refine_state = Failed, fail_count = n\<rparr>)\<rparr>"
  let ?w1 = "on_sess (?st 1) w"
  let ?w2 = "on_sess (?st 2) ?w1"
  have 1: "record_refine_outcome d False w = Inr ?w1"
    using record_failure [OF k, of 1 w] z by (simp add: REFINE_FAILURE_THRESHOLD_def)
  have c1: "occurrence_count_for_ladder (sess ?w1) d = 1" by (simp add: on_sess_def occurrence_count_stored)
  have p2: "session_plan (sess ?w2) = Some p" using p(1) by (simp add: on_sess_def)
  from mark_failed_result [OF p2 p(2) t(1,2), of "''refine repeatedly failed for '' @ drift_kind_value (drift_kind d)" False "''other''" True]
  obtain w3 q where f: "mark_task_failed (drift_task d) (''refine repeatedly failed for '' @ drift_kind_value (drift_kind d))
      False ''other'' True ?w2 = Inr w3" "session_plan (sess w3) = Some q" "plan_find q (drift_task d) = Some (t\<lparr>status := FAILED\<rparr>)"
    "\<forall>e u. e \<in> set (edges q) \<and> (from_task_id e = drift_task d \<or> doomed p (drift_task d) (from_task_id e)) \<and>
       plan_find q (to_task_id e) = Some u \<longrightarrow> status u \<in> TERMINAL_TASK_STATUSES" by auto
  have "plan_ids_ok ?w2" using p2 p(2) by (simp add: plan_ids_ok_def)
  from mark_failed_steps [OF this] have "steps_to ?w2 (Inr w3)" unfolding f(1) [symmetric] .
  then have "cfg w3 = cfg ?w2" by (auto simp: steps_to_def evolves_def extends_def)
  then have sinks: "has_sinks (cfg w3)" using s by (simp add: on_sess_def)
  define r where "r = (mk_drift (uuid_hex (cfg w3) (ticks w3)) REPEATED_FAILURE CRITICAL)
      \<lparr>drift_detail := ''refine failed '' @ show_nat 2 @ '' consecutive times for '' @ drift_kind_value (drift_kind d) @
         '' (task '' @ drift_task d @ '')'', drift_task := drift_task d, drift_agent := drift_agent d\<rparr>"
  have 2: "record_refine_outcome d False ?w1 = Inr (emit_drift_detected r [] [] (tick w3))"
    using k t(3) f(1)
    by (simp add: record_refine_outcome_def on_sess_def REFINE_FAILURE_THRESHOLD_def new_drift_def r_def Let_def numeral_2_eq_2)
  have "wires (tick w3) (emit_drift_detected r [] [] (tick w3)) [(drift_id r, REPEATED_FAILURE, drift_task d)]"
    using wires_drift_detected [of "tick w3" r "[]" "[]"] by (simp add: r_def mk_drift_def)
  then obtain es where es: "log (emit_drift_detected r [] [] (tick w3)) = log (tick w3) @ es"
    "drift_log es = [(drift_id r, REPEATED_FAILURE, drift_task d)]" using sinks by (auto simp: wires_def frame_simps)
  have "REPEATED_FAILURE \<in> fst ` snd ` set (drift_log (log (tick w3) @ es))" by (simp add: es(2))
  moreover have "session_plan (sess (emit_drift_detected r [] [] (tick w3))) = Some q"
    using f(2) by (simp add: drift_detected_frame frame_simps)
  moreover have "record_refine_outcome d True ?w1 = Inr w' \<Longrightarrow> occurrence_count_for_ladder (sess w') d = 0" for w'
    using k by (auto simp: record_refine_outcome_def on_sess_def occurrence_count_for_ladder_def)
  ultimately show ?thesis
    using 1 c1 2 f(3,4) es(1) p(1)
    by (intro exI [of _ ?w1] exI [of _ "emit_drift_detected r [] [] (tick w3)"] exI [of _ q] exI [of _ "log (tick w3) @ es"])
       (simp add: on_sess_def)
qed

theorem second_refine_failure_fails_task_witness:
  "\<exists>w1 w2 q. record_refine_outcome ((mk_drift ''d'' OFF_TOPIC WARNING)\<lparr>drift_task := ''a''\<rparr>) False sample_world = Inr w1 \<and>
     record_refine_outcome ((mk_drift ''d'' OFF_TOPIC WARNING)\<lparr>drift_task := ''a''\<rparr>) False w1 = Inr w2 \<and>
     session_plan (sess w2) = Some q \<and> plan_find q ''a'' = Some ((mk_task ''a'' ''A'')\<lparr>status := FAILED\<rparr>)"
proof -
  let ?d = "(mk_drift ''d'' OFF_TOPIC WARNING)\<lparr>drift_task := ''a''\<rparr>"
  have f: "plan_find sample_plan (drift_task ?d) = Some (mk_task ''a'' ''A'')"
    "status (mk_task ''a'' ''A'') \<notin> TERMINAL_TASK_STATUSES" "drift_task ?d \<noteq> []"
    "drift_kind ?d \<notin> USER_OR_TRAJECTORY_DRIFT_KINDS" "occurrence_count_for_ladder (sess sample_world) ?d = 0"
    by (simp_all add: mk_task_def mk_drift_def USER_OR_TRAJECTORY_DRIFT_KINDS_def occurrence_count_for_ladder_def
        sample_world_def mk_session_def)
  from second_refine_failure_fails_task [OF sample_ok(1,2) f sample_ok(3)] show ?thesis by (auto simp: mk_drift_def)
qed

end
