(* ===== verification/Plan_Install.thy ===== *)
theory Plan_Install
  imports Plan_Revision Corrections Drift_Emission
begin

text \<open>
  The install paths of \<open>src/goldfive/plan_reviser.py\<close>: how a candidate plan is folded, validated, stamped
  and swapped onto the session, what is emitted for it, and the route the runner takes to them
  (\<open>runner.py\<close>). The region under the per-session plan lock is one step. A validation error is the
  \<open>ValueError\<close> of \<open>Plan.validate\<close> with its message text; dashes and the section sign of the messages are
  written as their UTF-8 bytes.
\<close>

section \<open>Messages\<close>

fun repr_pair :: "string \<times> string \<Rightarrow> string" where
  "repr_pair (a, b) = ''('' @ repr_str a @ '', '' @ repr_str b @ '')''"

fun plan_error_message :: "plan_error \<Rightarrow> string" where
  "plan_error_message EmptyTaskId = ''plan contains a task with an empty id''"
| "plan_error_message (DuplicateTaskId i) = ''duplicate task id in plan: '' @ repr_str i"
| "plan_error_message (UnknownFromTask i) = ''edge references unknown task id (from_task_id='' @ repr_str i @ '')''"
| "plan_error_message (UnknownToTask i) = ''edge references unknown task id (to_task_id='' @ repr_str i @ '')''"
| "plan_error_message (PlanKeyError k) = repr_str k"
| "plan_error_message (PlanCycle is) = ''plan contains a cycle among tasks: ['' @ join '', '' (map repr_str is) @ '']''"
| "plan_error_message (NonPendingAtCreation i s) =
     ''task '' @ repr_str i @ '' has non-PENDING status '' @ repr_str (status_value s) @ '' at plan creation''"
| "plan_error_message (TerminalTaskMissing i) = ''terminal task '' @ repr_str i @ '' missing in revision''"
| "plan_error_message (TerminalTaskRegressed i s) =
     ''terminal task '' @ repr_str i @ '' regressed to '' @ repr_str (status_value s)"
| "plan_error_message (TerminalEdgeMissing a b) =
     ''terminal->terminal edge '' @ repr_str a @ '' -> '' @ repr_str b @ '' missing in revision''"
| "plan_error_message (UnexecutablePending a b s) =
     ''edge '' @ repr_str a @ '' -> '' @ repr_str b @ '' would make PENDING task unexecutable: from-task is '' @
     status_value s @ ''. New tasks must form an independent sub-DAG starting from no predecessors '' @
     [CHR 0xE2, CHR 0x80, CHR 0x94] @ '' do not graft new work onto CANCELLED or FAILED tasks (their status never '' @
     ''transitions to COMPLETED, so downstream PENDING tasks can never become eligible).''"
| "plan_error_message (SelfSupersedes x) =
     ''task '' @ repr_str x @ '' supersedes itself; a task cannot be its own predecessor / replacement''"
| "plan_error_message (SupersedesUnknown x y) =
     ''task '' @ repr_str x @ '' supersedes unknown task '' @ repr_str y @ '' (not present in prior plan or in revision)''"
| "plan_error_message (MutualSupersedes x y) =
     ''mutual supersedes between '' @ repr_str x @ '' and '' @ repr_str y @ ''; a supersession chain must be acyclic''"
| "plan_error_message (ConsumersNotReedged x y ms) =
     ''task '' @ repr_str x @ '' supersedes '' @ repr_str y @ '' but downstream consumers of '' @ repr_str y @
     '' not re-edged through '' @ repr_str x @ '': missing edges ['' @ join '', '' (map repr_pair ms) @
     '']. Either add an edge '' @ repr_str x @ '' -> Z for every prior consumer Z of '' @ repr_str y @ '', OR re-mark '' @
     repr_str y @ '' PENDING in the revision and add an edge '' @ repr_str x @ '' -> '' @ repr_str y @
     ''. See PLAN-LIFECYCLE.md '' @ [CHR 0xC2, CHR 0xA7] @ ''3.6 (goldfive#248).''"

section \<open>What a revision event carries\<close>

definition changed_task :: "task \<Rightarrow> task \<Rightarrow> bool" where
  "changed_task o' n \<longleftrightarrow> title o' \<noteq> title n \<or> description o' \<noteq> description n \<or>
     assignee_agent_id o' \<noteq> assignee_agent_id n \<or> status o' \<noteq> status n"

definition build_plan_revision_diff :: "plan option \<Rightarrow> plan \<Rightarrow> revision_diff" where
  "build_plan_revision_diff old new =
     (let old_tasks = (case old of None \<Rightarrow> [] | Some p \<Rightarrow> tasks p);
          old_edges = (case old of None \<Rightarrow> [] | Some p \<Rightarrow> map edge_pair (edges p));
          old_by_id = dict_of (map (\<lambda>t. (task_id t, t)) (filter (\<lambda>t. task_id t \<noteq> []) old_tasks));
          new_by_id = tasks_by_id new;
          known = (\<lambda>d i. i \<in> fst ` set d);
          changed = (\<lambda>i. case (map_of old_by_id i, map_of new_by_id i) of
                           (Some o', Some n) \<Rightarrow> changed_task o' n | _ \<Rightarrow> False)
      in \<lparr>added_task_ids = filter (\<lambda>i. known new_by_id i \<and> \<not> known old_by_id i) (map task_id (tasks new)),
          removed_task_ids = filter (\<lambda>i. known old_by_id i \<and> \<not> known new_by_id i) (map task_id old_tasks),
          modified_task_ids = filter (\<lambda>i. known old_by_id i \<and> known new_by_id i \<and> changed i) (map task_id (tasks new)),
          added_edges = filter (\<lambda>e. e \<notin> set old_edges) (map edge_pair (edges new)),
          removed_edges = filter (\<lambda>e. e \<notin> set (map edge_pair (edges new))) old_edges\<rparr>)"

definition status_tally :: "task list \<Rightarrow> string" where
  "status_tally ts =
     (let keys = map (\<lambda>t. status_value (status t)) ts
      in join '','' (map (\<lambda>k. k @ ''='' @ show_nat (count_list keys k)) (sort (remdups keys))))"

definition build_refine_input_summary :: "drift_event \<Rightarrow> plan option \<Rightarrow> string" where
  "build_refine_input_summary d prev =
     truncate_for_observability (join '' | ''
       ([''drift='' @ drift_kind_value (drift_kind d) @ ''/'' @ severity_value (drift_severity d)]
        @ (if drift_task d \<noteq> [] then [''task='' @ drift_task d] else [])
        @ (if drift_detail d \<noteq> [] then [''detail='' @ drift_detail d] else [])
        @ (case prev of
             None \<Rightarrow> [''prior_plan=none'']
           | Some p \<Rightarrow>
               [''prior_plan=rev'' @ show_int (revision_index p) @ '':'' @ show_nat (length (tasks p)) @ ''tasks'']
               @ (if tasks p \<noteq> [] then [''prior_statuses='' @ status_tally (tasks p)] else [])))) 2048"

definition build_refine_output_summary :: "plan \<Rightarrow> string" where
  "build_refine_output_summary p =
     (let titles = filter (\<lambda>t. t \<noteq> []) (map title (take 6 (tasks p)))
      in truncate_for_observability (join '' | ''
           ([''revision_index='' @ show_int (revision_index p), ''tasks='' @ show_nat (length (tasks p))]
            @ (if titles \<noteq> [] then [''titles=['' @ join '', '' titles @ '']''] else []))) 2048)"

definition plan_revised_payload :: "plan \<Rightarrow> drift_event \<Rightarrow> plan option \<Rightarrow> string \<Rightarrow> bool \<Rightarrow> plan_revised" where
  "plan_revised_payload revised d prev trigger dry =
     \<lparr>pr_plan = revised, pr_kind = drift_kind d, pr_severity = drift_severity d, pr_reason = drift_detail d,
      pr_index = revision_index revised, pr_trigger = trigger, pr_diff = build_plan_revision_diff prev revised,
      pr_input_summary = build_refine_input_summary d prev, pr_output_summary = build_refine_output_summary revised,
      pr_target = drift_agent d, pr_dry_run = dry\<rparr>"

section \<open>Refine attempts\<close>

definition refine_event_of :: "drift_event \<Rightarrow> string \<Rightarrow> refine_event" where
  "refine_event_of d attempt =
     \<lparr>re_attempt = attempt, re_drift_id = drift_id d, re_kind = drift_kind d, re_severity = drift_severity d,
      re_task = drift_task d, re_agent = drift_agent d\<rparr>"

definition emit_refine_attempted :: "drift_event \<Rightarrow> string \<Rightarrow> world \<Rightarrow> world" where
  "emit_refine_attempted d attempt w = emit_new (RefineAttempted (refine_event_of d attempt)) w"

definition emit_refine_failed :: "drift_event \<Rightarrow> string \<Rightarrow> string \<Rightarrow> string \<Rightarrow> string \<Rightarrow> world \<Rightarrow> world" where
  "emit_refine_failed d attempt failure_kind reason detail w =
     emit_new (RefineFailed (refine_event_of d attempt) failure_kind reason detail) w"

definition emit_plan_revised_correlation :: "plan \<Rightarrow> drift_event \<Rightarrow> string \<Rightarrow> world \<Rightarrow> world" where
  "emit_plan_revised_correlation revised d attempt w =
     emit_new (PlanRevisedCorrelation (refine_event_of d attempt) (revision_index revised)) w"

definition new_uuid :: "world \<Rightarrow> string \<times> world" where
  "new_uuid w = (uuid_hex (cfg w) (ticks w), tick w)"

text \<open>
  The context manager \<open>observe_refine\<close> around a block: the block gets the attempt id and ends by
  returning, by an exception (its text and type) or by a cancellation (its type).
\<close>

datatype 'a refine_exit = Returned 'a | Raised string string | Cancelled string

definition observe_refine ::
  "drift_event \<Rightarrow> (string \<Rightarrow> world \<Rightarrow> 'a refine_exit \<times> world) \<Rightarrow> world \<Rightarrow> 'a refine_exit \<times> world" where
  "observe_refine d body w =
     (let (attempt, w) = new_uuid w;
          (r, w) = body attempt (emit_refine_attempted d attempt w)
      in (r, case r of
               Returned _ \<Rightarrow> w
             | Raised text type \<Rightarrow> emit_refine_failed d attempt ''llm_error'' text type w
             | Cancelled type \<Rightarrow> emit_refine_failed d attempt ''cancelled'' (''refine cancelled: '' @ type) type w))"

section \<open>The swap under the lock\<close>

definition corrections_via_notes :: "config \<Rightarrow> bool" where
  "corrections_via_notes c \<longleftrightarrow> request_context c \<and> \<not> pin_assigned_task c"

definition stamp_addressed :: "drift_event \<Rightarrow> plan \<Rightarrow> session \<Rightarrow> session" where
  "stamp_addressed d revised s =
     (if lower (authored_by d) \<noteq> ''user''
      then s\<lparr>last_addressed := (last_addressed s)((drift_kind_value (drift_kind d), drift_task d) \<mapsto> revision_index revised)\<rparr>
      else s)"

definition swap_plan :: "plan \<Rightarrow> drift_event \<Rightarrow> plan option \<Rightarrow> world \<Rightarrow> py_error + world" where
  "swap_plan revised d prev w =
     ebind (set_session_plan True (strict_ownership (cfg w)) (sess w) (Some revised)) (\<lambda>s.
     let s = stamp_addressed d revised s in
     ebind (set_current_plan (state s) (Some revised)) (\<lambda>st.
     let now = wall_clock (cfg w) (ticks w) div 1000000;
         st = revise_corrections (sha1_hex (cfg w)) (corrections_via_notes (cfg w)) revised prev d now
                (int (reasoning_turn s)) st;
         (s, hook) = repin_current_task_on_supersedes (s\<lparr>state := st\<rparr>) revised;
         w = tick (w\<lparr>sess := s\<rparr>)
     in Inr (case hook of None \<Rightarrow> w | Some m \<Rightarrow> plugin_do (RewritePinnedTaskIds m) w)))"

definition emit_plan_revised :: "plan \<Rightarrow> drift_event \<Rightarrow> plan option \<Rightarrow> string \<Rightarrow> bool \<Rightarrow> world \<Rightarrow> py_error + world" where
  "emit_plan_revised revised d prev attempt dry w =
     (let revised = integrate_correction_supersedes revised in
      ebind (if dry then Inr w else swap_plan revised d prev w) (\<lambda>w.
      let trigger = or_else (revision_trigger_event_id revised) (or_else (drift_annotation_id d) (drift_id d));
          w = emit_new (PlanRevised (plan_revised_payload revised d prev trigger dry)) w;
          w = emit_plan_revision_transitions prev revised w
      in Inr (if attempt \<noteq> [] then emit_plan_revised_correlation revised d attempt w else w)))"

section \<open>Install paths\<close>

definition schema_violation :: "plan_error \<Rightarrow> world \<Rightarrow> world" where
  "schema_violation e w =
     (let (d, w) = new_drift SCHEMA_VIOLATION CRITICAL (''plan validation failed: '' @ plan_error_message e)
            (current_task_id (sess w)) w
      in emit_drift_detected (d\<lparr>authored_by := ''goldfive''\<rparr>) [] [] w)"

definition stamped :: "world \<Rightarrow> plan \<Rightarrow> drift_event \<Rightarrow> plan \<times> bool" where
  "stamped w revised d =
     apply_revision (plan_mode_ledger (cfg w)) (is_active_steering (cfg w)) (session_plan (sess w)) revised d"

definition install_initial_plan :: "plan \<Rightarrow> bool \<Rightarrow> world \<Rightarrow> py_error + bool \<times> world" where
  "install_initial_plan p is_pivot w =
     (let prev = session_plan (sess w);
          p = (if is_pivot then p else fold_runtime_terminal_statuses p prev)
      in case validate p True (if is_pivot then None else prev) of
           Some e \<Rightarrow> Inr (False, schema_violation e w)
         | None \<Rightarrow>
             (let (d, w) = new_drift NEW_WORK_DISCOVERED INFO ''initial plan install'' [] w;
                  d = d\<lparr>authored_by := ''goldfive''\<rparr>;
                  (p, was_installed) = stamped w p d
              in ebind (emit_plan_revised p d prev [] (\<not> was_installed) w) (\<lambda>w. Inr (True, w))))"

text \<open>What the three drift-driven paths share: stamp, cancel what the drift may cancel, swap and emit.\<close>

definition land_revision :: "drift_event \<Rightarrow> plan \<Rightarrow> world \<Rightarrow> py_error + plan \<times> world" where
  "land_revision d revised w =
     (let prev = session_plan (sess w);
          (attempt, w) = new_uuid w;
          w = emit_refine_attempted d attempt w;
          (revised, was_installed) = stamped w revised d;
          w = cancel_inflight_for_revision d w
      in ebind (emit_plan_revised revised d prev attempt (\<not> was_installed) w) (\<lambda>w. Inr (revised, w)))"

definition install_with_drift :: "drift_event \<Rightarrow> plan \<Rightarrow> bool \<Rightarrow> world \<Rightarrow> py_error + bool \<times> world" where
  "install_with_drift d revised steer_state w =
     (let w = (if steer_state then apply_user_steer_state d w else w);
          w = emit_drift_detected d [] [] w;
          revised = fold_runtime_terminal_statuses revised (session_plan (sess w))
      in case validate revised True (session_plan (sess w)) of
           Some e \<Rightarrow> Inr (False, schema_violation e w)
         | None \<Rightarrow>
             if plans_structurally_identical (session_plan (sess w)) revised then Inr (False, w)
             else ebind (land_revision d revised w) (\<lambda>(_, w). Inr (True, w)))"

definition install_revision_for_drift :: "drift_event \<Rightarrow> plan \<Rightarrow> world \<Rightarrow> py_error + bool \<times> world" where
  "install_revision_for_drift d revised w =
     (if drift_kind d = USER_STEER
      then Inl (ValueError ''install_revision_for_drift refuses USER_STEER drifts; use install_revision_for_user_steer for genuine operator-pushed STEER ControlMessages.'')
      else install_with_drift (if authored_by d = [] then d\<lparr>authored_by := resolve_authored_by d\<rparr> else d) revised False w)"

definition install_revision_for_user_steer :: "ControlMessage \<Rightarrow> plan \<Rightarrow> world \<Rightarrow> py_error + bool \<times> world" where
  "install_revision_for_user_steer raw revised w =
     (let (body, author, _) = unpack_steer_context ((mk_drift [] USER_STEER WARNING)\<lparr>drift_raw := Some (RawControl raw)\<rparr>);
          (d, w) = new_drift USER_STEER WARNING (if author \<noteq> [] then ''by '' @ author @ '': '' @ body else body) [] w
      in install_with_drift (d\<lparr>drift_raw := Some (RawControl raw), authored_by := ''user''\<rparr>) revised True w)"

definition install_user_steer :: "drift_event \<Rightarrow> plan \<Rightarrow> plan option \<Rightarrow> world \<Rightarrow> py_error + plan \<times> world" where
  "install_user_steer d prior llm_revision w =
     (let d = (if authored_by d = [] then d\<lparr>authored_by := ''user''\<rparr> else d);
          chosen = choose_user_revision prior llm_revision d;
          w = emit_drift_detected d [] [] (apply_user_steer_state d w)
      in if plans_structurally_identical (Some prior) chosen then Inr (prior, w) else land_revision d chosen w)"

section \<open>Descriptive growth\<close>

text \<open>The title of a discovered task; \<open>parsed\<close> is the decoded \<open>tool_args_json\<close>, if it is JSON.\<close>

definition snippet :: "string \<Rightarrow> string" where
  "snippet s =
     (let s = strip s in if 80 < length s then rev (dropWhile is_space (rev (take 77 s))) @ ''...'' else s)"

definition first_text :: "(string \<times> json) list \<Rightarrow> string list \<Rightarrow> string option" where
  "first_text d ks =
     (case concat (map (\<lambda>k. case map_of d k of Some (JStr v) \<Rightarrow> if strip v \<noteq> [] then [v] else [] | _ \<Rightarrow> []) ks) of
        [] \<Rightarrow> None | v # _ \<Rightarrow> Some v)"

definition derive_discovered_task_title :: "string \<Rightarrow> json option \<Rightarrow> string" where
  "derive_discovered_task_title agent parsed =
     (case (case parsed of Some (JDict d) \<Rightarrow> first_text d [''request'', ''task'', ''goal''] | _ \<Rightarrow> None) of
        Some v \<Rightarrow> (if agent \<noteq> [] then agent @ '': '' @ snippet v else snippet v)
      | None \<Rightarrow> if agent \<noteq> [] then agent @ '': discovered work'' else ''discovered work'')"

definition derive_discovered_task_description :: "string \<Rightarrow> string" where
  "derive_discovered_task_description args =
     (if 256 < length args then rev (dropWhile is_space (rev (take 253 args))) @ ''...'' else args)"

record growth_call =
  gc_agent :: string
  gc_args :: string
  gc_parsed :: "json option"
  gc_event_id :: string
  gc_title :: "string option"
  gc_description :: "string option"

definition growth_request_of :: "growth_call \<Rightarrow> world \<Rightarrow> growth_request \<times> world" where
  "growth_request_of c w =
     (let (task_uuid, w) = new_uuid w; (drift_uuid, w) = new_uuid w; (plan_uuid, w) = new_uuid w
      in (\<lparr>grow_agent = gc_agent c, grow_hash = discovery_hash (cfg w) (gc_agent c) (gc_args c),
           grow_title = (case gc_title c of Some t \<Rightarrow> t | None \<Rightarrow> derive_discovered_task_title (gc_agent c) (gc_parsed c)),
           grow_description = (case gc_description c of Some t \<Rightarrow> t | None \<Rightarrow> derive_discovered_task_description (gc_args c)),
           grow_task_id = ''discovered-'' @ take 12 task_uuid, grow_plan_id = ''discovered-plan-'' @ take 12 plan_uuid,
           grow_drift_id = (if gc_event_id c \<noteq> [] then gc_event_id c else drift_uuid)\<rparr>, w))"

definition growth_drift :: "growth_request \<Rightarrow> drift_event" where
  "growth_drift g =
     (mk_drift (grow_drift_id g) NEW_WORK_DISCOVERED INFO)\<lparr>drift_detail := growth_detail g, drift_task := grow_task_id g,
       drift_agent := grow_agent g, authored_by := ''goldfive''\<rparr>"

text \<open>The plan differs from the one before exactly when the growth was installed: it then has one task more.\<close>

definition install_descriptive_growth :: "growth_call \<Rightarrow> world \<Rightarrow> py_error + task \<times> world" where
  "install_descriptive_growth c w =
     (let (g, w) = growth_request_of c w; prev = session_plan (sess w)
      in ebind (grow_under_lock (plan_mode_ledger (cfg w)) (strict_ownership (cfg w)) g (sess w)) (\<lambda>(t, s).
         case session_plan s of
           None \<Rightarrow> Inr (t, w)
         | Some revised \<Rightarrow>
             if Some revised = prev then Inr (t, w)
             else let w = emit_drift_detected (growth_drift g) [] [] (w\<lparr>sess := s\<rparr>)
                  in Inr (t, emit_new (PlanRevised (plan_revised_payload revised (growth_drift g) prev (grow_drift_id g) False)) w)))"

text \<open>\<open>DriftObserver.report_new_work_discovered\<close>; \<open>args\<close> is the JSON text of the report.\<close>

definition report_new_work_discovered :: "string \<Rightarrow> string \<Rightarrow> string \<Rightarrow> string \<Rightarrow> string \<Rightarrow> world \<Rightarrow> world" where
  "report_new_work_discovered parent ttl desc assignee args w =
     (case install_descriptive_growth \<lparr>gc_agent = assignee, gc_args = args, gc_parsed = None, gc_event_id = [],
             gc_title = Some ttl, gc_description = Some desc\<rparr> w of
        Inr (_, w) \<Rightarrow> w
      | Inl _ \<Rightarrow>
          (let (d, w) = new_drift NEW_WORK_DISCOVERED INFO
                 (''new work under '' @ parent @ '': '' @ ttl @ '': '' @ desc @
                  (if assignee \<noteq> [] then '' (assignee='' @ assignee @ '')'' else [])) parent w
           in emit_drift_detected (d\<lparr>drift_agent := assignee, authored_by := ''goldfive''\<rparr>) [] [] w))"

section \<open>The runner's route\<close>

text \<open>\<open>Runner._install_revision\<close> from the choice of the path on; \<open>text\<close> is the user's message.\<close>

definition install_revision :: "plan \<Rightarrow> string \<Rightarrow> world \<Rightarrow> bool \<times> world" where
  "install_revision revised text w =
     (let first_turn = (case session_plan (sess w) of None \<Rightarrow> True | Some p \<Rightarrow> tasks p = [])
      in case (if first_turn \<or> goldfive_pivot revised then install_initial_plan revised (goldfive_pivot revised) w
               else let (d, w) = new_drift NEW_WORK_DISCOVERED INFO text [] w
                    in install_revision_for_drift (d\<lparr>authored_by := ''goldfive''\<rparr>) revised w) of
           Inl _ \<Rightarrow> (False, w)
         | Inr r \<Rightarrow> r)"

end
