(* ===== verification/Install_Safety.thy ===== *)
theory Install_Safety
  imports Plan_Install
begin

text \<open>
  What the install paths of \<open>plan_reviser.py\<close> guarantee: they never raise (but for the refused drift
  kind), a revision becomes the session's plan exactly when it is valid, is a change and passes the
  observation-only gate, terminal tasks keep their status through any interleaving of installs and
  task transitions, and a held-back revision leaves only telemetry behind. The locale \<open>plan_history\<close> states what
  a step has to keep of the plan and proves it of runs.
\<close>

section \<open>The landed plan\<close>

definition landed :: "world \<Rightarrow> plan \<Rightarrow> drift_event \<Rightarrow> plan" where
  "landed w revised d = integrate_correction_supersedes (fst (stamped w revised d))"

definition gate_open :: "world \<Rightarrow> drift_event \<Rightarrow> bool" where
  "gate_open w d \<longleftrightarrow> session_plan (sess w) = None \<or> lower (authored_by d) = ''user'' \<or> drift_kind d = NEW_WORK_DISCOVERED \<or>
     is_active_steering (cfg w)"

lemma stamped_gate: "snd (stamped w r d) = gate_open w d"
  by (auto simp: stamped_def gate_open_def apply_revision_def Let_def)

lemma stamped_cong:
  "cfg w' = cfg w \<Longrightarrow> session_plan (sess w') = session_plan (sess w) \<Longrightarrow> stamped w' r d = stamped w r d"
  by (simp add: stamped_def)

lemma integrate_revision [simp]: "revision_index (integrate_correction_supersedes p) = revision_index p"
  by (simp add: integrate_correction_supersedes_def replace_edges_def Let_def)

lemma integrate_find [simp]: "plan_find (integrate_correction_supersedes p) i = plan_find p i"
  by (simp add: plan_find_def)

lemma preserve_task_simps [simp]:
  "task_id (preserve_task m t) = task_id t" "status (preserve_task m t) = status t"
  by (auto simp: preserve_task_def split: option.split)

lemma find_append: "find P (xs @ ys) = (case find P xs of Some x \<Rightarrow> Some x | None \<Rightarrow> find P ys)"
  by (induction xs) auto

lemma ledger_find:
  assumes "plan_find r i = Some t"
  shows "\<exists>u. plan_find (preserve_ledger_identity l r prev) i = Some u \<and> status u = status t"
proof (cases "i = []")
  case False
  then have "find (\<lambda>t. task_id t = i) (tasks r) = Some t" using assms by (simp add: plan_find_def)
  then show ?thesis using assms False
    by (cases prev) (auto simp: preserve_ledger_identity_def plan_find_def find_append find_map_task)
qed (use assms in \<open>simp add: plan_find_def\<close>)

lemma ledger_ids_ok:
  assumes "ids_ok r" "\<And>p. prev = Some p \<Longrightarrow> ids_ok p"
  shows "ids_ok (preserve_ledger_identity l r prev)"
proof (cases prev)
  case (Some p)
  have "distinct (map task_id (dropped_discovered r p))" "[] \<notin> task_id ` set (dropped_discovered r p)"
    using assms(2) [OF Some] by (auto simp: dropped_discovered_def ids_ok_def distinct_map_filter)
  moreover have "task_id ` set (tasks r) \<inter> task_id ` set (dropped_discovered r p) = {}"
    by (auto simp: dropped_discovered_def) (metis imageI)+
  ultimately show ?thesis using assms(1)
    by (auto simp: preserve_ledger_identity_def Some ids_ok_def comp_def image_image)
qed (use assms in \<open>simp add: preserve_ledger_identity_def\<close>)

lemma fold_none [simp]: "fold_runtime_terminal_statuses r None = r"
  by (simp add: fold_runtime_terminal_statuses_def)

lemma fold_ids [simp]: "map task_id (tasks (fold_runtime_terminal_statuses r prev)) = map task_id (tasks r)"
  by (cases prev) (simp_all add: fold_tasks comp_def)

lemma fold_ids_ok [simp]: "ids_ok (fold_runtime_terminal_statuses r prev) = ids_ok r"
  unfolding ids_ok_def list.set_map [symmetric] by simp

text \<open>What \<open>_apply_revision\<close> and the integration of corrections keep of a candidate.\<close>

lemma landed_tasks:
  "tasks (landed w r d) = tasks (preserve_ledger_identity (plan_mode_ledger (cfg w))
     (fold_runtime_terminal_statuses r (session_plan (sess w))) (session_plan (sess w)))"
  by (simp add: landed_def stamped_def apply_revision_def Let_def bump_revision_def)

lemma landed_ids_ok:
  assumes "ids_ok r" "\<And>p. session_plan (sess w) = Some p \<Longrightarrow> ids_ok p"
  shows "ids_ok (landed w r d)"
proof -
  have "ids_ok (preserve_ledger_identity (plan_mode_ledger (cfg w))
      (fold_runtime_terminal_statuses r (session_plan (sess w))) (session_plan (sess w)))"
    by (rule ledger_ids_ok) (use assms in simp_all)
  then show ?thesis unfolding ids_ok_def landed_tasks .
qed

lemma landed_find:
  assumes "plan_find r i = Some t"
  shows "\<exists>u. plan_find (landed w r d) i = Some u \<and>
    status u = (case session_plan (sess w) of None \<Rightarrow> status t | Some p \<Rightarrow> status (fold_task (prior_terminal_tasks p) t))"
proof -
  let ?f = "fold_runtime_terminal_statuses r (session_plan (sess w))"
  obtain u where u: "plan_find ?f i = Some u"
    "status u = (case session_plan (sess w) of None \<Rightarrow> status t | Some p \<Rightarrow> status (fold_task (prior_terminal_tasks p) t))"
    using assms fold_find by (cases "session_plan (sess w)") (auto simp: fold_none)
  have "plan_find (landed w r d) i = plan_find (preserve_ledger_identity (plan_mode_ledger (cfg w)) ?f (session_plan (sess w))) i"
    by (simp add: plan_find_def landed_tasks)
  with ledger_find [OF u(1)] u(2) show ?thesis by simp
qed

lemma landed_revision:
  assumes "session_plan (sess w) = Some p"
  shows "revision_index p < revision_index (landed w r d)"
  using assms by (simp add: landed_def stamped_def apply_revision_def Let_def bump_revision_def)

section \<open>The steps of an install\<close>

lemma swap_plan_ok:
  "\<exists>w'. swap_plan r d prev w = Inr w' \<and> session_plan (sess w') = Some r \<and> cfg w' = cfg w \<and> log w' = log w"
  by (auto simp: swap_plan_def set_session_plan_def set_current_plan_ok stamp_addressed_def Let_def tick_def plugin_do_def
      repin_current_task_on_supersedes_def split: option.split)

lemma cancel_inflight_frame:
  "session_plan (sess (cancel_inflight_for_revision d w)) = session_plan (sess w)"
  "cfg (cancel_inflight_for_revision d w) = cfg w" "log (cancel_inflight_for_revision d w) = log w"
  by (simp_all add: cancel_inflight_for_revision_def Let_def request_cancel_frame on_sess_def on_regs_def)

lemma new_uuid_frame [simp]:
  "sess (snd (new_uuid w)) = sess w" "cfg (snd (new_uuid w)) = cfg w" "log (snd (new_uuid w)) = log w"
  by (simp_all add: new_uuid_def tick_def)

lemma emit_frame [simp]:
  "session_plan (sess (emit_new p w)) = session_plan (sess w)" "cfg (emit_new p w) = cfg w"
  by (simp_all add: emit_new_def next_sequence_def Let_def)

lemma revision_transitions_frame [simp]:
  "session_plan (sess (emit_plan_revision_transitions prev r w)) = session_plan (sess w)"
  "cfg (emit_plan_revision_transitions prev r w) = cfg w"
  using telemetryD [OF telemetry_revision_transitions [OF telemetry_refl]] by simp_all

lemma emit_plan_revised_ok:
  "\<exists>w'. emit_plan_revised r d prev a dry w = Inr w' \<and>
     session_plan (sess w') = (if dry then session_plan (sess w) else Some (integrate_correction_supersedes r)) \<and> cfg w' = cfg w"
proof (cases dry)
  case False
  obtain w' where "swap_plan (integrate_correction_supersedes r) d prev w = Inr w'"
    "session_plan (sess w') = Some (integrate_correction_supersedes r)" "cfg w' = cfg w"
    using swap_plan_ok by blast
  then show ?thesis using False
    by (simp add: emit_plan_revised_def Let_def emit_plan_revised_correlation_def)
qed (simp add: emit_plan_revised_def Let_def emit_plan_revised_correlation_def)

lemma land_revision_ok:
  "\<exists>w'. land_revision d r w = Inr (fst (stamped w r d), w') \<and>
     session_plan (sess w') = (if gate_open w d then Some (landed w r d) else session_plan (sess w)) \<and> cfg w' = cfg w"
proof -
  let ?w = "cancel_inflight_for_revision d (emit_refine_attempted d (fst (new_uuid w)) (snd (new_uuid w)))"
  have s: "stamped (emit_refine_attempted d (fst (new_uuid w)) (snd (new_uuid w))) r d = stamped w r d"
    by (rule stamped_cong) (simp_all add: emit_refine_attempted_def)
  have gate: "gate_open (emit_refine_attempted d (fst (new_uuid w)) (snd (new_uuid w))) d = gate_open w d"
    by (simp add: gate_open_def emit_refine_attempted_def)
  obtain w' where "emit_plan_revised (fst (stamped w r d)) d (session_plan (sess w)) (fst (new_uuid w)) (\<not> gate_open w d) ?w = Inr w'"
    "session_plan (sess w') = (if gate_open w d then Some (landed w r d) else session_plan (sess w))" "cfg w' = cfg w"
    using emit_plan_revised_ok [of "fst (stamped w r d)" d "session_plan (sess w)" "fst (new_uuid w)" "\<not> gate_open w d" ?w]
    by (auto simp: landed_def cancel_inflight_frame emit_refine_attempted_def)
  moreover have "land_revision d r w = ebind (emit_plan_revised (fst (stamped w r d)) d (session_plan (sess w)) (fst (new_uuid w))
      (\<not> gate_open w d) ?w) (\<lambda>v. Inr (fst (stamped w r d), v))"
    by (simp add: land_revision_def Let_def split_beta s stamped_gate gate)
  ultimately show ?thesis by auto
qed

lemma schema_violation_frame [simp]:
  "session_plan (sess (schema_violation e w)) = session_plan (sess w)" "cfg (schema_violation e w) = cfg w"
  by (simp_all add: schema_violation_def new_drift_def drift_detected_frame tick_def)

lemma user_steer_state_frame [simp]:
  "session_plan (sess (apply_user_steer_state d w)) = session_plan (sess w)" "cfg (apply_user_steer_state d w) = cfg w"
  by (simp_all add: apply_user_steer_state_def Let_def split_beta on_sess_def split: sum.split)

definition candidate :: "world \<Rightarrow> plan \<Rightarrow> plan" where
  "candidate w r = fold_runtime_terminal_statuses r (session_plan (sess w))"

definition accepted :: "world \<Rightarrow> plan \<Rightarrow> bool" where
  "accepted w r \<longleftrightarrow> validate (candidate w r) True (session_plan (sess w)) = None \<and>
     \<not> plans_structurally_identical (session_plan (sess w)) (candidate w r)"

lemma frame_cong:
  assumes "cfg w' = cfg w" "session_plan (sess w') = session_plan (sess w)"
  shows "candidate w' r = candidate w r" "accepted w' r = accepted w r" "gate_open w' d = gate_open w d" "landed w' r d = landed w r d"
  using assms stamped_cong [OF assms] by (simp_all add: candidate_def accepted_def gate_open_def landed_def)

lemma install_with_drift_ok:
  "\<exists>w'. install_with_drift d r st w = Inr (accepted w r, w') \<and> cfg w' = cfg w \<and>
     session_plan (sess w') = (if accepted w r \<and> gate_open w d then Some (landed w (candidate w r) d) else session_plan (sess w))"
proof -
  let ?w = "emit_drift_detected d [] [] (if st then apply_user_steer_state d w else w)"
  have f: "cfg ?w = cfg w" "session_plan (sess ?w) = session_plan (sess w)" by (simp_all add: drift_detected_frame)
  note c = frame_cong [OF f]
  obtain w' where "land_revision d (candidate w r) ?w = Inr (fst (stamped ?w (candidate w r) d), w')"
    "session_plan (sess w') = (if gate_open w d then Some (landed w (candidate w r) d) else session_plan (sess w))" "cfg w' = cfg w"
    using land_revision_ok [of d "candidate w r" ?w] by (auto simp: c f)
  moreover have "install_with_drift d r st w =
      (case validate (candidate w r) True (session_plan (sess w)) of
         Some e \<Rightarrow> Inr (False, schema_violation e ?w)
       | None \<Rightarrow> if plans_structurally_identical (session_plan (sess w)) (candidate w r) then Inr (False, ?w)
                 else ebind (land_revision d (candidate w r) ?w) (\<lambda>(_, v). Inr (True, v)))"
    unfolding install_with_drift_def Let_def candidate_def f(2) by (rule refl)
  ultimately show ?thesis using f by (auto simp: accepted_def split: option.split)
qed

definition initial_drift :: "world \<Rightarrow> drift_event" where
  "initial_drift w = (fst (new_drift NEW_WORK_DISCOVERED INFO ''initial plan install'' [] w))\<lparr>authored_by := ''goldfive''\<rparr>"

lemma install_initial_ok:
  fixes w :: world and p :: plan and piv :: bool
  defines "c \<equiv> if piv then p else candidate w p"
    and "ok \<equiv> validate (if piv then p else candidate w p) True (if piv then None else session_plan (sess w)) = None"
  shows "\<exists>w'. install_initial_plan p piv w = Inr (ok, w') \<and> cfg w' = cfg w \<and>
     session_plan (sess w') = (if ok then Some (landed w c (initial_drift w)) else session_plan (sess w))"
proof (cases ok)
  case True
  let ?d = "initial_drift w"
  let ?w = "snd (new_drift NEW_WORK_DISCOVERED INFO ''initial plan install'' [] w)"
  have f: "cfg ?w = cfg w" "session_plan (sess ?w) = session_plan (sess w)" by (simp_all add: new_drift_def tick_def)
  have g: "snd (stamped ?w c ?d)" by (simp add: stamped_gate gate_open_def initial_drift_def new_drift_def mk_drift_def)
  have "install_initial_plan p piv w = ebind (emit_plan_revised (fst (stamped ?w c ?d)) ?d (session_plan (sess w)) []
      (\<not> snd (stamped ?w c ?d)) ?w) (\<lambda>v. Inr (True, v))"
    using True unfolding install_initial_plan_def c_def ok_def by (cases piv) (simp_all add: candidate_def initial_drift_def Let_def split_beta)
  moreover have "landed w c ?d = integrate_correction_supersedes (fst (stamped ?w c ?d))"
    using stamped_cong [OF f] by (simp add: landed_def)
  ultimately show ?thesis
    using emit_plan_revised_ok [of "fst (stamped ?w c ?d)" ?d "session_plan (sess w)" "[]" False ?w] f g True by auto
next
  case False
  then show ?thesis unfolding install_initial_plan_def ok_def
    by (auto simp: candidate_def Let_def split: if_splits option.splits)
qed

definition as_user :: "drift_event \<Rightarrow> drift_event" where
  "as_user d = (if authored_by d = [] then d\<lparr>authored_by := ''user''\<rparr> else d)"

lemma install_user_steer_ok:
  fixes d :: drift_event and p :: plan and llm :: "plan option"
  assumes "session_plan (sess w) = Some p"
  defines "c \<equiv> choose_user_revision p llm (as_user d)"
  shows "\<exists>w' r. install_user_steer d p llm w = Inr (r, w') \<and> cfg w' = cfg w \<and>
    session_plan (sess w') = Some (if plans_structurally_identical (Some p) c \<or> \<not> gate_open w (as_user d) then p
      else landed w c (as_user d))"
proof -
  let ?d = "as_user d"
  let ?w = "emit_drift_detected ?d [] [] (apply_user_steer_state ?d w)"
  have f: "cfg ?w = cfg w" "session_plan (sess ?w) = session_plan (sess w)" by (simp_all add: drift_detected_frame)
  obtain w' where w': "land_revision ?d c ?w = Inr (fst (stamped ?w c ?d), w')"
    "session_plan (sess w') = Some (if gate_open w ?d then landed w c ?d else p)" "cfg w' = cfg w"
    using land_revision_ok [of ?d c ?w] assms(1) by (auto simp: frame_cong [OF f] f)
  have "install_user_steer d p llm w =
      (if plans_structurally_identical (Some p) c then Inr (p, ?w) else land_revision ?d c ?w)"
    unfolding install_user_steer_def Let_def as_user_def c_def by (rule refl)
  then show ?thesis using w' f assms(1) by (cases "plans_structurally_identical (Some p) c") auto
qed

lemma grow_under_lock_ok:
  "\<exists>t s'. grow_under_lock l strict g s = Inr (t, s') \<and>
     (s' = s \<or> (\<exists>q. session_plan s' = Some q \<and> validate q True (session_plan s) = None \<and>
        (\<forall>p. session_plan s = Some p \<longrightarrow> revision_index q = revision_index p + 1)))"
proof (cases "find (live_discovered (grow_hash g)) (case session_plan s of None \<Rightarrow> [] | Some p \<Rightarrow> tasks p)")
  case None
  then show ?thesis
    by (auto simp: grow_under_lock_def set_session_plan_def set_current_plan_ok Let_def growth_plan_simps split: option.split)
qed (simp add: grow_under_lock_def)

lemma growth_request_frame: "sess (snd (growth_request_of c w)) = sess w" "cfg (snd (growth_request_of c w)) = cfg w"
  by (simp_all add: growth_request_of_def Let_def split_beta)

lemma install_descriptive_growth_ok:
  "\<exists>t w'. install_descriptive_growth c w = Inr (t, w') \<and> cfg w' = cfg w \<and>
     (session_plan (sess w') = session_plan (sess w) \<or>
      (\<exists>q. session_plan (sess w') = Some q \<and> validate q True (session_plan (sess w)) = None \<and>
        (\<forall>p. session_plan (sess w) = Some p \<longrightarrow> revision_index q = revision_index p + 1)))"
proof -
  let ?w = "snd (growth_request_of c w)" and ?g = "fst (growth_request_of c w)"
  obtain t s' where "grow_under_lock (plan_mode_ledger (cfg w)) (strict_ownership (cfg w)) ?g (sess w) = Inr (t, s')"
    "s' = sess w \<or> (\<exists>q. session_plan s' = Some q \<and> validate q True (session_plan (sess w)) = None \<and>
        (\<forall>p. session_plan (sess w) = Some p \<longrightarrow> revision_index q = revision_index p + 1))"
    using grow_under_lock_ok by blast
  then show ?thesis
    by (auto simp: install_descriptive_growth_def Let_def split_beta growth_request_frame drift_detected_frame split: option.split)
qed

section \<open>History through every operation on the plan\<close>

definition keeps_history :: "plan \<Rightarrow> plan \<Rightarrow> bool" where
  "keeps_history p q \<longleftrightarrow> revision_index p \<le> revision_index q \<and>
     (\<forall>t\<in>set (tasks p). status t \<in> TERMINAL_TASK_STATUSES \<longrightarrow> (\<exists>n. plan_find q (task_id t) = Some n \<and> status n = status t))"

definition plan_held :: "world \<Rightarrow> bool" where
  "plan_held w \<longleftrightarrow> (\<forall>p. session_plan (sess w) = Some p \<longrightarrow> ids_ok p)"

definition history_step :: "world \<Rightarrow> world \<Rightarrow> bool" where
  "history_step w w' \<longleftrightarrow> plan_held w' \<and>
     (\<forall>p. session_plan (sess w) = Some p \<longrightarrow> (\<exists>q. session_plan (sess w') = Some q \<and> keeps_history p q))"

lemma keeps_history_refl: "ids_ok p \<Longrightarrow> keeps_history p p"
  by (simp add: keeps_history_def plan_find_member)

lemma keeps_history_trans:
  assumes "keeps_history p q" "keeps_history q r"
  shows "keeps_history p r"
proof -
  have "\<exists>n. plan_find r (task_id t) = Some n \<and> status n = status t"
    if "t \<in> set (tasks p)" "status t \<in> TERMINAL_TASK_STATUSES" for t
  proof -
    from that assms(1) obtain n where n: "plan_find q (task_id t) = Some n" "status n = status t"
      by (auto simp: keeps_history_def)
    from plan_find_SomeD [OF n(1)] assms(2) n(2) that(2) show ?thesis by (force simp: keeps_history_def)
  qed
  with assms show ?thesis by (simp add: keeps_history_def)
qed

lemma history_same: "plan_held w \<Longrightarrow> session_plan (sess w') = session_plan (sess w) \<Longrightarrow> history_step w w'"
  by (simp add: history_step_def plan_held_def keeps_history_refl)

lemma history_trans: "history_step w w1 \<Longrightarrow> history_step w1 w2 \<Longrightarrow> history_step w w2"
  unfolding history_step_def by (meson keeps_history_trans)

text \<open>
  The client keeps its own state around the world, which \<open>world_of\<close> reads off, and an invariant of that state.
\<close>

locale plan_history =
  fixes step :: "'o \<Rightarrow> 's \<Rightarrow> 's" and world_of :: "'s \<Rightarrow> world" and allowed :: "'o \<Rightarrow> bool" and good :: "'s \<Rightarrow> bool"
  assumes step_keeps: "allowed x \<Longrightarrow> good s \<Longrightarrow> plan_held (world_of s) \<Longrightarrow> history_step (world_of s) (world_of (step x s))"
    and step_good: "allowed x \<Longrightarrow> good s \<Longrightarrow> plan_held (world_of s) \<Longrightarrow> good (step x s)"
begin

lemma run_keeps:
  "list_all allowed xs \<Longrightarrow> good s \<Longrightarrow> plan_held (world_of s) \<Longrightarrow> history_step (world_of s) (world_of (fold step xs s))"
proof (induction xs arbitrary: s)
  case (Cons x xs)
  from Cons.prems have one: "history_step (world_of s) (world_of (step x s))" "good (step x s)" by (simp_all add: step_keeps step_good)
  then have "plan_held (world_of (step x s))" by (simp add: history_step_def)
  with Cons one have "history_step (world_of (step x s)) (world_of (fold step xs (step x s)))" by simp
  with one show ?case using history_trans by simp
qed (simp add: history_same)

lemma run_plan:
  assumes "list_all allowed xs" "good s" "session_plan (sess (world_of s)) = Some p" "ids_ok p"
  shows "\<exists>q. session_plan (sess (world_of (fold step xs s))) = Some q \<and> ids_ok q \<and> keeps_history p q"
  using run_keeps [of xs s] assms by (auto simp: history_step_def plan_held_def)

end

text \<open>Every call that can change the session's plan; an exception leaves the session as it was.\<close>

datatype plan_op =
    TaskCall task_op
  | InitialPlan plan bool
  | DriftRevision drift_event plan
  | SteerRevision ControlMessage plan
  | UserSteer drift_event "plan option"
  | Grow growth_call
  | Discover string string string string string
  | TurnPlan plan string

fun settle :: "world \<Rightarrow> py_error + 'a \<times> world \<Rightarrow> world" where
  "settle w (Inl e) = w"
| "settle w (Inr (r, w')) = w'"

fun plan_step :: "plan_op \<Rightarrow> world \<Rightarrow> world" where
  "plan_step (TaskCall op) w = (case run_op op w of Inl _ \<Rightarrow> w | Inr w' \<Rightarrow> w')"
| "plan_step (InitialPlan p piv) w = settle w (install_initial_plan p piv w)"
| "plan_step (DriftRevision d r) w = settle w (install_revision_for_drift d r w)"
| "plan_step (SteerRevision m r) w = settle w (install_revision_for_user_steer m r w)"
| "plan_step (UserSteer d llm) w =
     (case session_plan (sess w) of None \<Rightarrow> w | Some p \<Rightarrow> settle w (install_user_steer d p llm w))"
| "plan_step (Grow c) w = settle w (install_descriptive_growth c w)"
| "plan_step (Discover parent ttl desc assignee args) w = report_new_work_discovered parent ttl desc assignee args w"
| "plan_step (TurnPlan r text) w = snd (install_revision r text w)"

text \<open>A pivot replaces the plan; every other call extends it.\<close>

fun extends_plan :: "plan_op \<Rightarrow> bool" where
  "extends_plan (InitialPlan p piv) \<longleftrightarrow> \<not> piv"
| "extends_plan (TurnPlan r text) \<longleftrightarrow> \<not> goldfive_pivot r"
| "extends_plan _ \<longleftrightarrow> True"

lemma fold_task_terminal: "status t \<in> TERMINAL_TASK_STATUSES \<Longrightarrow> status (fold_task m t) = status t"
  by (simp add: fold_task_def split: option.split)

lemma landed_keeps:
  assumes "session_plan (sess w) = Some p" "preserves r p"
  shows "keeps_history p (landed w r d)"
proof -
  have "\<exists>n. plan_find (landed w r d) (task_id t) = Some n \<and> status n = status t"
    if "t \<in> set (tasks p)" "status t \<in> TERMINAL_TASK_STATUSES" for t
  proof -
    from that assms(2) obtain n where "plan_find r (task_id t) = Some n" "status n = status t" by (auto simp: preserves_def)
    with landed_find [of r "task_id t" n w d] that(2) show ?thesis by (simp add: assms(1) fold_task_terminal)
  qed
  then show ?thesis using landed_revision [OF assms(1), of r d] by (simp add: keeps_history_def)
qed

lemma history_landed:
  assumes "plan_held w" "ids_ok r" "\<And>p. session_plan (sess w) = Some p \<Longrightarrow> preserves r p"
    and "session_plan (sess w') = Some (landed w r d)"
  shows "history_step w w'"
  using assms landed_ids_ok [of r w d] landed_keeps by (auto simp: history_step_def plan_held_def)

lemma valid_candidate:
  "validate (candidate w r) True (session_plan (sess w)) = None \<Longrightarrow>
   ids_ok (candidate w r) \<and> (\<forall>p. session_plan (sess w) = Some p \<longrightarrow> preserves (candidate w r) p)"
  by (simp add: validate_None plan_ok_def dag_ok_def)

lemma chosen_ok:
  assumes "ids_ok p"
  shows "ids_ok (choose_user_revision p llm d)" "preserves (choose_user_revision p llm d) p"
proof -
  have "ids_ok (build_minimal_steer_evolution p d)" using assms by (simp add: ids_ok_def comp_def image_image)
  then show "ids_ok (choose_user_revision p llm d)" "preserves (choose_user_revision p llm d) p"
    using minimal_preserves [OF assms]
    by (auto simp: choose_user_revision_def Let_def validate_None plan_ok_def dag_ok_def split: option.splits)
qed

lemma history_install_with_drift:
  assumes "plan_held w"
  shows "history_step w (settle w (install_with_drift d r st w))"
proof -
  obtain w' where w': "install_with_drift d r st w = Inr (accepted w r, w')"
    "session_plan (sess w') = (if accepted w r \<and> gate_open w d then Some (landed w (candidate w r) d) else session_plan (sess w))"
    using install_with_drift_ok by blast
  show ?thesis
  proof (cases "accepted w r \<and> gate_open w d")
    case True
    then have "ids_ok (candidate w r)" "\<And>p. session_plan (sess w) = Some p \<Longrightarrow> preserves (candidate w r) p"
      using valid_candidate by (auto simp: accepted_def)
    from history_landed [OF assms this] w' True show ?thesis by simp
  next
    case False
    then show ?thesis using w' history_same [OF assms] by auto
  qed
qed

lemma history_install_initial:
  assumes "plan_held w"
  shows "history_step w (settle w (install_initial_plan p False w))"
proof (cases "validate (candidate w p) True (session_plan (sess w)) = None")
  case True
  then have "ids_ok (candidate w p)" "\<And>q. session_plan (sess w) = Some q \<Longrightarrow> preserves (candidate w p) q"
    using valid_candidate by auto
  from history_landed [OF assms this] show ?thesis using install_initial_ok [of p False w] True by auto
next
  case False
  then show ?thesis using install_initial_ok [of p False w] history_same [OF assms] by auto
qed

lemma history_user_steer:
  assumes "plan_held w" "session_plan (sess w) = Some p"
  shows "history_step w (settle w (install_user_steer d p llm w))"
proof -
  have ids: "ids_ok p" using assms by (simp add: plan_held_def)
  obtain w' r where w': "install_user_steer d p llm w = Inr (r, w')"
    "session_plan (sess w') = Some (if plans_structurally_identical (Some p) (choose_user_revision p llm (as_user d)) \<or>
       \<not> gate_open w (as_user d) then p else landed w (choose_user_revision p llm (as_user d)) (as_user d))"
    using install_user_steer_ok [OF assms(2)] by blast
  show ?thesis
  proof (cases "plans_structurally_identical (Some p) (choose_user_revision p llm (as_user d)) \<or> \<not> gate_open w (as_user d)")
    case True
    then show ?thesis using w' history_same [OF assms(1)] assms(2) by auto
  next
    case False
    then show ?thesis
      using w' history_landed [OF assms(1) chosen_ok(1) [OF ids], of llm "as_user d" w' "as_user d"] chosen_ok(2) [OF ids] assms(2) by auto
  qed
qed

lemma history_growth:
  assumes "plan_held w"
  shows "history_step w (settle w (install_descriptive_growth c w))"
proof -
  obtain t w' where w': "install_descriptive_growth c w = Inr (t, w')"
    "session_plan (sess w') = session_plan (sess w) \<or>
      (\<exists>q. session_plan (sess w') = Some q \<and> validate q True (session_plan (sess w)) = None \<and>
        (\<forall>p. session_plan (sess w) = Some p \<longrightarrow> revision_index q = revision_index p + 1))"
    using install_descriptive_growth_ok by blast
  from w'(2) show ?thesis
  proof
    assume "session_plan (sess w') = session_plan (sess w)"
    then show ?thesis using w'(1) history_same [OF assms] by simp
  next
    assume "\<exists>q. session_plan (sess w') = Some q \<and> validate q True (session_plan (sess w)) = None \<and>
        (\<forall>p. session_plan (sess w) = Some p \<longrightarrow> revision_index q = revision_index p + 1)"
    then show ?thesis
      using w'(1) by (auto simp: history_step_def plan_held_def keeps_history_def validate_None plan_ok_def dag_ok_def preserves_def)
  qed
qed

lemma lifecycle_keeps: "ids_ok p \<Longrightarrow> lifecycle_step p q \<Longrightarrow> ids_ok q \<and> keeps_history p q"
proof -
  assume ids: "ids_ok p" and l: "lifecycle_step p q"
  have m: "map task_id (tasks q) = map task_id (tasks p)" using l by (simp add: lifecycle_step_def)
  have "ids_ok q" using ids unfolding ids_ok_def list.set_map [symmetric] m .
  moreover have "\<exists>n. plan_find q (task_id t) = Some n \<and> status n = status t"
    if "t \<in> set (tasks p)" "status t \<in> TERMINAL_TASK_STATUSES" for t
    using l plan_find_member [OF ids that(1)] that(2) unfolding lifecycle_step_def task_step_def by blast
  ultimately show ?thesis using l by (simp add: keeps_history_def lifecycle_step_def)
qed

lemma history_task_call:
  assumes "plan_held w"
  shows "history_step w (plan_step (TaskCall op) w)"
proof -
  have "plan_ids_ok w" using assms by (simp add: plan_held_def plan_ids_ok_def ids_ok_def)
  from marks.step_steps [OF this, of op] obtain w' cs where w': "run_op op w = Inr w'" "evolves w w' cs"
    by (auto simp: steps_to_def)
  show ?thesis
  proof (cases "session_plan (sess w)")
    case None
    then show ?thesis using w' by (simp add: evolves_def history_step_def plan_held_def)
  next
    case (Some p)
    with w'(2) obtain q where q: "session_plan (sess w') = Some q" "lifecycle_step p q"
      using apply_changes_step by (auto simp: evolves_def)
    then show ?thesis using lifecycle_keeps [of p q] assms Some w'(1) by (auto simp: history_step_def plan_held_def)
  qed
qed

lemma new_drift_frame: "sess (snd (new_drift k sv dt i w)) = sess w" "cfg (snd (new_drift k sv dt i w)) = cfg w"
  by (simp_all add: new_drift_def tick_def)

lemma history_shift: "sess w1 = sess w \<Longrightarrow> history_step w1 w' \<Longrightarrow> history_step w w'"
  by (simp add: history_step_def)

lemma held_shift: "sess w1 = sess w \<Longrightarrow> plan_held w \<Longrightarrow> plan_held w1"
  by (simp add: plan_held_def)

lemma history_drift_at:
  assumes "plan_held w" "sess w1 = sess w"
  shows "history_step w (settle v (install_with_drift d r st w1))"
proof -
  have "settle v (install_with_drift d r st w1) = settle w1 (install_with_drift d r st w1)"
    using install_with_drift_ok [of d r st w1] by auto
  then show ?thesis
    using history_shift [OF assms(2) history_install_with_drift [OF held_shift [OF assms(2,1)]]] by simp
qed

lemma history_drift_revision:
  assumes "plan_held w" "sess w1 = sess w" "session_plan (sess v) = session_plan (sess w)"
  shows "history_step w (settle v (install_revision_for_drift d r w1))"
  using history_drift_at [OF assms(1,2)] history_same [OF assms(1,3)] by (simp add: install_revision_for_drift_def)

lemma history_steer_revision:
  assumes "plan_held w"
  shows "history_step w (settle w (install_revision_for_user_steer m r w))"
  unfolding install_revision_for_user_steer_def Let_def split_beta by (rule history_drift_at [OF assms new_drift_frame(1)])

lemma history_discover:
  assumes "plan_held w"
  shows "history_step w (report_new_work_discovered parent ttl desc assignee args w)"
proof -
  let ?c = "\<lparr>gc_agent = assignee, gc_args = args, gc_parsed = None, gc_event_id = [], gc_title = Some ttl, gc_description = Some desc\<rparr>"
  obtain t w' where "install_descriptive_growth ?c w = Inr (t, w')" using install_descriptive_growth_ok by blast
  then show ?thesis using history_growth [OF assms, of ?c] by (simp add: report_new_work_discovered_def)
qed

lemma history_turn_plan:
  assumes "plan_held w" "\<not> goldfive_pivot r"
  shows "history_step w (snd (install_revision r text w))"
proof -
  have s: "snd (case x of Inl _ \<Rightarrow> (False, w) | Inr y \<Rightarrow> y) = settle w x" for x :: "py_error + bool \<times> world"
    by (auto split: sum.split)
  show ?thesis
    unfolding install_revision_def Let_def split_beta s using assms
    by (auto intro: history_install_initial history_drift_revision simp: new_drift_frame)
qed

interpretation installs: plan_history plan_step id extends_plan "\<lambda>_. True"
proof (unfold_locales, unfold id_apply)
  fix x w
  assume x: "extends_plan x" and w: "plan_held w"
  show "history_step w (plan_step x w)"
  proof (cases x)
    case (UserSteer d llm)
    then show ?thesis using history_user_steer [OF w] history_same [OF w] by (simp split: option.split)
  next
    case (TaskCall op)
    then show ?thesis using history_task_call [OF w] by simp
  qed (use x w in \<open>auto intro: history_install_initial history_drift_revision history_steer_revision history_growth
        history_discover history_turn_plan\<close>)
qed

text \<open>A session whose plan has a completed task \<open>a\<close> and a task \<open>b\<close> to do.\<close>

definition done_plan :: plan where
  "done_plan = (plan_empty ''p'' ''r'')\<lparr>tasks := [(mk_task ''a'' ''A'')\<lparr>status := COMPLETED\<rparr>, mk_task ''b'' ''B''],
     edges := [mk_edge ''a'' ''b'']\<rparr>"

definition done_world :: world where
  "done_world = sample_world\<lparr>sess := (sess sample_world)\<lparr>session_plan := Some done_plan\<rparr>\<rparr>"

lemma done_simps [simp]:
  "session_plan (sess done_world) = Some done_plan" "ids_ok done_plan" "cfg done_world = cfg sample_world"
  "tasks done_plan = [(mk_task ''a'' ''A'')\<lparr>status := COMPLETED\<rparr>, mk_task ''b'' ''B'']"
  by (simp_all add: done_world_def done_plan_def ids_ok_def mk_task_def)

section \<open>When a revision lands\<close>

lemma fold_task_idem: "fold_task m (fold_task m t) = fold_task m t"
  by (auto simp: fold_task_def split: option.split)

lemma candidate_status:
  assumes "session_plan (sess w) = Some p" "ids_ok (candidate w r)" "t \<in> set (tasks (candidate w r))"
  shows "\<exists>n. plan_find (landed w (candidate w r) d) (task_id t) = Some n \<and> status n = status t"
proof -
  have "plan_find (candidate w r) (task_id t) = Some t" using plan_find_member [OF assms(2,3)] .
  moreover have "fold_task (prior_terminal_tasks p) t = t"
    using assms(1,3) by (auto simp: candidate_def fold_tasks fold_task_idem)
  ultimately show ?thesis using landed_find [of "candidate w r" "task_id t" t w d] assms(1) by simp
qed

text \<open>
  C13: when a drift revision lands. \<open>install_revision_for_drift\<close> raises only for a USER_STEER drift. Otherwise
  it returns True exactly when the candidate, with the runtime terminal statuses folded in, validates
  against the current plan and is not structurally identical to it; the session's plan changes
  only if moreover the drift is user-authored or discovered work or active steering is on, and is then
  a plan with a larger revision index in which every task of the candidate has its status.
\<close>

theorem drift_revision_lands_iff:
  fixes r p :: plan and d :: drift_event
  assumes "session_plan (sess w) = Some p"
  defines "c \<equiv> fold_runtime_terminal_statuses r (Some p)"
    and "author \<equiv> if authored_by d = [] then resolve_authored_by d else authored_by d"
  shows "if drift_kind d = USER_STEER then \<exists>e. install_revision_for_drift d r w = Inl (ValueError e)
    else \<exists>w' ok. install_revision_for_drift d r w = Inr (ok, w') \<and>
      (ok \<longleftrightarrow> validate c True (Some p) = None \<and> \<not> plans_structurally_identical (Some p) c) \<and>
      (if ok \<and> (lower author = ''user'' \<or> drift_kind d = NEW_WORK_DISCOVERED \<or> is_active_steering (cfg w))
       then \<exists>q. session_plan (sess w') = Some q \<and> revision_index p < revision_index q \<and>
              (\<forall>t\<in>set (tasks c). \<exists>n. plan_find q (task_id t) = Some n \<and> status n = status t)
       else session_plan (sess w') = Some p)"
proof (cases "drift_kind d = USER_STEER")
  case False
  let ?d = "if authored_by d = [] then d\<lparr>authored_by := resolve_authored_by d\<rparr> else d"
  have c: "candidate w r = c" using assms(1) by (simp add: candidate_def c_def)
  have acc: "accepted w r \<longleftrightarrow> validate c True (Some p) = None \<and> \<not> plans_structurally_identical (Some p) c"
    using assms(1) by (simp add: accepted_def c)
  have gate: "gate_open w ?d \<longleftrightarrow> lower author = ''user'' \<or> drift_kind d = NEW_WORK_DISCOVERED \<or> is_active_steering (cfg w)"
    using assms(1) by (simp add: gate_open_def author_def)
  obtain w' where w': "install_revision_for_drift d r w = Inr (accepted w r, w')"
    "session_plan (sess w') = (if accepted w r \<and> gate_open w ?d then Some (landed w c ?d) else Some p)"
    using install_with_drift_ok [of ?d r False w] False assms(1) by (auto simp: install_revision_for_drift_def c)
  have "\<exists>n. plan_find (landed w c ?d) (task_id t) = Some n \<and> status n = status t" if "accepted w r" "t \<in> set (tasks c)" for t
    using candidate_status [OF assms(1), of r t ?d] that acc by (auto simp: c validate_None plan_ok_def dag_ok_def)
  then show ?thesis
    using w' landed_revision [OF assms(1), of c ?d] False unfolding acc [symmetric] gate [symmetric] by auto
qed (simp add: install_revision_for_drift_def)

theorem drift_revision_lands_iff_witness:
  "\<exists>w'. install_revision_for_drift (mk_drift ''d'' OFF_TOPIC WARNING) (plan_empty ''p'' ''r'') done_world = Inr (False, w') \<and>
    session_plan (sess w') = Some done_plan"
proof -
  have "\<not> preserves (plan_empty ''p'' ''r'') done_plan" by (auto simp: preserves_def plan_find_def plan_empty_def)
  then have v: "validate (plan_empty ''p'' ''r'') True (Some done_plan) \<noteq> None" by (simp add: validate_None plan_ok_def)
  have "fold_runtime_terminal_statuses (plan_empty ''p'' ''r'') (Some done_plan) = plan_empty ''p'' ''r''"
    by (simp add: fold_runtime_terminal_statuses_def plan_empty_def)
  with v drift_revision_lands_iff [OF done_simps(1), where d = "mk_drift ''d'' OFF_TOPIC WARNING" and r = "plan_empty ''p'' ''r''"]
  show ?thesis by (auto simp: mk_drift_def)
qed

text \<open>
  C40: a pivot inherits the statuses it was meant to drop. When a validated pivot plan reuses the id of a task
  that was terminal in the discarded plan, \<open>install_initial_plan\<close> installs it with the old
  terminal status: the fold that the pivot branch leaves out is done by \<open>_apply_revision\<close> after all.
\<close>

theorem pivot_inherits_statuses:
  assumes "session_plan (sess w) = Some prior" "ids_ok prior" "validate p True None = None"
    and "t \<in> set (tasks prior)" "status t \<in> TERMINAL_TASK_STATUSES"
    and "plan_find p (task_id t) = Some u" "status u \<notin> TERMINAL_TASK_STATUSES"
  shows "\<exists>w' q n. install_initial_plan p True w = Inr (True, w') \<and> session_plan (sess w') = Some q \<and>
    plan_find q (task_id t) = Some n \<and> status n = status t"
proof -
  have "task_id u = task_id t" using plan_find_SomeD [OF assms(6)] by simp
  then have "status (fold_task (prior_terminal_tasks prior) u) = status t"
    using fold_task_status [of prior u t] plan_find_member [OF assms(2,4)] assms(2,5,7) by (simp add: ids_ok_def)
  with landed_find [OF assms(6), of w "initial_drift w"] obtain n where
    "plan_find (landed w p (initial_drift w)) (task_id t) = Some n" "status n = status t" by (auto simp: assms(1))
  then show ?thesis using install_initial_ok [of p True w] assms(3) by auto
qed

theorem pivot_inherits_statuses_witness:
  "\<exists>w' q n. install_initial_plan before_plan True done_world = Inr (True, w') \<and> session_plan (sess w') = Some q \<and>
    plan_find q ''a'' = Some n \<and> status n = COMPLETED"
proof -
  have "validate before_plan True None = None"
    by (simp add: validate_None plan_ok_def dag_ok_def ids_ok_def reachable_ok_def edge_rel_def before_plan_def mk_task_def
        plan_empty_def acyclic_def)
  from pivot_inherits_statuses [OF done_simps(1,2) this, of "(mk_task ''a'' ''A'')\<lparr>status := COMPLETED\<rparr>" "mk_task ''a'' ''A''"]
  show ?thesis by (simp add: mk_task_def before_plan_def plan_find_def)
qed

section \<open>Observation-only mode\<close>

text \<open>Beside telemetry, a held-back revision may raise the supersede flag of the session.\<close>

definition observed :: "session \<Rightarrow> session \<Rightarrow> bool" where
  "observed s s' \<longleftrightarrow> (\<exists>ds n st pg fl. s' = s\<lparr>drift_events := ds, next_seq := n, state := st, task_last_progress_at := pg,
     supersede_flag := fl\<rparr> \<and> (\<forall>k. k \<notin> telemetry_keys \<longrightarrow> st k = state s k))"

lemma telemetry_observed: "telemetry_only w w' \<Longrightarrow> observed (sess w) (sess w')"
proof -
  assume "telemetry_only w w'"
  then obtain ds n st pg where *: "sess w' = (sess w)\<lparr>drift_events := ds, next_seq := n, state := st, task_last_progress_at := pg\<rparr>"
    "\<forall>k. k \<notin> telemetry_keys \<longrightarrow> st k = state (sess w) k" by (auto simp: telemetry_only_def)
  then have "sess w' = (sess w)\<lparr>drift_events := ds, next_seq := n, state := st, task_last_progress_at := pg,
      supersede_flag := supersede_flag (sess w)\<rparr>" by simp
  with *(2) show ?thesis unfolding observed_def by blast
qed

lemma observed_trans:
  assumes "observed s s1" "observed s1 s2"
  shows "observed s s2"
proof -
  from assms(1) obtain ds n st pg fl where
    1: "s1 = s\<lparr>drift_events := ds, next_seq := n, state := st, task_last_progress_at := pg, supersede_flag := fl\<rparr>"
      "\<forall>k. k \<notin> telemetry_keys \<longrightarrow> st k = state s k" unfolding observed_def by blast
  from assms(2) obtain es m st' pg' fl' where
    2: "s2 = s1\<lparr>drift_events := es, next_seq := m, state := st', task_last_progress_at := pg', supersede_flag := fl'\<rparr>"
      "\<forall>k. k \<notin> telemetry_keys \<longrightarrow> st' k = state s1 k" unfolding observed_def by blast
  have "s2 = s\<lparr>drift_events := es, next_seq := m, state := st', task_last_progress_at := pg', supersede_flag := fl'\<rparr>"
    using 1 2 by simp
  moreover have "\<forall>k. k \<notin> telemetry_keys \<longrightarrow> st' k = state s k" using 1 2 by simp
  ultimately show ?thesis unfolding observed_def by blast
qed

lemma cancel_inflight_observed: "observed (sess w) (sess (cancel_inflight_for_revision d w))"
proof -
  have "sess (cancel_inflight_for_revision d w) = (sess w)\<lparr>drift_events := drift_events (sess w), next_seq := next_seq (sess w),
      state := state (sess w), task_last_progress_at := task_last_progress_at (sess w),
      supersede_flag := supersede_flag (sess (cancel_inflight_for_revision d w))\<rparr>"
    by (simp add: cancel_inflight_for_revision_def Let_def request_cancel_frame on_sess_def on_regs_def)
  then show ?thesis unfolding observed_def by blast
qed

lemma extends_cancel_inflight [evolve_intros]:
  "extends w w1 cs \<Longrightarrow> extends w (cancel_inflight_for_revision d w1) cs"
  by (erule extends_quiet)
     (auto intro!: extends_same simp: cancel_inflight_for_revision_def Let_def request_cancel_frame on_sess_def on_regs_def pace_def)

text \<open>The status changes a revision carries, in the order of its tasks.\<close>

definition revision_changes :: "plan \<Rightarrow> plan \<Rightarrow> change list" where
  "revision_changes p q = concat (map (\<lambda>t.
     let old = (case map_of (tasks_by_id p) (task_id t) of None \<Rightarrow> PENDING | Some o' \<Rightarrow> status o')
     in if task_id t = [] \<or> old = status t then [] else [(task_id t, old, status t)]) (tasks q))"

lemma extends_revision_transitions:
  "extends w w1 cs \<Longrightarrow> extends w (emit_plan_revision_transitions (Some p) q w1) (cs @ revision_changes p q)"
proof -
  assume *: "extends w w1 cs"
  let ?ch = "\<lambda>t. let old = (case map_of (tasks_by_id p) (task_id t) of None \<Rightarrow> PENDING | Some o' \<Rightarrow> status o')
     in if task_id t = [] \<or> old = status t then [] else [(task_id t, old, status t)]"
  have run: "extends v (revision_transitions (tasks_by_id p) ts v) (concat (map ?ch ts))" for v ts
  proof (induction ts arbitrary: v)
    case (Cons t ts)
    let ?old = "case map_of (tasks_by_id p) (task_id t) of None \<Rightarrow> PENDING | Some o' \<Rightarrow> status o'"
    let ?v = "emit_task_transitioned t ?old (status t) ''plan_revision'' v"
    have "extends v (revision_transitions (tasks_by_id p) ts ?v) ((task_id t, ?old, status t) # concat (map ?ch ts))"
      using extends_trans [OF extends_emit_transitioned [OF extends_refl refl] Cons.IH [of ?v]] by simp
    with Cons.IH [of v] show ?case by (simp add: Let_def)
  qed (simp add: extends_refl)
  show ?thesis
  proof (cases "has_sinks (cfg w1)")
    case True
    then show ?thesis
      using extends_trans [OF * run [of w1 "tasks q"]] by (simp add: emit_plan_revision_transitions_def revision_changes_def)
  next
    case False
    moreover have "cfg w1 = cfg w" using * by (simp add: extends_def)
    ultimately show ?thesis using * by (simp add: emit_plan_revision_transitions_def extends_def)
  qed
qed

definition announced :: "plan \<Rightarrow> world \<Rightarrow> bool" where
  "announced q w \<longleftrightarrow> (has_sinks (cfg w) \<longrightarrow>
     (\<exists>e\<in>set (log w). \<exists>pr. ev_payload e = PlanRevised pr \<and> pr_plan pr = q \<and> pr_dry_run pr))"

lemma announced_extends: "announced q w \<Longrightarrow> extends w w' cs \<Longrightarrow> announced q w'"
  by (auto simp: announced_def extends_def)

lemma emit_dry_run:
  assumes "emit_plan_revised r d (Some p) a True w = Inr w'"
  shows "telemetry_only w w'" "extends w w' (revision_changes p (integrate_correction_supersedes r))"
    "announced (integrate_correction_supersedes r) w'"
proof -
  let ?q = "integrate_correction_supersedes r"
  define v where "v = emit_new (PlanRevised (plan_revised_payload ?q d (Some p) (or_else (revision_trigger_event_id ?q)
    (or_else (drift_annotation_id d) (drift_id d))) True)) w"
  let ?u = "emit_plan_revision_transitions (Some p) ?q v"
  have w': "w' = (if a \<noteq> [] then emit_plan_revised_correlation ?q d a ?u else ?u)"
    using assms by (auto simp: emit_plan_revised_def Let_def v_def split: if_splits)
  have tail: "extends ?u w' []" unfolding w' emit_plan_revised_correlation_def by (auto intro!: evolve_intros)
  have v: "extends w v []" unfolding v_def by (auto intro!: evolve_intros)
  have u: "extends v ?u (revision_changes p ?q)" using extends_revision_transitions [OF extends_refl, of v p ?q] by simp
  show "telemetry_only w w'" unfolding w' v_def emit_plan_revised_correlation_def by (auto intro!: telemetry_intros)
  show "extends w w' (revision_changes p ?q)" using extends_trans [OF extends_trans [OF v u] tail] by simp
  have "announced ?q v"
    by (auto simp: announced_def v_def emit_new_def next_sequence_def Let_def plan_revised_payload_def)
  then show "announced ?q w'" using announced_extends u tail by blast
qed

lemma install_held_back:
  assumes "session_plan (sess w) = Some p" "accepted w r" "\<not> gate_open w d"
  shows "\<exists>w'. install_with_drift d r False w = Inr (True, w') \<and> observed (sess w) (sess w') \<and>
    extends w w' (revision_changes p (landed w (candidate w r) d)) \<and> announced (landed w (candidate w r) d) w'"
proof -
  let ?c = "candidate w r"
  define v where "v = emit_drift_detected d [] [] w"
  define u where "u = emit_refine_attempted d (fst (new_uuid v)) (snd (new_uuid v))"
  let ?x = "cancel_inflight_for_revision d u"
  have f: "cfg v = cfg w" "session_plan (sess v) = session_plan (sess w)" unfolding v_def by (simp_all add: drift_detected_frame)
  have g: "cfg u = cfg v" "session_plan (sess u) = session_plan (sess v)" unfolding u_def by (simp_all add: emit_refine_attempted_def)
  have s: "stamped u ?c d = stamped w ?c d" using stamped_cong [OF g] stamped_cong [OF f] by simp
  obtain w' where w': "emit_plan_revised (fst (stamped w ?c d)) d (Some p) (fst (new_uuid v)) True ?x = Inr w'"
    using emit_plan_revised_ok by blast
  have tu: "telemetry_only w u" unfolding u_def v_def emit_refine_attempted_def new_uuid_def by (auto intro!: telemetry_intros)
  have eu: "extends w u []" unfolding u_def v_def emit_refine_attempted_def new_uuid_def by (auto intro!: evolve_intros)
  have "install_with_drift d r False w = Inr (True, w')"
    using assms w' f s stamped_gate [of w ?c d]
    by (simp add: install_with_drift_def Let_def accepted_def land_revision_def split_beta candidate_def flip: v_def u_def)
  moreover have "observed (sess w) (sess w')"
    using observed_trans [OF observed_trans [OF telemetry_observed [OF tu] cancel_inflight_observed]
        telemetry_observed [OF emit_dry_run(1) [OF w']]] .
  moreover have "extends w w' (revision_changes p (landed w ?c d))"
    using extends_trans [OF extends_cancel_inflight [OF eu] emit_dry_run(2) [OF w']] by (simp add: landed_def)
  ultimately show ?thesis using emit_dry_run(3) [OF w'] by (auto simp: landed_def)
qed

lemma install_rejected:
  assumes "\<not> accepted w r"
  shows "\<exists>w'. install_with_drift d r False w = Inr (False, w') \<and> telemetry_only w w'"
proof -
  let ?w = "emit_drift_detected d [] [] w"
  have f: "session_plan (sess ?w) = session_plan (sess w)" by (simp add: drift_detected_frame)
  have t: "telemetry_only w ?w" by (intro telemetry_intros)
  moreover have "telemetry_only w (schema_violation e ?w)" for e
    unfolding schema_violation_def Let_def split_beta using t by (auto simp: new_drift_def intro!: telemetry_intros)
  ultimately show ?thesis
    using assms by (auto simp: install_with_drift_def Let_def accepted_def candidate_def f split: option.split)
qed

lemma observedD:
  assumes "observed s s'"
  shows "session_plan s' = session_plan s" "current_task_id s' = current_task_id s" "last_addressed s' = last_addressed s"
    "refine_outcomes s' = refine_outcomes s" "k \<notin> telemetry_keys \<Longrightarrow> state s' k = state s k"
  using assms by (auto simp: observed_def)


definition watching_world :: world where
  "watching_world = done_world\<lparr>cfg := (cfg done_world)\<lparr>is_active_steering := False\<rparr>\<rparr>"

lemma watching_simps [simp]:
  "session_plan (sess watching_world) = Some done_plan" "\<not> is_active_steering (cfg watching_world)"
  "has_sinks (cfg watching_world)" "log watching_world = []" "\<not> plan_mode_ledger (cfg watching_world)"
  by (simp_all add: watching_world_def done_world_def sample_world_def sample_config_def)


text \<open>
  A held-back revision reports status changes that never happen. When a valid revision is
  held back by the observation-only gate, the log still gets a TaskTransitioned event for every task whose
  status differs between the current plan and the revision, although the session's plan, and with it every
  task's status, stays as it is.
\<close>

theorem held_back_revision_reports_transitions:
  fixes r p :: plan and w :: world
  assumes "session_plan (sess w) = Some p" "\<not> is_active_steering (cfg w)" "has_sinks (cfg w)"
    "drift_kind d \<notin> {USER_STEER, NEW_WORK_DISCOVERED}" "authored_by d = ''goldfive''"
  defines "c \<equiv> fold_runtime_terminal_statuses r (Some p)"
  assumes "validate c True (Some p) = None" "\<not> plans_structurally_identical (Some p) c"
  shows "\<exists>w' es. install_revision_for_drift d r w = Inr (True, w') \<and> session_plan (sess w') = Some p \<and>
    log w' = log w @ es \<and> transitions es = revision_changes p (fst (apply_revision (plan_mode_ledger (cfg w)) False (Some p) c d))"
proof -
  have c: "candidate w r = c" using assms(1) by (simp add: candidate_def c_def)
  have "accepted w r" using assms by (simp add: accepted_def c)
  moreover have "\<not> gate_open w d" using assms by (auto simp: gate_open_def lower_def)
  ultimately obtain w' where w': "install_with_drift d r False w = Inr (True, w')" "observed (sess w) (sess w')"
    "extends w w' (revision_changes p (landed w c d))"
    using install_held_back [OF assms(1), of r d] by (auto simp: c)
  have "revision_changes p (landed w c d) = revision_changes p (fst (apply_revision (plan_mode_ledger (cfg w)) False (Some p) c d))"
    using assms(1,2) by (simp add: revision_changes_def landed_def stamped_def)
  moreover have "install_revision_for_drift d r w = Inr (True, w')" using w'(1) assms by (simp add: install_revision_for_drift_def)
  ultimately show ?thesis using w' observedD(1) [OF w'(2)] assms(1,3) by (auto simp: extends_def)
qed

text \<open>The revision marks \<open>b\<close> as completed.\<close>

definition retiring_plan :: plan where
  "retiring_plan = done_plan\<lparr>tasks := [(mk_task ''a'' ''A'')\<lparr>status := COMPLETED\<rparr>, (mk_task ''b'' ''B'')\<lparr>status := COMPLETED\<rparr>]\<rparr>"

lemma retiring_fold: "fold_runtime_terminal_statuses retiring_plan (Some done_plan) = retiring_plan"
  by (simp add: fold_runtime_terminal_statuses_def prior_terminal_tasks_def retiring_plan_def mk_task_def dict_of_def fold_task_def)

lemma retiring_valid: "validate retiring_plan True (Some done_plan) = None"
proof -
  have e: "edge_rel retiring_plan = {(''a'', ''b'')}" "edge_rel done_plan = {(''a'', ''b'')}"
    by (simp_all add: edge_rel_def retiring_plan_def done_plan_def mk_edge_def edge_pair_def)
  have "preserves retiring_plan done_plan" unfolding preserves_def e
    by (simp add: retiring_plan_def plan_find_def mk_task_def)
  moreover have "supersede_ok retiring_plan done_plan x" if "x \<in> set (tasks retiring_plan)" for x
    using that by (auto simp: retiring_plan_def supersede_ok_def mk_task_def)
  moreover have "dag_ok retiring_plan" "reachable_ok retiring_plan" unfolding dag_ok_def reachable_ok_def e
    by (auto simp: ids_ok_def retiring_plan_def mk_task_def plan_find_def acyclic_def trancl_insert)
  ultimately show ?thesis by (simp add: validate_None plan_ok_def)
qed

theorem held_back_revision_reports_transitions_witness:
  "\<exists>w' es. install_revision_for_drift ((mk_drift ''d'' OFF_TOPIC WARNING)\<lparr>authored_by := ''goldfive''\<rparr>) retiring_plan watching_world =
     Inr (True, w') \<and> session_plan (sess w') = Some done_plan \<and> log w' = es \<and> transitions es = [(''b'', PENDING, COMPLETED)]"
proof -
  let ?d = "(mk_drift ''d'' OFF_TOPIC WARNING)\<lparr>authored_by := ''goldfive''\<rparr>"
  have d: "drift_kind ?d \<notin> {USER_STEER, NEW_WORK_DISCOVERED}" "authored_by ?d = ''goldfive''" by (simp_all add: mk_drift_def)
  have n: "\<not> plans_structurally_identical (Some done_plan) retiring_plan"
    by (simp add: plans_structurally_identical_def retiring_plan_def mk_task_def)
  have "tasks (fst (apply_revision l a (Some done_plan) retiring_plan ?d)) =
      tasks (preserve_ledger_identity l retiring_plan (Some done_plan))" for l a
    by (simp add: apply_revision_def Let_def bump_revision_def retiring_fold)
  then have c: "revision_changes done_plan (fst (apply_revision False False (Some done_plan) retiring_plan ?d)) = [(''b'', PENDING, COMPLETED)]"
    by (simp add: revision_changes_def preserve_ledger_identity_def tasks_by_id_def dict_of_def retiring_plan_def mk_task_def)
  from held_back_revision_reports_transitions [OF watching_simps(1,2,3) d, of retiring_plan] c n show ?thesis
    by (simp add: retiring_fold retiring_valid)
qed

end
