(* ===== verification/Plan_Reconciler.thy ===== *)
theory Plan_Reconciler
  imports Install_Safety
begin

text \<open>
  \<open>src/goldfive/reconciler.py\<close>: how observed agent turns are mapped to plan tasks. The reconciler's own
  dictionaries are a record; the map from invocation ids to agent names, which other components read
  through the plugin, is in the world. A status change goes through \<open>Steerer.transition\<close>, whose exceptions are swallowed.
\<close>

record reconciler =
  host_agent_name :: string
  observed_task_ids :: "string set"
  running_by_agent :: "string \<rightharpoonup> string"
  off_plan_seen :: "string set"
  invocation_parent :: "(string, string) dict"
  observed_agents :: "string list"
  divergence_events :: "string list"

definition new_reconciler :: "string \<Rightarrow> reconciler" where
  "new_reconciler host = \<lparr>host_agent_name = host, observed_task_ids = {}, running_by_agent = Map.empty, off_plan_seen = {},
     invocation_parent = [], observed_agents = [], divergence_events = []\<rparr>"

section \<open>Lookups\<close>

definition plan_tasks :: "world \<Rightarrow> task list" where
  "plan_tasks w = (case session_plan (sess w) of None \<Rightarrow> [] | Some p \<Rightarrow> tasks p)"

definition agent_has_any_plan_task :: "world \<Rightarrow> string \<Rightarrow> bool" where
  "agent_has_any_plan_task w agent \<longleftrightarrow> list_ex (\<lambda>t. assignee_agent_id t = agent) (plan_tasks w)"

definition is_host_agent_turn :: "reconciler \<Rightarrow> world \<Rightarrow> string \<Rightarrow> bool" where
  "is_host_agent_turn rc w agent \<longleftrightarrow>
     host_agent_name rc \<noteq> [] \<and> agent = host_agent_name rc \<and> \<not> agent_has_any_plan_task w agent"

definition pick_pending_for_agent :: "world \<Rightarrow> string \<Rightarrow> task option" where
  "pick_pending_for_agent w agent =
     find (\<lambda>t. status t = PENDING \<and> assignee_agent_id t \<noteq> [] \<and> assignee_agent_id t = agent) (plan_tasks w)"

definition lookup :: "(string, string) dict \<Rightarrow> string \<Rightarrow> string" where
  "lookup d k = (case map_of d k of None \<Rightarrow> [] | Some v \<Rightarrow> v)"

lemma lookup_in: "lookup d k \<noteq> [] \<Longrightarrow> lookup d k \<in> snd ` set d"
  by (force simp: lookup_def split: option.splits dest: map_of_SomeD)

text \<open>The walk up the recorded parent links; \<open>seen\<close> stops it on a cycle.\<close>

function ancestors :: "(string, string) dict \<Rightarrow> string list \<Rightarrow> string \<Rightarrow> string list" where
  "ancestors par seen cur =
     (if cur = [] \<or> cur \<in> set seen then [] else cur # ancestors par (cur # seen) (lookup par cur))"
  by pat_completeness auto
termination
proof (relation "measure (\<lambda>(par, seen, cur). card (insert [] (insert cur (snd ` set par)) - set seen))", goal_cases)
  case (2 par seen cur)
  have "insert [] (insert (lookup par cur) (snd ` set par)) = insert [] (snd ` set par)"
    using lookup_in [of par cur] by (cases "lookup par cur = []") auto
  moreover have "insert [] (snd ` set par) - set (cur # seen) \<subset> insert [] (insert cur (snd ` set par)) - set seen"
    using 2 by auto
  ultimately show ?case by (simp add: psubset_card_mono del: set_simps)
qed simp

declare ancestors.simps [simp del]

definition parent_chain :: "reconciler \<Rightarrow> world \<Rightarrow> string \<Rightarrow> string list" where
  "parent_chain rc w i =
     (if i = [] then []
      else filter (\<lambda>n. n \<noteq> []) (map (lookup (invocation_agent w)) (ancestors (invocation_parent rc) [] (lookup (invocation_parent rc) i))))"

fun first_some :: "('a \<Rightarrow> 'b option) \<Rightarrow> 'a list \<Rightarrow> 'b option" where
  "first_some f [] = None"
| "first_some f (x # xs) = (case f x of Some y \<Rightarrow> Some y | None \<Rightarrow> first_some f xs)"

definition pick_pending_via_parent_chain :: "reconciler \<Rightarrow> world \<Rightarrow> string \<Rightarrow> task option" where
  "pick_pending_via_parent_chain rc w i = first_some (pick_pending_for_agent w) (parent_chain rc w i)"

text \<open>The inner walk ends at the first visit of \<open>i\<close>; whether it gets there does not depend on what lies beyond.\<close>

definition invocation_chain_contains_plan_attached_descendant :: "reconciler \<Rightarrow> world \<Rightarrow> string \<Rightarrow> bool" where
  "invocation_chain_contains_plan_attached_descendant rc w i \<longleftrightarrow>
     i \<noteq> [] \<and>
     list_ex (\<lambda>(inv_id, parent).
       i \<in> set (ancestors (invocation_parent rc) [] parent) \<and> lookup (invocation_agent w) inv_id \<noteq> [] \<and>
       agent_has_any_plan_task w (lookup (invocation_agent w) inv_id)) (invocation_parent rc)"

definition get_missed_tasks :: "reconciler \<Rightarrow> plan option \<Rightarrow> world \<Rightarrow> task list" where
  "get_missed_tasks rc p w =
     filter (\<lambda>t. status t = PENDING \<and> task_id t \<notin> observed_task_ids rc)
       (case p of Some p \<Rightarrow> tasks p | None \<Rightarrow> plan_tasks w)"

section \<open>Observations\<close>

definition run_transition :: "string \<Rightarrow> TaskStatus \<Rightarrow> string \<Rightarrow> world \<Rightarrow> world" where
  "run_transition i s detail w = (case transition i s detail [] ''other'' w of Inl _ \<Rightarrow> w | Inr w' \<Rightarrow> w')"

definition claim :: "string \<Rightarrow> string \<Rightarrow> reconciler \<Rightarrow> reconciler" where
  "claim agent i rc = rc\<lparr>running_by_agent := (running_by_agent rc)(agent \<mapsto> i), observed_task_ids := insert i (observed_task_ids rc)\<rparr>"

definition maybe_grow_discovered_task :: "string \<Rightarrow> world \<Rightarrow> task option \<times> world" where
  "maybe_grow_discovered_task agent w =
     (if \<not> descriptive_growth (cfg w) then (None, w)
      else case install_descriptive_growth \<lparr>gc_agent = agent, gc_args = [], gc_parsed = None, gc_event_id = [],
                  gc_title = None, gc_description = None\<rparr> w of
             Inl _ \<Rightarrow> (None, w)
           | Inr (t, w') \<Rightarrow> (Some t, w'))"

definition divergence_detail :: "string \<Rightarrow> string \<Rightarrow> string" where
  "divergence_detail agent i = ''observed off-plan agent '' @ repr_str agent @ '' (invocation='' @ (if i \<noteq> [] then i else ''?'') @
     ''); no plan task assigned to this agent''"

definition note_invocation :: "string \<Rightarrow> string \<Rightarrow> string \<Rightarrow> reconciler \<Rightarrow> world \<Rightarrow> reconciler \<times> world" where
  "note_invocation agent i parent rc w =
     (if i = [] then (rc, w)
      else (if parent \<noteq> [] then rc\<lparr>invocation_parent := AList.update i parent (invocation_parent rc)\<rparr> else rc,
            w\<lparr>invocation_agent := AList.update i agent (invocation_agent w)\<rparr>))"

definition on_off_plan_agent :: "string \<Rightarrow> string \<Rightarrow> reconciler \<Rightarrow> world \<Rightarrow> py_error + reconciler \<times> world" where
  "on_off_plan_agent agent i rc w =
     (if agent \<in> off_plan_seen rc \<or> agent_has_any_plan_task w agent \<or>
         invocation_chain_contains_plan_attached_descendant rc w i \<or> list_ex (agent_has_any_plan_task w) (parent_chain rc w i)
      then Inr (rc, w)
      else case maybe_grow_discovered_task agent w of
             (Some g, w) \<Rightarrow>
               ebind (sync_pin g RUNNING (run_transition (task_id g) RUNNING
                        (''observed: '' @ agent @ '' started (discovered via descriptive growth)'') w))
                 (\<lambda>w. Inr (claim agent (task_id g) rc, w))
           | (None, w) \<Rightarrow>
               Inr (rc\<lparr>off_plan_seen := insert agent (off_plan_seen rc),
                       divergence_events := divergence_events rc @ [divergence_detail agent i]\<rparr>, w))"

definition on_before_agent :: "string \<Rightarrow> string \<Rightarrow> string \<Rightarrow> reconciler \<Rightarrow> world \<Rightarrow> py_error + reconciler \<times> world" where
  "on_before_agent agent i parent rc w =
     (if agent = [] then Inr (rc, w)
      else
        let (rc, w) = note_invocation agent i parent (rc\<lparr>observed_agents := observed_agents rc @ [agent]\<rparr>) w
        in if is_host_agent_turn rc w agent then Inr (rc, w)
           else case pick_pending_for_agent w agent of
                  Some t \<Rightarrow>
                    ebind (sync_pin t RUNNING (run_transition (task_id t) RUNNING (''observed: '' @ agent @ '' started'') w))
                      (\<lambda>w. Inr (claim agent (task_id t) rc, w))
                | None \<Rightarrow>
                    (case pick_pending_via_parent_chain rc w i of
                       Some t \<Rightarrow>
                         Inr (claim agent (task_id t) rc, run_transition (task_id t) RUNNING
                           (''observed: '' @ agent @ '' started (contextual match via ancestor '' @ repr_str (assignee_agent_id t) @ '')'') w)
                     | None \<Rightarrow> on_off_plan_agent agent i rc w))"

definition maybe_record_completed_output :: "string \<Rightarrow> string \<Rightarrow> world \<Rightarrow> world" where
  "maybe_record_completed_output i summ w =
     (if i = [] \<or> summ = [] \<or> \<not> plan_mode_ledger (cfg w) then w
      else on_sess (\<lambda>s. s\<lparr>completed_outputs := (completed_outputs s)(i \<mapsto> summ)\<rparr>) w)"

text \<open>\<open>err\<close> is the type name and the text of the exception the agent ended with, if any.\<close>

definition on_after_agent ::
  "string \<Rightarrow> string \<Rightarrow> (string \<times> string) option \<Rightarrow> string \<Rightarrow> string \<Rightarrow> reconciler \<Rightarrow> world \<Rightarrow> py_error + reconciler \<times> world" where
  "on_after_agent agent i err summ parent rc w =
     (if agent = [] then Inr (rc, w)
      else
        let rc = (if i \<noteq> [] \<and> parent \<noteq> [] \<and> map_of (invocation_parent rc) i = None
                  then rc\<lparr>invocation_parent := AList.update i parent (invocation_parent rc)\<rparr> else rc)
        in if is_host_agent_turn rc w agent then Inr (rc, w)
           else
             let tid = (case running_by_agent rc agent of None \<Rightarrow> [] | Some t \<Rightarrow> t);
                 rc = rc\<lparr>running_by_agent := (running_by_agent rc)(agent := None)\<rparr>
             in case find_task w tid of
                  None \<Rightarrow> Inr (rc, w)
                | Some t \<Rightarrow>
                    if status t \<in> TERMINAL_TASK_STATUSES then Inr (rc, w)
                    else case err of
                           Some (ty, text) \<Rightarrow>
                             ebind (sync_pin t FAILED (run_transition tid FAILED
                                      (''observed: '' @ agent @ '' raised '' @ ty @ '': '' @ text) w)) (\<lambda>w. Inr (rc, w))
                         | None \<Rightarrow>
                             ebind (sync_pin t COMPLETED (run_transition tid COMPLETED
                                      (if summ \<noteq> [] then summ else ''observed: '' @ agent @ '' completed'')
                                      (maybe_record_completed_output tid summ w))) (\<lambda>w. Inr (rc, w)))"

definition on_delegation_observed :: "string \<Rightarrow> string \<Rightarrow> string \<Rightarrow> reconciler \<Rightarrow> world \<Rightarrow> py_error + reconciler \<times> world" where
  "on_delegation_observed from_agent to_agent i rc w = Inr (rc, w)"

definition reset_for_new_plan :: "reconciler \<Rightarrow> reconciler" where
  "reset_for_new_plan rc = rc\<lparr>observed_task_ids := {}, running_by_agent := Map.empty, off_plan_seen := {}\<rparr>"

section \<open>Ancestry\<close>

definition parent_rel :: "(string, string) dict \<Rightarrow> (string \<times> string) set" where
  "parent_rel par = {(a, b). lookup par a = b \<and> b \<noteq> []}"

lemma ancestors_sound: "c \<in> set (ancestors par seen cur) \<Longrightarrow> (cur, c) \<in> (parent_rel par)\<^sup>* \<and> c \<noteq> []"
proof (induction par seen cur rule: ancestors.induct)
  case (1 par seen cur)
  note u = ancestors.simps [of par seen cur]
  show ?case
  proof (cases "c = cur")
    case False
    with 1(2) have c: "\<not> (cur = [] \<or> cur \<in> set seen)" "c \<in> set (ancestors par (cur # seen) (lookup par cur))"
      by (auto simp: u split: if_splits)
    with 1(1) have r: "(lookup par cur, c) \<in> (parent_rel par)\<^sup>*" "c \<noteq> []" by auto
    moreover have "lookup par cur \<noteq> []" using c(2) by (auto simp: ancestors.simps [of par "cur # seen"])
    ultimately show ?thesis by (auto simp: parent_rel_def intro: converse_rtrancl_into_rtrancl)
  qed (use 1(2) in \<open>auto simp: u split: if_splits\<close>)
qed

lemma ancestors_closed:
  assumes "\<forall>x\<in>set seen. lookup par x \<in> set seen \<union> {cur, []}" "x \<in> set seen \<union> set (ancestors par seen cur)" "lookup par x \<noteq> []"
  shows "lookup par x \<in> set seen \<union> set (ancestors par seen cur)"
  using assms
proof (induction par seen cur rule: ancestors.induct)
  case (1 par seen cur)
  note u = ancestors.simps [of par seen cur]
  show ?case
  proof (cases "cur = [] \<or> cur \<in> set seen")
    case True
    with 1(2-4) show ?thesis by (auto simp: u)
  next
    case False
    then have u': "ancestors par seen cur = cur # ancestors par (cur # seen) (lookup par cur)" by (simp add: u)
    have "lookup par x \<in> set (cur # seen) \<union> set (ancestors par (cur # seen) (lookup par cur))"
      by (rule 1(1) [OF False]) (use 1(2-4) in \<open>auto simp: u'\<close>)
    then show ?thesis by (simp add: u')
  qed
qed

lemma ancestors_exact:
  assumes "cur \<noteq> []"
  shows "set (ancestors par [] cur) = {c. (cur, c) \<in> (parent_rel par)\<^sup>*}"
proof
  show "set (ancestors par [] cur) \<subseteq> {c. (cur, c) \<in> (parent_rel par)\<^sup>*}" using ancestors_sound by blast
  have "c \<in> set (ancestors par [] cur)" if "(cur, c) \<in> (parent_rel par)\<^sup>*" for c
    using that
  proof (induction rule: rtrancl_induct)
    case base
    show ?case using assms by (simp add: ancestors.simps [of par "[]"])
  next
    case (step y z)
    then show ?case using ancestors_closed [of "[]" par cur y] by (auto simp: parent_rel_def)
  qed
  then show "{c. (cur, c) \<in> (parent_rel par)\<^sup>*} \<subseteq> set (ancestors par [] cur)" by blast
qed

lemma trancl_parent: "(i, c) \<in> (parent_rel par)\<^sup>+ \<longleftrightarrow> lookup par i \<noteq> [] \<and> (lookup par i, c) \<in> (parent_rel par)\<^sup>*"
proof
  assume "(i, c) \<in> (parent_rel par)\<^sup>+"
  then show "lookup par i \<noteq> [] \<and> (lookup par i, c) \<in> (parent_rel par)\<^sup>*" by (cases rule: converse_tranclE) (auto simp: parent_rel_def)
next
  assume "lookup par i \<noteq> [] \<and> (lookup par i, c) \<in> (parent_rel par)\<^sup>*"
  moreover from this have "(i, lookup par i) \<in> parent_rel par" by (simp add: parent_rel_def)
  ultimately show "(i, c) \<in> (parent_rel par)\<^sup>+" by (blast intro: rtrancl_into_trancl2)
qed

lemma ancestors_of: "set (ancestors par [] (lookup par i)) = {c. (i, c) \<in> (parent_rel par)\<^sup>+}"
  using ancestors_exact [of "lookup par i" par] by (cases "lookup par i = []") (auto simp: trancl_parent ancestors.simps [of _ _ "[]"])

text \<open>
  C34: the reconciler's view of the call tree is exact, and finding it terminates even when the recorded parent
  links go in a circle. The parent chain of an invocation names precisely the agents of the invocations
  reached from it by one or more parent links, and the test for a plan-attached descendant holds precisely when an
  invocation below it ran an agent that some plan task is assigned to.
\<close>

theorem call_tree_exact:
  assumes "i \<noteq> []" "distinct (map fst (invocation_parent rc))"
  defines "up \<equiv> {(a, b). map_of (invocation_parent rc) a = Some b \<and> b \<noteq> []}"
  shows "set (parent_chain rc w i) = {n. n \<noteq> [] \<and> (\<exists>c. (i, c) \<in> up\<^sup>+ \<and> map_of (invocation_agent w) c = Some n)} \<and>
    (invocation_chain_contains_plan_attached_descendant rc w i \<longleftrightarrow>
     (\<exists>d n. (d, i) \<in> up\<^sup>+ \<and> map_of (invocation_agent w) d = Some n \<and> n \<noteq> [] \<and> (\<exists>t\<in>set (plan_tasks w). assignee_agent_id t = n)))"
proof
  let ?par = "invocation_parent rc"
  have up: "parent_rel ?par = up" by (auto simp: parent_rel_def up_def lookup_def split: option.splits)
  have name: "lookup m c = n \<and> n \<noteq> [] \<longleftrightarrow> map_of m c = Some n \<and> n \<noteq> []" for m c n
    by (auto simp: lookup_def split: option.splits)
  show "set (parent_chain rc w i) = {n. n \<noteq> [] \<and> (\<exists>c. (i, c) \<in> up\<^sup>+ \<and> map_of (invocation_agent w) c = Some n)}"
  proof -
    have "set (parent_chain rc w i) = {n. n \<noteq> [] \<and> (\<exists>c. (i, c) \<in> up\<^sup>+ \<and> lookup (invocation_agent w) c = n)}"
      using assms(1) by (auto simp: parent_chain_def ancestors_of up)
    also have "\<dots> = {n. n \<noteq> [] \<and> (\<exists>c. (i, c) \<in> up\<^sup>+ \<and> map_of (invocation_agent w) c = Some n)}"
      using name [of "invocation_agent w"] by blast
    finally show ?thesis .
  qed
  have item: "(d, par) \<in> set ?par \<and> i \<in> set (ancestors ?par [] par) \<longleftrightarrow> map_of ?par d = Some par \<and> (d, i) \<in> up\<^sup>+" for d par
  proof -
    have "(d, par) \<in> set ?par \<longleftrightarrow> map_of ?par d = Some par" using assms(2) by (simp add: map_of_eq_Some_iff)
    moreover have "i \<in> set (ancestors ?par [] par) \<longleftrightarrow> (d, i) \<in> up\<^sup>+" if "map_of ?par d = Some par"
    proof -
      have "lookup ?par d = par" using that by (simp add: lookup_def)
      with ancestors_of [of ?par d] show ?thesis by (simp add: up)
    qed
    ultimately show ?thesis by blast
  qed
  have dom: "\<exists>par. map_of ?par d = Some par" if "(d, i) \<in> up\<^sup>+" for d
    using that by (cases rule: converse_tranclE) (auto simp: up_def)
  show "invocation_chain_contains_plan_attached_descendant rc w i \<longleftrightarrow>
     (\<exists>d n. (d, i) \<in> up\<^sup>+ \<and> map_of (invocation_agent w) d = Some n \<and> n \<noteq> [] \<and> (\<exists>t\<in>set (plan_tasks w). assignee_agent_id t = n))"
    (is "?l \<longleftrightarrow> ?r")
  proof
    assume ?l
    then obtain d par where "(d, par) \<in> set ?par" "i \<in> set (ancestors ?par [] par)" "lookup (invocation_agent w) d \<noteq> []"
      "agent_has_any_plan_task w (lookup (invocation_agent w) d)"
      by (auto simp: invocation_chain_contains_plan_attached_descendant_def list_ex_iff)
    with item [of d par] name [of "invocation_agent w" d "lookup (invocation_agent w) d"] show ?r
      by (auto simp: agent_has_any_plan_task_def list_ex_iff)
  next
    assume ?r
    then obtain d n par where "map_of ?par d = Some par" "(d, i) \<in> up\<^sup>+" "map_of (invocation_agent w) d = Some n" "n \<noteq> []"
      "\<exists>t\<in>set (plan_tasks w). assignee_agent_id t = n" using dom by blast
    with item [of d par] name [of "invocation_agent w" d n] assms(1) show ?l
      by (auto simp: invocation_chain_contains_plan_attached_descendant_def agent_has_any_plan_task_def list_ex_iff)
  qed
qed

theorem call_tree_exact_witness:
  "set (parent_chain ((new_reconciler [])\<lparr>invocation_parent := [(''i'', ''j''), (''j'', ''i'')]\<rparr>)
     (sample_world\<lparr>invocation_agent := [(''j'', ''host'')]\<rparr>) ''i'') = {''host''}"
proof -
  let ?rc = "(new_reconciler [])\<lparr>invocation_parent := [(''i'', ''j''), (''j'', ''i'')]\<rparr>"
  let ?up = "{(a, b). map_of (invocation_parent ?rc) a = Some b \<and> b \<noteq> []}"
  have "(''i'', ''j'') \<in> ?up\<^sup>+" by (rule r_into_trancl) simp
  moreover have "set (parent_chain ?rc (sample_world\<lparr>invocation_agent := [(''j'', ''host'')]\<rparr>) ''i'') =
      {n. n \<noteq> [] \<and> (\<exists>c. (''i'', c) \<in> ?up\<^sup>+ \<and> map_of [(''j'', ''host'')] c = Some n)}"
    using call_tree_exact [of "''i''" ?rc "sample_world\<lparr>invocation_agent := [(''j'', ''host'')]\<rparr>"] by simp
  ultimately show ?thesis by (auto split: if_splits)
qed

section \<open>One observed turn\<close>

lemma run_transition_plan:
  assumes "find_task w i = Some t" "status t \<notin> TERMINAL_TASK_STATUSES" "session_plan (sess w) = Some p" "plan_ids_ok w"
    and "s \<in> {RUNNING, COMPLETED, FAILED}"
  shows "\<exists>q. with_task_status p i s = Inr q \<and> session_plan (sess (run_transition i s detail w)) = Some q"
proof -
  obtain p' q where h: "head_ok w i t s p' q" using find_task_head [OF assms(1,2)] by blast
  then have q: "p' = p" "with_task_status p i s = Inr q" using assms(3) by (auto simp: head_ok_def)
  have c: "change_of w i s = [(i, status t, s)]" using assms(1,2) by (simp add: change_of_def)
  have "\<exists>w'. transition i s detail [] ''other'' w = Inr w' \<and> evolves w w' [(i, status t, s)]"
    using assms(5) mark_task_running_evolves [of i detail "''other''" w] mark_task_completed_evolves [of i detail "[]" "''other''" w]
      mark_task_failed_evolves [OF assms(1) _ assms(4), of p q detail True "''other''" True] h q(1) c by (auto simp: cancelled_changes_def)
  then obtain w' where "run_transition i s detail w = w'" "evolves w w' [(i, status t, s)]" by (auto simp: run_transition_def)
  then show ?thesis using q assms(1-3) by (auto simp: evolves_def find_task_def)
qed

text \<open>A claim, and the end of a claimed turn, on the plan and on the reconciler's books.\<close>

lemma pick_SomeD:
  assumes "pick_pending_for_agent w a = Some t" "session_plan (sess w) = Some p"
  shows "t \<in> set (tasks p)" "status t = PENDING" "assignee_agent_id t = a" "agent_has_any_plan_task w a"
  using find_SomeD [OF assms(1) [unfolded pick_pending_for_agent_def]] assms(2)
  by (auto simp: plan_tasks_def agent_has_any_plan_task_def list_ex_iff)

lemma synced_pin: "pin_current_task (synced st t RUNNING) = task_id t"
  by (simp add: synced_def pin_current_task_def read_key_def)

lemma synced_not_pinned: "s \<in> TERMINAL_TASK_STATUSES \<Longrightarrow> task_id t \<noteq> [] \<Longrightarrow> pin_current_task (synced st t s) \<noteq> task_id t"
  by (auto simp: synced_def pin_current_task_def read_key_def split: option.splits json.splits)

lemma before_direct:
  assumes "a \<noteq> []" "session_plan (sess w) = Some p" "ids_ok p" "pick_pending_for_agent w a = Some t"
  shows "\<exists>rc' w' q. on_before_agent a i par rc w = Inr (rc', w') \<and> with_task_status p (task_id t) RUNNING = Inr q \<and>
    session_plan (sess w') = Some q \<and> pin_current_task (state (sess w')) = task_id t \<and>
    running_by_agent rc' = (running_by_agent rc)(a \<mapsto> task_id t) \<and> observed_task_ids rc' = insert (task_id t) (observed_task_ids rc)"
proof -
  note t = pick_SomeD [OF assms(4,2)]
  define r0 where "r0 = fst (note_invocation a i par (rc\<lparr>observed_agents := observed_agents rc @ [a]\<rparr>) w)"
  define w0 where "w0 = snd (note_invocation a i par (rc\<lparr>observed_agents := observed_agents rc @ [a]\<rparr>) w)"
  have f: "sess w0 = sess w" "running_by_agent r0 = running_by_agent rc" "observed_task_ids r0 = observed_task_ids rc"
    by (simp_all add: r0_def w0_def note_invocation_def)
  then have g: "plan_tasks w0 = plan_tasks w" by (simp add: plan_tasks_def)
  have "plan_find p (task_id t) = Some t" using plan_find_member [OF assms(3) t(1)] .
  then have "find_task w0 (task_id t) = Some t" using assms(2) by (simp add: find_task_def f)
  then obtain q where q: "with_task_status p (task_id t) RUNNING = Inr q"
    "session_plan (sess (run_transition (task_id t) RUNNING (''observed: '' @ a @ '' started'') w0)) = Some q"
    using run_transition_plan [of w0 "task_id t" t p RUNNING] assms(2,3) t(2)
    by (auto simp: f plan_ids_ok_def ids_ok_def)
  have "on_before_agent a i par rc w =
      ebind (sync_pin t RUNNING (run_transition (task_id t) RUNNING (''observed: '' @ a @ '' started'') w0))
        (\<lambda>w. Inr (claim a (task_id t) r0, w))"
    using assms(1,4) t(4)
    by (simp add: on_before_agent_def Let_def split_beta is_host_agent_turn_def agent_has_any_plan_task_def
        pick_pending_for_agent_def g r0_def [symmetric] w0_def [symmetric])
  then show ?thesis using q f by (simp add: sync_pin_ok on_sess_def claim_def synced_pin)
qed

lemma after_direct:
  fixes err :: "(string \<times> string) option"
  assumes "a \<noteq> []" "session_plan (sess w) = Some p" "ids_ok p" "agent_has_any_plan_task w a"
    and "running_by_agent rc a = Some j" "plan_find p j = Some t" "status t \<notin> TERMINAL_TASK_STATUSES"
  defines "s \<equiv> if err = None then COMPLETED else FAILED"
  shows "\<exists>rc' w' q. on_after_agent a i err summ par rc w = Inr (rc', w') \<and> with_task_status p j s = Inr q \<and>
    session_plan (sess w') = Some q \<and> pin_current_task (state (sess w')) \<noteq> j \<and>
    running_by_agent rc' = (running_by_agent rc)(a := None) \<and> observed_task_ids rc' = observed_task_ids rc"
proof -
  have j: "task_id t = j" "j \<noteq> []" using plan_find_SomeD [OF assms(6)] by auto
  define v where "v = (if err = None then maybe_record_completed_output j summ w else w)"
  have v: "session_plan (sess v) = Some p" using assms(2) by (simp add: v_def maybe_record_completed_output_def on_sess_def)
  have "s \<in> {RUNNING, COMPLETED, FAILED}" "s \<in> TERMINAL_TASK_STATUSES" by (auto simp: s_def)
  moreover have ft: "find_task u j = Some t" if "session_plan (sess u) = Some p" for u
    using that assms(6) by (simp add: find_task_def)
  ultimately have q: "\<exists>q. with_task_status p j s = Inr q \<and> session_plan (sess (run_transition j s detail v)) = Some q" for detail
    using run_transition_plan [OF ft [OF v] assms(7) v, of s detail] v assms(3) by (auto simp: plan_ids_ok_def ids_ok_def)
  define r0 where "r0 = (if i \<noteq> [] \<and> par \<noteq> [] \<and> map_of (invocation_parent rc) i = None
    then rc\<lparr>invocation_parent := AList.update i par (invocation_parent rc)\<rparr> else rc)"
  have r0: "running_by_agent r0 = running_by_agent rc" "observed_task_ids r0 = observed_task_ids rc" by (simp_all add: r0_def)
  have nh: "\<not> is_host_agent_turn r0 w a" using assms(4) by (simp add: is_host_agent_turn_def)
  have "on_after_agent a i err summ par rc w =
      (case err of
         Some (ty, text) \<Rightarrow> ebind (sync_pin t FAILED (run_transition j FAILED (''observed: '' @ a @ '' raised '' @ ty @ '': '' @ text) w))
           (\<lambda>w. Inr (r0\<lparr>running_by_agent := (running_by_agent r0)(a := None)\<rparr>, w))
       | None \<Rightarrow> ebind (sync_pin t COMPLETED (run_transition j COMPLETED (if summ \<noteq> [] then summ else ''observed: '' @ a @ '' completed'')
           (maybe_record_completed_output j summ w))) (\<lambda>w. Inr (r0\<lparr>running_by_agent := (running_by_agent r0)(a := None)\<rparr>, w)))"
    unfolding on_after_agent_def Let_def r0_def [symmetric] using assms(1,5,7) ft [OF assms(2)] nh
    by (cases err) (simp_all add: r0 split_beta)
  then obtain detail where "on_after_agent a i err summ par rc w =
      ebind (sync_pin t s (run_transition j s detail v)) (\<lambda>w. Inr (r0\<lparr>running_by_agent := (running_by_agent r0)(a := None)\<rparr>, w))"
    by (cases err) (auto simp: v_def s_def)
  with q [of detail] show ?thesis
    using synced_not_pinned [of s t] \<open>s \<in> TERMINAL_TASK_STATUSES\<close> j by (auto simp: sync_pin_ok on_sess_def r0)
qed

lemma with_task_status_ids_ok: "with_task_status p i s = Inr q \<Longrightarrow> ids_ok p \<Longrightarrow> ids_ok q"
  unfolding ids_ok_def list.set_map [symmetric] by (simp add: with_task_status_ids)

lemma assigned_kept:
  assumes "with_task_status p i s = Inr q" "session_plan (sess w) = Some q" "ids_ok p" "t \<in> set (tasks p)" "assignee_agent_id t = a"
  shows "agent_has_any_plan_task w a"
proof -
  have "plan_find p (task_id t) = Some t" by (rule plan_find_member [OF assms(3,4)])
  then obtain u where "plan_find q (task_id t) = Some u" "assignee_agent_id u = a"
    using with_task_status_find [OF assms(1), of "task_id t"] assms(5) by (cases "task_id t = i") auto
  then show ?thesis using assms(2) plan_find_SomeD by (fastforce simp: agent_has_any_plan_task_def list_ex_iff plan_tasks_def)
qed

text \<open>
  C26: an observed agent turn drives its task through the plan. When an agent with a PENDING task starts, its
  first such task goes to RUNNING and becomes the pinned current task; when the same agent then ends, the task
  is COMPLETED, or FAILED if the agent raised, is no longer pinned, and nothing is left claimed for the agent.
\<close>

theorem observed_turn_closes_task:
  assumes "a \<noteq> []" "session_plan (sess w) = Some p" "ids_ok p" "pick_pending_for_agent w a = Some t"
  shows "\<exists>rc1 w1 q1 rc2 w2 q2. on_before_agent a i par rc w = Inr (rc1, w1) \<and> session_plan (sess w1) = Some q1 \<and>
    plan_find q1 (task_id t) = Some (t\<lparr>status := RUNNING\<rparr>) \<and> pin_current_task (state (sess w1)) = task_id t \<and>
    on_after_agent a i err summ par rc1 w1 = Inr (rc2, w2) \<and> session_plan (sess w2) = Some q2 \<and>
    plan_find q2 (task_id t) = Some (t\<lparr>status := if err = None then COMPLETED else FAILED\<rparr>) \<and>
    (\<forall>j. j \<noteq> task_id t \<longrightarrow> plan_find q2 j = plan_find p j) \<and>
    pin_current_task (state (sess w2)) \<noteq> task_id t \<and> running_by_agent rc2 a = None"
proof -
  obtain rc1 w1 q1 where 1: "on_before_agent a i par rc w = Inr (rc1, w1)" "with_task_status p (task_id t) RUNNING = Inr q1"
    "session_plan (sess w1) = Some q1" "pin_current_task (state (sess w1)) = task_id t" "running_by_agent rc1 a = Some (task_id t)"
    using before_direct [OF assms] by (metis fun_upd_same)
  note t = pick_SomeD [OF assms(4,2)]
  have f: "plan_find p (task_id t) = Some t" by (rule plan_find_member [OF assms(3) t(1)])
  have f1: "plan_find q1 (task_id t) = Some (t\<lparr>status := RUNNING\<rparr>)" using with_task_status_find [OF 1(2)] f by simp
  obtain rc2 w2 q2 where 2: "on_after_agent a i err summ par rc1 w1 = Inr (rc2, w2)"
    "with_task_status q1 (task_id t) (if err = None then COMPLETED else FAILED) = Inr q2" "session_plan (sess w2) = Some q2"
    "pin_current_task (state (sess w2)) \<noteq> task_id t" "running_by_agent rc2 a = None"
    using after_direct [OF assms(1) 1(3) with_task_status_ids_ok [OF 1(2) assms(3)] assigned_kept [OF 1(2,3) assms(3) t(1,3)] 1(5) f1]
    by (fastforce simp: fun_eq_iff)
  have "plan_find q2 (task_id t) = Some (t\<lparr>status := if err = None then COMPLETED else FAILED\<rparr>)"
    using with_task_status_find [OF 2(2), of "task_id t"] f1 by simp
  moreover have "plan_find q2 j = plan_find p j" if "j \<noteq> task_id t" for j
    using with_task_status_find [OF 2(2), of j] with_task_status_find [OF 1(2), of j] that by simp
  ultimately show ?thesis using 1 2 f1 by blast
qed

text \<open>Two tasks for the agent \<open>w\<close>.\<close>

definition assigned_plan :: plan where
  "assigned_plan = (plan_empty ''p'' ''r'')\<lparr>tasks := [(mk_task ''x'' ''X'')\<lparr>assignee_agent_id := ''w''\<rparr>,
     (mk_task ''y'' ''Y'')\<lparr>assignee_agent_id := ''w''\<rparr>]\<rparr>"

definition assigned_world :: world where
  "assigned_world = sample_world\<lparr>sess := (sess sample_world)\<lparr>session_plan := Some assigned_plan\<rparr>\<rparr>"

lemma assigned_simps [simp]:
  "session_plan (sess assigned_world) = Some assigned_plan" "ids_ok assigned_plan"
  "tasks assigned_plan = [(mk_task ''x'' ''X'')\<lparr>assignee_agent_id := ''w''\<rparr>, (mk_task ''y'' ''Y'')\<lparr>assignee_agent_id := ''w''\<rparr>]"
  by (simp_all add: assigned_world_def assigned_plan_def ids_ok_def mk_task_def)

lemma assigned_pick: "pick_pending_for_agent assigned_world ''w'' = Some ((mk_task ''x'' ''X'')\<lparr>assignee_agent_id := ''w''\<rparr>)"
  by (simp add: pick_pending_for_agent_def plan_tasks_def mk_task_def)

theorem observed_turn_closes_task_witness:
  "\<exists>rc1 w1 rc2 w2 q2 u. on_before_agent ''w'' ''i'' [] (new_reconciler []) assigned_world = Inr (rc1, w1) \<and>
    on_after_agent ''w'' ''i'' None ''done'' [] rc1 w1 = Inr (rc2, w2) \<and> session_plan (sess w2) = Some q2 \<and>
    plan_find q2 ''x'' = Some u \<and> status u = COMPLETED"
  using observed_turn_closes_task [OF _ assigned_simps(1,2) assigned_pick, where i = "''i''" and par = "[]" and
      rc = "new_reconciler []" and err = None and summ = "''done''"]
  by (fastforce simp: mk_task_def)

section \<open>Overlapping turns of one agent\<close>

lemma find_filter: "find P xs = (case filter P xs of [] \<Rightarrow> None | x # _ \<Rightarrow> Some x)"
  by (induction xs) auto

definition pending_for :: "plan \<Rightarrow> string \<Rightarrow> task list" where
  "pending_for p a = filter (\<lambda>t. status t = PENDING \<and> assignee_agent_id t = a) (tasks p)"

lemma pick_pending_for:
  "session_plan (sess w) = Some p \<Longrightarrow> a \<noteq> [] \<Longrightarrow>
   pick_pending_for_agent w a = (case pending_for p a of [] \<Rightarrow> None | t # _ \<Rightarrow> Some t)"
proof -
  assume p: "session_plan (sess w) = Some p" "a \<noteq> []"
  then have "filter (\<lambda>t. status t = PENDING \<and> assignee_agent_id t \<noteq> [] \<and> assignee_agent_id t = a) (tasks p) = pending_for p a"
    unfolding pending_for_def by (intro filter_cong) auto
  with p(1) show ?thesis by (simp add: pick_pending_for_agent_def find_filter plan_tasks_def)
qed

lemma with_task_status_map:
  assumes "with_task_status p i s = Inr q" "ids_ok p"
  shows "tasks q = map (\<lambda>t. if task_id t = i then t\<lparr>status := s\<rparr> else t) (tasks p)"
proof -
  have r: "us = map (\<lambda>t. if task_id t = i then f t else t) ts" if "distinct (map task_id ts)" "replace_first i f ts = Some us" for ts us f
    using that by (induction ts arbitrary: us) (auto simp: image_iff intro!: map_idI [symmetric] split: if_splits)
  show ?thesis using assms by (auto simp: with_task_status_Inr ids_ok_def dest: r)
qed

lemma pending_after_claim:
  assumes "with_task_status p (task_id t) s = Inr q" "ids_ok p" "s \<noteq> PENDING" "pending_for p a = t # ts"
  shows "pending_for q a = ts"
proof -
  have d: "distinct (map task_id (pending_for p a))" using assms(2) by (simp add: pending_for_def ids_ok_def distinct_map_filter)
  have "pending_for q a = filter (\<lambda>u. task_id u \<noteq> task_id t) (pending_for p a)"
  proof -
    have "filter (\<lambda>u. status u = PENDING \<and> assignee_agent_id u = a) (map (\<lambda>u. if task_id u = i then u\<lparr>status := s\<rparr> else u) us) =
        filter (\<lambda>u. task_id u \<noteq> i) (filter (\<lambda>u. status u = PENDING \<and> assignee_agent_id u = a) us)" for i us
      using assms(3) by (induction us) auto
    then show ?thesis unfolding pending_for_def with_task_status_map [OF assms(1,2)] .
  qed
  also have "\<dots> = ts" using d unfolding assms(4) by (auto simp: image_iff intro!: filter_True)
  finally show ?thesis .
qed

lemma after_unclaimed:
  assumes "running_by_agent rc a = None"
  shows "\<exists>rc'. on_after_agent a i err summ par rc w = Inr (rc', w) \<and> running_by_agent rc' a = None \<and>
    observed_task_ids rc' = observed_task_ids rc"
  using assms by (cases "a = []") (simp_all add: on_after_agent_def Let_def find_task_def plan_find_def split: option.split)

text \<open>The four calls of two overlapping turns of one agent.\<close>

definition overlapping_turns :: "string \<Rightarrow> reconciler \<Rightarrow> world \<Rightarrow> py_error + reconciler \<times> world" where
  "overlapping_turns a rc w =
     ebind (on_before_agent a ''i1'' [] rc w) (\<lambda>(rc, w).
     ebind (on_before_agent a ''i2'' [] rc w) (\<lambda>(rc, w).
     ebind (on_after_agent a ''i2'' None [] [] rc w) (\<lambda>(rc, w). on_after_agent a ''i1'' None [] [] rc w)))"

text \<open>
  Overlapping turns of one agent leave a task running for ever. When an agent with two PENDING tasks starts twice
  before it ends twice, the claim of the second task overwrites the first, so that both ends are over and nothing is
  claimed any more while the first task is still RUNNING; it is not a missed task either.
\<close>

theorem overlapping_turns_leak_task:
  assumes "a \<noteq> []" "session_plan (sess w) = Some p" "ids_ok p" "pending_for p a = t1 # t2 # ts"
  shows "\<exists>rc' w' q. overlapping_turns a rc w = Inr (rc', w') \<and> session_plan (sess w') = Some q \<and>
    plan_find q (task_id t1) = Some (t1\<lparr>status := RUNNING\<rparr>) \<and> plan_find q (task_id t2) = Some (t2\<lparr>status := COMPLETED\<rparr>) \<and>
    running_by_agent rc' a = None \<and> task_id t1 \<notin> task_id ` set (get_missed_tasks rc' None w')"
proof -
  have "{t1, t2} \<subseteq> set (pending_for p a)" "distinct (map task_id (pending_for p a))"
    using assms(3) by (simp add: assms(4), simp add: pending_for_def ids_ok_def distinct_map_filter)
  then have mem: "t1 \<in> set (tasks p)" "t2 \<in> set (tasks p)" "assignee_agent_id t2 = a" "task_id t1 \<noteq> task_id t2"
    by (simp_all add: pending_for_def, simp add: assms(4) flip: pending_for_def)
  note fd = plan_find_member [OF assms(3) mem(1)] plan_find_member [OF assms(3) mem(2)]
  obtain rc1 w1 q1 where 1: "on_before_agent a ''i1'' [] rc w = Inr (rc1, w1)" "with_task_status p (task_id t1) RUNNING = Inr q1"
    "session_plan (sess w1) = Some q1" "observed_task_ids rc1 = insert (task_id t1) (observed_task_ids rc)"
    using before_direct [OF assms(1,2,3), of t1 "''i1''" "[]" rc] assms(1,2,4) by (auto simp: pick_pending_for)
  have i1: "ids_ok q1" by (rule with_task_status_ids_ok [OF 1(2) assms(3)])
  have p1: "pending_for q1 a = t2 # ts" using pending_after_claim [OF 1(2) assms(3) _ assms(4)] by simp
  obtain rc2 w2 q2 where 2: "on_before_agent a ''i2'' [] rc1 w1 = Inr (rc2, w2)" "with_task_status q1 (task_id t2) RUNNING = Inr q2"
    "session_plan (sess w2) = Some q2" "running_by_agent rc2 a = Some (task_id t2)"
    "observed_task_ids rc2 = insert (task_id t2) (observed_task_ids rc1)"
    using before_direct [OF assms(1) 1(3) i1, of t2 "''i2''" "[]" rc1] assms(1) 1(3) p1 by (auto simp: pick_pending_for)
  note s1 = with_task_status_find [OF 1(2)] and s2 = with_task_status_find [OF 2(2)]
  have f2: "plan_find q2 (task_id t2) = Some (t2\<lparr>status := RUNNING\<rparr>)" using s1 s2 fd(2) mem(4) by simp
  have m2: "t2 \<in> set (tasks q1)" using arg_cong [OF p1, of set] by (auto simp: pending_for_def)
  obtain rc3 w3 q3 where 3: "on_after_agent a ''i2'' None [] [] rc2 w2 = Inr (rc3, w3)" "with_task_status q2 (task_id t2) COMPLETED = Inr q3"
    "session_plan (sess w3) = Some q3" "running_by_agent rc3 a = None" "observed_task_ids rc3 = observed_task_ids rc2"
    using after_direct [OF assms(1) 2(3) with_task_status_ids_ok [OF 2(2) i1] assigned_kept [OF 2(2,3) i1 m2 mem(3)] 2(4) f2,
        where err = None and i = "''i2''" and summ = "[]" and par = "[]"]
    by auto
  obtain rc4 where 4: "on_after_agent a ''i1'' None [] [] rc3 w3 = Inr (rc4, w3)" "running_by_agent rc4 a = None"
    "observed_task_ids rc4 = observed_task_ids rc3" using after_unclaimed [OF 3(4)] by blast
  have "overlapping_turns a rc w = Inr (rc4, w3)" by (simp add: overlapping_turns_def 1(1) 2(1) 3(1) 4(1))
  moreover have "plan_find q3 (task_id t1) = Some (t1\<lparr>status := RUNNING\<rparr>)" "plan_find q3 (task_id t2) = Some (t2\<lparr>status := COMPLETED\<rparr>)"
    using with_task_status_find [OF 3(2)] s1 s2 fd mem(4) f2 by simp_all
  moreover have "task_id t1 \<in> observed_task_ids rc4" by (simp add: 4(3) 3(5) 2(5) 1(4))
  then have "task_id t1 \<notin> task_id ` set (get_missed_tasks rc4 None w3)" by (auto simp: get_missed_tasks_def)
  ultimately show ?thesis using 3(3) 4(2) by (intro exI [of _ rc4] exI [of _ w3] exI [of _ q3]) simp
qed

theorem overlapping_turns_leak_task_witness:
  "\<exists>rc' w' q u. overlapping_turns ''w'' (new_reconciler []) assigned_world = Inr (rc', w') \<and> session_plan (sess w') = Some q \<and>
    plan_find q ''x'' = Some u \<and> status u = RUNNING \<and> running_by_agent rc' ''w'' = None"
proof -
  have "pending_for assigned_plan ''w'' = [(mk_task ''x'' ''X'')\<lparr>assignee_agent_id := ''w''\<rparr>, (mk_task ''y'' ''Y'')\<lparr>assignee_agent_id := ''w''\<rparr>]"
    by (simp add: pending_for_def mk_task_def)
  from overlapping_turns_leak_task [OF _ assigned_simps(1,2) this, of "new_reconciler []"] show ?thesis by (fastforce simp: mk_task_def)
qed

section \<open>Sequences of observations\<close>

datatype observation =
    BeforeAgent string string string
  | AfterAgent string string "(string \<times> string) option" string string
  | DelegationObserved string string string
  | NewPlan

fun observe :: "observation \<Rightarrow> reconciler \<times> world \<Rightarrow> py_error + reconciler \<times> world" where
  "observe (BeforeAgent a i par) (rc, w) = on_before_agent a i par rc w"
| "observe (AfterAgent a i err summ par) (rc, w) = on_after_agent a i err summ par rc w"
| "observe (DelegationObserved f t i) (rc, w) = on_delegation_observed f t i rc w"
| "observe NewPlan (rc, w) = Inr (reset_for_new_plan rc, w)"

definition observe_step :: "observation \<Rightarrow> reconciler \<times> world \<Rightarrow> reconciler \<times> world" where
  "observe_step e s = (case observe e s of Inl _ \<Rightarrow> s | Inr s' \<Rightarrow> s')"

lemma history_run_transition: "plan_held w \<Longrightarrow> history_step w (run_transition i s detail w)"
  using history_task_call [of w "Transition i s detail [] ''other''"] by (simp add: run_transition_def)

lemma history_state: "history_step w v \<Longrightarrow> history_step w (on_sess (\<lambda>s. s\<lparr>state := st\<rparr>) v)"
  by (simp add: on_sess_def history_step_def plan_held_def)

lemma history_grow: "plan_held w \<Longrightarrow> history_step w (snd (maybe_grow_discovered_task a w))"
  using history_growth [of w "\<lparr>gc_agent = a, gc_args = [], gc_parsed = None, gc_event_id = [], gc_title = None, gc_description = None\<rparr>"]
  by (auto simp: maybe_grow_discovered_task_def history_same split: sum.splits)

lemma history_off_plan:
  assumes "plan_held w"
  shows "\<exists>rc' w'. on_off_plan_agent a i rc w = Inr (rc', w') \<and> history_step w w'"
proof -
  obtain g v where g: "maybe_grow_discovered_task a w = (g, v)" by (cases "maybe_grow_discovered_task a w")
  then have v: "history_step w v" using history_grow [OF assms, of a] by simp
  then have "plan_held v" by (simp add: history_step_def)
  then have "history_step w (run_transition j s detail v)" for j s detail using history_trans [OF v history_run_transition] by blast
  then show ?thesis using v g history_same [OF assms]
    by (cases g) (auto simp: on_off_plan_agent_def sync_pin_ok intro!: history_state)
qed

lemma history_before:
  assumes "plan_held w"
  shows "\<exists>rc' w'. on_before_agent a i par rc w = Inr (rc', w') \<and> history_step w w'"
proof -
  define r0 where "r0 = fst (note_invocation a i par (rc\<lparr>observed_agents := observed_agents rc @ [a]\<rparr>) w)"
  define w0 where "w0 = snd (note_invocation a i par (rc\<lparr>observed_agents := observed_agents rc @ [a]\<rparr>) w)"
  have s: "sess w0 = sess w" by (simp add: w0_def note_invocation_def)
  have h: "history_step w v" if "history_step w0 v" for v using that s by (rule history_shift [rotated])
  have w0: "plan_held w0" using held_shift [OF s assms] .
  note r = h [OF history_run_transition [OF w0]]
  have "\<exists>rc' w'. on_off_plan_agent a i r0 w0 = Inr (rc', w') \<and> history_step w w'" using history_off_plan [OF w0] h by blast
  then show ?thesis
    unfolding on_before_agent_def Let_def split_beta r0_def [symmetric] w0_def [symmetric]
    using history_same [OF assms] s r by (auto simp: sync_pin_ok intro!: history_state split: option.split)
qed

lemma history_after:
  assumes "plan_held w"
  shows "\<exists>rc' w'. on_after_agent a i err summ par rc w = Inr (rc', w') \<and> history_step w w'"
proof -
  note r = history_run_transition [OF assms]
  have "history_step w (run_transition j s detail (maybe_record_completed_output k sm w))" for j s detail k sm
  proof -
    have "session_plan (sess (maybe_record_completed_output k sm w)) = session_plan (sess w)"
      by (simp add: maybe_record_completed_output_def on_sess_def)
    then have "history_step w (maybe_record_completed_output k sm w)" using history_same [OF assms] by blast
    then show ?thesis by (meson history_run_transition history_step_def history_trans)
  qed
  then show ?thesis
    using history_same [OF assms] r
    by (auto simp: on_after_agent_def Let_def sync_pin_ok intro!: history_state split: option.split)
qed

interpretation observations: plan_history observe_step snd "\<lambda>_. True" "\<lambda>_. True"
proof
  fix e :: observation and s :: "reconciler \<times> world"
  assume w: "plan_held (snd s)"
  obtain rc w where s: "s = (rc, w)" by (cases s)
  show "history_step (snd s) (snd (observe_step e s))"
  proof (cases e)
    case (BeforeAgent a i par)
    then show ?thesis using history_before [of w a i par rc] w by (auto simp: s observe_step_def)
  next
    case (AfterAgent a i err summ par)
    then show ?thesis using history_after [of w a i err summ par rc] w by (auto simp: s observe_step_def)
  qed (use w in \<open>simp_all add: s observe_step_def on_delegation_observed_def history_same\<close>)
qed

section \<open>Growth that is refused\<close>

lemma run_transition_unknown: "find_task w i = None \<Longrightarrow> run_transition i RUNNING detail w = w"
  by (simp add: run_transition_def mark_task_running_def)

text \<open>
  Refused growth pins a task that does not exist. If some task of the plan supersedes an id that is no longer in
  the plan, as a validated revision that replaces and drops a task leaves it, then an off-plan agent does not grow
  the plan, and yet its turn claims the task that was refused and pins it as the session's current task.
\<close>

theorem refused_growth_pins_ghost:
  fixes w :: world and a :: string
  assumes a: "a \<noteq> []" "a \<noteq> host_agent_name rc" "a \<notin> off_plan_seen rc" "descriptive_growth (cfg w)"
    and p: "session_plan (sess w) = Some p" "validate p r prev = None" "a \<notin> assignee_agent_id ` set (tasks p)"
      "\<not> (\<exists>t\<in>set (tasks p). live_discovered (discovery_hash (cfg w) a []) t)"
    and x: "x \<in> set (tasks p)" "strip (supersedes x) \<noteq> []" "strip (supersedes x) \<notin> task_id ` set (tasks p)"
  defines "ghost \<equiv> ''discovered-'' @ take 12 (uuid_hex (cfg w) (ticks w))"
  assumes fresh: "ghost \<notin> task_id ` set (tasks p)" "ghost \<notin> (strip \<circ> supersedes) ` set (tasks p)"
  shows "\<exists>rc' w'. on_before_agent a [] [] rc w = Inr (rc', w') \<and> session_plan (sess w') = Some p \<and>
    running_by_agent rc' a = Some ghost \<and> pin_current_task (state (sess w')) = ghost"
proof -
  let ?c = "\<lparr>gc_agent = a, gc_args = [], gc_parsed = None, gc_event_id = [], gc_title = None, gc_description = None\<rparr>"
  define g where "g = fst (growth_request_of ?c w)"
  define v where "v = snd (growth_request_of ?c w)"
  let ?t = "growth_task (plan_mode_ledger (cfg w)) g"
  have g: "grow_task_id g = ghost" "grow_hash g = discovery_hash (cfg w) a []"
    by (simp_all add: g_def growth_request_of_def new_uuid_def Let_def tick_def ghost_def)
  have v: "sess v = sess w" "cfg v = cfg w" unfolding v_def by (rule growth_request_frame)+
  have "grow_under_lock (plan_mode_ledger (cfg w)) (strict_ownership (cfg w)) g (sess w) = Inr (?t, sess w)"
  proof (rule dangling_blocks [OF p(1,2) _ _ _ _ x], unfold g)
    show "ghost \<noteq> []" by (simp add: ghost_def)
  qed (use fresh p(4) in \<open>auto simp: image_iff\<close>)
  then have grow: "maybe_grow_discovered_task a w = (Some ?t, v)"
    using a(4) p(1) by (simp add: maybe_grow_discovered_task_def install_descriptive_growth_def split_beta Let_def v flip: g_def v_def)
  have t: "find_task v ghost = None" using p(1) fresh(1) by (simp add: find_task_def v plan_find_None ghost_def)
  have none: "\<not> agent_has_any_plan_task w a" "pick_pending_for_agent w a = None"
    using p(1,3) by (auto simp: agent_has_any_plan_task_def pick_pending_for_agent_def list_ex_iff plan_tasks_def find_None_iff)
  have "on_before_agent a [] [] rc w = on_off_plan_agent a [] (rc\<lparr>observed_agents := observed_agents rc @ [a]\<rparr>) w"
    using a(1,2) none by (simp add: on_before_agent_def note_invocation_def is_host_agent_turn_def
        pick_pending_via_parent_chain_def parent_chain_def)
  also have "\<dots> = Inr (claim a ghost (rc\<lparr>observed_agents := observed_agents rc @ [a]\<rparr>),
      on_sess (\<lambda>s. s\<lparr>state := synced (state (sess v)) ?t RUNNING\<rparr>) v)"
    using a(3) none(1) by (simp add: on_off_plan_agent_def invocation_chain_contains_plan_attached_descendant_def parent_chain_def grow
        g(1) run_transition_unknown [OF t] sync_pin_ok)
  finally show ?thesis using p(1) by (simp add: claim_def on_sess_def v synced_pin g(1))
qed

definition dangling_world :: world where
  "dangling_world = sample_world\<lparr>sess := (sess sample_world)\<lparr>session_plan := Some replaced_plan\<rparr>\<rparr>"

theorem refused_growth_pins_ghost_witness:
  "\<exists>rc' w' i. on_before_agent ''w'' [] [] (new_reconciler ''host'') dangling_world = Inr (rc', w') \<and>
     session_plan (sess w') = Some replaced_plan \<and> pin_current_task (state (sess w')) = i \<and> i \<notin> task_id ` set (tasks replaced_plan)"
proof -
  let ?x = "(mk_task ''b'' ''B'')\<lparr>supersedes := ''a'', supersedes_kind := REPLACE\<rparr>"
  have w: "session_plan (sess dangling_world) = Some replaced_plan" "descriptive_growth (cfg dangling_world)"
    by (simp_all add: dangling_world_def sample_world_def sample_config_def)
  have "\<exists>rc' w'. on_before_agent ''w'' [] [] (new_reconciler ''host'') dangling_world = Inr (rc', w') \<and>
      session_plan (sess w') = Some replaced_plan \<and>
      running_by_agent rc' ''w'' = Some (''discovered-'' @ take 12 (uuid_hex (cfg dangling_world) (ticks dangling_world))) \<and>
      pin_current_task (state (sess w')) = ''discovered-'' @ take 12 (uuid_hex (cfg dangling_world) (ticks dangling_world))"
    by (rule refused_growth_pins_ghost [OF _ _ _ w(2,1) replaced_valid, of _ _ ?x])
       (simp_all add: new_reconciler_def replaced_plan_def plan_empty_def mk_task_def live_discovered_def)
  then show ?thesis by (fastforce simp: replaced_plan_def mk_task_def)
qed

end
