(* ===== verification/Note_Composer.thy ===== *)
theory Note_Composer
  imports Observer_Notes
begin

text \<open>
  \<open>src/goldfive/observer_notes.py\<close>: the text of an advisory note, from the drift that caused it and the
  bookkeeping of the session. The tool-loop facts are the tracker's dictionary, so that the conversions
  \<open>int(...)\<close> and the iteration of \<open>tools\<close> may raise as they do in the source.
\<close>

section \<open>Fixed texts\<close>

definition ADVISORY_FOOTER :: string where
  "ADVISORY_FOOTER =
     ''This note is advisory. How to proceed is your decision; the user's instructions remain authoritative.''"

definition GOAL_QUESTION :: string where
  "GOAL_QUESTION = ''Does the current approach still serve the user's goal?''"

definition NO_GOALS :: string where
  "NO_GOALS = ''(no goals recorded for this run)''"

definition JUDGE_OPINION_KINDS :: "DriftKind set" where
  "JUDGE_OPINION_KINDS = {OFF_TOPIC, GOAL_DRIFT, INTENT_DIVERGENCE, JUSTIFIED_DEVIATION, UNCERTAIN_PROGRESS}"

text \<open>The templates with the task filled in; the last line is the generic one.\<close>

definition FALLBACK_OBSERVATIONS :: "DriftKind \<Rightarrow> string \<Rightarrow> string" where
  "FALLBACK_OBSERVATIONS k task =
     (case k of
        LOOPING_REASONING \<Rightarrow> ''Repeated, near-identical activity was observed on '' @ task @ '' without recorded progress.''
      | LOOPING_TOOL_CALL \<Rightarrow> ''The same tool invocation was observed several times on '' @ task @ '' without recorded progress.''
      | PLAN_DIVERGENCE \<Rightarrow> ''goldfive's plan tracking did not match the activity observed on '' @ task @ ''.''
      | AGENT_REFUSAL \<Rightarrow> ''The most recent response on '' @ task @ '' declined to continue.''
      | MODEL_REFUSAL \<Rightarrow> ''The model declined to produce a response on '' @ task @ ''.''
      | INTENT_DIVERGENCE \<Rightarrow> ''Recent reasoning on '' @ task @ '' moved away from the stated goals.''
      | TOOL_ERROR \<Rightarrow> ''A tool invocation on '' @ task @ '' returned an error result.''
      | RUNAWAY_DELEGATION \<Rightarrow> ''A large number of delegations was observed while '' @ task @ '' remained open.''
      | SELF_REPORTED_STUCK \<Rightarrow> ''In a recent self-check, the agent's own assessment reported no progress on '' @ task @ ''.''
      | CONFABULATION_RISK \<Rightarrow>
          ''Output on '' @ task @ '' referenced external data, but no tool invocation was recorded for it.''
      | GOAL_DRIFT \<Rightarrow> ''Recent activity did not appear to advance the user's goal while '' @ task @ '' was active.''
      | OFF_TOPIC \<Rightarrow> ''Recent reasoning on '' @ task @ '' appeared unrelated to the bound task and goals.''
      | JUSTIFIED_DEVIATION \<Rightarrow>
          ''Recent reasoning on '' @ task @ '' departed from the recorded task in response to new information.''
      | _ \<Rightarrow> ''goldfive's monitoring raised a signal while '' @ task @ '' was active.'')"

section \<open>The composers\<close>

definition render_goals_text :: "Goal list \<Rightarrow> string" where
  "render_goals_text gs =
     (let summaries = filter (\<lambda>s. s \<noteq> []) (map (\<lambda>g. strip (goal_summary g)) gs)
      in if summaries = [] then NO_GOALS else join ''; '' summaries)"

definition asks :: "string \<Rightarrow> bool" where
  "asks obs = (case rev obs of [] \<Rightarrow> False | c # _ \<Rightarrow> c = CHR ''?'')"

definition compose_observer_note :: "string \<Rightarrow> string \<Rightarrow> string \<Rightarrow> bool \<Rightarrow> string" where
  "compose_observer_note obs goals_text status_line question_form =
     (let obs = strip obs;
          obs = (if obs = [] then ''goldfive's monitoring raised a signal.'' else obs);
          obs = (if question_form \<and> \<not> asks obs then obs @ '' '' @ GOAL_QUESTION else obs);
          goal = strip goals_text;
          st = strip status_line
      in join NL ([''Observation: '' @ obs, ''The user's goal: '' @ (if goal = [] then NO_GOALS else goal)]
           @ (if st \<noteq> [] then [''Status: '' @ st] else []) @ [ADVISORY_FOOTER]))"

definition readable_task :: "string \<Rightarrow> string" where
  "readable_task tid = (if tid = [] then ''the current task'' else tid)"

text \<open>\<open>int(raw.get(key, 0) or 0)\<close> and \<open>[str(t) for t in (raw.get("tools") or []) if t]\<close>.\<close>

definition fact_int :: "(string \<times> json) list \<Rightarrow> string \<Rightarrow> py_error + int" where
  "fact_int raw k = (let v = jget raw k (JInt 0) in if truthy v then py_int v else Inr 0)"

definition fact_list :: "(string \<times> json) list \<Rightarrow> string \<Rightarrow> py_error + string list" where
  "fact_list raw k =
     (let v = jget raw k JNull in
      if \<not> truthy v then Inr []
      else case v of
             JList xs \<Rightarrow> Inr (map py_str (filter truthy xs))
           | JStr s \<Rightarrow> Inr (map (\<lambda>c. [c]) s)
           | JDict d \<Rightarrow> Inr (filter (\<lambda>k. k \<noteq> []) (map fst d))
           | _ \<Rightarrow> Inl (TypeError ''object is not iterable''))"

definition BACKTICK :: string where "BACKTICK = [CHR 0x60]"

definition quoted :: "string \<Rightarrow> string" where "quoted t = BACKTICK @ t @ BACKTICK"

definition tool_loop_observation :: "drift_event \<Rightarrow> py_error + string" where
  "tool_loop_observation d =
     (case drift_raw d of
        Some (RawFacts raw) \<Rightarrow>
          (let mode = str_or_empty (jget raw ''mode'' (JStr []));
               tool = str_or_empty (jget raw ''tool_name'' (JStr [])) in
           ebind (fact_int raw ''window_len'') (\<lambda>window.
           if mode = ''exact'' then
             ebind (fact_int raw ''count'') (\<lambda>count.
             let fingerprint = str_or_empty (jget raw ''args_hash'' (JStr []))
             in Inr (if tool = [] \<or> count \<le> 0 then []
                     else quoted tool @ '' was invoked '' @ show_int count @ '' times in the last '' @ show_int window @
                       '' tool invocations with identical arguments'' @
                       (if fingerprint \<noteq> [] then '' (args fingerprint '' @ fingerprint @ '')'' else []) @
                       ''; no task progress was recorded in that window.''))
           else if mode = ''name'' then
             ebind (fact_int raw ''count'') (\<lambda>count.
             Inr (if tool = [] \<or> count \<le> 0 then []
                  else quoted tool @ '' was invoked '' @ show_int count @ '' times in the last '' @ show_int window @
                    '' tool invocations with varying arguments; no task progress was recorded in that window.''))
           else if mode = ''alternating'' then
             ebind (fact_list raw ''tools'') (\<lambda>tools.
             Inr (case tools of
                    [a, b] \<Rightarrow> quoted a @ '' and '' @ quoted b @ '' alternated across the last '' @ show_int window @
                      '' tool invocations without recorded task progress.''
                  | _ \<Rightarrow> []))
           else Inr []))
      | _ \<Rightarrow> Inr [])"

definition observation_for_drift :: "drift_event \<Rightarrow> py_error + string \<times> bool" where
  "observation_for_drift d =
     (let note = strip (note_to_agent d) in
      if note \<noteq> [] then Inr (note, False)
      else
        (let question = (drift_kind d \<in> JUDGE_OPINION_KINDS \<and> drift_severity d \<noteq> CRITICAL) in
         ebind (if drift_kind d \<in> {LOOPING_REASONING, LOOPING_TOOL_CALL} then tool_loop_observation d else Inr []) (\<lambda>rendered.
         if rendered \<noteq> [] then Inr (rendered, False)
         else
           let detail = strip (drift_detail d)
           in Inr (if detail \<noteq> [] then detail else FALLBACK_OBSERVATIONS (drift_kind d) (readable_task (drift_task d)),
                   question))))"

definition compose_status_line :: "plan option \<Rightarrow> string \<Rightarrow> string" where
  "compose_status_line p tid =
     (let found_task = (if tid = [] then None else case p of None \<Rightarrow> None | Some p \<Rightarrow> find (\<lambda>t. task_id t = tid) (tasks p));
          about = (if tid = [] then []
                   else case found_task of
                          Some t \<Rightarrow> [''goldfive's tracking records task '' @ tid @ '' as '' @ lower (status_value (status t)) @
                                     (if status t \<in> TERMINAL_TASK_STATUSES then [] else '' (still open)'')]
                        | None \<Rightarrow> [''goldfive's tracking associates this note with task '' @ tid]);
          tally = (case p of
                     None \<Rightarrow> []
                   | Some p \<Rightarrow>
                       [''its ledger shows '' @ show_nat (length (filter (\<lambda>t. status t = COMPLETED) (tasks p))) @
                        '' task(s) recorded complete and '' @
                        show_nat (length (filter (\<lambda>t. status t \<notin> TERMINAL_TASK_STATUSES) (tasks p))) @ '' still open''])
      in if about @ tally = [] then [] else join ''; '' (about @ tally) @ ''.'')"

definition compose_note_for_drift :: "drift_event \<Rightarrow> session \<Rightarrow> py_error + string" where
  "compose_note_for_drift d s =
     ebind (observation_for_drift d) (\<lambda>(obs, question).
     Inr (compose_observer_note obs (render_goals_text (goals s)) (compose_status_line (session_plan s) (drift_task d)) question))"

section \<open>When composing cannot raise\<close>

definition facts_ok :: "drift_event \<Rightarrow> bool" where
  "facts_ok d \<longleftrightarrow>
     (case drift_raw d of
        Some (RawFacts raw) \<Rightarrow>
          (\<exists>n. jget raw ''window_len'' (JInt 0) = JInt n) \<and> (\<exists>n. jget raw ''count'' (JInt 0) = JInt n) \<and>
          (\<exists>xs. jget raw ''tools'' (JList []) = JList xs)
      | _ \<Rightarrow> True)"

lemma facts_okD:
  assumes "facts_ok d" "drift_raw d = Some (RawFacts raw)"
  shows "\<exists>n. fact_int raw ''window_len'' = Inr n" "\<exists>n. fact_int raw ''count'' = Inr n" "\<exists>ts. fact_list raw ''tools'' = Inr ts"
  using assms by (auto simp: facts_ok_def fact_int_def fact_list_def jget_def split: option.splits)

lemma compose_total: "facts_ok d \<Longrightarrow> \<exists>text. compose_note_for_drift d s = Inr text"
proof -
  assume ok: "facts_ok d"
  have "\<exists>t. tool_loop_observation d = Inr t"
  proof (cases "drift_raw d")
    case (Some r)
    then show ?thesis
    proof (cases r)
      case (RawFacts raw)
      from facts_okD [OF ok Some [unfolded RawFacts]] obtain n c ts where
        "fact_int raw ''window_len'' = Inr n" "fact_int raw ''count'' = Inr c" "fact_list raw ''tools'' = Inr ts" by blast
      then show ?thesis by (simp add: tool_loop_observation_def Some RawFacts Let_def)
    qed (simp add: tool_loop_observation_def Some)
  qed (simp add: tool_loop_observation_def)
  then show ?thesis by (auto simp: compose_note_for_drift_def observation_for_drift_def Let_def)
qed

lemma observation_total: "facts_ok d \<Longrightarrow> \<exists>r. observation_for_drift d = Inr r"
  using compose_total [of d s] by (cases "observation_for_drift d") (auto simp: compose_note_for_drift_def)

lemma facts_ok_raw: "drift_raw d = None \<Longrightarrow> facts_ok d"
  by (simp add: facts_ok_def)

end
