(* ===== verification/Intervention_Ladder.thy ===== *)
theory Intervention_Ladder
  imports Install_Safety Note_Composer
begin

text \<open>
  The response to a drift: \<open>DriftObserver.handle_drift\<close> of \<open>src/goldfive/drift_observer.py\<close> with the
  intervention ladder, the promotion policy, the pacing of signals and the dispatchers.

  The only place where a handler waits for something outside is the call of \<open>planner.refine\<close> (or
  \<open>refine_steer\<close>). A handler is therefore two functions: \<open>handle_drift\<close> runs to its end or to that call, and
  then returns the frame of the suspended handler; \<open>resume_refine\<close> continues a frame with the planner's
  answer. Other handlers may run in between.
\<close>

section \<open>Levels and tables\<close>

datatype InterventionLevel = OBSERVE | ABSORB | SIGNAL | CANCEL_REINVOKE | PAUSE_ESCALATE | TERMINATE

fun level_rank :: "InterventionLevel \<Rightarrow> nat" where
  "level_rank OBSERVE = 0"
| "level_rank ABSORB = 1"
| "level_rank SIGNAL = 2"
| "level_rank CANCEL_REINVOKE = 3"
| "level_rank PAUSE_ESCALATE = 4"
| "level_rank TERMINATE = 5"

fun level_name :: "InterventionLevel \<Rightarrow> string" where
  "level_name OBSERVE = ''observe''"
| "level_name ABSORB = ''absorb''"
| "level_name SIGNAL = ''signal''"
| "level_name CANCEL_REINVOKE = ''cancel_reinvoke''"
| "level_name PAUSE_ESCALATE = ''pause_escalate''"
| "level_name TERMINATE = ''terminate''"

type_synonym ladder_row =
  "InterventionLevel option \<times> InterventionLevel option \<times> InterventionLevel \<times> InterventionLevel"

definition LADDER :: "DriftKind \<Rightarrow> ladder_row option" where
  "LADDER k =
     (case k of
        CONFABULATION_RISK \<Rightarrow> Some (Some OBSERVE, Some ABSORB, SIGNAL, PAUSE_ESCALATE)
      | AGENT_REFUSAL \<Rightarrow> Some (Some OBSERVE, Some ABSORB, SIGNAL, PAUSE_ESCALATE)
      | MODEL_REFUSAL \<Rightarrow> Some (Some OBSERVE, Some ABSORB, SIGNAL, PAUSE_ESCALATE)
      | LOOPING_REASONING \<Rightarrow> Some (None, Some ABSORB, SIGNAL, PAUSE_ESCALATE)
      | LOOPING_TOOL_CALL \<Rightarrow> Some (None, Some ABSORB, SIGNAL, PAUSE_ESCALATE)
      | REASONING_CLUSTER_TIGHTENING \<Rightarrow> Some (Some OBSERVE, None, OBSERVE, OBSERVE)
      | PLAN_DIVERGENCE \<Rightarrow> Some (Some OBSERVE, Some OBSERVE, OBSERVE, OBSERVE)
      | CAPABILITY_MISMATCH \<Rightarrow> Some (Some OBSERVE, Some ABSORB, OBSERVE, OBSERVE)
      | NEW_WORK_DISCOVERED \<Rightarrow> Some (Some OBSERVE, Some OBSERVE, OBSERVE, OBSERVE)
      | OFF_TOPIC \<Rightarrow> Some (Some OBSERVE, Some ABSORB, SIGNAL, PAUSE_ESCALATE)
      | JUSTIFIED_DEVIATION \<Rightarrow> Some (Some OBSERVE, Some ABSORB, ABSORB, ABSORB)
      | INTENT_DIVERGENCE \<Rightarrow> Some (Some OBSERVE, Some ABSORB, PAUSE_ESCALATE, PAUSE_ESCALATE)
      | TOOL_ERROR \<Rightarrow> Some (Some OBSERVE, Some ABSORB, SIGNAL, PAUSE_ESCALATE)
      | RUNAWAY_DELEGATION \<Rightarrow> Some (None, None, CANCEL_REINVOKE, PAUSE_ESCALATE)
      | RESOURCE_EXHAUSTED \<Rightarrow> Some (None, None, PAUSE_ESCALATE, PAUSE_ESCALATE)
      | TOO_MANY_STEPS \<Rightarrow> Some (None, None, PAUSE_ESCALATE, PAUSE_ESCALATE)
      | TASK_TIMEOUT \<Rightarrow> Some (Some OBSERVE, Some SIGNAL, PAUSE_ESCALATE, PAUSE_ESCALATE)
      | LLM_CALL_TIMEOUT \<Rightarrow> Some (None, None, PAUSE_ESCALATE, PAUSE_ESCALATE)
      | REFINE_VALIDATION_FAILED \<Rightarrow> Some (None, None, PAUSE_ESCALATE, PAUSE_ESCALATE)
      | HUMAN_INTERVENTION_REQUIRED \<Rightarrow> Some (None, None, PAUSE_ESCALATE, TERMINATE)
      | GOAL_DRIFT \<Rightarrow> Some (None, Some SIGNAL, SIGNAL, PAUSE_ESCALATE)
      | SELF_REPORTED_STUCK \<Rightarrow> Some (None, Some ABSORB, SIGNAL, PAUSE_ESCALATE)
      | _ \<Rightarrow> None)"

definition LADDER_LEGACY :: "DriftKind \<Rightarrow> ladder_row option" where
  "LADDER_LEGACY k =
     (case k of
        CONFABULATION_RISK \<Rightarrow> Some (Some OBSERVE, Some ABSORB, CANCEL_REINVOKE, PAUSE_ESCALATE)
      | AGENT_REFUSAL \<Rightarrow> Some (Some OBSERVE, Some ABSORB, CANCEL_REINVOKE, PAUSE_ESCALATE)
      | MODEL_REFUSAL \<Rightarrow> Some (Some OBSERVE, Some ABSORB, CANCEL_REINVOKE, PAUSE_ESCALATE)
      | LOOPING_TOOL_CALL \<Rightarrow> Some (None, Some ABSORB, CANCEL_REINVOKE, PAUSE_ESCALATE)
      | OFF_TOPIC \<Rightarrow> Some (Some OBSERVE, Some ABSORB, CANCEL_REINVOKE, PAUSE_ESCALATE)
      | TOOL_ERROR \<Rightarrow> Some (Some OBSERVE, Some ABSORB, CANCEL_REINVOKE, PAUSE_ESCALATE)
      | SELF_REPORTED_STUCK \<Rightarrow> Some (None, Some ABSORB, CANCEL_REINVOKE, PAUSE_ESCALATE)
      | GOAL_DRIFT \<Rightarrow> Some (None, Some SIGNAL, SIGNAL, CANCEL_REINVOKE)
      | _ \<Rightarrow> LADDER k)"

definition ladder_level_for :: "bool \<Rightarrow> DriftKind \<Rightarrow> DriftSeverity \<Rightarrow> nat \<Rightarrow> InterventionLevel" where
  "ladder_level_for legacy kind severity n =
     (let is_repeat = (REFINE_FAILURE_THRESHOLD \<le> n)
      in case (if legacy then LADDER_LEGACY kind else LADDER kind) of
           Some (info, warn, crit_first, crit_repeat) \<Rightarrow>
             (case severity of
                INFO \<Rightarrow> (case info of Some l \<Rightarrow> l | None \<Rightarrow> OBSERVE)
              | WARNING \<Rightarrow> (case warn of Some l \<Rightarrow> l | None \<Rightarrow> OBSERVE)
              | CRITICAL \<Rightarrow> if is_repeat then crit_repeat else crit_first)
         | None \<Rightarrow>
             (case severity of
                INFO \<Rightarrow> OBSERVE
              | WARNING \<Rightarrow> ABSORB
              | CRITICAL \<Rightarrow> if is_repeat then PAUSE_ESCALATE else ABSORB))"

definition ABSORB_NUDGE_KINDS :: "DriftKind set" where
  "ABSORB_NUDGE_KINDS = {LOOPING_REASONING, LOOPING_TOOL_CALL, SELF_REPORTED_STUCK, GOAL_DRIFT}"

definition GOLDFIVE_STEER_ELIGIBLE_KINDS :: "DriftKind set" where
  "GOLDFIVE_STEER_ELIGIBLE_KINDS =
     {OFF_TOPIC, INTENT_DIVERGENCE, UNEXPECTED_OUTPUT, CONFABULATION_RISK, LOOPING_REASONING, LOOPING_TOOL_CALL}"

definition LEDGER_FORCE_FAIL_DRIFT_KINDS :: "DriftKind set" where
  "LEDGER_FORCE_FAIL_DRIFT_KINDS = {LOOPING_TOOL_CALL, LOOPING_REASONING}"

section \<open>Policy and state of the observer\<close>

datatype steer_threshold = ThresholdOff | ThresholdCritical | ThresholdWarning

text \<open>
  What the steerer is configured with beyond the flags in the world. Thresholds in time are nanoseconds like
  the clock readings; the pause deadline is in whole seconds.
\<close>

record policy =
  dispatch_interventions :: bool
  legacy_ladder :: bool
  has_planner :: bool
  has_adapter :: bool
  steer_threshold :: steer_threshold
  suppression_window :: int
  grace_window :: int
  stall_threshold :: int
  pause_escalate_deadline :: "int option"

record observer =
  core :: world
  pol :: policy
  pending_nudges :: "string list"
  nudges_revision_installed :: bool
  control_channel :: "ControlChannel option"
  inflight_refine_keys :: "(string \<times> string \<times> string) set"
  next_cancel_reason :: string
  last_cancel_reason_prefix :: string
  emitted_redundant :: nat

definition on_core :: "(world \<Rightarrow> world) \<Rightarrow> observer \<Rightarrow> observer" where
  "on_core f b = b\<lparr>core := f (core b)\<rparr>"

definition DEFAULT_TERMINATE_PAUSE_DEADLINE_S :: int where "DEFAULT_TERMINATE_PAUSE_DEADLINE_S = 600"

section \<open>Decision telemetry\<close>

definition emit_ladder_transition :: "InterventionLevel \<Rightarrow> string \<Rightarrow> drift_event \<Rightarrow> world \<Rightarrow> world" where
  "emit_ladder_transition lvl reason d w =
     tick (emit_new (LadderTransitionDecided \<lparr>lt_from = [], lt_to = level_name lvl, lt_reason = reason,
       lt_kind = drift_kind d, lt_drift_id = drift_id d, lt_severity = drift_severity d\<rparr>) w)"

definition emit_policy_applied :: "string \<Rightarrow> string \<Rightarrow> string \<Rightarrow> string \<Rightarrow> world \<Rightarrow> world" where
  "emit_policy_applied policy_name oc reason detail w = tick (emit_new (PolicyApplied policy_name oc reason detail) w)"

definition emit_signal_delivered ::
  "drift_event \<Rightarrow> string \<Rightarrow> string \<Rightarrow> string \<Rightarrow> (string \<times> json) list \<Rightarrow> world \<Rightarrow> world" where
  "emit_signal_delivered d chan text lvl extra w =
     (if \<not> signal_telemetry (cfg w) then w
      else
        (let dry = (\<not> is_active_steering (cfg w));
             turn = int (reasoning_turn (sess w));
             kind = drift_kind_value (drift_kind d);
             sev = severity_value (drift_severity d);
             decision = dict_update
               [(''ladder_level'', JStr lvl), (''occurrence_count'', JInt (int (occurrence_count_for_ladder (sess w) d))),
                (''observation_only'', JBool dry), (''would_cancel_inflight'', JBool (should_request_cancel_for_drift (cfg w) d)),
                (''authored_by'', JStr (authored_by d)), (''suppressed_by_user_steer'', JBool (suppressed_by_user_steer d)),
                (''promotion'', JBool (chan = ''promotion''))] extra;
             (recorded, w) =
               (case record_delivery (state (sess w)) kind (drift_task d)
                       \<lparr>dl_drift_id = drift_id d, channel = chan, dl_turn = turn, dry_run = dry, dl_severity = sev,
                        ladder_level = lvl, note_text = text\<rparr> of
                  Inl _ \<Rightarrow> (True, w)
                | Inr ((_, r), st) \<Rightarrow> (r, on_sess (\<lambda>s. s\<lparr>state := st\<rparr>) w))
         in if \<not> recorded then w
            else tick (emit_new (SignalDelivered \<lparr>sg_drift_id = drift_id d, sg_kind = kind, sg_severity = sev,
                   sg_channel = chan, sg_turn = turn, sg_note = text, sg_dry_run = dry, sg_task = drift_task d,
                   sg_agent = drift_agent d, sg_decision = decision\<rparr>) w)))"

definition record_signal_outcome_escalated :: "drift_event \<Rightarrow> world \<Rightarrow> world" where
  "record_signal_outcome_escalated d w =
     (if \<not> signal_telemetry (cfg w) then w
      else case resolve_escalated (state (sess w)) (drift_kind_value (drift_kind d)) (drift_task d)
                  (int (reasoning_turn (sess w))) of
             Inl _ \<Rightarrow> w
           | Inr (None, st) \<Rightarrow> on_sess (\<lambda>s. s\<lparr>state := st\<rparr>) w
           | Inr (Some e, st) \<Rightarrow> emit_signal_outcome e (on_sess (\<lambda>s. s\<lparr>state := st\<rparr>) w))"

definition finalize_signal_ledger :: "world \<Rightarrow> world" where
  "finalize_signal_ledger w =
     (if \<not> signal_telemetry (cfg w) then w
      else case finalize_open (state (sess w)) (int (reasoning_turn (sess w))) of
             Inl _ \<Rightarrow> w
           | Inr (rs, st) \<Rightarrow> foldl (\<lambda>w e. emit_signal_outcome e w) (on_sess (\<lambda>s. s\<lparr>state := st\<rparr>) w) rs)"

section \<open>The control channel\<close>

definition dispatch_goldfive_control :: "ControlMessage \<Rightarrow> observer \<Rightarrow> bool \<times> observer" where
  "dispatch_goldfive_control m b =
     (case control_channel b of
        None \<Rightarrow> (False, b)
      | Some c \<Rightarrow> (True, b\<lparr>control_channel := Some (send m c)\<rparr>))"

definition pause_escalate_deadline_s :: "policy \<Rightarrow> int option" where
  "pause_escalate_deadline_s p =
     (case pause_escalate_deadline p of Some v \<Rightarrow> if 0 < v then Some v else None | None \<Rightarrow> None)"

definition dispatch_goldfive_pause_control :: "drift_event \<Rightarrow> string \<Rightarrow> bool \<Rightarrow> observer \<Rightarrow> observer" where
  "dispatch_goldfive_pause_control d reason terminate b =
     (let b = on_core (\<lambda>w. record_signal_outcome_escalated d (emit_signal_delivered d ''pause_control'' reason ''pause_escalate''
                [(''reason'', JStr reason),
                 (''channel_action'', JStr (if is_active_steering (cfg w) then ''dispatched'' else ''suppressed''))] w)) b
      in if \<not> is_active_steering (cfg (core b)) then b
         else
           (let deadline = (case pause_escalate_deadline_s (pol b) of
                              Some v \<Rightarrow> Some v
                            | None \<Rightarrow> if terminate then Some DEFAULT_TERMINATE_PAUSE_DEADLINE_S else None);
                (i, w) = new_uuid (core b)
            in snd (dispatch_goldfive_control
                 \<lparr>msg_kind = CK_GOLDFIVE_PAUSE_ESCALATE, msg_id = i,
                  msg_payload = [(''reason'', JStr reason), (''drift_id'', JStr (drift_id d)),
                     (''drift_kind'', JStr (drift_kind_value (drift_kind d))),
                     (''ladder_level'', JStr (if terminate then ''terminate'' else ''pause_escalate''))]
                    @ (case deadline of Some v \<Rightarrow> [(''deadline_s'', JInt v)] | None \<Rightarrow> []),
                  issued_at_ms = 0\<rparr> (b\<lparr>core := w\<rparr>))))"

definition escalation :: "drift_event \<Rightarrow> string \<Rightarrow> world \<Rightarrow> world" where
  "escalation d detail w =
     (let (e, w) = new_drift HUMAN_INTERVENTION_REQUIRED CRITICAL detail (drift_task d) w
      in emit_drift_detected (e\<lparr>drift_agent := drift_agent d\<rparr>) [] [] w)"

definition with_detail :: "string \<Rightarrow> drift_event \<Rightarrow> string" where
  "with_detail label d =
     label @ '' from '' @ drift_kind_value (drift_kind d) @ (if drift_detail d \<noteq> [] then '': '' @ drift_detail d else [])"

definition dispatch_pause_escalate :: "drift_event \<Rightarrow> bool \<Rightarrow> observer \<Rightarrow> observer" where
  "dispatch_pause_escalate d terminate b =
     (let b = dispatch_goldfive_pause_control d (with_detail (if terminate then ''terminate'' else ''pause_escalate'') d) terminate b
      in if drift_kind d = HUMAN_INTERVENTION_REQUIRED then b
         else on_core (\<lambda>w.
           let cid = compute_condition_id (sha1_hex (cfg w)) (drift_kind d) (drift_task d) (drift_agent d) (run_id (sess w));
               w = (case escalate_drift_to_human_intervention (state (sess w)) cid of
                      Inl _ \<Rightarrow> w | Inr (_, st) \<Rightarrow> on_sess (\<lambda>s. s\<lparr>state := st\<rparr>) w)
           in escalation d (with_detail ''escalated'' d) w) b)"

text \<open>\<open>{x:.0f}\<close> of a number of seconds, given in nanoseconds: round half to even.\<close>

definition whole_seconds :: "int \<Rightarrow> int" where
  "whole_seconds ns =
     (let q = ns div 1000000000; r = ns mod 1000000000
      in if 2 * r < 1000000000 then q else if 2 * r > 1000000000 then q + 1 else if even q then q else q + 1)"

definition or_trajectory :: "string \<Rightarrow> string" where
  "or_trajectory tid = (if tid \<noteq> [] then tid else ''(trajectory)'')"

definition is_task_progress_stalled :: "policy \<Rightarrow> drift_event \<Rightarrow> world \<Rightarrow> bool \<times> world" where
  "is_task_progress_stalled p d w =
     (if stall_threshold p \<le> 0 \<or> drift_kind d \<in> USER_OR_TRAJECTORY_DRIFT_KINDS \<or> drift_task d = [] then (False, w)
      else case task_last_progress_at (sess w) (drift_task d) of
             None \<Rightarrow> (False, w)
           | Some t \<Rightarrow> (stall_threshold p \<le> monotonic (cfg w) (ticks w) - t, tick w))"

definition emit_progress_stalled_escalation :: "drift_event \<Rightarrow> observer \<Rightarrow> observer" where
  "emit_progress_stalled_escalation d b =
     (let last_at = (if drift_task d = [] then None else task_last_progress_at (sess (core b)) (drift_task d));
          age = (case last_at of Some t \<Rightarrow> monotonic (cfg (core b)) (ticks (core b)) - t | None \<Rightarrow> 0);
          b = (case last_at of Some _ \<Rightarrow> on_core tick b | None \<Rightarrow> b);
          reason = ''task progress stalled for '' @ drift_kind_value (drift_kind d) @ '' on task '' @ or_trajectory (drift_task d) @
            '': '' @ show_int (whole_seconds age) @ ''s since last progress, threshold '' @
            show_int (whole_seconds (stall_threshold (pol b))) @ ''s''
      in on_core (escalation d reason) (dispatch_goldfive_pause_control d reason False b))"

definition emit_handler_exhausted_escalation :: "drift_event \<Rightarrow> observer \<Rightarrow> observer" where
  "emit_handler_exhausted_escalation d b =
     (let reason = ''refine handler exhausted for '' @ drift_kind_value (drift_kind d) @ '' on task '' @
            or_trajectory (drift_task d) @ '': planner cannot produce a meaningful change''
      in on_core (escalation d reason) (dispatch_goldfive_pause_control d reason False b))"

section \<open>Signals\<close>

datatype pacing = Proceed | Suppress | Escalate

definition user_steer_is_fresh :: "policy \<Rightarrow> world \<Rightarrow> bool" where
  "user_steer_is_fresh p w =
     (if suppression_window p \<le> 0 then False
      else case get_active_steer (state (sess w)) of
             None \<Rightarrow> False
           | Some a \<Rightarrow>
               lower (steer_source a) = ''user'' \<and>
               (let age = int (reasoning_turn (sess w)) - steer_at_turn a in 0 \<le> age \<and> age < suppression_window p))"

definition signal_pacing_decision :: "policy \<Rightarrow> drift_event \<Rightarrow> world \<Rightarrow> pacing" where
  "signal_pacing_decision p d w =
     (if \<not> request_context (cfg w) then Proceed
      else if user_steer_is_fresh p w then Suppress
      else if grace_window p \<le> 0 then Proceed
      else
        (let kind = drift_kind_value (drift_kind d);
             last_rendered = last_rendered_turn (state (sess w)) kind (drift_task d)
         in if 0 \<le> last_rendered \<and> int (reasoning_turn (sess w)) - last_rendered < grace_window p then Suppress
            else if REFINE_FAILURE_THRESHOLD \<le> signal_count (state (sess w)) kind (drift_task d) then Escalate
            else Proceed))"

definition apply_signal_pacing :: "drift_event \<Rightarrow> pacing \<Rightarrow> observer \<Rightarrow> bool \<times> observer" where
  "apply_signal_pacing d decision b =
     (case decision of
        Suppress \<Rightarrow> (True, b)
      | Escalate \<Rightarrow> (True, on_core (record_signal_outcome_escalated d) (dispatch_pause_escalate d False b))
      | Proceed \<Rightarrow> (False, b))"

text \<open>The body of a repeated note quotes the one prior note, if the agent really saw it.\<close>

definition note_body_for :: "gstate \<Rightarrow> drift_event \<Rightarrow> string \<Rightarrow> string" where
  "note_body_for st d text =
     (case signal_notes st (drift_kind_value (drift_kind d)) (drift_task d) of
        [prior] \<Rightarrow>
          (let first_obs = strip (observation prior)
           in if first_obs \<noteq> [] \<and> delivered prior \<and> \<not> delivered_dry_run prior
              then text @ NL @ NL @ ''This repeats an earlier observer note for this work, which observed: '' @ [CHR 0x22] @ first_obs @
                     [CHR 0x22] @ ''. That situation appears unchanged.''
              else text)
      | _ \<Rightarrow> text)"

definition enqueue_corrective_note :: "drift_event \<Rightarrow> string \<Rightarrow> string \<Rightarrow> world \<Rightarrow> world" where
  "enqueue_corrective_note d text lvl w =
     (case observation_for_drift d of
        Inl _ \<Rightarrow> w
      | Inr (obs, _) \<Rightarrow>
          (case enqueue (sha1_hex (cfg w)) (state (sess w))
                  \<lparr>arg_body = note_body_for (state (sess w)) d text, arg_observation = obs,
                   arg_severity = severity_value (drift_severity d), arg_drift_id = drift_id d,
                   arg_kind = drift_kind_value (drift_kind d), arg_task = drift_task d, arg_agent = drift_agent d,
                   arg_turn = int (reasoning_turn (sess w)), arg_level = lvl\<rparr> of
             Inl _ \<Rightarrow> w
           | Inr (_, st) \<Rightarrow> on_sess (\<lambda>s. s\<lparr>state := st\<rparr>) w))"

definition kind_and_task :: "drift_event \<Rightarrow> string" where
  "kind_and_task d = ''kind='' @ drift_kind_value (drift_kind d) @ '' task_id='' @ drift_task d"

definition route_corrective_note :: "drift_event \<Rightarrow> string \<Rightarrow> string \<Rightarrow> bool \<Rightarrow> observer \<Rightarrow> observer" where
  "route_corrective_note d text lvl installed b =
     (if request_context (cfg (core b)) then
        on_core (\<lambda>w. emit_signal_delivered d ''request_context'' text lvl [(''channel_action'', JStr ''enqueued'')]
          (enqueue_corrective_note d text lvl w)) b
      else if \<not> is_active_steering (cfg (core b)) then
        on_core (\<lambda>w. emit_signal_delivered d ''nudge_replay'' text lvl [(''channel_action'', JStr ''suppressed'')]
          (emit_policy_applied ''observation_only_gate'' ''suppressed'' ''observation_only=True''
             (''intervention='' @ (if lvl = ''absorb'' then ''post_absorb_nudge'' else ''nudge'') @ '' ladder_level='' @ lvl @
              '' '' @ kind_and_task d) w)) b
      else
        on_core (emit_signal_delivered d ''nudge_replay'' text lvl [(''channel_action'', JStr ''queued'')])
          (b\<lparr>pending_nudges := pending_nudges b @ [text],
             nudges_revision_installed := (installed \<or> nudges_revision_installed b)\<rparr>))"

definition dispatch_nudge :: "drift_event \<Rightarrow> observer \<Rightarrow> py_error + observer" where
  "dispatch_nudge d b =
     ebind (compose_note_for_drift d (sess (core b))) (\<lambda>text. Inr (route_corrective_note d text ''nudge'' False b))"

definition dispatch_goldfive_steer_control :: "drift_event \<Rightarrow> string \<Rightarrow> observer \<Rightarrow> py_error + observer" where
  "dispatch_goldfive_steer_control d body_override b =
     ebind (if body_override \<noteq> [] then Inr body_override else compose_note_for_drift d (sess (core b))) (\<lambda>body.
     let superseded = (if drift_task d \<noteq> [] then [JStr (drift_task d)] else []);
         replacement = (case session_plan (sess (core b)) of
                          None \<Rightarrow> []
                        | Some p \<Rightarrow> (case find (\<lambda>t. status t = PENDING \<and> task_id t \<noteq> []) (tasks p) of
                                       None \<Rightarrow> [] | Some t \<Rightarrow> [JStr (task_id t)]));
         (i, w) = new_uuid (core b);
         w = emit_signal_delivered d (if body_override \<noteq> [] then ''promotion'' else ''steer_control'') body
               (if body_override \<noteq> [] then ''promotion'' else ''cancel_reinvoke'')
               [(''superseded_task_ids'', JList superseded), (''replacement_task_ids'', JList replacement),
                (''channel_action'', JStr (if is_active_steering (cfg w) then ''dispatched'' else ''suppressed''))] w
     in Inr (if \<not> is_active_steering (cfg w)
             then b\<lparr>core := emit_policy_applied ''observation_only_gate'' ''suppressed'' ''observation_only=True'' (kind_and_task d) w\<rparr>
             else snd (dispatch_goldfive_control
                    \<lparr>msg_kind = CK_GOLDFIVE_STEER, msg_id = i,
                     msg_payload = [(''drift_kind'', JStr (drift_kind_value (drift_kind d))), (''drift_id'', JStr (drift_id d)),
                       (''body'', JStr body), (''superseded_task_ids'', JList superseded),
                       (''replacement_task_ids'', JList replacement)],
                     issued_at_ms = 0\<rparr> (b\<lparr>core := w\<rparr>))))"

definition ledger_retire_refine :: "drift_event \<Rightarrow> observer \<Rightarrow> py_error + observer" where
  "ledger_retire_refine d b =
     (if drift_kind d \<in> HARD_SAFETY_DRIFT_KINDS then Inr (dispatch_pause_escalate d False b)
      else if drift_kind d \<in> LEDGER_FORCE_FAIL_DRIFT_KINDS \<and> drift_task d \<noteq> [] then
        (case mark_task_failed (drift_task d)
                (''ledger force-fail (loop): '' @ (if drift_detail d \<noteq> [] then drift_detail d else drift_kind_value (drift_kind d)))
                True ''goldfive_ledger_refine_retire'' True (core b) of
           Inl _ \<Rightarrow> dispatch_nudge d b
         | Inr w \<Rightarrow> Inr (b\<lparr>core := w\<rparr>))
      else dispatch_nudge d b)"

section \<open>Promotion policy\<close>

definition severity_meets_promotion_threshold :: "policy \<Rightarrow> DriftSeverity \<Rightarrow> bool" where
  "severity_meets_promotion_threshold p sev =
     (case steer_threshold p of
        ThresholdOff \<Rightarrow> False
      | ThresholdCritical \<Rightarrow> sev = CRITICAL
      | ThresholdWarning \<Rightarrow> sev \<in> {WARNING, CRITICAL})"

text \<open>The drift comes back with the suppression flag set where the policy sets it.\<close>

definition should_promote_to_steer :: "policy \<Rightarrow> drift_event \<Rightarrow> world \<Rightarrow> bool \<times> drift_event" where
  "should_promote_to_steer p d w =
     (if drift_kind d \<in> USER_AUTHORED_DRIFT_KINDS then (False, d)
      else if resolve_authored_by d \<noteq> ''goldfive'' then (False, d)
      else if drift_kind d \<notin> GOLDFIVE_STEER_ELIGIBLE_KINDS then (False, d)
      else if \<not> severity_meets_promotion_threshold p (drift_severity d) then (False, d)
      else if user_steer_is_fresh p w then (False, d\<lparr>suppressed_by_user_steer := True\<rparr>)
      else (True, d))"

section \<open>Up to the planner\<close>

text \<open>A suspended handler; a promotion has no ladder level.\<close>

type_synonym refine_slot = "string \<times> string \<times> string"

record refine_frame =
  fr_drift :: drift_event
  fr_attempt :: string
  fr_level :: "InterventionLevel option"
  fr_body :: string
  fr_key :: "refine_slot option"

definition begin_refine :: "drift_event \<Rightarrow> InterventionLevel option \<Rightarrow> string \<Rightarrow> observer \<Rightarrow> refine_frame option \<times> observer" where
  "begin_refine d lvl body b =
     (let (attempt, w) = new_uuid (core b)
      in (Some \<lparr>fr_drift = d, fr_attempt = attempt, fr_level = lvl, fr_body = body, fr_key = None\<rparr>,
          b\<lparr>core := emit_refine_attempted d attempt w\<rparr>))"

text \<open>The outcome-based gate, with the outcome that closes it.\<close>

definition refine_gate :: "drift_event \<Rightarrow> session \<Rightarrow> RefineOutcome option" where
  "refine_gate d s =
     (if drift_kind d \<in> USER_OR_TRAJECTORY_DRIFT_KINDS then None
      else case refine_outcomes s (refine_key d) of
             None \<Rightarrow> None
           | Some r \<Rightarrow> if refine_state r = Succeeded \<or> REFINE_FAILURE_THRESHOLD \<le> fail_count r then Some r else None)"

definition stall_or_refine ::
  "drift_event \<Rightarrow> InterventionLevel option \<Rightarrow> string \<Rightarrow> observer \<Rightarrow> refine_frame option \<times> observer" where
  "stall_or_refine d lvl body b =
     (let (stalled, w) = is_task_progress_stalled (pol b) d (core b); b = b\<lparr>core := w\<rparr>
      in if stalled then (None, emit_progress_stalled_escalation d b) else begin_refine d lvl body b)"

definition emit_refine_skipped :: "drift_event \<Rightarrow> RefineOutcome \<Rightarrow> world \<Rightarrow> world" where
  "emit_refine_skipped d r w =
     (if refine_state r = Succeeded
      then emit_policy_applied ''refine_outcome_succeeded_skip'' ''skipped'' ''prior_succeeded_same_turn'' (kind_and_task d) w
      else emit_policy_applied ''refine_failure_threshold'' ''suppressed'' ''threshold_reached''
             (kind_and_task d @ '' count='' @ show_nat (fail_count r)) w)"

definition dispatch_refine :: "drift_event \<Rightarrow> InterventionLevel \<Rightarrow> observer \<Rightarrow> py_error + refine_frame option \<times> observer" where
  "dispatch_refine d lvl b =
     (if plan_mode_ledger (cfg (core b)) \<and> drift_kind d \<noteq> USER_STEER
      then ebind (ledger_retire_refine d b) (\<lambda>b. Inr (None, b))
      else if \<not> has_planner (pol b) \<or> session_plan (sess (core b)) = None then Inr (None, b)
      else if drift_kind d = REFINE_VALIDATION_FAILED then Inr (None, b)
      else case refine_gate d (sess (core b)) of
             Some r \<Rightarrow> Inr (None, on_core (emit_refine_skipped d r) b)
           | None \<Rightarrow> Inr (stall_or_refine d (Some lvl) [] b))"

definition dispatch_level :: "drift_event \<Rightarrow> InterventionLevel \<Rightarrow> observer \<Rightarrow> py_error + refine_frame option \<times> observer" where
  "dispatch_level d lvl b =
     (case lvl of
        OBSERVE \<Rightarrow> Inr (None, b)
      | SIGNAL \<Rightarrow>
          (case apply_signal_pacing d (signal_pacing_decision (pol b) d (core b)) b of
             (True, b) \<Rightarrow> Inr (None, b)
           | (False, b) \<Rightarrow> ebind (dispatch_nudge d b) (\<lambda>b. Inr (None, b)))
      | PAUSE_ESCALATE \<Rightarrow> Inr (None, dispatch_pause_escalate d False b)
      | TERMINATE \<Rightarrow> Inr (None, dispatch_pause_escalate d True b)
      | _ \<Rightarrow> dispatch_refine d lvl b)"

definition write_adapter_cancel_reason :: "string \<Rightarrow> observer \<Rightarrow> observer" where
  "write_adapter_cancel_reason reason b = (if has_adapter (pol b) then b\<lparr>next_cancel_reason := reason\<rparr> else b)"

definition tag_adapter_cancel_reason :: "drift_event \<Rightarrow> observer \<Rightarrow> observer" where
  "tag_adapter_cancel_reason d b = (if drift_kind d = USER_STEER then write_adapter_cancel_reason ''user_steer'' b else b)"

definition try_state :: "(gstate \<Rightarrow> py_error + gstate) \<Rightarrow> world \<Rightarrow> world" where
  "try_state f w = (case f (state (sess w)) of Inl _ \<Rightarrow> w | Inr st \<Rightarrow> on_sess (\<lambda>s. s\<lparr>state := st\<rparr>) w)"

definition stamp_legacy_steer :: "drift_event \<Rightarrow> string \<Rightarrow> observer \<Rightarrow> observer" where
  "stamp_legacy_steer d body b =
     (let reason = ''goldfive_'' @ drift_kind_value (drift_kind d);
          b = (write_adapter_cancel_reason reason b)\<lparr>last_cancel_reason_prefix := reason\<rparr>
      in on_core (\<lambda>w. try_state (\<lambda>st. set_active_steer st body (int (reasoning_turn (sess w))) ''goldfive'' ''goldfive'') w) b)"

definition promote_drift_to_steer :: "drift_event \<Rightarrow> observer \<Rightarrow> py_error + refine_frame option \<times> observer" where
  "promote_drift_to_steer d b =
     ebind (compose_note_for_drift d (sess (core b))) (\<lambda>body.
     let b = (if legacy_ladder (pol b) then stamp_legacy_steer d body b else b);
         b = (if drift_id d \<noteq> [] then on_core (try_state (\<lambda>st. record_processed_steer_id st (drift_id d))) b else b)
     in if \<not> has_planner (pol b) \<or> session_plan (sess (core b)) = None then Inr (None, b)
        else case refine_gate d (sess (core b)) of
               Some _ \<Rightarrow> Inr (None, b)
             | None \<Rightarrow> Inr (stall_or_refine d None body b))"

definition cancel_for_drift :: "drift_event \<Rightarrow> world \<Rightarrow> world" where
  "cancel_for_drift d w =
     (if \<not> should_request_cancel_for_drift (cfg w) d then w
      else request_invocation_cancel d False
             (if drift_id d \<noteq> [] then w\<lparr>cancelled_drift_ids := insert (drift_id d) (cancelled_drift_ids w)\<rparr> else w))"

definition ladder_reason :: "nat \<Rightarrow> string" where
  "ladder_reason n = (if n = 0 then ''first occurrence'' else ''repeat (count='' @ show_nat n @ '')'')"

definition climb_ladder :: "drift_event \<Rightarrow> observer \<Rightarrow> py_error + refine_frame option \<times> observer" where
  "climb_ladder d b =
     (let n = occurrence_count_for_ladder (sess (core b)) d;
          lvl = ladder_level_for (legacy_ladder (pol b)) (drift_kind d) (drift_severity d) n
      in dispatch_level d lvl (on_core (emit_ladder_transition lvl (ladder_reason n) d) b))"

definition handle_drift_dispatch :: "drift_event \<Rightarrow> observer \<Rightarrow> py_error + refine_frame option \<times> observer" where
  "handle_drift_dispatch d b =
     (let b = tag_adapter_cancel_reason d b;
          b = (if drift_kind d = USER_STEER then on_core (apply_user_steer_state d) b else b);
          (promote, d) = should_promote_to_steer (pol b) d (core b);
          b = on_core (emit_drift_detected d [] []) b
      in if suppressed_by_user_steer d then Inr (None, b)
         else
           let b = on_core (cancel_for_drift d) b
           in if promote then
                (case apply_signal_pacing d (signal_pacing_decision (pol b) d (core b)) b of
                   (True, b) \<Rightarrow> Inr (None, b)
                 | (False, b) \<Rightarrow>
                     if plan_mode_ledger (cfg (core b)) then ebind (ledger_retire_refine d b) (\<lambda>b. Inr (None, b))
                     else promote_drift_to_steer d b)
              else climb_ladder d b)"

section \<open>The entry guards\<close>

definition or_whole_trajectory :: "string \<Rightarrow> string" where
  "or_whole_trajectory tid = (if tid \<noteq> [] then tid else ''<trajectory>'')"

definition drop_redundant :: "drift_event \<Rightarrow> string \<Rightarrow> string \<Rightarrow> observer \<Rightarrow> observer" where
  "drop_redundant d oc reason b =
     on_core (emit_drift_detected d oc reason) (b\<lparr>emitted_redundant := emitted_redundant b + 1\<rparr>)"

definition refine_slot_of :: "drift_event \<Rightarrow> session \<Rightarrow> refine_slot" where
  "refine_slot_of d s =
     (if session_id s \<noteq> [] then session_id s else run_id s, drift_kind_value (drift_kind d), drift_task d)"

text \<open>The \<open>finally\<close> block.\<close>

definition release_slot :: "refine_slot option \<Rightarrow> drift_event \<Rightarrow> observer \<Rightarrow> observer" where
  "release_slot key d b =
     (let b = (case key of None \<Rightarrow> b | Some k \<Rightarrow> b\<lparr>inflight_refine_keys := inflight_refine_keys b - {k}\<rparr>)
      in if drift_id d \<noteq> [] then on_core (\<lambda>w. w\<lparr>cancelled_drift_ids := cancelled_drift_ids w - {drift_id d}\<rparr>) b else b)"

definition guarded_dispatch ::
  "refine_slot option \<Rightarrow> drift_event \<Rightarrow> observer \<Rightarrow> py_error + refine_frame option \<times> observer" where
  "guarded_dispatch key d b =
     ebind (handle_drift_dispatch d b) (\<lambda>(fr, b).
     Inr (case fr of None \<Rightarrow> (None, release_slot key d b) | Some f \<Rightarrow> (Some (f\<lparr>fr_key := key\<rparr>), b)))"

definition handle_drift :: "drift_event \<Rightarrow> observer \<Rightarrow> py_error + refine_frame option \<times> observer" where
  "handle_drift d b =
     (if drift_kind d = PLAN_DIVERGENCE then Inr (None, b)
      else
        let d = (if authored_by d = [] then d\<lparr>authored_by := resolve_authored_by d\<rparr> else d);
            kind = drift_kind_value (drift_kind d) in
        if \<not> dispatch_interventions (pol b) then
          Inr (None, on_core (emit_drift_detected d ''drift_observed_only'' ''drift intervention dispatch disabled'') b)
        else if observed_revision_index d = 0 \<or> lower (authored_by d) = ''user'' then guarded_dispatch None d b
        else
          let addressed = (case last_addressed (sess (core b)) (kind, drift_task d) of None \<Rightarrow> 0 | Some n \<Rightarrow> n);
              slot = refine_slot_of d (sess (core b)) in
          if addressed \<noteq> 0 \<and> observed_revision_index d < addressed then
            Inr (None, drop_redundant d ''drift_dropped_stale''
              (''stale verdict: observed revision '' @ show_int (observed_revision_index d) @
               '' but same (kind, target) addressed at revision '' @ show_int addressed) b)
          else if slot \<in> inflight_refine_keys b then
            Inr (None, drop_redundant d ''drift_dropped_inflight''
              (''concurrent refine already in-flight for (kind='' @ kind @ '', target='' @ or_whole_trajectory (drift_task d) @ '')'') b)
          else guarded_dispatch (Some slot) d (b\<lparr>inflight_refine_keys := insert slot (inflight_refine_keys b)\<rparr>))"

section \<open>The planner's answer\<close>

text \<open>
  A plan, \<open>None\<close>, \<open>RefineExhausted\<close> with its text, another exception with text and type, or a cancellation
  with its type. The last is raised again after the handler's own work: \<open>resume_refine\<close> returns its type.
\<close>

datatype refine_answer =
    Refined plan | NoRevision | Exhausted string | RefineRaised string string | RefineCancelled string

definition after_landing :: "refine_frame \<Rightarrow> bool \<Rightarrow> observer \<Rightarrow> py_error + observer" where
  "after_landing fr installed b =
     (let d = fr_drift fr in
      ebind (if fr_level fr = Some CANCEL_REINVOKE then dispatch_goldfive_steer_control d [] b else Inr b) (\<lambda>b.
      if fr_level fr = Some ABSORB \<and> drift_kind d \<in> ABSORB_NUDGE_KINDS
      then ebind (compose_note_for_drift d (sess (core b))) (\<lambda>text. Inr (route_corrective_note d text ''absorb'' installed b))
      else Inr b))"

definition after_promotion :: "refine_frame \<Rightarrow> observer \<Rightarrow> py_error + observer" where
  "after_promotion fr b =
     (if legacy_ladder (pol b) then dispatch_goldfive_steer_control (fr_drift fr) (fr_body fr) b
      else Inr (route_corrective_note (fr_drift fr) (fr_body fr) ''promotion'' False b))"

definition land_refined :: "refine_frame \<Rightarrow> plan \<Rightarrow> observer \<Rightarrow> py_error + bool \<times> observer" where
  "land_refined fr revised b =
     (let d = fr_drift fr in
      ebind (record_refine_outcome d True (core b)) (\<lambda>w.
      let prev = session_plan (sess w);
          (revised, was_installed) = stamped w revised d;
          w = cancel_inflight_for_revision d w
      in ebind (emit_plan_revised revised d prev (fr_attempt fr) (\<not> was_installed) w) (\<lambda>w. Inr (was_installed, b\<lparr>core := w\<rparr>))))"

definition refine_rejected :: "refine_frame \<Rightarrow> plan_error \<Rightarrow> observer \<Rightarrow> py_error + observer" where
  "refine_rejected fr e b =
     (let d = fr_drift fr;
          text = ''plan validation failed: '' @ plan_error_message e;
          w = emit_refine_failed d (fr_attempt fr) ''validator_rejected'' text ''ValueError'' (core b);
          (v, w) = new_drift SCHEMA_VIOLATION INFO text (current_task_id (sess w)) w;
          w = emit_drift_detected (if fr_level fr = None then v\<lparr>authored_by := ''goldfive''\<rparr> else v) [] [] w
      in ebind (record_refine_outcome d False w) (\<lambda>w. Inr (emit_handler_exhausted_escalation d (b\<lparr>core := w\<rparr>))))"

definition refine_answered :: "refine_frame \<Rightarrow> refine_answer \<Rightarrow> observer \<Rightarrow> py_error + string option \<times> observer" where
  "refine_answered fr ans b =
     (let d = fr_drift fr;
          failed = (\<lambda>kind reason detail. on_core (emit_refine_failed d (fr_attempt fr) kind reason detail) b)
      in case ans of
           Exhausted text \<Rightarrow>
             Inr (None, emit_handler_exhausted_escalation d
               (failed ''refine_exhausted'' (if text \<noteq> [] then text else ''planner signalled handler exhaustion'') []))
         | RefineRaised text type \<Rightarrow>
             ebind (record_refine_outcome d False
                      (escalate_refine_failure_as_critical_drift d text (core (failed ''llm_error'' text type)))) (\<lambda>w.
             Inr (None, b\<lparr>core := w\<rparr>))
         | RefineCancelled type \<Rightarrow> Inr (Some type, failed ''cancelled'' (''refine cancelled: '' @ type) type)
         | NoRevision \<Rightarrow>
             ebind (record_refine_outcome d False (core (failed ''parse_error'' ''planner returned no revised plan'' []))) (\<lambda>w.
             Inr (None, emit_handler_exhausted_escalation d (b\<lparr>core := w\<rparr>)))
         | Refined r \<Rightarrow>
             (let prev = session_plan (sess (core b));
                  r = fold_runtime_terminal_statuses r prev
              in case validate r True prev of
                   Some e \<Rightarrow> ebind (refine_rejected fr e b) (\<lambda>b. Inr (None, b))
                 | None \<Rightarrow>
                     if plans_structurally_identical prev r
                     then Inr (None, emit_handler_exhausted_escalation d
                            (failed ''no_op_revision'' ''planner returned structurally identical plan'' []))
                     else ebind (land_refined fr r b) (\<lambda>(installed, b).
                          ebind (if fr_level fr = None then after_promotion fr b else after_landing fr installed b) (\<lambda>b.
                          Inr (None, b)))))"

definition resume_refine :: "refine_frame \<Rightarrow> refine_answer \<Rightarrow> observer \<Rightarrow> py_error + string option \<times> observer" where
  "resume_refine fr ans b =
     ebind (refine_answered fr ans b) (\<lambda>(x, b). Inr (x, release_slot (fr_key fr) (fr_drift fr) b))"

end
