(* ===== verification/Ladder_Effects.thy ===== *)
theory Ladder_Effects
  imports Intervention_Ladder
begin

text \<open>
  What an operation of the drift observer does outside the session's bookkeeping: the calls of the adapter's
  plugin, the refine events on the wire, the messages on the control channel and the nudges, and what it keeps of
  the plan. Each relation is closed under composition, and there is one rule per operation.
\<close>

section \<open>Calls and refine events of an operation\<close>

datatype attempt_mark = Opened string | Closed string

fun refine_mark :: "payload \<Rightarrow> attempt_mark list" where
  "refine_mark (RefineAttempted e) = [Opened (re_attempt e)]"
| "refine_mark (RefineFailed e k r t) = [Closed (re_attempt e)]"
| "refine_mark (PlanRevisedCorrelation e n) = [Closed (re_attempt e)]"
| "refine_mark _ = []"

definition refine_marks :: "event list \<Rightarrow> attempt_mark list" where
  "refine_marks es = concat (map (\<lambda>e. refine_mark (ev_payload e)) es)"

lemma refine_marks_simps [simp]: "refine_marks [] = []" "refine_marks (es @ fs) = refine_marks es @ refine_marks fs"
  "refine_marks [e] = refine_mark (ev_payload e)"
  by (simp_all add: refine_marks_def)

definition traces :: "(plugin_call \<Rightarrow> bool) \<Rightarrow> world \<Rightarrow> world \<Rightarrow> attempt_mark list \<Rightarrow> bool" where
  "traces P w w' ms \<longleftrightarrow> cfg w' = cfg w \<and> (\<exists>cs. plugin_calls w' = plugin_calls w @ cs \<and> list_all P cs) \<and>
     (\<exists>es. log w' = log w @ es \<and> refine_marks es = (if has_sinks (cfg w) then ms else []))"

named_theorems trace_intros

lemma traces_refl [trace_intros]: "traces P w w []"
  by (simp add: traces_def)

lemma traces_trans:
  assumes "traces P w w1 ms" "traces P w1 w2 ns"
  shows "traces P w w2 (ms @ ns)"
proof -
  from assms obtain cs ds es fs where
    "plugin_calls w1 = plugin_calls w @ cs" "list_all P cs" "log w1 = log w @ es" "refine_marks es = (if has_sinks (cfg w) then ms else [])"
    "plugin_calls w2 = plugin_calls w1 @ ds" "list_all P ds" "log w2 = log w1 @ fs" "refine_marks fs = (if has_sinks (cfg w1) then ns else [])"
    unfolding traces_def by blast
  moreover have "cfg w1 = cfg w" "cfg w2 = cfg w" using assms by (simp_all add: traces_def)
  ultimately show ?thesis unfolding traces_def by (intro conjI exI [of _ "cs @ ds"] exI [of _ "es @ fs"]) auto
qed

lemma traces_quiet: "traces P w w1 ms \<Longrightarrow> traces P w1 w2 [] \<Longrightarrow> traces P w w2 ms"
  using traces_trans [of P w w1 ms w2 "[]"] by simp

lemma traces_same:
  "traces P w w1 ms \<Longrightarrow> cfg w2 = cfg w1 \<Longrightarrow> plugin_calls w2 = plugin_calls w1 \<Longrightarrow> log w2 = log w1 \<Longrightarrow> traces P w w2 ms"
  by (simp add: traces_def)

lemma traces_mark: "traces P w w1 ms \<Longrightarrow> traces P w (emit_new p w1) (ms @ refine_mark p)"
  by (rule traces_trans) (auto simp: traces_def emit_new_def Let_def next_sequence_def)

lemma traces_emit [trace_intros]: "traces P w w1 ms \<Longrightarrow> refine_mark p = [] \<Longrightarrow> traces P w (emit_new p w1) ms"
  using traces_mark [of P w w1 ms p] by simp

lemma traces_tick [trace_intros]: "traces P w w1 ms \<Longrightarrow> traces P w (tick w1) ms"
  by (erule traces_same) (simp_all add: tick_def)

lemma traces_sess [trace_intros]: "traces P w w1 ms \<Longrightarrow> traces P w (on_sess f w1) ms"
  by (erule traces_same) (simp_all add: on_sess_def)

lemma traces_plugin [trace_intros]: "traces P w w1 ms \<Longrightarrow> P c \<Longrightarrow> traces P w (plugin_do c w1) ms"
  by (erule traces_quiet) (simp add: traces_def plugin_do_def)

lemma traces_foldl:
  assumes "\<And>w x. traces P w (f w x) []"
  shows "traces P w (foldl f w xs) []"
proof (induction xs arbitrary: w)
  case (Cons x xs)
  show ?case using traces_quiet [OF assms Cons] by simp
qed (simp add: trace_intros)

lemma traces_foldl_after: "traces P w w1 ms \<Longrightarrow> (\<And>w x. traces P w (f w x) []) \<Longrightarrow> traces P w (foldl f w1 xs) ms"
  using traces_quiet traces_foldl by blast

text \<open>Operations of the task state machine, which never call the plugin.\<close>

lemma traces_progress [trace_intros]: "traces P w w1 ms \<Longrightarrow> traces P w (stamp_progress i w1) ms"
  by (simp add: stamp_progress_def trace_intros)

lemma traces_signal_outcome [trace_intros]: "traces P w w1 ms \<Longrightarrow> traces P w (emit_signal_outcome e w1) ms"
  by (simp add: emit_signal_outcome_def trace_intros)

lemma traces_signal_outcomes [trace_intros]: "traces P w w1 ms \<Longrightarrow> traces P w (foldl (\<lambda>w e. emit_signal_outcome e w) w1 es) ms"
  by (erule traces_foldl_after) (simp add: trace_intros)

lemma traces_record_outcomes [trace_intros]: "traces P w w1 ms \<Longrightarrow> traces P w (record_signal_outcomes_for_task i w1) ms"
  by (auto simp: record_signal_outcomes_for_task_def Let_def split: sum.split intro!: trace_intros)

lemma traces_resolved [trace_intros]: "traces P w w1 ms \<Longrightarrow> traces P w (emit_resolved_conditions rs reason w1) ms"
  by (auto simp: emit_resolved_conditions_def intro!: traces_foldl_after trace_intros)

lemma traces_conditions [trace_intros]: "traces P w w1 ms \<Longrightarrow> traces P w (resolve_conditions_for_terminal_task i s w1) ms"
  by (auto simp: resolve_conditions_for_terminal_task_def Let_def split: sum.split intro!: trace_intros)

lemma traces_transitioned [trace_intros]: "traces P w w1 ms \<Longrightarrow> traces P w (emit_task_transitioned t a b src w1) ms"
  by (auto simp: emit_task_transitioned_def Let_def intro!: trace_intros)

lemma traces_activity [trace_intros]: "traces P w w1 ms \<Longrightarrow> traces P w (note_completed_activity t i w1) ms"
  by (auto simp: note_completed_activity_def note_agent_activity_def stamp_last_observed_def Let_def intro!: trace_intros)

lemma traces_boundary [trace_intros]: "traces P w w1 ms \<Longrightarrow> traces P w (maybe_run_goal_drift_on_task_boundary t w1) ms"
  by (erule traces_same) (auto simp: maybe_run_goal_drift_on_task_boundary_def spawn_outcome_progress_background_def
      spawn_goal_drift_judge_background_def on_sess_def tick_def Let_def)

lemma traces_spawn [trace_intros]: "traces P w w1 ms \<Longrightarrow> traces P w (spawn_drift_handler_background d w1) ms"
  by (erule traces_same) (simp_all add: spawn_drift_handler_background_def)

lemma traces_lineage [trace_intros]: "traces P w w1 ms \<Longrightarrow> traces P w (drop_lineage i w1) ms"
  by (simp add: drop_lineage_def trace_intros)

lemma traces_swap: "swap_status i s w1 = Inr w2 \<Longrightarrow> traces P w w1 ms \<Longrightarrow> traces P w w2 ms"
  by (erule traces_same) (auto simp: swap_status_def ebind_Inr_iff split: option.splits)

lemma traces_pin: "sync_pin t s w1 = Inr w2 \<Longrightarrow> traces P w w1 ms \<Longrightarrow> traces P w w2 ms"
  by (auto simp: sync_pin_def ebind_Inr_iff intro: trace_intros)

lemma traces_cascade_loop: "cascade_loop es m reason src q vis w1 = Inr w2 \<Longrightarrow> traces P w w1 ms \<Longrightarrow> traces P w w2 ms"
proof (induction es m reason src q vis w1 rule: cascade_loop.induct)
  case (2 es m reason src i q vis w1)
  consider "i \<in> set vis" | "i \<notin> set vis" "map_of m i = None"
    | dep where "i \<notin> set vis" "map_of m i = Some dep" "status dep \<in> TERMINAL_TASK_STATUSES"
    | dep where "i \<notin> set vis" "map_of m i = Some dep" "status dep \<notin> TERMINAL_TASK_STATUSES" by blast
  then show ?case
  proof cases
    case (4 dep)
    with 2(5) obtain w3 where w3: "swap_status i CANCELLED w1 = Inr w3" by (auto simp: ebind_Inr_iff)
    have "traces P w (emit_task_transitioned (find_or (emit_new (TaskCancelled i reason) (drop_lineage i w3)) i dep) (status dep)
        CANCELLED src (emit_new (TaskCancelled i reason) (drop_lineage i w3))) ms"
      by (intro trace_intros traces_swap [OF w3] 2(6)) simp
    with 2(4) [OF 4 _ _ _, of w3] 2(5) 4 w3 show ?thesis by (simp add: Let_def)
  qed (use 2 in auto)
qed simp

lemma traces_cascade: "cascade_cancel_downstream i src w1 = Inr w2 \<Longrightarrow> traces P w w1 ms \<Longrightarrow> traces P w w2 ms"
  by (auto simp: cascade_cancel_downstream_def split: option.splits intro: traces_cascade_loop)

lemma new_drift_snd: "snd (new_drift k sv dt i w) = tick w"
  by (simp add: new_drift_def)

lemma traces_mark_failed:
  assumes "mark_task_failed i reason rec src disp w1 = Inr w2" "traces P w w1 ms"
  shows "traces P w w2 ms"
proof (cases "w2 = w1")
  case False
  then obtain t0 where t0: "find_task w1 i = Some t0" "status t0 \<notin> TERMINAL_TASK_STATUSES"
    using assms(1) by (auto simp: mark_task_failed_def split: option.splits if_splits)
  let ?y = "\<lambda>t v. maybe_run_goal_drift_on_task_boundary (Some t) (emit_task_transitioned t (status t0) FAILED src
    (emit_new (TaskFailed i reason rec) (note_completed_activity t i (drop_lineage i v))))"
  let ?d = "\<lambda>x. fst (new_drift (if rec then TASK_FAILED_RECOVERABLE else TASK_FAILED_FATAL) (if rec then WARNING else CRITICAL)
    (if reason \<noteq> [] then ''task '' @ i @ '' failed: '' @ reason else ''task '' @ i @ '' failed'') i x)"
  have "ebind (swap_status i FAILED w1) (\<lambda>u. ebind (sync_pin (find_or u i t0) FAILED u) (\<lambda>v.
      ebind (if rec then Inr (?y (find_or u i t0) v) else cascade_cancel_downstream i ''cancellation'' (?y (find_or u i t0) v))
        (\<lambda>x. if \<not> disp then Inr x else Inr (spawn_drift_handler_background (?d x) (tick x))))) = Inr w2"
    using assms(1) unfolding mark_task_failed_def t0(1) option.case if_not_P [OF t0(2)] Let_def split_beta new_drift_snd .
  then obtain u v x where u: "swap_status i FAILED w1 = Inr u" "sync_pin (find_or u i t0) FAILED u = Inr v"
    and x: "(if rec then Inr (?y (find_or u i t0) v) else cascade_cancel_downstream i ''cancellation'' (?y (find_or u i t0) v)) = Inr x"
    and w2: "(if \<not> disp then Inr x else Inr (spawn_drift_handler_background (?d x) (tick x))) = (Inr w2 :: py_error + world)"
    unfolding ebind_Inr_iff by blast
  have "traces P w (?y (find_or u i t0) v) ms"
    by (intro trace_intros traces_pin [OF u(2)] traces_swap [OF u(1)] assms(2)) simp
  with x have "traces P w x ms" by (auto split: if_splits intro: traces_cascade)
  then show ?thesis using w2 by (cases disp) (auto intro: trace_intros)
qed (use assms in simp)

section \<open>Operations of the drift observer\<close>

locale call_policy =
  fixes ok_call :: "plugin_call \<Rightarrow> bool"
  assumes ok_close: "ok_call (CloseOpenBoundaries x)"
    and ok_rewrite: "ok_call (RewritePinnedTaskIds m)"
begin

lemma traces_note_fire: "traces ok_call w w1 ms \<Longrightarrow> traces ok_call w (note_signal_drift_fire d w1) ms"
  by (auto simp: note_signal_drift_fire_def split: sum.split intro!: trace_intros)

lemma traces_drift_detected: "traces ok_call w w1 ms \<Longrightarrow> traces ok_call w (emit_drift_detected d oc rsn w1) ms"
  unfolding emit_drift_detected_def Let_def split_beta stamp_drift_lifecycle_def emit_steering_decision_def
    emit_judgement_from_drift_def close_open_boundaries_for_terminal_drift_def
  by (auto split: sum.split intro!: traces_note_fire trace_intros ok_close)

lemma traces_revision_transitions: "traces ok_call w w1 ms \<Longrightarrow> traces ok_call w (emit_plan_revision_transitions prev r w1) ms"
proof -
  have "traces ok_call w w1 ms \<Longrightarrow> traces ok_call w (revision_transitions m ts w1) ms" for m ts
    by (induction m ts w1 rule: revision_transitions.induct) (auto simp: Let_def traces_transitioned split: option.split)
  then show "traces ok_call w w1 ms \<Longrightarrow> traces ok_call w (emit_plan_revision_transitions prev r w1) ms"
    by (simp add: emit_plan_revision_transitions_def)
qed

lemma traces_swap_plan: "swap_plan r d prev w1 = Inr w2 \<Longrightarrow> traces ok_call w w1 ms \<Longrightarrow> traces ok_call w w2 ms"
proof -
  assume "swap_plan r d prev w1 = Inr w2" "traces ok_call w w1 ms"
  moreover then obtain s hook where "w2 = (case hook of None \<Rightarrow> tick (w1\<lparr>sess := s\<rparr>) | Some m \<Rightarrow> plugin_do (RewritePinnedTaskIds m) (tick (w1\<lparr>sess := s\<rparr>)))"
    by (auto simp: swap_plan_def ebind_Inr_iff Let_def split_beta)
  moreover have "w1\<lparr>sess := s\<rparr> = on_sess (\<lambda>_. s) w1" by (simp add: on_sess_def)
  ultimately show ?thesis by (auto split: option.split intro!: trace_intros ok_rewrite)
qed

lemma traces_plan_revised:
  assumes "emit_plan_revised r d prev a dry w1 = Inr w2" "traces ok_call w w1 ms"
  shows "traces ok_call w w2 (ms @ (if a \<noteq> [] then [Closed a] else []))"
proof -
  from assms(1) obtain u where u: "(if dry then Inr w1 else swap_plan (integrate_correction_supersedes r) d prev w1) = Inr u"
    and w2: "w2 = (let v = emit_plan_revision_transitions prev (integrate_correction_supersedes r) (emit_new (PlanRevised (plan_revised_payload
         (integrate_correction_supersedes r) d prev (or_else (revision_trigger_event_id (integrate_correction_supersedes r))
           (or_else (drift_annotation_id d) (drift_id d))) dry)) u)
       in if a \<noteq> [] then emit_plan_revised_correlation (integrate_correction_supersedes r) d a v else v)"
    by (auto simp: emit_plan_revised_def Let_def ebind_Inr_iff)
  have "traces ok_call w u ms" using u assms(2) traces_swap_plan by (auto split: if_splits)
  then have "traces ok_call w (emit_plan_revision_transitions prev (integrate_correction_supersedes r) (emit_new (PlanRevised x) u)) ms" for x
    by (intro traces_revision_transitions trace_intros) simp_all
  then show ?thesis unfolding w2 Let_def emit_plan_revised_correlation_def
    using traces_mark [where p = "PlanRevisedCorrelation (refine_event_of d a) n" for n] by (auto simp: refine_event_of_def)
qed

lemma traces_escalation: "traces ok_call w w1 ms \<Longrightarrow> traces ok_call w (escalation d detail w1) ms"
  by (simp add: escalation_def split_beta new_drift_snd traces_drift_detected trace_intros)

lemma traces_refine_failure: "traces ok_call w w1 ms \<Longrightarrow> traces ok_call w (escalate_refine_failure_as_critical_drift d reason w1) ms"
  by (simp add: escalate_refine_failure_as_critical_drift_def split_beta new_drift_snd traces_drift_detected trace_intros)

lemma traces_signal_delivered: "traces ok_call w w1 ms \<Longrightarrow> traces ok_call w (emit_signal_delivered d ch text lvl extra w1) ms"
  by (auto simp: emit_signal_delivered_def Let_def split: sum.split intro!: trace_intros)

lemma traces_outcome_escalated: "traces ok_call w w1 ms \<Longrightarrow> traces ok_call w (record_signal_outcome_escalated d w1) ms"
  by (auto simp: record_signal_outcome_escalated_def split: sum.split option.split intro!: trace_intros)

lemma traces_policy: "traces ok_call w w1 ms \<Longrightarrow> traces ok_call w (emit_policy_applied a b c e w1) ms"
  by (simp add: emit_policy_applied_def trace_intros)

lemma traces_ladder: "traces ok_call w w1 ms \<Longrightarrow> traces ok_call w (emit_ladder_transition lvl reason d w1) ms"
  by (simp add: emit_ladder_transition_def trace_intros)

lemma traces_enqueue: "traces ok_call w w1 ms \<Longrightarrow> traces ok_call w (enqueue_corrective_note d text lvl w1) ms"
  by (auto simp: enqueue_corrective_note_def split: sum.split intro!: trace_intros)

lemma traces_try: "traces ok_call w w1 ms \<Longrightarrow> traces ok_call w (try_state f w1) ms"
  by (auto simp: try_state_def split: sum.split intro!: trace_intros)

lemma traces_user_steer: "traces ok_call w w1 ms \<Longrightarrow> traces ok_call w (apply_user_steer_state d w1) ms"
  by (auto simp: apply_user_steer_state_def Let_def split: sum.split prod.split intro!: trace_intros)

lemmas observer_traces = traces_drift_detected traces_escalation traces_refine_failure traces_signal_delivered
  traces_outcome_escalated traces_policy traces_ladder traces_enqueue traces_try traces_user_steer

end

section \<open>The plan under the observer\<close>

lemma try_plan [simp]: "session_plan (sess (try_state f w)) = session_plan (sess w)" "cfg (try_state f w) = cfg w"
  by (simp_all add: try_state_def on_sess_def split: sum.split)

lemma plan_frames [simp]:
  "session_plan (sess (tick w)) = session_plan (sess w)"
  "session_plan (sess (emit_drift_detected d oc rsn w)) = session_plan (sess w)"
  "session_plan (sess (escalation d detail w)) = session_plan (sess w)"
  "session_plan (sess (escalate_refine_failure_as_critical_drift d reason w)) = session_plan (sess w)"
  "session_plan (sess (emit_policy_applied a b c e w)) = session_plan (sess w)"
  "session_plan (sess (emit_ladder_transition lvl reason d w)) = session_plan (sess w)"
  "session_plan (sess (emit_refine_attempted d a w)) = session_plan (sess w)"
  "session_plan (sess (emit_refine_failed d a b c e w)) = session_plan (sess w)"
  by (simp_all add: tick_def drift_detected_frame escalation_def escalate_refine_failure_as_critical_drift_def split_beta
      new_drift_snd emit_policy_applied_def emit_ladder_transition_def emit_refine_attempted_def emit_refine_failed_def)

lemma signal_plan_frames [simp]:
  "session_plan (sess (emit_signal_outcome e w)) = session_plan (sess w)"
  "session_plan (sess (emit_signal_delivered d ch text lvl extra w)) = session_plan (sess w)"
  "session_plan (sess (record_signal_outcome_escalated d w)) = session_plan (sess w)"
  "session_plan (sess (enqueue_corrective_note d text lvl w)) = session_plan (sess w)"
  by (simp_all add: emit_signal_outcome_def emit_signal_delivered_def record_signal_outcome_escalated_def
      enqueue_corrective_note_def Let_def on_sess_def split: sum.split option.split)

definition acts :: "(plugin_call \<Rightarrow> bool) \<Rightarrow> world \<Rightarrow> world \<Rightarrow> attempt_mark list \<Rightarrow> bool" where
  "acts P w w' ms \<longleftrightarrow> traces P w w' ms \<and> (plan_held w \<longrightarrow> history_step w w')"

lemma acts_trans: "acts P w w1 ms \<Longrightarrow> acts P w1 w2 ns \<Longrightarrow> acts P w w2 (ms @ ns)"
  unfolding acts_def using traces_trans history_trans by (meson history_step_def)

lemma acts_plan: "traces P w w' ms \<Longrightarrow> session_plan (sess w') = session_plan (sess w) \<Longrightarrow> acts P w w' ms"
  by (simp add: acts_def history_same)

lemma acts_failed:
  assumes "plan_held w"
  shows "\<exists>w'. mark_task_failed i reason rec src disp w = Inr w' \<and> acts P w w' []"
proof -
  have "plan_ids_ok w" using assms by (simp add: plan_held_def plan_ids_ok_def ids_ok_def)
  from marks.step_steps [OF this, of "Fail i reason rec src disp"] obtain w' where
    "mark_task_failed i reason rec src disp w = Inr w'" by (auto simp: steps_to_def)
  moreover from this history_task_call [OF assms, of "Fail i reason rec src disp"] have "history_step w w'" by simp
  ultimately show ?thesis using traces_mark_failed [OF _ traces_refl] by (auto simp: acts_def)
qed

lemma acts_sess: "session_plan (f (sess w)) = session_plan (sess w) \<Longrightarrow> acts P w (on_sess f w) []"
  by (intro acts_plan trace_intros) (simp add: on_sess_def)

lemma held_same: "plan_held w \<Longrightarrow> session_plan (sess w') = session_plan (sess w) \<Longrightarrow> plan_held w'"
  by (simp add: plan_held_def)

lemma held_acts: "acts P w w' ms \<Longrightarrow> plan_held w \<Longrightarrow> plan_held w'"
  by (simp add: acts_def history_step_def)

context call_policy
begin

lemma acts_refine_outcome:
  assumes "plan_held w"
  shows "\<exists>w'. record_refine_outcome d ok w = Inr w' \<and> acts ok_call w w' []"
proof -
  let ?r = "\<lambda>o' w. on_sess (\<lambda>s. s\<lparr>refine_outcomes := (refine_outcomes s)(refine_key d \<mapsto> o')\<rparr>) w"
  have r: "acts ok_call w (?r o' w) []" for o' by (rule acts_sess) simp
  define n where "n = (case refine_outcomes (sess w) (refine_key d) of
    Some r \<Rightarrow> if refine_state r = Failed then fail_count r + 1 else 1 | None \<Rightarrow> 1)"
  let ?w = "?r \<lparr>refine_state = Failed, fail_count = n\<rparr> w"
  let ?m = "if drift_task d \<noteq> [] then mark_task_failed (drift_task d) (''refine repeatedly failed for '' @ drift_kind_value (drift_kind d))
    False ''other'' True ?w else Inr ?w"
  consider "drift_kind d \<in> USER_OR_TRAJECTORY_DRIFT_KINDS" | "drift_kind d \<notin> USER_OR_TRAJECTORY_DRIFT_KINDS" "ok \<or> n < REFINE_FAILURE_THRESHOLD"
    | "drift_kind d \<notin> USER_OR_TRAJECTORY_DRIFT_KINDS" "\<not> ok" "\<not> n < REFINE_FAILURE_THRESHOLD" by blast
  then show ?thesis
  proof cases
    case 3
    have "plan_held ?w" by (rule held_acts [OF r assms])
    then have "\<exists>v. ?m = Inr v \<and> acts ok_call ?w v []"
    proof (cases "drift_task d = []")
      case False
      then show ?thesis using acts_failed [OF \<open>plan_held ?w\<close>] by (simp only: simp_thms if_True)
    qed (simp add: acts_plan traces_refl)
    then obtain v where v: "?m = Inr v" "acts ok_call ?w v []" by blast
    from 3 v(1) have "\<exists>x. record_refine_outcome d ok w = Inr (emit_drift_detected x [] [] (tick v))"
      unfolding record_refine_outcome_def Let_def split_beta new_drift_snd n_def [symmetric]
        if_not_P [OF 3(1)] if_not_P [OF 3(2)] if_not_P [OF 3(3)] v(1) ebind.simps by blast
    then obtain x where "record_refine_outcome d ok w = Inr (emit_drift_detected x [] [] (tick v))" ..
    moreover have "acts ok_call v (emit_drift_detected x [] [] (tick v)) []"
      by (intro acts_plan traces_drift_detected trace_intros) simp
    ultimately show ?thesis using acts_trans [OF acts_trans [OF r v(2)]] by auto
  qed (use r acts_plan [OF traces_refl] in \<open>auto simp: record_refine_outcome_def Let_def n_def\<close>)
qed

lemma acts_plan_revised:
  assumes "validate r True (session_plan (sess w)) = None" "cfg w1 = cfg w" "session_plan (sess w1) = session_plan (sess w)"
    and "traces ok_call w w1 ms"
  shows "\<exists>w2. emit_plan_revised (fst (stamped w r d)) d (session_plan (sess w)) a (\<not> snd (stamped w r d)) w1 = Inr w2 \<and>
    acts ok_call w w2 (ms @ (if a \<noteq> [] then [Closed a] else []))"
proof -
  obtain w2 where w2: "emit_plan_revised (fst (stamped w r d)) d (session_plan (sess w)) a (\<not> snd (stamped w r d)) w1 = Inr w2"
    "session_plan (sess w2) = (if snd (stamped w r d) then Some (landed w r d) else session_plan (sess w))"
    using emit_plan_revised_ok [of "fst (stamped w r d)" d "session_plan (sess w)" a "\<not> snd (stamped w r d)" w1]
    by (auto simp: assms landed_def)
  have "history_step w w2" if "plan_held w"
  proof (cases "snd (stamped w r d)")
    case True
    from assms(1) have "ids_ok r" "\<And>p. session_plan (sess w) = Some p \<Longrightarrow> preserves r p"
      by (simp_all add: validate_None plan_ok_def dag_ok_def)
    from history_landed [OF that this] w2(2) True show ?thesis by simp
  qed (use w2(2) history_same [OF that] in simp)
  then show ?thesis using w2(1) traces_plan_revised [OF w2(1) assms(4)] by (auto simp: acts_def)
qed

end

section \<open>The observer as a whole\<close>

definition sways :: "(plugin_call \<Rightarrow> bool) \<Rightarrow> (ControlMessage \<Rightarrow> bool) \<Rightarrow> bool \<Rightarrow> observer \<Rightarrow> observer \<Rightarrow> attempt_mark list \<Rightarrow> bool" where
  "sways P Q nudge b b' ms \<longleftrightarrow> pol b' = pol b \<and> inflight_refine_keys b' = inflight_refine_keys b \<and>
     acts P (core b) (core b') ms \<and> (nudge \<or> pending_nudges b' = pending_nudges b) \<and>
     (\<exists>xs. control_channel b' = map_option (\<lambda>c. c\<lparr>inbox := inbox c @ xs\<rparr>) (control_channel b) \<and> list_all Q xs)"

lemma acts_refl: "acts P w w []"
  by (simp add: acts_plan traces_refl)

lemma channel_same: "c = map_option (\<lambda>c. c\<lparr>inbox := inbox c @ []\<rparr>) c"
  by (cases c) simp_all

lemma sways_core:
  assumes "acts P (core b) w ms"
  shows "sways P Q nudge b (b\<lparr>core := w\<rparr>) ms"
  using assms channel_same [of "control_channel b"] by (auto simp: sways_def intro!: exI [of _ "[]"])

lemma sways_refl: "sways P Q nudge b b []"
  using sways_core [OF acts_refl, where b = b] by simp

lemma sways_trans:
  assumes "sways P Q nudge b b1 ms" "sways P Q nudge b1 b2 ns"
  shows "sways P Q nudge b b2 (ms @ ns)"
proof -
  from assms obtain xs ys where "control_channel b1 = map_option (\<lambda>c. c\<lparr>inbox := inbox c @ xs\<rparr>) (control_channel b)" "list_all Q xs"
    "control_channel b2 = map_option (\<lambda>c. c\<lparr>inbox := inbox c @ ys\<rparr>) (control_channel b1)" "list_all Q ys"
    by (auto simp: sways_def)
  then have "control_channel b2 = map_option (\<lambda>c. c\<lparr>inbox := inbox c @ (xs @ ys)\<rparr>) (control_channel b)" "list_all Q (xs @ ys)"
    by (simp_all add: option.map_comp comp_def)
  moreover have "acts P (core b) (core b2) (ms @ ns)" "nudge \<or> pending_nudges b2 = pending_nudges b"
    "pol b2 = pol b" "inflight_refine_keys b2 = inflight_refine_keys b"
    using assms acts_trans by (auto simp: sways_def)
  ultimately show ?thesis unfolding sways_def by blast
qed

lemma sways_quiet: "sways P Q nudge b b1 ms \<Longrightarrow> sways P Q nudge b1 b2 [] \<Longrightarrow> sways P Q nudge b b2 ms"
  using sways_trans [of P Q nudge b b1 ms b2 "[]"] by simp

lemma sways_after: "sways P Q nudge b b1 [] \<Longrightarrow> sways P Q nudge b1 b2 ms \<Longrightarrow> sways P Q nudge b b2 ms"
  using sways_trans [of P Q nudge b b1 "[]" b2 ms] by simp

lemma sways_frame: "sways P Q nudge b b' ms \<Longrightarrow> pol b' = pol b \<and> cfg (core b') = cfg (core b)"
  by (simp add: sways_def acts_def traces_def)

lemma sways_held: "sways P Q nudge b b' ms \<Longrightarrow> plan_held (core b) \<Longrightarrow> plan_held (core b')"
  using held_acts by (auto simp: sways_def)

lemma sways_on_core:
  "traces P (core b) (f (core b)) ms \<Longrightarrow> session_plan (sess (f (core b))) = session_plan (sess (core b)) \<Longrightarrow>
   sways P Q nudge b (on_core f b) ms"
  by (simp add: on_core_def sways_core acts_plan)

lemma sways_send:
  assumes "control_channel b \<noteq> None \<Longrightarrow> Q m"
  shows "sways P Q nudge b (snd (dispatch_goldfive_control m b)) []"
proof (cases "control_channel b")
  case (Some c)
  have "sways P Q nudge b (b\<lparr>control_channel := Some (c\<lparr>inbox := inbox c @ [m]\<rparr>)\<rparr>) []"
    using assms Some by (auto simp: sways_def acts_refl intro!: exI [of _ "[m]"])
  then show ?thesis by (simp add: dispatch_goldfive_control_def Some send_def)
qed (simp add: dispatch_goldfive_control_def sways_refl)

end
