(* ===== verification/Ladder_Safety.thy ===== *)
theory Ladder_Safety
  imports Ladder_Effects
begin

text \<open>
  What handling a drift can do to a run, proved once in a locale whose parameters say which effects are
  acceptable; its interpretations are the two regimes the code promises, observing only and advising only.
\<close>

section \<open>Regimes\<close>

text \<open>
  The interface between a regime and the handler: which plugin calls, control messages and nudges a drift of
  kind \<open>k\<close> may cause under a configuration and a policy. The assumptions name the conditions under which the
  handler has each effect.
\<close>

definition situated :: "config \<Rightarrow> policy \<Rightarrow> DriftKind \<Rightarrow> drift_event \<Rightarrow> observer \<Rightarrow> bool" where
  "situated cf pl k d b \<longleftrightarrow> cfg (core b) = cf \<and> pol b = pl \<and> drift_kind d = k"

text \<open>A handler that ran up to the planner, or to its end: the refine it opened and the frame it left.\<close>

definition opened :: "refine_frame option \<Rightarrow> attempt_mark list" where
  "opened fr = (case fr of None \<Rightarrow> [] | Some f \<Rightarrow> [Opened (fr_attempt f)])"

definition level_fits :: "policy \<Rightarrow> refine_frame \<Rightarrow> bool" where
  "level_fits pl f \<longleftrightarrow> (fr_level f = Some CANCEL_REINVOKE \<longrightarrow> legacy_ladder pl \<or> drift_kind (fr_drift f) = RUNAWAY_DELEGATION)"

definition frame_fits :: "config \<Rightarrow> policy \<Rightarrow> drift_event \<Rightarrow> refine_frame \<Rightarrow> bool" where
  "frame_fits cf pl d f \<longleftrightarrow> fr_drift f = d \<and> fr_attempt f \<in> range (uuid_hex cf) \<and> level_fits pl f"

lemma opened_simps [simp]: "opened None = []" "opened (Some f) = [Opened (fr_attempt f)]"
  by (simp_all add: opened_def)

lemma cancel_reinvoke_only:
  "ladder_level_for legacy kind sev n = CANCEL_REINVOKE \<Longrightarrow> legacy \<or> kind = RUNAWAY_DELEGATION"
  by (cases kind; cases sev) (auto simp: ladder_level_for_def LADDER_def Let_def split: if_splits)

definition attributed :: "drift_event \<Rightarrow> drift_event" where
  "attributed d = (if authored_by d = [] then d\<lparr>authored_by := resolve_authored_by d\<rparr> else d)"

lemma attributed_simps [simp]:
  "drift_kind (attributed d) = drift_kind d" "drift_task (attributed d) = drift_task d" "drift_id (attributed d) = drift_id d"
  "observed_revision_index (attributed d) = observed_revision_index d" "facts_ok (attributed d) = facts_ok d"
  by (simp_all add: attributed_def facts_ok_def)

text \<open>The observer without its in-flight registry, which only the outermost handler touches.\<close>

definition forget :: "observer \<Rightarrow> observer" where
  "forget b = b\<lparr>inflight_refine_keys := {}\<rparr>"

lemma forget_simps [simp]: "core (forget b) = core b" "pol (forget b) = pol b" "control_channel (forget b) = control_channel b"
  "pending_nudges (forget b) = pending_nudges b" "forget (b\<lparr>inflight_refine_keys := x\<rparr>) = forget b"
  by (simp_all add: forget_def)

lemma sways_forget: "sways P Q nudge b b' ms \<Longrightarrow> sways P Q nudge (forget b) (forget b') ms"
  by (auto simp: sways_def forget_def)

text \<open>What a handler leaves in the registry: its own slot while it is suspended, nothing once it has ended.\<close>

definition takes_slot :: "refine_frame option \<Rightarrow> observer \<Rightarrow> observer \<Rightarrow> bool" where
  "takes_slot fr b b' \<longleftrightarrow>
     (case fr of
        None \<Rightarrow> inflight_refine_keys b' = inflight_refine_keys b
      | Some f \<Rightarrow> (case fr_key f of
                     None \<Rightarrow> inflight_refine_keys b' = inflight_refine_keys b
                   | Some s \<Rightarrow> s \<notin> inflight_refine_keys b \<and> inflight_refine_keys b' = insert s (inflight_refine_keys b)))"

locale influence = call_policy ok_call
  for ok_call :: "plugin_call \<Rightarrow> bool" +
  fixes cf :: config and pl :: policy and k :: DriftKind
    and ok_message :: "ControlMessage \<Rightarrow> bool" and ok_nudge :: bool
  assumes ok_cancel: "is_active_steering cf \<Longrightarrow> cancel_scope_all cf \<or> k \<in> USER_AUTHORED_DRIFT_KINDS \<union> HARD_SAFETY_DRIFT_KINDS \<Longrightarrow>
      ok_call (RequestInvocationCancel i r inflight)"
    and ok_pause: "is_active_steering cf \<Longrightarrow> msg_kind m = CK_GOLDFIVE_PAUSE_ESCALATE \<Longrightarrow> ok_message m"
    and ok_steer: "is_active_steering cf \<Longrightarrow> legacy_ladder pl \<or> k = RUNAWAY_DELEGATION \<Longrightarrow> msg_kind m = CK_GOLDFIVE_STEER \<Longrightarrow>
      ok_message m"
    and ok_queue: "is_active_steering cf \<Longrightarrow> \<not> request_context cf \<Longrightarrow> ok_nudge"
begin

abbreviation at :: "drift_event \<Rightarrow> observer \<Rightarrow> bool" where
  "at \<equiv> situated cf pl k"

abbreviation sway :: "observer \<Rightarrow> observer \<Rightarrow> attempt_mark list \<Rightarrow> bool" where
  "sway \<equiv> sways ok_call ok_message ok_nudge"

lemma at_sway: "sway b b' ms \<Longrightarrow> at d b \<Longrightarrow> at d b'"
  using sways_frame by (simp add: situated_def)

lemma sway_pause_control:
  assumes "at d b"
  shows "sway b (dispatch_goldfive_pause_control d reason fatal b) []"
proof -
  define b1 where "b1 = on_core (\<lambda>w. record_signal_outcome_escalated d (emit_signal_delivered d ''pause_control'' reason ''pause_escalate''
      [(''reason'', JStr reason), (''channel_action'', JStr (if is_active_steering (cfg w) then ''dispatched'' else ''suppressed''))] w)) b"
  have 1: "sway b b1 []" unfolding b1_def by (intro sways_on_core observer_traces traces_refl) simp
  have 2: "sway b1 (b1\<lparr>core := snd (new_uuid (core b1))\<rparr>) []"
    by (intro sways_core acts_plan) (simp_all add: new_uuid_def trace_intros)
  have act: "cfg (core b1) = cf" using at_sway [OF 1 assms] by (simp add: situated_def)
  show ?thesis
    unfolding dispatch_goldfive_pause_control_def Let_def split_beta b1_def [symmetric] act
    using 1 by (auto intro!: sways_quiet [OF sways_quiet [OF 1 2] sways_send] ok_pause)
qed

lemma sway_pause:
  assumes "at d b"
  shows "sway b (dispatch_pause_escalate d fatal b) []"
proof (cases "k = HUMAN_INTERVENTION_REQUIRED")
  case False
  let ?g = "\<lambda>w. let cid = compute_condition_id (sha1_hex (cfg w)) (drift_kind d) (drift_task d) (drift_agent d) (run_id (sess w));
               w = (case escalate_drift_to_human_intervention (state (sess w)) cid of
                      Inl _ \<Rightarrow> w | Inr (_, st) \<Rightarrow> on_sess (\<lambda>s. s\<lparr>state := st\<rparr>) w)
           in escalation d (with_detail ''escalated'' d) w"
  have g: "sway b1 (on_core ?g b1) []" for b1
    by (rule sways_on_core) (auto simp: Let_def on_sess_def split: sum.split prod.split
        intro!: traces_escalation traces_refl traces_sess [unfolded on_sess_def])
  have eq: "dispatch_pause_escalate d fatal b = on_core ?g (dispatch_goldfive_pause_control d
      (with_detail (if fatal then ''terminate'' else ''pause_escalate'') d) fatal b)"
    using False assms unfolding dispatch_pause_escalate_def Let_def situated_def by (simp only: if_False)
  show ?thesis unfolding eq by (rule sways_quiet [OF sway_pause_control [OF assms] g])
qed (use assms sway_pause_control in \<open>simp add: dispatch_pause_escalate_def situated_def Let_def\<close>)

lemma sway_escalation: "sway b (on_core (escalation d reason) b) []"
  by (intro sways_on_core observer_traces traces_refl) simp

lemma sway_exhausted: "at d b \<Longrightarrow> sway b (emit_handler_exhausted_escalation d b) []"
  unfolding emit_handler_exhausted_escalation_def Let_def by (rule sways_quiet [OF sway_pause_control sway_escalation])

lemma sway_tick: "sway b (on_core tick b) []"
  by (intro sways_on_core trace_intros) simp

lemma sway_stalled:
  assumes "at d b"
  shows "sway b (emit_progress_stalled_escalation d b) []"
proof -
  have t: "sway b (case x of Some _ \<Rightarrow> on_core tick b | None \<Rightarrow> b) []" for x :: "int option"
    by (cases x) (simp_all add: sway_tick sways_refl)
  show ?thesis unfolding emit_progress_stalled_escalation_def Let_def
    by (rule sways_quiet [OF sways_quiet [OF t sway_pause_control [OF at_sway [OF t assms]]] sway_escalation])
qed

lemma sway_pacing:
  assumes "at d b"
  shows "sway b (snd (apply_signal_pacing d pc b)) []"
proof (cases pc)
  case Escalate
  have "sway (dispatch_pause_escalate d False b) (on_core (record_signal_outcome_escalated d) (dispatch_pause_escalate d False b)) []"
    by (intro sways_on_core observer_traces traces_refl) simp
  with sway_pause [OF assms, of False] Escalate show ?thesis by (simp add: apply_signal_pacing_def sways_quiet)
qed (simp_all add: apply_signal_pacing_def sways_refl)

lemma sway_route:
  assumes "at d b"
  shows "sway b (route_corrective_note d text lvl installed b) []"
proof -
  have c: "cfg (core b) = cf" using assms by (simp add: situated_def)
  consider "request_context cf" | "\<not> request_context cf" "\<not> is_active_steering cf" | "\<not> request_context cf" "is_active_steering cf" by blast
  then show ?thesis
  proof cases
    case 1
    then show ?thesis unfolding route_corrective_note_def c
      by (simp only: if_True) (intro sways_on_core traces_signal_delivered traces_enqueue traces_refl, simp)
  next
    case 2
    then show ?thesis unfolding route_corrective_note_def c
      by (simp only: if_False if_True simp_thms) (intro sways_on_core traces_signal_delivered traces_policy traces_refl, simp)
  next
    case 3
    let ?b = "b\<lparr>pending_nudges := pending_nudges b @ [text], nudges_revision_installed := (installed \<or> nudges_revision_installed b)\<rparr>"
    have "sway b ?b []"
      using ok_queue [OF 3(2,1)] channel_same [of "control_channel b"] by (auto simp: sways_def acts_refl intro!: exI [of _ "[]"])
    moreover have "sway ?b (on_core (emit_signal_delivered d ''nudge_replay'' text lvl [(''channel_action'', JStr ''queued'')]) ?b) []"
      by (intro sways_on_core observer_traces traces_refl) simp
    ultimately have "sway b (on_core (emit_signal_delivered d ''nudge_replay'' text lvl [(''channel_action'', JStr ''queued'')]) ?b) []"
      by (rule sways_quiet)
    with 3 show ?thesis unfolding route_corrective_note_def c by (simp only: if_False simp_thms)
  qed
qed

lemma sway_nudge:
  assumes "at d b" "facts_ok d"
  shows "\<exists>b'. dispatch_nudge d b = Inr b' \<and> sway b b' []"
  using compose_total [OF assms(2), of "sess (core b)"] sway_route [OF assms(1)] by (auto simp: dispatch_nudge_def)

lemma sway_steer:
  assumes "at d b" "facts_ok d" "legacy_ladder pl \<or> k = RUNAWAY_DELEGATION"
  shows "\<exists>b'. dispatch_goldfive_steer_control d body b = Inr b' \<and> sway b b' []"
proof -
  obtain msg where msg: "(if body \<noteq> [] then Inr body else compose_note_for_drift d (sess (core b))) = Inr msg"
    using compose_total [OF assms(2), of "sess (core b)"] by (cases "body = []") auto
  let ?w = "\<lambda>ch lvl extra. emit_signal_delivered d ch msg lvl extra (snd (new_uuid (core b)))"
  have tw: "traces ok_call (core b) (?w ch lvl extra) []" for ch lvl extra
    by (auto simp: new_uuid_def intro!: observer_traces trace_intros)
  then have cw: "cfg (?w ch lvl extra) = cf" for ch lvl extra using assms(1) by (simp add: traces_def situated_def)
  have s1: "sway b (b\<lparr>core := ?w ch lvl extra\<rparr>) []" for ch lvl extra by (intro sways_core acts_plan tw) simp
  have s2: "sway b (b\<lparr>core := emit_policy_applied x1 x2 x3 x4 (?w ch lvl extra)\<rparr>) []" for x1 x2 x3 x4 ch lvl extra
    by (intro sways_core acts_plan observer_traces tw) simp
  show ?thesis
    unfolding dispatch_goldfive_steer_control_def msg ebind.simps Let_def split_beta cw
    by (cases "is_active_steering cf") (auto intro!: s2 sways_quiet [OF s1 sways_send] ok_steer assms(3))
qed

lemma sway_ledger:
  assumes "at d b" "facts_ok d" "plan_held (core b)"
  shows "\<exists>b'. ledger_retire_refine d b = Inr b' \<and> sway b b' []"
proof -
  have "\<exists>b'. (case mark_task_failed (drift_task d) reason True src True (core b) of Inl _ \<Rightarrow> dispatch_nudge d b | Inr w \<Rightarrow> Inr (b\<lparr>core := w\<rparr>)) = Inr b' \<and>
      sway b b' []" for reason src
    using acts_failed [OF assms(3), of "drift_task d" reason True src True ok_call] sways_core by auto
  then show ?thesis using sway_nudge [OF assms(1,2)] sway_pause [OF assms(1)] by (simp add: ledger_retire_refine_def)
qed

abbreviation handled :: "drift_event \<Rightarrow> observer \<Rightarrow> py_error + refine_frame option \<times> observer \<Rightarrow> bool" where
  "handled d b r \<equiv> (\<exists>fr b'. r = Inr (fr, b') \<and> sway b b' (opened fr) \<and> pred_option (frame_fits cf pl d) fr)"

lemma handled_after: "sway b b1 [] \<Longrightarrow> handled d b1 r \<Longrightarrow> handled d b r"
  using sways_after by blast

lemma handled_end: "sway b b' [] \<Longrightarrow> handled d b (Inr (None, b'))"
  by simp

lemma handled_stop:
  assumes "\<exists>b'. r = Inr b' \<and> sway b b' []"
  shows "handled d b (ebind r (\<lambda>b. Inr (None, b)))"
  using assms by auto

lemma handled_refine:
  assumes "at d b" "lvl = Some CANCEL_REINVOKE \<Longrightarrow> legacy_ladder pl \<or> k = RUNAWAY_DELEGATION"
  shows "handled d b (Inr (stall_or_refine d lvl body b))"
proof -
  obtain st w where st: "is_task_progress_stalled (pol b) d (core b) = (st, w)" by force
  then have "w = core b \<or> w = tick (core b)" by (auto simp: is_task_progress_stalled_def split: if_splits option.splits)
  then have 1: "sway b (b\<lparr>core := w\<rparr>) []" using sways_core acts_plan traces_refl traces_tick plan_frames(1) by (metis)
  show ?thesis
  proof (cases st)
    case True
    with st sways_quiet [OF 1 sway_stalled [OF at_sway [OF 1 assms(1)]]] show ?thesis by (simp add: stall_or_refine_def)
  next
    case False
    have "traces ok_call (core b) (emit_refine_attempted d a (tick w)) [Opened a]" for a
      using 1 traces_mark [where P = ok_call and w = "core b" and ms = "[]" and ?w1.0 = "tick w" and p = "RefineAttempted (refine_event_of d a)"]
      by (simp add: sways_def acts_def emit_refine_attempted_def refine_event_of_def traces_tick)
    moreover have "session_plan (sess w) = session_plan (sess (core b))" "cfg w = cf"
      using \<open>w = core b \<or> w = tick (core b)\<close> assms(1) by (auto simp: situated_def tick_def)
    ultimately have "sway b (b\<lparr>core := emit_refine_attempted d (uuid_hex cf (ticks w)) (tick w)\<rparr>) [Opened (uuid_hex cf (ticks w))]"
      by (intro sways_core acts_plan) simp_all
    with st False assms \<open>cfg w = cf\<close> show ?thesis
      by (simp add: stall_or_refine_def begin_refine_def new_uuid_def frame_fits_def level_fits_def situated_def)
  qed
qed

lemma handled_dispatch_refine:
  assumes "at d b" "facts_ok d" "plan_held (core b)" "lvl = CANCEL_REINVOKE \<Longrightarrow> legacy_ladder pl \<or> k = RUNAWAY_DELEGATION"
  shows "handled d b (dispatch_refine d lvl b)"
proof -
  have skip: "sway b (on_core (emit_refine_skipped d r) b) []" for r
    by (rule sways_on_core) (auto simp: emit_refine_skipped_def intro!: traces_policy traces_refl)
  show ?thesis
    using handled_stop [OF sway_ledger [OF assms(1-3)]] handled_end [OF sways_refl] handled_end [OF skip]
      handled_refine [OF assms(1), of "Some lvl" "[]"] assms(4)
    by (auto simp: dispatch_refine_def split: option.split)
qed

lemma handled_level:
  assumes "at d b" "facts_ok d" "plan_held (core b)" "lvl = CANCEL_REINVOKE \<Longrightarrow> legacy_ladder pl \<or> k = RUNAWAY_DELEGATION"
  shows "handled d b (dispatch_level d lvl b)"
proof (cases lvl)
  case SIGNAL
  obtain stop b1 where p: "apply_signal_pacing d (signal_pacing_decision (pol b) d (core b)) b = (stop, b1)" by force
  then have 1: "sway b b1 []" using sway_pacing [OF assms(1), of "signal_pacing_decision (pol b) d (core b)"] by simp
  have "handled d b (ebind (dispatch_nudge d b1) (\<lambda>b. Inr (None, b)))"
    by (rule handled_after [OF 1 handled_stop [OF sway_nudge [OF at_sway [OF 1 assms(1)] assms(2)]]])
  with 1 p SIGNAL show ?thesis by (cases stop) (simp_all add: dispatch_level_def)
qed (use handled_dispatch_refine [OF assms(1-3), of lvl] assms(4) sways_refl sway_pause [OF assms(1)] in \<open>auto simp: dispatch_level_def\<close>)

lemma handled_ladder:
  assumes "at d b" "facts_ok d" "plan_held (core b)"
  shows "handled d b (climb_ladder d b)"
proof -
  let ?n = "occurrence_count_for_ladder (sess (core b)) d"
  let ?l = "ladder_level_for (legacy_ladder (pol b)) (drift_kind d) (drift_severity d) ?n"
  have 1: "sway b (on_core (emit_ladder_transition ?l (ladder_reason ?n) d) b) []"
    by (intro sways_on_core observer_traces traces_refl) simp
  have "?l = CANCEL_REINVOKE \<Longrightarrow> legacy_ladder pl \<or> k = RUNAWAY_DELEGATION"
    using cancel_reinvoke_only [of "legacy_ladder (pol b)" "drift_kind d" "drift_severity d" ?n] assms(1) by (simp add: situated_def)
  from handled_level [OF at_sway [OF 1 assms(1)] assms(2) sways_held [OF 1 assms(3)] this] show ?thesis
    unfolding climb_ladder_def Let_def by (rule handled_after [OF 1])
qed

lemma handled_promotion:
  assumes "at d b" "facts_ok d"
  shows "handled d b (promote_drift_to_steer d b)"
proof -
  obtain body where body: "compose_note_for_drift d (sess (core b)) = Inr body" using compose_total [OF assms(2)] by blast
  have tag: "sway b (b\<lparr>next_cancel_reason := r, last_cancel_reason_prefix := q\<rparr>) []" for b r q
    using channel_same [of "control_channel b"] by (auto simp: sways_def acts_refl intro!: exI [of _ "[]"])
  have tries: "sway b (on_core (\<lambda>w. try_state (f w) w) b) []" for b f
    by (intro sways_on_core traces_try traces_refl) simp
  have "(write_adapter_cancel_reason r b)\<lparr>last_cancel_reason_prefix := r\<rparr> =
      b\<lparr>next_cancel_reason := (if has_adapter (pol b) then r else next_cancel_reason b), last_cancel_reason_prefix := r\<rparr>" for r b
    by (simp add: write_adapter_cancel_reason_def)
  then have "sway b (stamp_legacy_steer d body b) []"
    unfolding stamp_legacy_steer_def Let_def using sways_quiet [OF tag tries] by simp
  then have 1: "sway b (if legacy_ladder (pol b) then stamp_legacy_steer d body b else b) []" by (simp add: sways_refl)
  define b1 where "b1 = (if legacy_ladder (pol b) then stamp_legacy_steer d body b else b)"
  have 2: "sway b1 (if drift_id d \<noteq> [] then on_core (try_state (\<lambda>st. record_processed_steer_id st (drift_id d))) b1 else b1) []"
    using tries [of b1 "\<lambda>_ st. record_processed_steer_id st (drift_id d)"] by (simp add: sways_refl)
  define b2 where "b2 = (if drift_id d \<noteq> [] then on_core (try_state (\<lambda>st. record_processed_steer_id st (drift_id d))) b1 else b1)"
  have 3: "sway b b2 []" using sways_quiet [OF 1 [folded b1_def] 2] by (simp only: b2_def)
  have "handled d b2 (if \<not> has_planner (pol b2) \<or> session_plan (sess (core b2)) = None then Inr (None, b2)
      else case refine_gate d (sess (core b2)) of Some _ \<Rightarrow> Inr (None, b2) | None \<Rightarrow> Inr (stall_or_refine d None body b2))"
    using handled_end [OF sways_refl] handled_refine [OF at_sway [OF 3 assms(1)], of None] by (auto split: option.split)
  then show ?thesis unfolding promote_drift_to_steer_def body ebind.simps Let_def b1_def [symmetric] b2_def [symmetric]
    by (rule handled_after [OF 3])
qed

lemma traces_cancel:
  assumes "cfg w = cf" "drift_kind d = k"
  shows "traces ok_call w (cancel_for_drift d w) []"
proof (cases "should_request_cancel_for_drift cf d")
  case True
  then have "cancel_scope_all cf \<or> k \<in> USER_AUTHORED_DRIFT_KINDS \<union> HARD_SAFETY_DRIFT_KINDS"
    using assms(2) by (auto simp: should_request_cancel_for_drift_def drift_authorizes_inflight_cancel_def split: if_splits)
  then have req: "traces ok_call v (request_invocation_cancel d False v) []" if "cfg v = cf" for v
    using that ok_cancel by (auto simp: traces_def request_cancel_frame request_cancel_calls list_all_iff)
  have "traces ok_call w (w\<lparr>cancelled_drift_ids := x\<rparr>) []" for x by (simp add: traces_def)
  then show ?thesis using True assms(1) traces_quiet [OF _ req] req unfolding cancel_for_drift_def by (cases "drift_id d = []") simp_all
qed (use assms in \<open>simp add: cancel_for_drift_def traces_refl\<close>)

lemma cancel_plan: "session_plan (sess (cancel_for_drift d w)) = session_plan (sess w)"
  by (simp add: cancel_for_drift_def request_cancel_frame)

lemma handled_dispatch:
  assumes "at d b" "facts_ok d" "plan_held (core b)"
  shows "handled d b (handle_drift_dispatch d b)"
proof -
  define b1 where "b1 = (if drift_kind d = USER_STEER then on_core (apply_user_steer_state d) (tag_adapter_cancel_reason d b)
    else tag_adapter_cancel_reason d b)"
  have "sway b (tag_adapter_cancel_reason d b) []"
    using channel_same [of "control_channel b"]
    by (auto simp: tag_adapter_cancel_reason_def write_adapter_cancel_reason_def sways_def acts_refl intro!: exI [of _ "[]"])
  moreover have "sway v (on_core (apply_user_steer_state d) v) []" for v
    by (intro sways_on_core traces_user_steer traces_refl) simp
  ultimately have 1: "sway b b1 []" unfolding b1_def using sways_quiet by (cases "drift_kind d = USER_STEER") simp_all
  obtain pr d' where pr: "should_promote_to_steer (pol b1) d (core b1) = (pr, d')" by force
  then have d': "d' = d \<or> suppressed_by_user_steer d'" by (auto simp: should_promote_to_steer_def split: if_splits)
  define b2 where "b2 = on_core (emit_drift_detected d' [] []) b1"
  have 2: "sway b b2 []"
    unfolding b2_def by (rule sways_quiet [OF 1]) (intro sways_on_core observer_traces traces_refl, simp)
  show ?thesis
  proof (cases "suppressed_by_user_steer d'")
    case True
    with 2 show ?thesis unfolding handle_drift_dispatch_def Let_def b1_def [symmetric] pr prod.case b2_def [symmetric] by simp
  next
    case False
    with d' have [simp]: "d' = d" by simp
    define b3 where "b3 = on_core (cancel_for_drift d) b2"
    have "sway b2 b3 []" unfolding b3_def
      by (rule sways_on_core) (use at_sway [OF 2 assms(1)] in \<open>simp_all add: traces_cancel cancel_plan situated_def\<close>)
    then have 3: "sway b b3 []" by (rule sways_quiet [OF 2])
    note at3 = at_sway [OF 3 assms(1)]
    obtain stop b4 where p: "apply_signal_pacing d (signal_pacing_decision (pol b3) d (core b3)) b3 = (stop, b4)" by force
    then have 4: "sway b b4 []"
      using sways_quiet [OF 3 sway_pacing [OF at3, of "signal_pacing_decision (pol b3) d (core b3)"]] by simp
    note at4 = at_sway [OF 4 assms(1)]
    have "handled d b (climb_ladder d b3)"
      by (rule handled_after [OF 3 handled_ladder [OF at3 assms(2) sways_held [OF 3 assms(3)]]])
    moreover have "handled d b (ebind (ledger_retire_refine d b4) (\<lambda>b. Inr (None, b)))"
      by (rule handled_after [OF 4 handled_stop [OF sway_ledger [OF at4 assms(2) sways_held [OF 4 assms(3)]]]])
    moreover have "handled d b (promote_drift_to_steer d b4)"
      by (rule handled_after [OF 4 handled_promotion [OF at4 assms(2)]])
    ultimately show ?thesis using False 4
      unfolding handle_drift_dispatch_def Let_def b1_def [symmetric] pr prod.case b2_def [symmetric]
      by (cases pr; cases stop) (simp_all add: b3_def [symmetric] p)
  qed
qed

lemma release_sway: "sway (forget b) (forget (release_slot key d b)) []"
proof -
  have "acts ok_call w (w\<lparr>cancelled_drift_ids := x\<rparr>) []" for w x by (rule acts_plan) (simp_all add: traces_def)
  then show ?thesis unfolding release_slot_def Let_def on_core_def using channel_same [of "control_channel b"]
    by (auto simp: sways_def forget_def acts_refl split: option.split intro!: exI [of _ "[]"])
qed

lemma release_keys: "inflight_refine_keys (release_slot key d b) = inflight_refine_keys b - set_option key"
  by (auto simp: release_slot_def on_core_def split: option.split)

lemma guarded_ok:
  assumes "at d b" "facts_ok d" "plan_held (core b)" "\<And>s. key = Some s \<Longrightarrow> s \<notin> inflight_refine_keys b"
  shows "\<exists>fr b'. guarded_dispatch key d (b\<lparr>inflight_refine_keys := set_option key \<union> inflight_refine_keys b\<rparr>) = Inr (fr, b') \<and>
    sway (forget b) (forget b') (opened fr) \<and> pred_option (frame_fits cf pl d) fr \<and> takes_slot fr b b'"
proof -
  let ?b = "b\<lparr>inflight_refine_keys := set_option key \<union> inflight_refine_keys b\<rparr>"
  have "handled d ?b (handle_drift_dispatch d ?b)"
    by (rule handled_dispatch) (use assms in \<open>simp_all add: situated_def\<close>)
  then obtain fr b1 where r: "handle_drift_dispatch d ?b = Inr (fr, b1)" "sway ?b b1 (opened fr)" "pred_option (frame_fits cf pl d) fr" by blast
  have s: "sway (forget b) (forget b1) (opened fr)" using sways_forget [OF r(2)] by simp
  have keys: "inflight_refine_keys b1 = set_option key \<union> inflight_refine_keys b" using r(2) by (simp add: sways_def)
  show ?thesis
  proof (cases fr)
    case None
    have "takes_slot None b (release_slot key d b1)" using assms(4) by (auto simp: takes_slot_def release_keys keys)
    with r s None sways_quiet [OF s release_sway] show ?thesis by (simp add: guarded_dispatch_def)
  next
    case (Some f)
    have "takes_slot (Some (f\<lparr>fr_key := key\<rparr>)) b b1" using assms(4) by (auto simp: takes_slot_def keys split: option.split)
    with r s Some show ?thesis by (auto simp: guarded_dispatch_def frame_fits_def level_fits_def)
  qed
qed

lemma handle_ok:
  assumes "at d b" "facts_ok d" "plan_held (core b)"
  shows "\<exists>fr b'. handle_drift d b = Inr (fr, b') \<and> sway (forget b) (forget b') (opened fr) \<and>
    pred_option (frame_fits cf pl (attributed d)) fr \<and> takes_slot fr b b'"
proof -
  have at: "at (attributed d) b" using assms(1) by (simp add: situated_def)
  have emit: "sway (forget v) (forget (on_core (emit_drift_detected x oc r) v)) []" for v x oc r
    by (rule sways_forget) (intro sways_on_core observer_traces traces_refl, simp)
  have "sway (forget b) (forget (b\<lparr>emitted_redundant := emitted_redundant b + 1\<rparr>)) []"
    using channel_same [of "control_channel b"] by (auto simp: sways_def forget_def acts_refl intro!: exI [of _ "[]"])
  then have drop: "sway (forget b) (forget (drop_redundant x oc r b)) []" for x oc r
    unfolding drop_redundant_def by (rule sways_quiet [OF _ emit])
  have keys: "takes_slot None b (on_core f b)" "takes_slot None b (drop_redundant x oc r b)" "takes_slot None b b" for f x oc r
    by (simp_all add: takes_slot_def drop_redundant_def on_core_def)
  note free = guarded_ok [OF at _ assms(3), of None, simplified]
  show ?thesis
  proof (cases "drift_kind d = PLAN_DIVERGENCE")
    case False
    define sl where "sl = refine_slot_of (attributed d) (sess (core b))"
    have held: "sl \<notin> inflight_refine_keys b \<Longrightarrow> \<exists>fr b'. guarded_dispatch (Some sl) (attributed d)
        (b\<lparr>inflight_refine_keys := insert sl (inflight_refine_keys b)\<rparr>) = Inr (fr, b') \<and>
      sway (forget b) (forget b') (opened fr) \<and> pred_option (frame_fits cf pl (attributed d)) fr \<and> takes_slot fr b b'"
      using guarded_ok [OF at _ assms(3), of "Some sl"] assms(2) by simp
    show ?thesis
      using False emit drop keys free held assms(2)
      unfolding handle_drift_def Let_def attributed_def [symmetric] sl_def [symmetric] by simp
  qed (use sways_refl keys in \<open>simp add: handle_drift_def\<close>)
qed

lemma traces_inflight_cancel:
  assumes "cfg w = cf" "drift_kind d = k"
  shows "traces ok_call w (cancel_inflight_for_revision d w) []"
proof (cases "drift_authorizes_inflight_cancel (cfg w) d")
  case True
  then have "cancel_scope_all cf \<or> k \<in> USER_AUTHORED_DRIFT_KINDS \<union> HARD_SAFETY_DRIFT_KINDS"
    using assms by (auto simp: drift_authorizes_inflight_cancel_def)
  then show ?thesis using cancel_spec(2) [OF True] assms ok_cancel by (auto simp: traces_def cancel_inflight_frame list_all_iff)
qed (simp add: cancel_inflight_for_revision_def traces_refl)

lemma refine_success:
  obtains w' where "record_refine_outcome d True w = Inr w'" "traces P w w' []" "session_plan (sess w') = session_plan (sess w)" "cfg w' = cfg w"
proof (cases "drift_kind d \<in> USER_OR_TRAJECTORY_DRIFT_KINDS")
  case True
  then show ?thesis using that [of w] traces_refl by (simp add: record_refine_outcome_def)
next
  case False
  let ?w = "on_sess (\<lambda>s. s\<lparr>refine_outcomes := (refine_outcomes s)(refine_key d \<mapsto> \<lparr>refine_state = Succeeded, fail_count = 0\<rparr>)\<rparr>) w"
  have "traces P w ?w []" by (intro trace_intros)
  then show ?thesis using that [of ?w] False by (simp add: record_refine_outcome_def on_sess_def)
qed

lemma land_ok:
  assumes "at (fr_drift fr) b" "validate r True (session_plan (sess (core b))) = None"
  shows "\<exists>inst b'. land_refined fr r b = Inr (inst, b') \<and> sway b b' (if fr_attempt fr \<noteq> [] then [Closed (fr_attempt fr)] else [])"
proof -
  let ?c = "if fr_attempt fr \<noteq> [] then [Closed (fr_attempt fr)] else []"
  obtain w where w: "record_refine_outcome (fr_drift fr) True (core b) = Inr w" "traces ok_call (core b) w []"
    "session_plan (sess w) = session_plan (sess (core b))" "cfg w = cfg (core b)" using refine_success by blast
  let ?v = "cancel_inflight_for_revision (fr_drift fr) w"
  have "traces ok_call w ?v []" using w(4) assms(1) by (intro traces_inflight_cancel) (simp_all add: situated_def)
  then have t: "traces ok_call w ?v []" "cfg ?v = cfg w" "session_plan (sess ?v) = session_plan (sess w)" by (simp_all add: cancel_inflight_frame)
  obtain w2 where w2: "emit_plan_revised (fst (stamped w r (fr_drift fr))) (fr_drift fr) (session_plan (sess w)) (fr_attempt fr)
      (\<not> snd (stamped w r (fr_drift fr))) ?v = Inr w2" "acts ok_call w w2 ?c"
    using acts_plan_revised [OF _ t(2,3,1), of r "fr_drift fr" "fr_attempt fr"] assms(2) w(3) by auto
  have "acts ok_call (core b) w2 ?c" using acts_trans [OF acts_plan [OF w(2,3)] w2(2)] by simp
  then show ?thesis using w(1) w2(1) sways_core by (auto simp: land_refined_def Let_def split_beta)
qed

lemma exhausted_ok:
  assumes "at d b" "acts ok_call (core b) w ms"
  shows "sway b (emit_handler_exhausted_escalation d (b\<lparr>core := w\<rparr>)) ms"
proof -
  have 1: "sway b (b\<lparr>core := w\<rparr>) ms" by (rule sways_core [OF assms(2)])
  show ?thesis by (rule sways_quiet [OF 1 sway_exhausted [OF at_sway [OF 1 assms(1)]]])
qed

lemma outcome_failed:
  assumes "plan_held w0" "acts ok_call w0 w ms"
  shows "\<exists>w'. record_refine_outcome d False w = Inr w' \<and> acts ok_call w0 w' ms"
  using acts_refine_outcome [OF held_acts [OF assms(2,1)], of d False] acts_trans [OF assms(2)] by fastforce

lemma failed_acts: "acts ok_call w (emit_refine_failed d a kind reason detail w) [Closed a]"
  using traces_mark [OF traces_refl, of ok_call w "RefineFailed (refine_event_of d a) kind reason detail"]
  by (intro acts_plan) (simp_all add: emit_refine_failed_def refine_event_of_def)

lemma rejected_ok:
  assumes "at (fr_drift fr) b" "plan_held (core b)"
  shows "\<exists>b'. refine_rejected fr e b = Inr b' \<and> sway b b' [Closed (fr_attempt fr)]"
proof -
  let ?w = "emit_refine_failed (fr_drift fr) (fr_attempt fr) ''validator_rejected'' (''plan validation failed: '' @ plan_error_message e)
    ''ValueError'' (core b)"
  have "acts ok_call ?w (emit_drift_detected x [] [] (tick ?w)) []" for x by (intro acts_plan observer_traces trace_intros) simp
  from acts_trans [OF failed_acts this] have "acts ok_call (core b) (emit_drift_detected x [] [] (tick ?w)) [Closed (fr_attempt fr)]" for x
    by simp
  from outcome_failed [OF assms(2) this] obtain w' where
    "\<And>x. record_refine_outcome (fr_drift fr) False (emit_drift_detected x [] [] (tick ?w)) = Inr (w' x) \<and>
      acts ok_call (core b) (w' x) [Closed (fr_attempt fr)]" by metis
  then show ?thesis using exhausted_ok [OF assms(1)] unfolding refine_rejected_def Let_def split_beta new_drift_snd by (fastforce simp only: ebind.simps)
qed

lemma followup_ok:
  assumes "at (fr_drift fr) b" "facts_ok (fr_drift fr)" "level_fits pl fr"
  shows "\<exists>b'. (if fr_level fr = None then after_promotion fr b else after_landing fr inst b) = Inr b' \<and> sway b b' []"
proof -
  have pl: "pol b = pl" using assms(1) by (simp add: situated_def)
  have "\<exists>b'. after_promotion fr b = Inr b' \<and> sway b b' []"
    using sway_steer [OF assms(1,2), of "fr_body fr"] sway_route [OF assms(1)] by (auto simp: after_promotion_def pl)
  moreover have "\<exists>b'. after_landing fr inst b = Inr b' \<and> sway b b' []"
  proof -
    obtain b1 where b1: "(if fr_level fr = Some CANCEL_REINVOKE then dispatch_goldfive_steer_control (fr_drift fr) [] b else Inr b) = Inr b1"
      "sway b b1 []"
      using sway_steer [OF assms(1,2), of "[]"] assms sways_refl [of ok_call ok_message ok_nudge b]
      by (cases "fr_level fr = Some CANCEL_REINVOKE") (auto simp: level_fits_def situated_def)
    obtain body where "compose_note_for_drift (fr_drift fr) (sess (core b1)) = Inr body" using compose_total [OF assms(2)] by blast
    then show ?thesis
      using b1 sways_quiet [OF b1(2) sway_route [OF at_sway [OF b1(2) assms(1)]]] unfolding after_landing_def Let_def b1(1) ebind.simps by auto
  qed
  ultimately show ?thesis by simp
qed

lemma answered_ok:
  assumes "at (fr_drift fr) b" "facts_ok (fr_drift fr)" "plan_held (core b)" "level_fits pl fr"
  shows "\<exists>x b' ms. refine_answered fr ans b = Inr (x, b') \<and> sway b b' ms \<and> (fr_attempt fr \<noteq> [] \<longrightarrow> ms = [Closed (fr_attempt fr)])"
proof -
  let ?d = "fr_drift fr" and ?c = "[Closed (fr_attempt fr)]"
  let ?failed = "\<lambda>kind reason detail. on_core (emit_refine_failed ?d (fr_attempt fr) kind reason detail) b"
  have ex: "sway b (emit_handler_exhausted_escalation ?d (?failed kind reason detail)) ?c" for kind reason detail
    using exhausted_ok [OF assms(1) failed_acts] by (simp add: on_core_def)
  show ?thesis
  proof (cases ans)
    case (Refined r)
    let ?r = "fold_runtime_terminal_statuses r (session_plan (sess (core b)))"
    show ?thesis
    proof (cases "validate ?r True (session_plan (sess (core b)))")
      case None
      let ?m = "if fr_attempt fr \<noteq> [] then ?c else []"
      obtain inst b1 where b1: "land_refined fr ?r b = Inr (inst, b1)" "sway b b1 ?m"
        using land_ok [OF assms(1) None] by blast
      obtain b2 where "(if fr_level fr = None then after_promotion fr b1 else after_landing fr inst b1) = Inr b2" "sway b b2 ?m"
        using followup_ok [OF at_sway [OF b1(2) assms(1)] assms(2,4), of inst] sways_quiet [OF b1(2)] by blast
      moreover from this b1 None have "\<exists>x. refine_answered fr ans b = Inr (x, if plans_structurally_identical (session_plan (sess (core b))) ?r
          then emit_handler_exhausted_escalation ?d (?failed ''no_op_revision'' ''planner returned structurally identical plan'' []) else b2)"
        by (simp add: refine_answered_def Refined Let_def)
      ultimately show ?thesis using ex by fastforce
    next
      case (Some e)
      then show ?thesis using rejected_ok [OF assms(1,3), of e] by (fastforce simp: refine_answered_def Refined Let_def)
    qed
  next
    case NoRevision
    obtain w where "record_refine_outcome ?d False (core (?failed ''parse_error'' ''planner returned no revised plan'' [])) = Inr w"
      "acts ok_call (core b) w ?c"
      using outcome_failed [OF assms(3) failed_acts] by (fastforce simp: on_core_def)
    then show ?thesis using exhausted_ok [OF assms(1)] by (auto simp: refine_answered_def NoRevision Let_def)
  next
    case (RefineRaised msg ty)
    let ?w = "core (?failed ''llm_error'' msg ty)"
    have w: "acts ok_call (core b) ?w ?c" using failed_acts by (simp add: on_core_def)
    have "acts ok_call ?w (escalate_refine_failure_as_critical_drift ?d msg ?w) []" by (intro acts_plan observer_traces traces_refl) simp
    from acts_trans [OF w this] have "acts ok_call (core b) (escalate_refine_failure_as_critical_drift ?d msg ?w) ?c" by simp
    from outcome_failed [OF assms(3) this] obtain w where
      "record_refine_outcome ?d False (escalate_refine_failure_as_critical_drift ?d msg ?w) = Inr w" "acts ok_call (core b) w ?c" by blast
    then show ?thesis using sways_core [of ok_call b w ?c ok_message ok_nudge] by (auto simp: refine_answered_def RefineRaised Let_def)
  next
    case (RefineCancelled ty)
    have "sway b (?failed kind reason detail) ?c" for kind reason detail unfolding on_core_def by (rule sways_core [OF failed_acts])
    then show ?thesis by (auto simp: refine_answered_def RefineCancelled Let_def)
  qed (use ex in \<open>auto simp: refine_answered_def Let_def\<close>)
qed

lemma resume_ok:
  assumes "at (fr_drift fr) b" "facts_ok (fr_drift fr)" "plan_held (core b)" "level_fits pl fr"
  shows "\<exists>x b' ms. resume_refine fr ans b = Inr (x, b') \<and> sway (forget b) (forget b') ms \<and>
    (fr_attempt fr \<noteq> [] \<longrightarrow> ms = [Closed (fr_attempt fr)]) \<and>
    inflight_refine_keys b' = inflight_refine_keys b - set_option (fr_key fr)"
proof -
  obtain x b1 ms where b1: "refine_answered fr ans b = Inr (x, b1)" "sway b b1 ms" "fr_attempt fr \<noteq> [] \<longrightarrow> ms = [Closed (fr_attempt fr)]"
    using answered_ok [OF assms] by blast
  moreover have "inflight_refine_keys b1 = inflight_refine_keys b" using b1(2) by (simp add: sways_def)
  ultimately show ?thesis using sways_quiet [OF sways_forget [OF b1(2)] release_sway]
    by (auto simp: resume_refine_def release_keys)
qed

end

text \<open>The two regimes.\<close>

fun is_cancel :: "plugin_call \<Rightarrow> bool" where
  "is_cancel (RequestInvocationCancel i r f) = True"
| "is_cancel _ = False"

interpretation watching: influence "\<lambda>c. is_active_steering cf \<or> \<not> is_cancel c" cf pl k "\<lambda>_. is_active_steering cf" "is_active_steering cf"
  for cf pl k
  by unfold_locales auto

interpretation advising: influence
  "\<lambda>c. is_cancel c \<longrightarrow> cancel_scope_all cf \<or> k \<in> USER_AUTHORED_DRIFT_KINDS \<union> HARD_SAFETY_DRIFT_KINDS" cf pl k
  "\<lambda>m. msg_kind m = CK_GOLDFIVE_STEER \<longrightarrow> legacy_ladder pl \<or> k = RUNAWAY_DELEGATION" True
  for cf pl k
  by unfold_locales auto

end
