(* ===== verification/Drift_Handling.thy ===== *)
theory Drift_Handling
  imports Ladder_Safety "HOL-Library.Multiset"
begin

text \<open>
  Drift handlers that run side by side. The desk is the observer together with the handlers that wait for the
  planner; a step starts a handler, answers a waiting one, or lets the rest of the program work on the session. What
  the regimes of \<open>Ladder_Safety\<close> promise of one handler is extended here to whole runs, and the registry of refines
  in flight and the refine events on the wire are shown to agree with the handlers that wait.
\<close>

section \<open>The desk\<close>

record desk =
  obs :: observer
  waiting :: "refine_frame list"

abbreviation desk_core :: "desk \<Rightarrow> world" where
  "desk_core k \<equiv> core (obs k)"

definition drop_nth :: "nat \<Rightarrow> 'a list \<Rightarrow> 'a list" where
  "drop_nth i xs = take i xs @ drop (Suc i) xs"

definition detect :: "drift_event \<Rightarrow> desk \<Rightarrow> py_error + desk" where
  "detect d k = ebind (handle_drift d (obs k)) (\<lambda>(fr, b). Inr \<lparr>obs = b, waiting = waiting k @ (case fr of None \<Rightarrow> [] | Some f \<Rightarrow> [f])\<rparr>)"

definition answer :: "nat \<Rightarrow> refine_answer \<Rightarrow> desk \<Rightarrow> py_error + desk" where
  "answer i ans k = ebind (resume_refine (waiting k ! i) ans (obs k)) (\<lambda>(x, b). Inr \<lparr>obs = b, waiting = drop_nth i (waiting k)\<rparr>)"

inductive handling :: "DriftKind set \<Rightarrow> desk \<Rightarrow> desk \<Rightarrow> bool" for K where
  Detects: "drift_kind d \<in> K \<Longrightarrow> facts_ok d \<Longrightarrow> detect d k = Inr k' \<Longrightarrow> handling K k k'"
| Answers: "i < length (waiting k) \<Longrightarrow> answer i ans k = Inr k' \<Longrightarrow> handling K k k'"

text \<open>The rest of the program: anything that leaves the observer's own registries alone and sends no refine event.\<close>

inductive desk_step :: "desk \<Rightarrow> desk \<Rightarrow> bool" where
  Handles: "handling UNIV k k' \<Longrightarrow> desk_step k k'"
| Elsewhere: "traces (\<lambda>_. True) (desk_core k) (core b) [] \<Longrightarrow> plan_held (core b) \<Longrightarrow> pol b = pol (obs k) \<Longrightarrow>
    inflight_refine_keys b = inflight_refine_keys (obs k) \<Longrightarrow> desk_step k (k\<lparr>obs := b\<rparr>)"

definition idle :: "desk \<Rightarrow> bool" where
  "idle k \<longleftrightarrow> waiting k = [] \<and> inflight_refine_keys (obs k) = {} \<and> plan_held (desk_core k)"

lemma drop_nth_set: "x \<in> set (drop_nth i xs) \<Longrightarrow> x \<in> set xs"
  by (auto simp: drop_nth_def dest: in_set_takeD in_set_dropD)

lemma drop_nth_mset: "i < length xs \<Longrightarrow> mset xs = add_mset (xs ! i) (mset (drop_nth i xs))"
  using arg_cong [OF id_take_nth_drop [of i xs], of mset] by (simp add: drop_nth_def)

section \<open>Handlers that wait\<close>

definition frame_ok :: "config \<Rightarrow> policy \<Rightarrow> DriftKind set \<Rightarrow> refine_frame \<Rightarrow> bool" where
  "frame_ok cf pl K f \<longleftrightarrow>
     drift_kind (fr_drift f) \<in> K \<and> facts_ok (fr_drift f) \<and> level_fits pl f \<and> fr_attempt f \<in> range (uuid_hex cf)"

definition staffed :: "DriftKind set \<Rightarrow> desk \<Rightarrow> bool" where
  "staffed K k \<longleftrightarrow> plan_held (desk_core k) \<and> list_all (frame_ok (cfg (desk_core k)) (pol (obs k)) K) (waiting k)"

lemma idle_staffed: "idle k \<Longrightarrow> staffed K k"
  by (simp add: idle_def staffed_def)

lemma frame_ok_fits: "frame_fits cf pl (attributed d) f \<Longrightarrow> drift_kind d \<in> K \<Longrightarrow> facts_ok d \<Longrightarrow> frame_ok cf pl K f"
  by (simp add: frame_ok_def frame_fits_def)

text \<open>The two kinds of step under a regime that covers every kind in \<open>K\<close>.\<close>

definition regime :: "(plugin_call \<Rightarrow> bool) \<Rightarrow> (ControlMessage \<Rightarrow> bool) \<Rightarrow> bool \<Rightarrow> DriftKind set \<Rightarrow> desk \<Rightarrow> bool" where
  "regime P Q nudge K k \<longleftrightarrow> (\<forall>x\<in>K. influence P (cfg (desk_core k)) (pol (obs k)) x Q nudge)"

lemma detect_ok:
  assumes "regime P Q nudge K k" "staffed K k" "drift_kind d \<in> K" "facts_ok d"
  shows "\<exists>fr b'. handle_drift d (obs k) = Inr (fr, b') \<and> sways P Q nudge (forget (obs k)) (forget b') (opened fr) \<and>
    takes_slot fr (obs k) b' \<and> pred_option (frame_ok (cfg (desk_core k)) (pol (obs k)) K) fr"
proof -
  have r: "influence P (cfg (desk_core k)) (pol (obs k)) (drift_kind d) Q nudge" using assms(1,3) by (simp add: regime_def)
  from influence.handle_ok [OF r, of d "obs k"] assms(2,4) obtain fr b' where
    "handle_drift d (obs k) = Inr (fr, b')" "sways P Q nudge (forget (obs k)) (forget b') (opened fr)" "takes_slot fr (obs k) b'"
    "pred_option (frame_fits (cfg (desk_core k)) (pol (obs k)) (attributed d)) fr"
    by (auto simp: situated_def staffed_def)
  then show ?thesis using frame_ok_fits [OF _ assms(3,4)] by (cases fr) auto
qed

lemma answer_ok:
  assumes "regime P Q nudge K k" "staffed K k" "i < length (waiting k)"
  shows "\<exists>x b' ms. resume_refine (waiting k ! i) ans (obs k) = Inr (x, b') \<and> sways P Q nudge (forget (obs k)) (forget b') ms \<and>
    (fr_attempt (waiting k ! i) \<noteq> [] \<longrightarrow> ms = [Closed (fr_attempt (waiting k ! i))]) \<and>
    inflight_refine_keys b' = inflight_refine_keys (obs k) - set_option (fr_key (waiting k ! i))"
proof -
  let ?f = "waiting k ! i"
  from assms(2,3) have f: "frame_ok (cfg (desk_core k)) (pol (obs k)) K ?f" "plan_held (desk_core k)"
    by (auto simp: staffed_def list_all_length)
  then have r: "influence P (cfg (desk_core k)) (pol (obs k)) (drift_kind (fr_drift ?f)) Q nudge"
    using assms(1) by (simp add: regime_def frame_ok_def)
  from influence.resume_ok [OF r, of ?f "obs k" ans] f show ?thesis by (simp add: situated_def frame_ok_def)
qed

text \<open>A desk that can be used is never stuck, and a step leaves it usable.\<close>

lemma sways_unforget:
  assumes "sways P Q nudge (forget b) (forget b') ms"
  shows "cfg (core b') = cfg (core b)" "pol b' = pol b" "plan_held (core b) \<Longrightarrow> plan_held (core b')"
  using sways_frame [OF assms] sways_held [OF assms] by simp_all

lemma handling_ok:
  assumes "handling K k k'" "regime P Q nudge K k" "staffed K k"
  shows "\<exists>ms. sways P Q nudge (forget (obs k)) (forget (obs k')) ms" "staffed K k'"
proof -
  have "(\<exists>ms. sways P Q nudge (forget (obs k)) (forget (obs k')) ms) \<and> staffed K k'"
    using assms(1)
  proof cases
    case (Detects d)
    from detect_ok [OF assms(2,3) Detects(1,2)] obtain fr b' where
      h: "handle_drift d (obs k) = Inr (fr, b')" "sways P Q nudge (forget (obs k)) (forget b') (opened fr)"
      "pred_option (frame_ok (cfg (desk_core k)) (pol (obs k)) K) fr" by blast
    with Detects(3) have "k' = \<lparr>obs = b', waiting = waiting k @ (case fr of None \<Rightarrow> [] | Some f \<Rightarrow> [f])\<rparr>" by (simp add: detect_def)
    then show ?thesis using h assms(3) sways_unforget [OF h(2)] by (cases fr) (auto simp: staffed_def)
  next
    case (Answers i ans)
    from answer_ok [OF assms(2,3) Answers(1), of ans] obtain x b' ms where
      h: "resume_refine (waiting k ! i) ans (obs k) = Inr (x, b')" "sways P Q nudge (forget (obs k)) (forget b') ms" by blast
    with Answers(2) have "k' = \<lparr>obs = b', waiting = drop_nth i (waiting k)\<rparr>" by (simp add: answer_def)
    then show ?thesis using h assms(3) sways_unforget [OF h(2)] by (auto simp: staffed_def list_all_iff dest: drop_nth_set)
  qed
  then show "\<exists>ms. sways P Q nudge (forget (obs k)) (forget (obs k')) ms" "staffed K k'" by blast+
qed

lemma handling_run:
  assumes "(handling K)\<^sup>*\<^sup>* k k'" "regime P Q nudge K k" "staffed K k"
  shows "\<exists>ms. sways P Q nudge (forget (obs k)) (forget (obs k')) ms" "staffed K k'" "regime P Q nudge K k'"
proof -
  from assms(1) have "(\<exists>ms. sways P Q nudge (forget (obs k)) (forget (obs k')) ms) \<and> staffed K k' \<and> regime P Q nudge K k'"
  proof induction
    case base
    show ?case using sways_refl assms by blast
  next
    case (step y z)
    then obtain ms where y: "sways P Q nudge (forget (obs k)) (forget (obs y)) ms" "staffed K y" "regime P Q nudge K y" by blast
    from handling_ok [OF step(2) y(3,2)] obtain ns where z: "sways P Q nudge (forget (obs y)) (forget (obs z)) ns" "staffed K z" by blast
    have "regime P Q nudge K z" using y(3) sways_unforget [OF z(1)] by (simp add: regime_def)
    then show ?case using sways_trans [OF y(1) z(1)] z(2) by blast
  qed
  then show "\<exists>ms. sways P Q nudge (forget (obs k)) (forget (obs k')) ms" "staffed K k'" "regime P Q nudge K k'" by blast+
qed

interpretation anything: influence "\<lambda>_. True" cf pl k "\<lambda>_. True" True for cf pl k
  by unfold_locales auto

lemma regime_any: "regime (\<lambda>_. True) (\<lambda>_. True) True K k"
  by (simp add: regime_def anything.influence_axioms)

lemma detect_total: "staffed UNIV k \<Longrightarrow> facts_ok d \<Longrightarrow> \<exists>k'. detect d k = Inr k'"
  using detect_ok [OF regime_any, of UNIV k d] by (auto simp: detect_def)

lemma answer_total: "staffed UNIV k \<Longrightarrow> i < length (waiting k) \<Longrightarrow> \<exists>k'. answer i ans k = Inr k'"
  using answer_ok [OF regime_any, of UNIV k i ans] by (auto simp: answer_def)

section \<open>The ladder\<close>

text \<open>
  The ladder only escalates. For every kind of drift but \<open>CAPABILITY_MISMATCH\<close> (whose critical cells the source
  demotes), a more severe or more often repeated drift never gets a weaker intervention; only a request for human
  intervention can terminate the run; and informational drifts never do more than observe.
\<close>

theorem ladder_escalates:
  assumes "kind \<noteq> CAPABILITY_MISMATCH" "severity_rank sev \<le> severity_rank sev'" "n \<le> n'"
  shows "level_rank (ladder_level_for legacy kind sev n) \<le> level_rank (ladder_level_for legacy kind sev' n') \<and>
    (kind \<noteq> HUMAN_INTERVENTION_REQUIRED \<longrightarrow> level_rank (ladder_level_for legacy kind sev' n') \<le> level_rank PAUSE_ESCALATE) \<and>
    ladder_level_for legacy kind INFO n = OBSERVE"
proof (cases "REFINE_FAILURE_THRESHOLD \<le> n")
  case True
  then have "REFINE_FAILURE_THRESHOLD \<le> n'" using assms(3) by simp
  with True assms(1,2) show ?thesis
    by (cases kind; cases legacy; cases sev; cases sev') (simp_all add: ladder_level_for_def LADDER_def LADDER_LEGACY_def)
next
  case False
  with assms(1,2) show ?thesis
    by (cases kind; cases legacy; cases sev; cases sev') (simp_all add: ladder_level_for_def LADDER_def LADDER_LEGACY_def)
qed

theorem ladder_escalates_witness:
  "ladder_level_for False OFF_TOPIC WARNING 0 = ABSORB \<and> ladder_level_for False OFF_TOPIC CRITICAL 2 = PAUSE_ESCALATE \<and>
   level_rank (ladder_level_for False OFF_TOPIC WARNING 0) \<le> level_rank (ladder_level_for False OFF_TOPIC CRITICAL 2)"
proof -
  have "ladder_level_for False OFF_TOPIC WARNING 0 = ABSORB" "ladder_level_for False OFF_TOPIC CRITICAL 2 = PAUSE_ESCALATE"
    by (simp_all add: ladder_level_for_def LADDER_def REFINE_FAILURE_THRESHOLD_def)
  then show ?thesis using ladder_escalates [of OFF_TOPIC WARNING CRITICAL 0 2 False] by simp
qed

section \<open>What a run of handlers can do\<close>

definition cancel_requests :: "world \<Rightarrow> plugin_call list" where
  "cancel_requests w = filter is_cancel (plugin_calls w)"

lemma sways_cancel_requests: "sways (\<lambda>c. \<not> is_cancel c) Q nudge (forget b) (forget b') ms \<Longrightarrow> cancel_requests (core b') = cancel_requests (core b)"
  by (auto simp: sways_def acts_def traces_def cancel_requests_def list_all_iff intro!: filter_False)

lemma regime_passive: "\<not> is_active_steering (cfg (desk_core k)) \<Longrightarrow> regime (\<lambda>c. \<not> is_cancel c) (\<lambda>_. False) False UNIV k"
  using watching.influence_axioms [of "cfg (desk_core k)"] by (simp add: regime_def)

lemma passive_sways:
  assumes "sways (\<lambda>c. \<not> is_cancel c) (\<lambda>_. False) False (forget b) (forget b') ms"
  shows "control_channel b' = control_channel b \<and> pending_nudges b' = pending_nudges b \<and> cancel_requests (core b') = cancel_requests (core b)"
  using assms sways_cancel_requests [OF assms] by (auto simp: sways_def option.map_ident list_all_iff)

text \<open>
  C15: observing injects nothing. While the steerer is not actively steering, whatever drifts are detected, of any
  kind and severity, and whatever the planner answers, in any order, the handlers put no message on the control
  channel, queue no nudge and ask the adapter to cancel no invocation.
\<close>

theorem observation_only_injects_nothing:
  assumes "(handling UNIV)\<^sup>*\<^sup>* k k'" "idle k" "\<not> is_active_steering (cfg (desk_core k))"
  shows "control_channel (obs k') = control_channel (obs k) \<and> pending_nudges (obs k') = pending_nudges (obs k) \<and>
    cancel_requests (desk_core k') = cancel_requests (desk_core k)"
  using handling_run(1) [OF assms(1) regime_passive [OF assms(3)] idle_staffed [OF assms(2)]] passive_sways by blast

definition sample_policy :: policy where
  "sample_policy = \<lparr>dispatch_interventions = True, legacy_ladder = False, has_planner = True, has_adapter = True,
     steer_threshold = ThresholdCritical, suppression_window = 0, grace_window = 0, stall_threshold = 0,
     pause_escalate_deadline = None\<rparr>"

definition sample_observer :: "world \<Rightarrow> observer" where
  "sample_observer w = \<lparr>core = w, pol = sample_policy, pending_nudges = [], nudges_revision_installed = False,
     control_channel = Some channel_init, inflight_refine_keys = {}, next_cancel_reason = [], last_cancel_reason_prefix = [],
     emitted_redundant = 0\<rparr>"

definition sample_desk :: "world \<Rightarrow> desk" where
  "sample_desk w = \<lparr>obs = sample_observer w, waiting = []\<rparr>"

lemma sample_desk_simps [simp]:
  "obs (sample_desk w) = sample_observer w" "waiting (sample_desk w) = []" "core (sample_observer w) = w"
  "pol (sample_observer w) = sample_policy" "control_channel (sample_observer w) = Some channel_init"
  "inflight_refine_keys (sample_observer w) = {}" "pending_nudges (sample_observer w) = []" "\<not> legacy_ladder sample_policy"
  by (simp_all add: sample_desk_def sample_observer_def sample_policy_def)

lemma sample_facts [simp]: "facts_ok (mk_drift i kd sv)" "facts_ok (d\<lparr>observed_revision_index := n\<rparr>) = facts_ok d"
  by (simp_all add: facts_ok_def mk_drift_def)

theorem observation_only_injects_nothing_witness:
  "\<exists>k'. detect (mk_drift ''d'' RUNAWAY_DELEGATION CRITICAL) (sample_desk watching_world) = Inr k' \<and>
     control_channel (obs k') = Some channel_init \<and> pending_nudges (obs k') = []"
proof -
  let ?d = "mk_drift ''d'' RUNAWAY_DELEGATION CRITICAL" and ?k = "sample_desk watching_world"
  have i: "idle ?k" by (simp add: idle_def plan_held_def)
  then obtain k' where k': "detect ?d ?k = Inr k'" using detect_total [OF idle_staffed] sample_facts(1) by blast
  then have "(handling UNIV)\<^sup>*\<^sup>* ?k k'" using Detects [of ?d UNIV ?k k'] by simp
  from observation_only_injects_nothing [OF this i] k' show ?thesis by simp
qed

text \<open>
  C16: goldfive advises, it does not seize. Under the default ladder and cancel scope, a run that handles
  drifts of any kinds but the user's own and the hard limits asks the adapter to cancel no invocation, and every
  message it puts on the control channel is something else than a steer that restarts the agent; what was on the
  channel before stays in front.
\<close>

theorem goldfive_drift_never_seizes:
  assumes "(handling (- (USER_AUTHORED_DRIFT_KINDS \<union> HARD_SAFETY_DRIFT_KINDS)))\<^sup>*\<^sup>* k k'" "idle k"
    and "\<not> cancel_scope_all (cfg (desk_core k))" "\<not> legacy_ladder (pol (obs k))"
  shows "cancel_requests (desk_core k') = cancel_requests (desk_core k) \<and>
    (\<exists>xs. control_channel (obs k') = map_option (\<lambda>c. c\<lparr>inbox := inbox c @ xs\<rparr>) (control_channel (obs k)) \<and>
      list_all (\<lambda>m. msg_kind m \<noteq> CK_GOLDFIVE_STEER) xs)"
proof -
  have "RUNAWAY_DELEGATION \<in> HARD_SAFETY_DRIFT_KINDS" by (simp add: HARD_SAFETY_DRIFT_KINDS_def)
  then have "influence (\<lambda>c. \<not> is_cancel c) (cfg (desk_core k)) (pol (obs k)) x (\<lambda>m. msg_kind m \<noteq> CK_GOLDFIVE_STEER) True"
    if "x \<notin> USER_AUTHORED_DRIFT_KINDS \<union> HARD_SAFETY_DRIFT_KINDS" for x
    using advising.influence_axioms [of "cfg (desk_core k)" x "pol (obs k)"] assms(3,4) that by (cases "x = RUNAWAY_DELEGATION") auto
  then have "regime (\<lambda>c. \<not> is_cancel c) (\<lambda>m. msg_kind m \<noteq> CK_GOLDFIVE_STEER) True
      (- (USER_AUTHORED_DRIFT_KINDS \<union> HARD_SAFETY_DRIFT_KINDS)) k" by (simp add: regime_def)
  from handling_run(1) [OF assms(1) this idle_staffed [OF assms(2)]] obtain ms where
    s: "sways (\<lambda>c. \<not> is_cancel c) (\<lambda>m. msg_kind m \<noteq> CK_GOLDFIVE_STEER) True (forget (obs k)) (forget (obs k')) ms" by blast
  then show ?thesis using sways_cancel_requests [OF s] by (auto simp: sways_def)
qed

theorem goldfive_drift_never_seizes_witness:
  "\<exists>k'. detect (mk_drift ''d'' OFF_TOPIC CRITICAL) (sample_desk done_world) = Inr k' \<and>
     cancel_requests (desk_core k') = cancel_requests done_world"
proof -
  let ?d = "mk_drift ''d'' OFF_TOPIC CRITICAL" and ?k = "sample_desk done_world"
  let ?K = "- (USER_AUTHORED_DRIFT_KINDS \<union> HARD_SAFETY_DRIFT_KINDS)"
  have i: "idle ?k" by (simp add: idle_def plan_held_def)
  then obtain k' where k': "detect ?d ?k = Inr k'" using detect_total [OF idle_staffed] sample_facts(1) by blast
  have "drift_kind ?d \<in> ?K" by (simp add: mk_drift_def USER_AUTHORED_DRIFT_KINDS_def HARD_SAFETY_DRIFT_KINDS_def)
  then have "(handling ?K)\<^sup>*\<^sup>* ?k k'" using Detects [of ?d ?K ?k k'] k' by simp
  moreover have "\<not> cancel_scope_all (cfg (desk_core ?k))" by (simp add: sample_world_def sample_config_def)
  ultimately show ?thesis using goldfive_drift_never_seizes [OF _ i] k' by simp
qed

section \<open>Refines in flight\<close>

definition held_slots :: "refine_frame list \<Rightarrow> refine_slot list" where
  "held_slots fs = concat (map (\<lambda>f. case fr_key f of None \<Rightarrow> [] | Some s \<Rightarrow> [s]) fs)"

definition pending_marks :: "world \<Rightarrow> attempt_mark \<Rightarrow> nat" where
  "pending_marks w m = count_list (refine_marks (log w)) m"

definition slots_ok :: "desk \<Rightarrow> bool" where
  "slots_ok k \<longleftrightarrow> distinct (held_slots (waiting k)) \<and> set (held_slots (waiting k)) = inflight_refine_keys (obs k)"

definition attempts_ok :: "desk \<Rightarrow> bool" where
  "attempts_ok k \<longleftrightarrow> (\<forall>a. pending_marks (desk_core k) (Opened a) =
     pending_marks (desk_core k) (Closed a) + count_list (map fr_attempt (waiting k)) a)"

lemma held_slots_append [simp]: "held_slots (fs @ gs) = held_slots fs @ held_slots gs" "held_slots [] = []"
  by (simp_all add: held_slots_def)

lemma drop_nth_split:
  assumes "i < length xs"
  obtains as bs where "xs = as @ xs ! i # bs" "drop_nth i xs = as @ bs"
  using id_take_nth_drop [OF assms] by (auto simp: drop_nth_def)

lemma sways_marks:
  assumes "sways P Q nudge (forget b) (forget b') ms" "has_sinks (cfg (core b))"
  shows "refine_marks (log (core b')) = refine_marks (log (core b)) @ ms"
  using assms by (auto simp: sways_def acts_def traces_def)

lemma detect_step:
  assumes "staffed UNIV k" "facts_ok d" "detect d k = Inr k'"
  obtains fr where "k' = \<lparr>obs = obs k', waiting = waiting k @ (case fr of None \<Rightarrow> [] | Some f \<Rightarrow> [f])\<rparr>"
    "sways (\<lambda>_. True) (\<lambda>_. True) True (forget (obs k)) (forget (obs k')) (opened fr)" "takes_slot fr (obs k) (obs k')"
  using detect_ok [OF regime_any assms(1) _ assms(2)] assms(3) by (auto simp: detect_def)

lemma answer_step:
  assumes "staffed UNIV k" "i < length (waiting k)" "answer i ans k = Inr k'"
  obtains ms where "k' = \<lparr>obs = obs k', waiting = drop_nth i (waiting k)\<rparr>"
    "sways (\<lambda>_. True) (\<lambda>_. True) True (forget (obs k)) (forget (obs k')) ms"
    "fr_attempt (waiting k ! i) \<noteq> [] \<longrightarrow> ms = [Closed (fr_attempt (waiting k ! i))]"
    "inflight_refine_keys (obs k') = inflight_refine_keys (obs k) - set_option (fr_key (waiting k ! i))"
  using answer_ok [OF regime_any assms(1,2), of ans] assms(3) by (auto simp: answer_def)

lemma handling_slots:
  assumes "handling UNIV k k'" "staffed UNIV k" "slots_ok k"
  shows "slots_ok k'"
  using assms(1)
proof cases
  case (Detects d)
  from detect_step [OF assms(2) Detects(2,3)] obtain fr where
    "waiting k' = waiting k @ (case fr of None \<Rightarrow> [] | Some f \<Rightarrow> [f])" "takes_slot fr (obs k) (obs k')"
    by (metis desk.select_convs(2))
  then show ?thesis using assms(3)
    by (auto simp: slots_ok_def takes_slot_def held_slots_def split: option.splits)
next
  case (Answers i ans)
  from answer_step [OF assms(2) Answers] obtain w: "waiting k' = drop_nth i (waiting k)"
    and r: "inflight_refine_keys (obs k') = inflight_refine_keys (obs k) - set_option (fr_key (waiting k ! i))"
    by (metis desk.select_convs(2))
  from drop_nth_split [OF Answers(1)] obtain as bs where s: "waiting k = as @ waiting k ! i # bs" "drop_nth i (waiting k) = as @ bs" .
  have "held_slots (waiting k) = held_slots as @ (case fr_key (waiting k ! i) of None \<Rightarrow> [] | Some s \<Rightarrow> [s]) @ held_slots bs"
    by (subst s(1)) (simp add: held_slots_def)
  then show ?thesis using assms(3) w r s(2) by (auto simp: slots_ok_def split: option.splits)
qed

lemma desk_step_ok:
  assumes "desk_step k k'" "staffed UNIV k" "slots_ok k"
  shows "staffed UNIV k'" "slots_ok k'" "cfg (desk_core k') = cfg (desk_core k)"
proof -
  have "staffed UNIV k' \<and> slots_ok k' \<and> cfg (desk_core k') = cfg (desk_core k)"
    using assms(1)
  proof cases
    case Handles
    from handling_ok [OF Handles regime_any assms(2)] obtain ms where
      "sways (\<lambda>_. True) (\<lambda>_. True) True (forget (obs k)) (forget (obs k')) ms" "staffed UNIV k'" by blast
    then show ?thesis using handling_slots [OF Handles assms(2,3)] sways_unforget(1) by blast
  next
    case (Elsewhere b)
    then have "cfg (core b) = cfg (desk_core k)" by (simp add: traces_def)
    with Elsewhere assms(2,3) show ?thesis by (simp add: staffed_def slots_ok_def)
  qed
  then show "staffed UNIV k'" "slots_ok k'" "cfg (desk_core k') = cfg (desk_core k)" by blast+
qed

lemma idle_slots: "idle k \<Longrightarrow> slots_ok k"
  by (simp add: idle_def slots_ok_def)

lemma desk_run:
  assumes "desk_step\<^sup>*\<^sup>* k k'" "idle k"
  shows "staffed UNIV k'" "slots_ok k'" "cfg (desk_core k') = cfg (desk_core k)"
proof -
  from assms(1) have "staffed UNIV k' \<and> slots_ok k' \<and> cfg (desk_core k') = cfg (desk_core k)"
  proof induction
    case (step y z)
    then show ?case using desk_step_ok [OF step(2)] by simp
  qed (use idle_staffed idle_slots assms(2) in blast)
  then show "staffed UNIV k'" "slots_ok k'" "cfg (desk_core k') = cfg (desk_core k)" by blast+
qed

text \<open>
  C19: one refine per slot. Whatever the rest of the program does in between, at every moment no two suspended handlers
  hold the same (session, kind, task) slot, and the registry of refines in flight holds exactly the slots of the
  handlers that still wait: none is leaked, none is released early.
\<close>

theorem one_refine_per_slot:
  assumes "desk_step\<^sup>*\<^sup>* k k'" "idle k"
  shows "distinct (held_slots (waiting k')) \<and> set (held_slots (waiting k')) = inflight_refine_keys (obs k')"
  using desk_run(2) [OF assms] by (simp add: slots_ok_def)

definition sample_drift :: drift_event where
  "sample_drift = (mk_drift ''d'' OFF_TOPIC WARNING)\<lparr>observed_revision_index := 1\<rparr>"

lemma sample_desk_run:
  obtains k where "detect sample_drift (sample_desk done_world) = Inr k" "desk_step\<^sup>*\<^sup>* (sample_desk done_world) k"
    "idle (sample_desk done_world)"
proof -
  have i: "idle (sample_desk done_world)" "facts_ok sample_drift" by (simp_all add: idle_def plan_held_def sample_drift_def)
  then obtain k where k: "detect sample_drift (sample_desk done_world) = Inr k" using detect_total [OF idle_staffed] by blast
  then have "desk_step (sample_desk done_world) k" using i(2) by (auto intro: desk_step.intros handling.intros)
  then show ?thesis using that k i(1) by blast
qed

lemma sample_waiting:
  "(case detect sample_drift (sample_desk done_world) of Inl _ \<Rightarrow> ([], []) | Inr k \<Rightarrow> (held_slots (waiting k), map fr_attempt (waiting k))) =
     ([(''r'', ''off_topic'', [])], [''3''])"
  by code_simp

theorem one_refine_per_slot_witness:
  "\<exists>k. detect sample_drift (sample_desk done_world) = Inr k \<and> held_slots (waiting k) = [(''r'', ''off_topic'', [])] \<and>
     inflight_refine_keys (obs k) = {(''r'', ''off_topic'', [])}"
proof -
  obtain k where k: "detect sample_drift (sample_desk done_world) = Inr k" "desk_step\<^sup>*\<^sup>* (sample_desk done_world) k"
    "idle (sample_desk done_world)" by (rule sample_desk_run)
  then show ?thesis using one_refine_per_slot [OF k(2,3)] sample_waiting by auto
qed

section \<open>Refine events\<close>

lemma handling_attempts:
  assumes "handling UNIV k k'" "staffed UNIV k" "attempts_ok k" "has_sinks (cfg (desk_core k))" "\<And>n. uuid_hex (cfg (desk_core k)) n \<noteq> []"
  shows "attempts_ok k'"
  using assms(1)
proof cases
  case (Detects d)
  from detect_step [OF assms(2) Detects(2,3)] obtain fr where
    w: "waiting k' = waiting k @ (case fr of None \<Rightarrow> [] | Some f \<Rightarrow> [f])"
    and s: "sways (\<lambda>_. True) (\<lambda>_. True) True (forget (obs k)) (forget (obs k')) (opened fr)"
    by (metis desk.select_convs(2))
  show ?thesis using assms(3) sways_marks [OF s assms(4)] w
    by (cases fr) (auto simp: attempts_ok_def pending_marks_def)
next
  case (Answers i ans)
  from answer_step [OF assms(2) Answers] obtain ms where w: "waiting k' = drop_nth i (waiting k)"
    and s: "sways (\<lambda>_. True) (\<lambda>_. True) True (forget (obs k)) (forget (obs k')) ms"
    and ms: "fr_attempt (waiting k ! i) \<noteq> [] \<longrightarrow> ms = [Closed (fr_attempt (waiting k ! i))]"
    by (metis desk.select_convs(2))
  have "fr_attempt (waiting k ! i) \<noteq> []"
    using assms(2,5) Answers(1) by (auto simp: staffed_def frame_ok_def list_all_length)
  with ms have m: "ms = [Closed (fr_attempt (waiting k ! i))]" by simp
  from drop_nth_split [OF Answers(1)] obtain as bs where e: "waiting k = as @ waiting k ! i # bs" "drop_nth i (waiting k) = as @ bs" .
  have "count_list (map fr_attempt (waiting k)) a =
      count_list (map fr_attempt (waiting k')) a + (if a = fr_attempt (waiting k ! i) then 1 else 0)" for a
    by (subst e(1)) (simp add: w e(2))
  then show ?thesis using assms(3) sways_marks [OF s assms(4)] by (auto simp: attempts_ok_def pending_marks_def m)
qed



section \<open>Failed refines\<close>

text \<open>Answers that leave the drift without a revision, an exception and a cancellation of the call apart.\<close>

fun gives_up :: "plan option \<Rightarrow> refine_answer \<Rightarrow> bool" where
  "gives_up prev NoRevision = True"
| "gives_up prev (Exhausted text) = True"
| "gives_up prev (Refined r) =
     (validate (fold_runtime_terminal_statuses r prev) True prev \<noteq> None \<or>
      plans_structurally_identical prev (fold_runtime_terminal_statuses r prev))"
| "gives_up prev _ = False"

definition pauses :: "drift_event \<Rightarrow> observer \<Rightarrow> observer \<Rightarrow> bool" where
  "pauses d b b' \<longleftrightarrow>
     (\<exists>c m. control_channel b = Some c \<and> control_channel b' = Some (c\<lparr>inbox := inbox c @ [m]\<rparr>) \<and>
        msg_kind m = CK_GOLDFIVE_PAUSE_ESCALATE \<and> map_of (msg_payload m) ''drift_id'' = Some (JStr (drift_id d)) \<and>
        map_of (msg_payload m) ''deadline_s'' = map_option JInt (pause_escalate_deadline_s (pol b)))"

lemma pauses_frame:
  "control_channel b1 = control_channel b \<Longrightarrow> pol b1 = pol b \<Longrightarrow> pauses d b1 b' \<Longrightarrow> pauses d b b'"
  "control_channel b2 = control_channel b' \<Longrightarrow> pauses d b b' \<Longrightarrow> pauses d b b2"
  by (simp_all add: pauses_def)

lemma pause_control_pauses:
  assumes "is_active_steering (cfg (core b))" "control_channel b = Some c"
  shows "pauses d b (dispatch_goldfive_pause_control d reason False b)"
proof -
  have f: "cfg (record_signal_outcome_escalated d (emit_signal_delivered d ch body lvl extra (core b))) = cfg (core b)" for ch body lvl extra
    using anything.traces_outcome_escalated [OF anything.traces_signal_delivered [OF traces_refl]] by (simp add: traces_def)
  have "\<exists>m. control_channel (dispatch_goldfive_pause_control d reason False b) = Some (c\<lparr>inbox := inbox c @ [m]\<rparr>) \<and>
      msg_kind m = CK_GOLDFIVE_PAUSE_ESCALATE \<and> map_of (msg_payload m) ''drift_id'' = Some (JStr (drift_id d)) \<and>
      map_of (msg_payload m) ''deadline_s'' = map_option JInt (pause_escalate_deadline_s (pol b))"
    unfolding dispatch_goldfive_pause_control_def Let_def on_core_def split_beta dispatch_goldfive_control_def
    by (simp add: f assms send_def; rule exI, rule conjI, rule refl, simp split: option.split)
  then show ?thesis using assms(2) by (auto simp: pauses_def)
qed

lemma exhausted_pauses:
  assumes "is_active_steering (cfg (core b))" "control_channel b \<noteq> None"
  shows "pauses d b (emit_handler_exhausted_escalation d b)"
proof -
  obtain c where "control_channel b = Some c" using assms(2) by blast
  from pause_control_pauses [OF assms(1) this] show ?thesis
    unfolding emit_handler_exhausted_escalation_def Let_def by (rule pauses_frame(2) [rotated]) (simp add: on_core_def)
qed

lemma outcome_pauses:
  assumes "is_active_steering (cfg (core b))" "control_channel b \<noteq> None" "plan_held (core b)" "acts (\<lambda>_. True) (core b) w ms"
  shows "\<exists>w'. record_refine_outcome d False w = Inr w' \<and> pauses d b (emit_handler_exhausted_escalation d (b\<lparr>core := w'\<rparr>))"
proof -
  from anything.outcome_failed [OF assms(3,4)] obtain w' where
    w': "record_refine_outcome d False w = Inr w'" "acts (\<lambda>_. True) (core b) w' ms" by blast
  from w'(2) have "is_active_steering (cfg w')" using assms(1) by (simp add: acts_def traces_def)
  then have "pauses d (b\<lparr>core := w'\<rparr>) (emit_handler_exhausted_escalation d (b\<lparr>core := w'\<rparr>))"
    using exhausted_pauses [of "b\<lparr>core := w'\<rparr>" d] assms(2) by simp
  then show ?thesis using w'(1) pauses_frame(1) [of "b\<lparr>core := w'\<rparr>" b] by simp
qed

lemma rejected_pauses:
  assumes "is_active_steering (cfg (core b))" "control_channel b \<noteq> None" "plan_held (core b)"
  shows "\<exists>b'. refine_rejected fr e b = Inr b' \<and> pauses (fr_drift fr) b b'"
proof -
  let ?w = "emit_refine_failed (fr_drift fr) (fr_attempt fr) ''validator_rejected'' (''plan validation failed: '' @ plan_error_message e)
    ''ValueError'' (core b)"
  have "acts (\<lambda>_. True) ?w (emit_drift_detected x [] [] (tick ?w)) []" for x by (intro acts_plan anything.observer_traces trace_intros) simp
  from outcome_pauses [OF assms acts_trans [OF anything.failed_acts this], of "fr_drift fr"] obtain w' where
    "\<And>x. record_refine_outcome (fr_drift fr) False (emit_drift_detected x [] [] (tick ?w)) = Inr (w' x) \<and>
      pauses (fr_drift fr) b (emit_handler_exhausted_escalation (fr_drift fr) (b\<lparr>core := w' x\<rparr>))" by metis
  then show ?thesis unfolding refine_rejected_def Let_def split_beta new_drift_snd by (simp only: ebind.simps) blast
qed

text \<open>
  A failed refine pauses the run. When the steerer is active and the planner gives up, returns a plan that
  validation rejects, or one with the structure of the current plan, the handler ends without an exception and puts
  exactly one message on the control channel, the request to pause for the operator, which names the drift.
\<close>

theorem refine_failure_pauses:
  assumes "is_active_steering (cfg (core b))" "control_channel b \<noteq> None" "plan_held (core b)"
    and "gives_up (session_plan (sess (core b))) ans"
  shows "\<exists>b'. resume_refine fr ans b = Inr (None, b') \<and> pauses (fr_drift fr) b b'"
proof -
  let ?d = "fr_drift fr" and ?prev = "session_plan (sess (core b))"
  let ?failed = "\<lambda>kind reason detail. b\<lparr>core := emit_refine_failed ?d (fr_attempt fr) kind reason detail (core b)\<rparr>"
  have "is_active_steering (cfg (core (?failed kind reason detail)))" for kind reason detail
    using anything.failed_acts [of "core b"] assms(1) by (simp add: acts_def traces_def)
  from exhausted_pauses [OF this] assms(2) have ex: "pauses ?d b (emit_handler_exhausted_escalation ?d (?failed kind reason detail))"
    for kind reason detail by (intro pauses_frame(1) [of "?failed kind reason detail" b]) simp_all
  have "\<exists>b'. refine_answered fr ans b = Inr (None, b') \<and> pauses ?d b b'"
  proof (cases ans)
    case (Refined r)
    then show ?thesis
      using assms(4) ex rejected_pauses [OF assms(1-3)]
      by (cases "validate (fold_runtime_terminal_statuses r ?prev) True ?prev")
         (auto simp: refine_answered_def Let_def on_core_def ebind_Inr_iff)
  next
    case NoRevision
    from outcome_pauses [OF assms(1-3) anything.failed_acts, of ?d ?d "fr_attempt fr" "''parse_error''" "''planner returned no revised plan''" "[]"]
    show ?thesis by (auto simp: refine_answered_def NoRevision Let_def on_core_def)
  qed (use assms(4) ex in \<open>auto simp: refine_answered_def Let_def on_core_def\<close>)
  moreover have "control_channel (release_slot key d v) = control_channel v" for key d v
    by (simp add: release_slot_def Let_def on_core_def split: option.split)
  ultimately show ?thesis using pauses_frame(2) by (fastforce simp: resume_refine_def)
qed

theorem refine_failure_pauses_witness:
  "\<exists>b'. resume_refine \<lparr>fr_drift = sample_drift, fr_attempt = ''3'', fr_level = Some ABSORB, fr_body = [], fr_key = None\<rparr>
       (Refined (plan_empty ''p'' ''r'')) (sample_observer done_world) = Inr (None, b') \<and> pauses sample_drift (sample_observer done_world) b'"
proof -
  have "\<not> preserves (plan_empty ''p'' ''r'') done_plan" by (auto simp: preserves_def plan_find_def plan_empty_def)
  then have "validate (plan_empty ''p'' ''r'') True (Some done_plan) \<noteq> None" by (simp add: validate_None plan_ok_def)
  moreover have "fold_runtime_terminal_statuses (plan_empty ''p'' ''r'') (Some done_plan) = plan_empty ''p'' ''r''"
    by (simp add: fold_runtime_terminal_statuses_def plan_empty_def)
  moreover have "is_active_steering (cfg sample_world)" by (simp add: sample_world_def sample_config_def)
  ultimately show ?thesis
    using refine_failure_pauses [of "sample_observer done_world" "Refined (plan_empty ''p'' ''r'')"
      "\<lparr>fr_drift = sample_drift, fr_attempt = ''3'', fr_level = Some ABSORB, fr_body = [], fr_key = None\<rparr>"]
    by (simp add: plan_held_def)
qed

section \<open>The plan under the handlers\<close>

datatype desk_op = Detected drift_event | Answered nat refine_answer

fun desk_do :: "desk_op \<Rightarrow> desk \<Rightarrow> desk" where
  "desk_do (Detected d) k = (case detect d k of Inl _ \<Rightarrow> k | Inr k' \<Rightarrow> k')"
| "desk_do (Answered i ans) k =
     (if i < length (waiting k) then (case answer i ans k of Inl _ \<Rightarrow> k | Inr k' \<Rightarrow> k') else k)"

fun desk_op_ok :: "desk_op \<Rightarrow> bool" where
  "desk_op_ok (Detected d) \<longleftrightarrow> facts_ok d"
| "desk_op_ok (Answered i ans) \<longleftrightarrow> True"

definition seated :: "desk \<Rightarrow> bool" where
  "seated k \<longleftrightarrow> list_all (\<lambda>f. facts_ok (fr_drift f) \<and> level_fits (pol (obs k)) f) (waiting k)"

lemma sways_history: "sways P Q nudge (forget b) (forget b') ms \<Longrightarrow> plan_held (core b) \<Longrightarrow> history_step (core b) (core b')"
  by (simp add: sways_def acts_def)

lemma detect_history:
  assumes "facts_ok d" "seated k" "plan_held (desk_core k)"
  shows "\<exists>k'. detect d k = Inr k' \<and> history_step (desk_core k) (desk_core k') \<and> seated k'"
proof -
  from anything.handle_ok [of "cfg (desk_core k)" "pol (obs k)" "drift_kind d" d "obs k"] assms(1,3) obtain fr b' where
    h: "handle_drift d (obs k) = Inr (fr, b')" "sways (\<lambda>_. True) (\<lambda>_. True) True (forget (obs k)) (forget b') (opened fr)"
    "pred_option (frame_fits (cfg (desk_core k)) (pol (obs k)) (attributed d)) fr" by (auto simp: situated_def)
  then show ?thesis using sways_history [OF h(2) assms(3)] sways_unforget(2) [OF h(2)] assms(1,2)
    by (cases fr) (auto simp: detect_def seated_def frame_fits_def)
qed

lemma answer_history:
  assumes "i < length (waiting k)" "seated k" "plan_held (desk_core k)"
  shows "\<exists>k'. answer i ans k = Inr k' \<and> history_step (desk_core k) (desk_core k') \<and> seated k'"
proof -
  let ?f = "waiting k ! i"
  from assms(1,2) have "facts_ok (fr_drift ?f)" "level_fits (pol (obs k)) ?f" by (auto simp: seated_def list_all_length)
  with anything.resume_ok [of "cfg (desk_core k)" "pol (obs k)" "drift_kind (fr_drift ?f)" ?f "obs k" ans] assms(3) obtain x b' ms where
    h: "resume_refine ?f ans (obs k) = Inr (x, b')" "sways (\<lambda>_. True) (\<lambda>_. True) True (forget (obs k)) (forget b') ms"
    by (auto simp: situated_def)
  then show ?thesis using sways_history [OF h(2) assms(3)] sways_unforget(2) [OF h(2)] assms(2)
    by (auto simp: answer_def seated_def list_all_iff dest: drop_nth_set)
qed

interpretation handlers: plan_history desk_do desk_core desk_op_ok seated
proof
  fix x k
  assume a: "desk_op_ok x" "seated k" "plan_held (desk_core k)"
  have "history_step (desk_core k) (desk_core (desk_do x k)) \<and> seated (desk_do x k)"
  proof (cases x)
    case (Detected d)
    then show ?thesis using detect_history [of d k] a by auto
  next
    case (Answered i ans)
    then show ?thesis using answer_history [of i k ans] history_same [OF a(3), of "desk_core k"] a(2,3)
      by (cases "i < length (waiting k)") auto
  qed
  then show "history_step (desk_core k) (desk_core (desk_do x k))" "seated (desk_do x k)" by blast+
qed

end
