(* ===== verification/Tool_Loops.thy ===== *)
theory Tool_Loops
  imports Note_Composer
begin

text \<open>
  The tool-loop detector of \<open>src/goldfive/drift/tool_loops.py\<close>: a ring buffer of recent tool calls per agent, and the
  classifier that reports exact repeats, repeats by name and alternation. The digest of a call's arguments
  (\<open>args_hash\<close>, MD5 of their JSON) is a parameter. A reported drift gets a fresh identifier, which is an
  argument; at most one drift is reported per call.
\<close>

section \<open>Tables\<close>

definition META_TOOL_PREFIX :: string where "META_TOOL_PREFIX = ''report_task_''"

definition META_TOOL_NAMES :: "string set" where "META_TOOL_NAMES = {''report_awaiting_approval''}"

definition classify_tool_category :: "string \<Rightarrow> string" where
  "classify_tool_category tool =
     (if tool = [] then ''work''
      else if starts_with META_TOOL_PREFIX tool \<or> tool \<in> META_TOOL_NAMES then ''meta''
      else ''work'')"

text \<open>A tier has a threshold on identical calls and one on calls of the same name; \<open>None\<close> never fires.\<close>

type_synonym tier_table = "DriftSeverity \<Rightarrow> int option \<times> int option"

fun META_THRESHOLDS :: tier_table where
  "META_THRESHOLDS INFO = (Some 3, None)"
| "META_THRESHOLDS WARNING = (Some 6, None)"
| "META_THRESHOLDS CRITICAL = (Some 10, None)"

fun WORK_THRESHOLDS :: tier_table where
  "WORK_THRESHOLDS INFO = (Some 3, None)"
| "WORK_THRESHOLDS WARNING = (Some 3, Some 5)"
| "WORK_THRESHOLDS CRITICAL = (Some 6, Some 7)"

definition SEVERITY_TIERS :: "DriftSeverity list" where "SEVERITY_TIERS = [CRITICAL, WARNING, INFO]"

text \<open>Lower is more severe.\<close>

fun SEVERITY_RANK :: "DriftSeverity \<Rightarrow> nat" where
  "SEVERITY_RANK CRITICAL = 0"
| "SEVERITY_RANK WARNING = 1"
| "SEVERITY_RANK INFO = 2"

definition NAME_AXIS_CORROBORATION_MIN_EXACT :: int where "NAME_AXIS_CORROBORATION_MIN_EXACT = 2"

section \<open>Configuration\<close>

record ToolLoopConfig =
  cf_window :: int
  cf_exact_threshold :: int
  cf_name_threshold :: int
  cf_alternating_threshold :: int
  cf_name_axis_max_severity :: string

definition default_tool_loops :: ToolLoopConfig where
  "default_tool_loops = \<lparr>cf_window = 10, cf_exact_threshold = 3, cf_name_threshold = 5, cf_alternating_threshold = 5,
     cf_name_axis_max_severity = ''info''\<rparr>"

definition read_int_env :: "(string \<rightharpoonup> string) \<Rightarrow> string \<Rightarrow> int \<Rightarrow> int" where
  "read_int_env env var dflt =
     (case env var of
        None \<Rightarrow> dflt
      | Some raw \<Rightarrow> (case parse_int raw of None \<Rightarrow> dflt | Some val \<Rightarrow> if val \<le> 0 then dflt else val))"

definition VALID_SEVERITY_NAMES :: "string set" where "VALID_SEVERITY_NAMES = {''info'', ''warning'', ''critical''}"

definition read_severity_env :: "(string \<rightharpoonup> string) \<Rightarrow> string \<Rightarrow> string \<Rightarrow> string" where
  "read_severity_env env var dflt =
     (case env var of
        None \<Rightarrow> dflt
      | Some raw \<Rightarrow> let val = lower (strip raw) in if val \<notin> VALID_SEVERITY_NAMES then dflt else val)"

definition load_thresholds_from_env :: "(string \<rightharpoonup> string) \<Rightarrow> ToolLoopConfig" where
  "load_thresholds_from_env env =
     \<lparr>cf_window = read_int_env env ''GOLDFIVE_TOOL_LOOP_WINDOW'' (cf_window default_tool_loops),
      cf_exact_threshold = read_int_env env ''GOLDFIVE_TOOL_LOOP_EXACT_THRESHOLD'' (cf_exact_threshold default_tool_loops),
      cf_name_threshold = read_int_env env ''GOLDFIVE_TOOL_LOOP_NAME_THRESHOLD'' (cf_name_threshold default_tool_loops),
      cf_alternating_threshold =
        read_int_env env ''GOLDFIVE_TOOL_LOOP_ALTERNATING_THRESHOLD'' (cf_alternating_threshold default_tool_loops),
      cf_name_axis_max_severity =
        read_severity_env env ''GOLDFIVE_TOOL_LOOP_NAME_AXIS_MAX_SEVERITY'' (cf_name_axis_max_severity default_tool_loops)\<rparr>"

text \<open>The installed configuration wins over the environment.\<close>

definition resolve_thresholds :: "ToolLoopConfig option \<Rightarrow> (string \<rightharpoonup> string) \<Rightarrow> ToolLoopConfig" where
  "resolve_thresholds installed env = (case installed of Some c \<Rightarrow> c | None \<Rightarrow> load_thresholds_from_env env)"

section \<open>The tracker\<close>

type_synonym signature = "string \<times> string"

type_synonym scope = "string \<times> string"

record ToolLoopTracker =
  window :: nat
  alternating_threshold :: nat
  name_axis_severity_cap :: DriftSeverity
  work_thresholds :: tier_table
  buffers :: "scope \<rightharpoonup> signature list"

definition severity_named :: "string \<Rightarrow> DriftSeverity" where
  "severity_named s = (if s = ''critical'' then CRITICAL else if s = ''warning'' then WARNING else INFO)"

definition work_table :: "int \<Rightarrow> int \<Rightarrow> tier_table" where
  "work_table exact nm sev =
     (case sev of
        INFO \<Rightarrow> (Some (min 3 exact), None)
      | WARNING \<Rightarrow> (Some exact, Some nm)
      | CRITICAL \<Rightarrow> WORK_THRESHOLDS CRITICAL)"

definition tracker_init :: "ToolLoopConfig \<Rightarrow> py_error + ToolLoopTracker" where
  "tracker_init c =
     (if cf_window c \<le> 0 then Inl (ValueError (''window must be positive, got '' @ show_int (cf_window c)))
      else if cf_exact_threshold c \<le> 0 then
        Inl (ValueError (''exact_threshold must be positive, got '' @ show_int (cf_exact_threshold c)))
      else if cf_name_threshold c \<le> 0 then
        Inl (ValueError (''name_threshold must be positive, got '' @ show_int (cf_name_threshold c)))
      else if cf_alternating_threshold c \<le> 0 then
        Inl (ValueError (''alternating_threshold must be positive, got '' @ show_int (cf_alternating_threshold c)))
      else if cf_name_axis_max_severity c \<notin> VALID_SEVERITY_NAMES then
        Inl (ValueError (''name_axis_max_severity must be one of ['' @ join '', '' (map repr_str [''critical'', ''info'', ''warning'']) @
          ''], got '' @ repr_str (cf_name_axis_max_severity c)))
      else Inr \<lparr>window = nat (cf_window c), alternating_threshold = nat (cf_alternating_threshold c),
                name_axis_severity_cap = severity_named (cf_name_axis_max_severity c),
                work_thresholds = work_table (cf_exact_threshold c) (cf_name_threshold c), buffers = (\<lambda>_. None)\<rparr>)"

definition scope_of :: "string \<Rightarrow> string \<Rightarrow> string \<Rightarrow> scope" where
  "scope_of session_run_id invocation_id agent = (if session_run_id \<noteq> [] then session_run_id else invocation_id, agent)"

text \<open>A deque with \<open>maxlen\<close>.\<close>

definition deque_append :: "nat \<Rightarrow> 'a \<Rightarrow> 'a list \<Rightarrow> 'a list" where
  "deque_append n x xs = last_n n (xs @ [x])"

definition buffer_of :: "ToolLoopTracker \<Rightarrow> scope \<Rightarrow> signature list" where
  "buffer_of tr k = (case buffers tr k of None \<Rightarrow> [] | Some b \<Rightarrow> b)"

definition thresholds_for_tool :: "ToolLoopTracker \<Rightarrow> string \<Rightarrow> tier_table" where
  "thresholds_for_tool tr tool = (if classify_tool_category tool = ''meta'' then META_THRESHOLDS else work_thresholds tr)"

section \<open>Classification\<close>

definition exact_counts :: "signature list \<Rightarrow> (signature, nat) dict" where
  "exact_counts buf = foldl (\<lambda>d sig. count_up sig d) [] buf"

definition name_counts :: "signature list \<Rightarrow> (string, nat) dict" where
  "name_counts buf = foldl (\<lambda>d sig. count_up (fst sig) d) [] buf"

definition exact_for_name :: "signature list \<Rightarrow> string \<Rightarrow> nat" where
  "exact_for_name buf tool = foldl max 0 (map snd (filter (\<lambda>(sig, c). fst sig = tool) (exact_counts buf)))"

definition reaches :: "int option \<Rightarrow> nat \<Rightarrow> bool" where
  "reaches thr n = (case thr of None \<Rightarrow> False | Some t \<Rightarrow> t \<le> int n)"

text \<open>What a report says of its origin: fresh id, current task, agent, invocation, revision observed.\<close>

record report_site =
  rs_uid :: string
  rs_task :: string
  rs_agent :: string
  rs_invocation :: string
  rs_revision :: int

definition loop_report ::
  "report_site \<Rightarrow> DriftSeverity \<Rightarrow> string \<Rightarrow> (string \<times> json) list \<Rightarrow> string \<Rightarrow> drift_event" where
  "loop_report rs sev detail raw trigger =
     (mk_drift (rs_uid rs) LOOPING_REASONING sev)\<lparr>drift_detail := detail, drift_task := rs_task rs, drift_agent := rs_agent rs,
        drift_raw := Some (RawFacts raw), trigger_input := trigger, observed_revision_index := rs_revision rs,
        detector_name := ''tool_loops''\<rparr>"

definition arrows :: "string list \<Rightarrow> string" where
  "arrows names = join '' -> '' names"

definition tier_report ::
  "report_site \<Rightarrow> signature list \<Rightarrow> string \<Rightarrow> DriftSeverity \<Rightarrow> bool \<Rightarrow> DriftSeverity \<Rightarrow> string \<Rightarrow> drift_event" where
  "tier_report rs buf tool tier exact emit capped_from =
     (let n = int (length buf); e = exact_for_name buf tool;
          total = (case map_of (name_counts buf) tool of None \<Rightarrow> 0 | Some c \<Rightarrow> c);
          trigger = ''tool_loop window ('' @ show_int n @ '' calls, tool='' @ repr_str tool @ ''): '' @
            arrows (last_n 16 (map fst buf));
          tail = [(''window_len'', JInt n), (''invocation_id'', JStr (rs_invocation rs)),
                  (''category'', JStr (classify_tool_category tool)), (''tier'', JStr (severity_value tier))]
      in if exact then
           (let sig = (case find (\<lambda>(sig, c). fst sig = tool \<and> c = e) (exact_counts buf) of Some (sig, _) \<Rightarrow> sig | None \<Rightarrow> ([], []))
            in loop_report rs emit (''tool_loop_exact: '' @ tool @ '' x '' @ show_nat e @ '' in last '' @ show_int n @ '' calls'')
                 ([(''mode'', JStr ''exact''), (''tool_name'', JStr tool), (''args_hash'', JStr (snd sig)), (''count'', JInt (int e))] @ tail)
                 trigger)
         else
           loop_report rs emit
             (''tool_loop_name: '' @ tool @ '' x '' @ show_nat total @ '' in last '' @ show_int n @ '' calls (no task progress)'' @
              (if capped_from \<noteq> [] then '' (severity capped: no exact-repeat corroboration)'' else []))
             ([(''mode'', JStr ''name''), (''tool_name'', JStr tool), (''count'', JInt (int total))] @ tail @
              (if capped_from \<noteq> [] then [(''severity_capped_from'', JStr capped_from)] else []))
             trigger)"

type_synonym ranked = "(nat \<times> drift_event) option"

definition better :: "ranked \<Rightarrow> nat \<Rightarrow> drift_event \<Rightarrow> ranked" where
  "better best rank d = (case best of None \<Rightarrow> Some (rank, d) | Some (r, _) \<Rightarrow> if rank < r then Some (rank, d) else best)"

fun walk_tiers :: "ToolLoopTracker \<Rightarrow> report_site \<Rightarrow> signature list \<Rightarrow> string \<Rightarrow> DriftSeverity list \<Rightarrow> ranked \<Rightarrow> ranked" where
  "walk_tiers tr rs buf tool [] best = best"
| "walk_tiers tr rs buf tool (sev # tiers) best =
     (let (exact_thr, name_thr) = thresholds_for_tool tr tool sev;
          e = exact_for_name buf tool;
          total = (case map_of (name_counts buf) tool of None \<Rightarrow> 0 | Some c \<Rightarrow> c);
          hit_exact = reaches exact_thr e; hit_name = reaches name_thr total in
      if \<not> (hit_exact \<or> hit_name) then walk_tiers tr rs buf tool tiers best
      else
        let corroborated = (NAME_AXIS_CORROBORATION_MIN_EXACT \<le> int e);
            cap = name_axis_severity_cap tr;
            capped = (\<not> hit_exact \<and> \<not> corroborated \<and> SEVERITY_RANK sev < SEVERITY_RANK cap);
            emit = (if capped then cap else sev);
            best = better best (SEVERITY_RANK emit)
              (tier_report rs buf tool sev hit_exact emit (if capped then severity_value sev else []))
        in if capped then walk_tiers tr rs buf tool tiers best else best)"

fun walk_tools :: "ToolLoopTracker \<Rightarrow> report_site \<Rightarrow> signature list \<Rightarrow> string list \<Rightarrow> ranked \<Rightarrow> ranked" where
  "walk_tools tr rs buf [] best = best"
| "walk_tools tr rs buf (tool # tools) best =
     walk_tools tr rs buf tools
       (case walk_tiers tr rs buf tool SEVERITY_TIERS None of None \<Rightarrow> best | Some (r, d) \<Rightarrow> better best r d)"

definition alternates :: "string list \<Rightarrow> bool" where
  "alternates names \<longleftrightarrow>
     card (set names) = 2 \<and> names ! 0 \<noteq> names ! 1 \<and> (\<forall>i<length names. names ! i = names ! (i mod 2))"

definition alternating_report :: "report_site \<Rightarrow> string list \<Rightarrow> drift_event" where
  "alternating_report rs names =
     (let n = int (length names); a = names ! 0; b = names ! 1
      in loop_report rs INFO (''tool_loop_alternating: '' @ a @ '' <-> '' @ b @ '' in last '' @ show_int n @ '' calls'')
           [(''mode'', JStr ''alternating''), (''tools'', JList [JStr a, JStr b]), (''window_len'', JInt n),
            (''invocation_id'', JStr (rs_invocation rs))]
           (''tool_loop alternating ('' @ show_int n @ '' calls): '' @ arrows names))"

definition classify :: "ToolLoopTracker \<Rightarrow> report_site \<Rightarrow> signature list \<Rightarrow> drift_event list" where
  "classify tr rs buf =
     (case walk_tools tr rs buf (map fst (name_counts buf)) None of
        Some (_, d) \<Rightarrow> [d]
      | None \<Rightarrow>
          let names = map fst (last_n (alternating_threshold tr) buf)
          in if alternating_threshold tr \<le> length buf \<and> alternates names then [alternating_report rs names] else [])"

text \<open>One tool call: who made it, what was called, and what the report would say of it.\<close>

record tool_call =
  tc_run :: string
  tc_invocation :: string
  tc_agent :: string
  tc_tool :: string
  tc_args :: json
  tc_task :: string
  tc_revision :: int

definition call_scope :: "tool_call \<Rightarrow> scope" where
  "call_scope c = scope_of (tc_run c) (tc_invocation c) (tc_agent c)"

definition call_site :: "string \<Rightarrow> tool_call \<Rightarrow> report_site" where
  "call_site uid c =
     \<lparr>rs_uid = uid, rs_task = tc_task c, rs_agent = tc_agent c,
      rs_invocation = (if tc_invocation c \<noteq> [] then tc_invocation c else fst (call_scope c)), rs_revision = tc_revision c\<rparr>"

definition observe_tool_call :: "(json \<Rightarrow> string) \<Rightarrow> string \<Rightarrow> tool_call \<Rightarrow> ToolLoopTracker \<Rightarrow> drift_event list \<times> ToolLoopTracker" where
  "observe_tool_call args_hash uid c tr =
     (let k = call_scope c; buf = deque_append (window tr) (tc_tool c, args_hash (tc_args c)) (buffer_of tr k)
      in (classify tr (call_site uid c) buf, tr\<lparr>buffers := (buffers tr)(k \<mapsto> buf)\<rparr>))"

definition on_task_progress :: "scope \<Rightarrow> ToolLoopTracker \<Rightarrow> ToolLoopTracker" where
  "on_task_progress k tr =
     (case buffers tr k of None \<Rightarrow> tr | Some _ \<Rightarrow> tr\<lparr>buffers := (buffers tr)(k \<mapsto> [])\<rparr>)"

definition tracker_clear :: "ToolLoopTracker \<Rightarrow> ToolLoopTracker" where
  "tracker_clear tr = tr\<lparr>buffers := (\<lambda>_. None)\<rparr>"

definition buffer_size :: "scope \<Rightarrow> ToolLoopTracker \<Rightarrow> nat" where
  "buffer_size k tr = length (buffer_of tr k)"

section \<open>Counts\<close>

text \<open>How often a tool was called in a window, and how often its most repeated call.\<close>

definition calls :: "signature list \<Rightarrow> string \<Rightarrow> nat" where
  "calls buf tool = length (filter (\<lambda>sig. fst sig = tool) buf)"

definition repeats :: "signature list \<Rightarrow> string \<Rightarrow> nat" where
  "repeats buf tool = Max (insert 0 (count_list buf ` {sig \<in> set buf. fst sig = tool}))"

lemma count_list_filter: "count_list xs x = length (filter (\<lambda>y. y = x) xs)"
  by (induction xs) auto

lemma dict_ok_count: "dict_ok d \<Longrightarrow> dict_ok (foldl (\<lambda>d x. count_up (f x) d) d xs)"
  by (induction xs arbitrary: d) (simp_all add: count_up_def)

lemma name_counts_simps:
  "(case map_of (name_counts buf) tool of None \<Rightarrow> 0 | Some c \<Rightarrow> c) = calls buf tool"
  "set (map fst (name_counts buf)) = fst ` set buf"
  using foldl_count_up [of fst "[]" buf tool] foldl_count_up_dom [of fst "[]" buf]
  by (simp_all add: name_counts_def calls_def dom_map_of_conv_image_fst)

lemma exact_counts_set: "set (exact_counts buf) = (\<lambda>sig. (sig, count_list buf sig)) ` set buf"
proof -
  have d: "dict_ok (exact_counts buf)" using dict_ok_count [of "[]" "\<lambda>x. x" buf] by (simp add: exact_counts_def)
  have keys: "fst ` set (exact_counts buf) = set buf"
    using foldl_count_up_dom [of "\<lambda>x. x" "[]" buf] by (simp add: exact_counts_def dom_map_of_conv_image_fst)
  have "c = count_list buf sig" if "(sig, c) \<in> set (exact_counts buf)" for sig c
  proof -
    from that d have "map_of (exact_counts buf) sig = Some c" by (simp add: dict_ok_def)
    then show ?thesis using foldl_count_up [of "\<lambda>x. x" "[]" buf sig] by (simp add: exact_counts_def count_list_filter)
  qed
  then have "(\<lambda>p. (fst p, count_list buf (fst p))) ` set (exact_counts buf) = id ` set (exact_counts buf)"
    by (intro image_cong) auto
  then show ?thesis by (simp add: keys [symmetric] image_image)
qed

lemma foldl_max: "foldl max (m :: nat) xs = Max (insert m (set xs))"
proof (induction xs arbitrary: m)
  case (Cons x xs)
  then show ?case by (cases "xs = []") (simp_all add: max.assoc max.left_commute insert_commute)
qed simp

lemma exact_for_name_conv: "exact_for_name buf tool = repeats buf tool"
proof -
  have "snd ` {p \<in> set (exact_counts buf). fst (fst p) = tool} = count_list buf ` {sig \<in> set buf. fst sig = tool}"
    by (auto simp: exact_counts_set image_iff)
  moreover have "{p \<in> set (exact_counts buf). fst (fst p) = tool} = set (filter (\<lambda>(sig, c). fst sig = tool) (exact_counts buf))"
    by auto
  ultimately show ?thesis unfolding exact_for_name_def repeats_def foldl_max by simp
qed

section \<open>The verdict\<close>

text \<open>What a tier of a tool's table emits for a window, if it is reached.\<close>

definition tier_emits :: "ToolLoopTracker \<Rightarrow> signature list \<Rightarrow> string \<Rightarrow> DriftSeverity \<Rightarrow> DriftSeverity option" where
  "tier_emits tr buf tool sev =
     (if reaches (fst (thresholds_for_tool tr tool sev)) (repeats buf tool) then Some sev
      else if reaches (snd (thresholds_for_tool tr tool sev)) (calls buf tool) then
        Some (if repeats buf tool < 2 \<and> severity_rank (name_axis_severity_cap tr) < severity_rank sev
              then name_axis_severity_cap tr else sev)
      else None)"

definition tool_emits :: "ToolLoopTracker \<Rightarrow> signature list \<Rightarrow> string \<Rightarrow> DriftSeverity set" where
  "tool_emits tr buf tool = {s. \<exists>sev. tier_emits tr buf tool sev = Some s}"

definition worst_of :: "DriftSeverity set \<Rightarrow> ranked \<Rightarrow> bool" where
  "worst_of S x \<longleftrightarrow>
     (case x of
        None \<Rightarrow> S = {}
      | Some (r, d) \<Rightarrow> r = SEVERITY_RANK (drift_severity d) \<and> drift_severity d \<in> S \<and> (\<forall>s\<in>S. r \<le> SEVERITY_RANK s))"

lemma tier_report_severity [simp]: "drift_severity (tier_report rs buf tool tier x emit cap) = emit"
  by (simp add: tier_report_def loop_report_def Let_def mk_drift_def)

lemma rank_reversed: "SEVERITY_RANK a < SEVERITY_RANK b \<longleftrightarrow> severity_rank b < severity_rank a"
  "SEVERITY_RANK a \<le> SEVERITY_RANK b \<longleftrightarrow> severity_rank b \<le> severity_rank a"
  by (cases a; cases b; simp)+

lemma all_severities: "(\<forall>sev. P sev) \<longleftrightarrow> P CRITICAL \<and> P WARNING \<and> P INFO" "(\<exists>sev. P sev) \<longleftrightarrow> P CRITICAL \<or> P WARNING \<or> P INFO"
  by (metis (full_types) DriftSeverity.exhaust)+

lemma walk_tiers_step:
  "walk_tiers tr rs buf tool (sev # tiers) best =
     (case tier_emits tr buf tool sev of
        None \<Rightarrow> walk_tiers tr rs buf tool tiers best
      | Some s \<Rightarrow> (let best = better best (SEVERITY_RANK s) (tier_report rs buf tool sev
                         (reaches (fst (thresholds_for_tool tr tool sev)) (repeats buf tool)) s (if s \<noteq> sev then severity_value sev else []))
                  in if s \<noteq> sev then walk_tiers tr rs buf tool tiers best else best))"
  by (auto simp: tier_emits_def name_counts_simps exact_for_name_conv split_beta Let_def rank_reversed
      NAME_AXIS_CORROBORATION_MIN_EXACT_def)

lemma tier_emits_le: "tier_emits tr buf tool sev = Some s \<Longrightarrow> severity_rank s \<le> severity_rank sev"
  by (auto simp: tier_emits_def split: if_splits)

lemma option_severities: "x = None \<or> x = Some CRITICAL \<or> x = Some WARNING \<or> x = Some INFO"
  by (metis (full_types) DriftSeverity.exhaust not_Some_eq)

lemma walk_tiers_worst: "worst_of (tool_emits tr buf tool) (walk_tiers tr rs buf tool SEVERITY_TIERS None)"
proof -
  have w: "tier_emits tr buf tool WARNING \<in> {None, Some WARNING, Some INFO}"
    using option_severities [of "tier_emits tr buf tool WARNING"] tier_emits_le [of tr buf tool WARNING] by fastforce
  have i: "tier_emits tr buf tool INFO \<in> {None, Some INFO}"
    using option_severities [of "tier_emits tr buf tool INFO"] tier_emits_le [of tr buf tool INFO] by fastforce
  show ?thesis
    unfolding worst_of_def tool_emits_def SEVERITY_TIERS_def walk_tiers_step all_severities
    using option_severities [of "tier_emits tr buf tool CRITICAL"] w i
    by (elim disjE insertE emptyE) (simp_all add: better_def Let_def)
qed

lemma worst_better: "worst_of S best \<Longrightarrow> worst_of T (Some (r, d)) \<Longrightarrow> worst_of (S \<union> T) (better best r d)"
  by (fastforce simp: worst_of_def better_def split: option.splits prod.splits)

lemma walk_tools_worst:
  "worst_of S best \<Longrightarrow> worst_of (S \<union> (\<Union>t\<in>set tools. tool_emits tr buf t)) (walk_tools tr rs buf tools best)"
proof (induction tools arbitrary: S best)
  case (Cons t tools)
  note t = walk_tiers_worst [of tr buf t rs]
  have "worst_of (S \<union> tool_emits tr buf t)
      (case walk_tiers tr rs buf t SEVERITY_TIERS None of None \<Rightarrow> best | Some (r, d) \<Rightarrow> better best r d)"
  proof (cases "walk_tiers tr rs buf t SEVERITY_TIERS None")
    case None
    with t have "tool_emits tr buf t = {}" by (simp add: worst_of_def)
    with None Cons.prems show ?thesis by simp
  next
    case (Some x)
    obtain r d where x: "x = (r, d)" by (cases x)
    show ?thesis using worst_better [OF Cons.prems, of "tool_emits tr buf t" r d] t by (simp add: Some x)
  qed
  from Cons.IH [OF this] show ?case by (simp add: Un_assoc)
qed simp

definition loop_severities :: "ToolLoopTracker \<Rightarrow> signature list \<Rightarrow> DriftSeverity set" where
  "loop_severities tr buf = (\<Union>t\<in>fst ` set buf. tool_emits tr buf t)"

definition alternation :: "nat \<Rightarrow> signature list \<Rightarrow> string list option" where
  "alternation n buf = (let names = map fst (last_n n buf) in if n \<le> length buf \<and> alternates names then Some names else None)"

lemma classify_cases:
  "if loop_severities tr buf \<noteq> {}
   then \<exists>d. classify tr rs buf = [d] \<and> drift_severity d \<in> loop_severities tr buf \<and>
     (\<forall>s\<in>loop_severities tr buf. severity_rank s \<le> severity_rank (drift_severity d))
   else classify tr rs buf =
     (case alternation (alternating_threshold tr) buf of None \<Rightarrow> [] | Some names \<Rightarrow> [alternating_report rs names])"
proof -
  have w: "worst_of (loop_severities tr buf) (walk_tools tr rs buf (map fst (name_counts buf)) None)"
    using walk_tools_worst [of "{}" None tr buf "map fst (name_counts buf)" rs] unfolding name_counts_simps(2) loop_severities_def
    by (simp add: worst_of_def [of "{}"])
  show ?thesis
  proof (cases "walk_tools tr rs buf (map fst (name_counts buf)) None")
    case None
    with w show ?thesis by (simp add: classify_def worst_of_def alternation_def Let_def)
  next
    case (Some x)
    then show ?thesis using w by (cases x) (auto simp: classify_def worst_of_def rank_reversed)
  qed
qed

section \<open>The window\<close>

datatype tool_op = Call string tool_call | Progress scope | ClearAll

fun tool_step :: "(json \<Rightarrow> string) \<Rightarrow> tool_op \<Rightarrow> ToolLoopTracker \<Rightarrow> ToolLoopTracker" where
  "tool_step h (Call uid c) tr = snd (observe_tool_call h uid c tr)"
| "tool_step h (Progress k) tr = on_task_progress k tr"
| "tool_step h ClearAll tr = tracker_clear tr"

text \<open>The calls of an agent since its last progress, without a bound: what the ring buffer stands for.\<close>

fun calls_since :: "(json \<Rightarrow> string) \<Rightarrow> scope \<Rightarrow> tool_op list \<Rightarrow> signature list" where
  "calls_since h k [] = []"
| "calls_since h k (Call uid c # ops) = (if call_scope c = k then [(tc_tool c, h (tc_args c))] else []) @ calls_since h k ops"
| "calls_since h k (Progress k' # ops) = calls_since h k ops"
| "calls_since h k (ClearAll # ops) = calls_since h k ops"

fun since_progress :: "scope \<Rightarrow> tool_op list \<Rightarrow> tool_op list" where
  "since_progress k ops = rev (takeWhile (\<lambda>x. x \<noteq> Progress k \<and> x \<noteq> ClearAll) (rev ops))"

definition window_calls :: "(json \<Rightarrow> string) \<Rightarrow> scope \<Rightarrow> tool_op list \<Rightarrow> signature list" where
  "window_calls h k ops = calls_since h k (since_progress k ops)"

lemma calls_since_append: "calls_since h k (xs @ ys) = calls_since h k xs @ calls_since h k ys"
  by (induction h k xs rule: calls_since.induct) simp_all

lemma window_calls_snoc [simp]:
  "window_calls h k [] = []"
  "window_calls h k (ops @ [Call uid c]) = window_calls h k ops @ (if call_scope c = k then [(tc_tool c, h (tc_args c))] else [])"
  "window_calls h k (ops @ [Progress k']) = (if k' = k then [] else window_calls h k ops)"
  "window_calls h k (ops @ [ClearAll]) = []"
  by (simp_all add: window_calls_def calls_since_append)

lemma tool_step_frame: "window (tool_step h x tr) = window tr" "alternating_threshold (tool_step h x tr) = alternating_threshold tr"
  "name_axis_severity_cap (tool_step h x tr) = name_axis_severity_cap tr" "work_thresholds (tool_step h x tr) = work_thresholds tr"
  by (cases x; simp add: observe_tool_call_def on_task_progress_def tracker_clear_def Let_def split: option.split)+

lemma run_window: "window (fold (tool_step h) ops tr) = window tr"
  by (induction ops arbitrary: tr) (simp_all add: tool_step_frame)

lemma buffer_step [simp]:
  "buffer_of (tool_step h (Call uid c) tr) k =
     (if call_scope c = k then deque_append (window tr) (tc_tool c, h (tc_args c)) (buffer_of tr k) else buffer_of tr k)"
  "buffer_of (tool_step h (Progress k') tr) k = (if k' = k then [] else buffer_of tr k)"
  "buffer_of (tool_step h ClearAll tr) k = []"
  by (auto simp: observe_tool_call_def on_task_progress_def tracker_clear_def buffer_of_def Let_def split: option.split)

lemma run_buffer:
  assumes "0 < window tr" "buffers tr = (\<lambda>_. None)"
  shows "buffer_of (fold (tool_step h) ops tr) k = last_n (window tr) (window_calls h k ops)"
proof (induction ops rule: rev_induct)
  case Nil
  show ?case using assms(2) by (simp add: buffer_of_def last_n_def)
next
  case (snoc x ops)
  show ?case using snoc assms(1)
    by (cases x) (simp_all add: run_window deque_append_def last_n_snoc last_n_def [of _ "[]"] del: tool_step.simps)
qed

lemma tool_emits_cong:
  "name_axis_severity_cap tr = name_axis_severity_cap tr' \<Longrightarrow> work_thresholds tr = work_thresholds tr' \<Longrightarrow>
   tool_emits tr buf t = tool_emits tr' buf t"
  by (simp add: tool_emits_def tier_emits_def thresholds_for_tool_def)

lemma run_frame: "name_axis_severity_cap (fold (tool_step h) ops tr) = name_axis_severity_cap tr"
  "work_thresholds (fold (tool_step h) ops tr) = work_thresholds tr"
  "alternating_threshold (fold (tool_step h) ops tr) = alternating_threshold tr"
  by (induction ops arbitrary: tr) (simp_all add: tool_step_frame)

lemma tracker_init_Inr:
  assumes "tracker_init c = Inr tr"
  shows "0 < cf_window c" "0 < cf_exact_threshold c" "0 < cf_name_threshold c" "0 < cf_alternating_threshold c" "window tr = nat (cf_window c)"
    "buffers tr = (\<lambda>_. None)" "work_thresholds tr = work_table (cf_exact_threshold c) (cf_name_threshold c)"
    "name_axis_severity_cap tr = severity_named (cf_name_axis_max_severity c)"
    "alternating_threshold tr = nat (cf_alternating_threshold c)"
  using assms by (auto simp: tracker_init_def split: if_splits)

text \<open>The report for the next call, read off the calls since the agent's last progress.\<close>

lemma observe_conv:
  assumes "tracker_init cf = Inr tr0"
  shows "\<exists>tr. fst (observe_tool_call h uid c (fold (tool_step h) ops tr0)) =
      classify tr (call_site uid c) (last_n (nat (cf_window cf)) (window_calls h (call_scope c) (ops @ [Call uid c]))) \<and>
    name_axis_severity_cap tr = name_axis_severity_cap tr0 \<and> work_thresholds tr = work_thresholds tr0 \<and>
    alternating_threshold tr = alternating_threshold tr0"
proof -
  note i = tracker_init_Inr [OF assms]
  have "deque_append (window tr0) (tc_tool c, h (tc_args c)) (buffer_of (fold (tool_step h) ops tr0) (call_scope c)) =
      last_n (nat (cf_window cf)) (window_calls h (call_scope c) (ops @ [Call uid c]))"
    using i by (simp add: run_buffer deque_append_def last_n_snoc)
  then have "fst (observe_tool_call h uid c (fold (tool_step h) ops tr0)) =
      classify (fold (tool_step h) ops tr0) (call_site uid c) (last_n (nat (cf_window cf)) (window_calls h (call_scope c) (ops @ [Call uid c])))"
    by (simp add: observe_tool_call_def Let_def run_window)
  then show ?thesis using run_frame by blast
qed

text \<open>
  C24: the verdict on a window of tool calls. After any calls, progress reports and resets, the tracker judges a call by
  exactly the last \<open>window\<close> calls of the agent since its last progress. It reports at most one drift. If some tier of
  some tool in the window is reached, by identical calls or by calls of one name, the report has the worst severity
  that any of them emits, calls by name being capped unless a call was repeated; otherwise
  the only possible report is an alternation of two tools, at the lowest severity.
\<close>

theorem tool_loop_verdict:
  assumes "tracker_init cf = Inr tr0" "observe_tool_call h uid c (fold (tool_step h) ops tr0) = (ds, tr)"
    and "buf = last_n (nat (cf_window cf)) (window_calls h (call_scope c) (ops @ [Call uid c]))"
  shows "if loop_severities tr0 buf \<noteq> {}
    then \<exists>d. ds = [d] \<and> drift_severity d \<in> loop_severities tr0 buf \<and>
      (\<forall>s\<in>loop_severities tr0 buf. severity_rank s \<le> severity_rank (drift_severity d))
    else ds = (case alternation (nat (cf_alternating_threshold cf)) buf of
                 None \<Rightarrow> [] | Some names \<Rightarrow> [alternating_report (call_site uid c) names])"
proof -
  from observe_conv [OF assms(1)] obtain tr' where tr: "ds = classify tr' (call_site uid c) buf"
    "name_axis_severity_cap tr' = name_axis_severity_cap tr0" "work_thresholds tr' = work_thresholds tr0"
    "alternating_threshold tr' = nat (cf_alternating_threshold cf)"
    using tracker_init_Inr(9) [OF assms(1)] assms(2,3) by (metis fst_conv)
  have "loop_severities tr0 buf = loop_severities tr' buf" unfolding loop_severities_def using tool_emits_cong [OF tr(2,3)] by simp
  then show ?thesis using classify_cases [of tr' buf "call_site uid c"] by (simp only: tr(1,4))
qed

definition sample_tool_call :: "string \<Rightarrow> tool_call" where
  "sample_tool_call tool = \<lparr>tc_run = ''r'', tc_invocation = ''i'', tc_agent = ''w'', tc_tool = tool, tc_args = JNull, tc_task = ''t'', tc_revision = 0\<rparr>"

definition sample_tracker :: ToolLoopTracker where
  "sample_tracker = \<lparr>window = 10, alternating_threshold = 5, name_axis_severity_cap = INFO, work_thresholds = work_table 3 5,
     buffers = (\<lambda>_. None)\<rparr>"

lemma sample_tracker_init: "tracker_init default_tool_loops = Inr sample_tracker"
  by (simp add: tracker_init_def default_tool_loops_def VALID_SEVERITY_NAMES_def sample_tracker_def severity_named_def)

theorem tool_loop_verdict_witness:
  "\<exists>d. fst (observe_tool_call (\<lambda>_. ''h'') ''u'' (sample_tool_call ''grep'')
       (fold (tool_step (\<lambda>_. ''h'')) [Call ''u'' (sample_tool_call ''grep''), Call ''u'' (sample_tool_call ''grep'')] sample_tracker)) = [d] \<and>
     severity_rank WARNING \<le> severity_rank (drift_severity d)"
proof -
  let ?ops = "[Call ''u'' (sample_tool_call ''grep''), Call ''u'' (sample_tool_call ''grep'')]"
  have b: "replicate 3 (''grep'', ''h'') = last_n (nat (cf_window default_tool_loops))
      (window_calls (\<lambda>_. ''h'') (call_scope (sample_tool_call ''grep'')) (?ops @ [Call ''u'' (sample_tool_call ''grep'')]))"
    by code_simp
  have "tier_emits sample_tracker (replicate 3 (''grep'', ''h'')) ''grep'' WARNING = Some WARNING" by code_simp
  then have w: "WARNING \<in> loop_severities sample_tracker (replicate 3 (''grep'', ''h''))"
    by (auto simp: loop_severities_def tool_emits_def)
  then have ne: "loop_severities sample_tracker (replicate 3 (''grep'', ''h'')) \<noteq> {}" by blast
  show ?thesis using tool_loop_verdict [OF sample_tracker_init prod.collapse [symmetric] b, unfolded if_P [OF ne]] w by blast
qed

section \<open>Reports\<close>

text \<open>What the handler relies on: the facts of a report have the types that the note composer reads.\<close>

definition is_report :: "drift_event \<Rightarrow> bool" where
  "is_report d \<longleftrightarrow> drift_kind d = LOOPING_REASONING \<and> facts_ok d \<and> \<not> suppressed_by_user_steer d"

lemma reports: "is_report (tier_report rs buf tool tier x emit cap)" "is_report (alternating_report rs names)"
  by (simp_all add: is_report_def tier_report_def alternating_report_def loop_report_def mk_drift_def facts_ok_def jget_def Let_def)

lemma better_report: "pred_option (\<lambda>x. is_report (snd x)) best \<Longrightarrow> is_report d \<Longrightarrow> pred_option (\<lambda>x. is_report (snd x)) (better best r d)"
  by (auto simp: better_def split: option.split)

lemma walk_tiers_report: "pred_option (\<lambda>x. is_report (snd x)) best \<Longrightarrow> pred_option (\<lambda>x. is_report (snd x)) (walk_tiers tr rs buf tool tiers best)"
  by (induction tiers arbitrary: best) (auto simp: walk_tiers_step Let_def reports better_report simp del: walk_tiers.simps(2) split: option.split)

lemma walk_tools_report: "pred_option (\<lambda>x. is_report (snd x)) best \<Longrightarrow> pred_option (\<lambda>x. is_report (snd x)) (walk_tools tr rs buf tools best)"
proof (induction tools arbitrary: best)
  case (Cons t tools)
  have "pred_option (\<lambda>x. is_report (snd x)) (walk_tiers tr rs buf t SEVERITY_TIERS None)" by (simp add: walk_tiers_report)
  then have "pred_option (\<lambda>x. is_report (snd x))
      (case walk_tiers tr rs buf t SEVERITY_TIERS None of None \<Rightarrow> best | Some (r, d) \<Rightarrow> better best r d)"
    using Cons.prems better_report by (auto split: option.split)
  from Cons.IH [OF this] show ?case by simp
qed simp

lemma classify_reports: "d \<in> set (classify tr rs buf) \<Longrightarrow> is_report d"
  using walk_tools_report [of None tr rs buf "map fst (name_counts buf)"] reports(2)
  by (auto simp: classify_def Let_def split: option.splits if_splits)

text \<open>Calls that are all different never get beyond the lowest severity.\<close>

lemma count_distinct: "distinct xs \<Longrightarrow> count_list xs x \<le> 1"
  by (induction xs) (auto simp: count_notin)

lemma repeats_distinct: "distinct buf \<Longrightarrow> repeats buf tool \<le> 1"
  using count_distinct [of buf] by (auto simp: repeats_def)

lemma varied_calls_info:
  assumes "tracker_init cf = Inr tr0" "cf_name_axis_max_severity cf = ''info''" "2 \<le> cf_exact_threshold cf"
    and "distinct buf" "s \<in> loop_severities tr0 buf"
  shows "s = INFO"
proof -
  from assms(5) obtain t sev where e: "tier_emits tr0 buf t sev = Some s" by (auto simp: loop_severities_def tool_emits_def)
  have r: "int (repeats buf t) \<le> 1" using repeats_distinct [OF assms(4), of t] by simp
  then have "\<not> reaches (fst (thresholds_for_tool tr0 t sev)) (repeats buf t)"
    using assms(3) by (cases sev) (auto simp: thresholds_for_tool_def reaches_def tracker_init_Inr(7) [OF assms(1)] work_table_def min_def)
  then show ?thesis using e r assms(2) tracker_init_Inr(8) [OF assms(1)]
    by (cases sev) (auto simp: tier_emits_def severity_named_def split: if_splits)
qed

end
