(* ===== verification/Tool_Watch.thy ===== *)
theory Tool_Watch
  imports Drift_Handling Tool_Loops
begin

text \<open>
  The callback that the adapter's plugin runs after every tool call (\<open>after_tool_callback\<close> of
  \<open>src/goldfive/adapters/_adk_plugin.py\<close>): it feeds the tool-loop tracker and the session's buffer of tool observations,
  hands a reported drift to the intervention ladder, and may annotate the tool's result with the note the
  ladder left for the agent. It brings the tracker, the handlers and the note queue together.
\<close>

section \<open>The callback\<close>

record watch =
  wt_desk :: desk
  tracker :: ToolLoopTracker
  invocation_stats :: "string \<rightharpoonup> nat \<times> nat"
  tool_observations_max :: int

abbreviation watch_world :: "watch \<Rightarrow> world" where
  "watch_world t \<equiv> desk_core (wt_desk t)"

definition on_watch_world :: "(world \<Rightarrow> world) \<Rightarrow> watch \<Rightarrow> watch" where
  "on_watch_world f t = t\<lparr>wt_desk := (wt_desk t)\<lparr>obs := on_core f (obs (wt_desk t))\<rparr>\<rparr>"

definition is_progress_report_success :: "json \<Rightarrow> bool" where
  "is_progress_report_success r =
     (case r of
        JDict d \<Rightarrow> map_of d ''error'' = None \<and> map_of d ''acknowledged'' = Some (JBool True)
      | _ \<Rightarrow> False)"

definition progress_reporting_tools :: "string set" where
  "progress_reporting_tools =
     {''report_task_started'', ''report_task_progress'', ''report_task_completed'', ''report_task_failed'',
      ''report_task_blocked'', ''report_awaiting_approval''}"

definition RECENT_EVENT_KIND_TOOL_OBSERVED :: string where "RECENT_EVENT_KIND_TOOL_OBSERVED = ''tool_observed''"

text \<open>Without an exception of the tool; the time stamp of the entry is a second clock reading.\<close>

definition note_tool_observation :: "int \<Rightarrow> string \<Rightarrow> string \<Rightarrow> string \<Rightarrow> json \<Rightarrow> json \<Rightarrow> world \<Rightarrow> world" where
  "note_tool_observation cap_raw agent task tool args result w =
     (let w1 = stamp_last_observed w;
          is_error = (case result of JDict d \<Rightarrow> map_of d ''error'' \<noteq> None | _ \<Rightarrow> False);
          entry = [(''kind'', JStr RECENT_EVENT_KIND_TOOL_OBSERVED), (''ts_ms'', JInt (monotonic (cfg w1) (ticks w1) div 1000000)),
            (''agent_name'', JStr agent), (''task_id'', JStr task), (''tool_name'', JStr tool),
            (''args_preview'', JStr (take 240 (repr_json args))),
            (''result_preview'', JStr (if result = JNull then ''(none)'' else take 480 (repr_json result))),
            (''is_error'', JBool is_error),
            (''error_message'', JStr (case result of
                JDict d \<Rightarrow> (case map_of d ''error'' of Some e \<Rightarrow> take 240 (py_str e) | None \<Rightarrow> [])
              | _ \<Rightarrow> []))]
      in tick (on_sess (\<lambda>s. s\<lparr>recent_events :=
           trim_recent_events_kind_class (recent_events s @ [entry]) {RECENT_EVENT_KIND_TOOL_OBSERVED} (max 1 cap_raw)\<rparr>) w1))"

definition LOOP_KINDS :: "string set" where "LOOP_KINDS = {''looping_tool_call'', ''looping_reasoning''}"

definition render_tool_annotation :: "ObserverNote \<Rightarrow> string" where
  "render_tool_annotation n =
     ''[goldfive observer: '' @ strip (if observation n \<noteq> [] then observation n else note_body n) @ '']''"

text \<open>An exception of the note queue is swallowed: the result is then left alone.\<close>

definition maybe_annotate_tool_result :: "string \<Rightarrow> json \<Rightarrow> world \<Rightarrow> json option \<times> world" where
  "maybe_annotate_tool_result agent result w =
     (case result of
        JDict d \<Rightarrow>
          if \<not> request_context (cfg w) then (None, w)
          else (case peek_for_render (state (sess w)) (Some LOOP_KINDS) (if agent \<noteq> [] then Some agent else None) False True of
                  None \<Rightarrow> (None, w)
                | Some n \<Rightarrow>
                    (case mark_delivered (state (sess w)) (note_id n) ''request_context'' (int (reasoning_turn (sess w)))
                            ''tool_annotation'' (\<not> is_active_steering (cfg w)) of
                       Inl _ \<Rightarrow> (None, w)
                     | Inr (newly, st) \<Rightarrow>
                         (let w = on_sess (\<lambda>s. s\<lparr>state := st\<rparr>) w
                          in if \<not> newly \<or> \<not> is_active_steering (cfg w) then (None, w)
                             else (Some (JDict (dict_update d [(''goldfive_observer_note'', JStr (render_tool_annotation n))])), w))))
      | _ \<Rightarrow> (None, w))"

text \<open>
  A callback whose drift handler waits for the planner is suspended with it; what is left to do then is the
  annotation. Otherwise the callback returns a replacement for the tool's result, or \<open>None\<close>.
\<close>

datatype callback_result = Suspended | Returned "json option"

definition annotate :: "string \<Rightarrow> json \<Rightarrow> watch \<Rightarrow> callback_result \<times> watch" where
  "annotate agent result t =
     (let (r, w) = maybe_annotate_tool_result agent result (watch_world t) in (Returned r, on_watch_world (\<lambda>_. w) t))"

definition or_agent :: "string \<Rightarrow> string \<Rightarrow> string" where
  "or_agent a b = (if a \<noteq> [] then a else b)"

definition count_tool_call :: "string \<Rightarrow> nat \<Rightarrow> watch \<Rightarrow> watch" where
  "count_tool_call i n t =
     (if i = [] then t
      else let (c, d) = (case invocation_stats t i of None \<Rightarrow> (0, 0) | Some x \<Rightarrow> x)
           in t\<lparr>invocation_stats := (invocation_stats t)(i \<mapsto> (c + 1, d + n))\<rparr>)"

definition watched_call :: "watch \<Rightarrow> tool_call \<Rightarrow> tool_call" where
  "watched_call t c =
     c\<lparr>tc_run := run_id (sess (watch_world t)),
       tc_revision := (case session_plan (sess (watch_world t)) of None \<Rightarrow> 0 | Some p \<Rightarrow> revision_index p)\<rparr>"

text \<open>Up to the dispatch of the drifts; the tracker reports at most one.\<close>

definition tool_observed :: "(json \<Rightarrow> string) \<Rightarrow> string \<Rightarrow> tool_call \<Rightarrow> json \<Rightarrow> watch \<Rightarrow> drift_event list \<times> watch" where
  "tool_observed args_hash uid c result t =
     (let c = watched_call t c;
          (drifts, tr) = observe_tool_call args_hash uid c (tracker t);
          t = count_tool_call (tc_invocation c) (length drifts) (t\<lparr>tracker := tr\<rparr>);
          s = sess (watch_world t);
          t = on_watch_world (note_tool_observation (tool_observations_max t) (or_agent (current_agent_id s) (tc_agent c))
                (or_agent (current_task_id s) (tc_task c)) (tc_tool c) (tc_args c) result) t;
          t = (if tc_tool c \<in> progress_reporting_tools \<and> is_progress_report_success result
               then t\<lparr>tracker := on_task_progress (call_scope c) (tracker t)\<rparr> else t)
      in (drifts, t))"

definition after_tool_callback ::
  "(json \<Rightarrow> string) \<Rightarrow> string \<Rightarrow> tool_call \<Rightarrow> json \<Rightarrow> watch \<Rightarrow> py_error + callback_result \<times> watch" where
  "after_tool_callback args_hash uid c result t =
     (case tool_observed args_hash uid c result t of
        ([], t) \<Rightarrow> Inr (Returned None, t)
      | (d # _, t) \<Rightarrow>
          ebind (detect d (wt_desk t)) (\<lambda>k.
          Inr (if length (waiting (wt_desk t)) < length (waiting k) then (Suspended, t\<lparr>wt_desk := k\<rparr>)
               else annotate (tc_agent c) result (t\<lparr>wt_desk := k\<rparr>))))"

section \<open>Quiet handling\<close>

text \<open>A handler that only reports: nothing waits, nothing is sent, the plan and the running invocations are left alone.\<close>

definition quiet :: "observer \<Rightarrow> observer \<Rightarrow> bool" where
  "quiet b b' \<longleftrightarrow> control_channel b' = control_channel b \<and> pending_nudges b' = pending_nudges b \<and>
     cancel_requests (core b') = cancel_requests (core b) \<and> session_plan (sess (core b')) = session_plan (sess (core b))"

definition undisturbed :: "desk \<Rightarrow> desk \<Rightarrow> bool" where
  "undisturbed k k' \<longleftrightarrow> waiting k' = waiting k \<and> quiet (obs k) (obs k')"

interpretation gentle: call_policy "\<lambda>c. \<not> is_cancel c"
  by unfold_locales auto

lemma traces_cancel_requests: "traces (\<lambda>c. \<not> is_cancel c) w w' ms \<Longrightarrow> cancel_requests w' = cancel_requests w"
  by (auto simp: traces_def cancel_requests_def list_all_iff intro!: filter_False)

lemma quiet_on_core:
  "traces (\<lambda>c. \<not> is_cancel c) (core b) (f (core b)) [] \<Longrightarrow> session_plan (sess (f (core b))) = session_plan (sess (core b)) \<Longrightarrow>
   quiet b (on_core f b)"
  using traces_cancel_requests by (simp add: quiet_def on_core_def)

lemma quiet_trans: "quiet b b1 \<Longrightarrow> quiet b1 b2 \<Longrightarrow> quiet b b2"
  by (simp add: quiet_def)

lemma quiet_registry [simp]:
  "quiet b (b1\<lparr>inflight_refine_keys := x\<rparr>) = quiet b b1" "quiet (b\<lparr>inflight_refine_keys := x\<rparr>) b1 = quiet b b1"
  "quiet b (b1\<lparr>emitted_redundant := n\<rparr>) = quiet b b1" "quiet (b\<lparr>emitted_redundant := n\<rparr>) b1 = quiet b b1"
  by (simp_all add: quiet_def)

lemma quiet_detected: "quiet b (on_core (emit_drift_detected d oc rsn) b)"
  by (intro quiet_on_core gentle.observer_traces traces_refl) simp

lemma quiet_release: "quiet b (release_slot key d b)"
  by (simp add: quiet_def release_slot_def on_core_def cancel_requests_def split: option.split)

lemma info_dispatch_quiet:
  assumes "drift_kind d = LOOPING_REASONING" "drift_severity d = INFO" "\<not> suppressed_by_user_steer d"
  shows "\<exists>b'. handle_drift_dispatch d b = Inr (None, b') \<and> quiet b b'"
proof -
  have p: "should_promote_to_steer p d w = (False, d)" for p w
    using assms by (simp add: should_promote_to_steer_def severity_meets_promotion_threshold_def split: steer_threshold.split)
  have c: "cancel_for_drift d w = w" for w
    using assms by (simp add: cancel_for_drift_def should_request_cancel_for_drift_def USER_AUTHORED_DRIFT_KINDS_def)
  have l: "ladder_level_for legacy LOOPING_REASONING INFO n = OBSERVE" for legacy n
    by (simp add: ladder_level_for_def LADDER_def LADDER_LEGACY_def)
  let ?b = "on_core (emit_drift_detected d [] []) b"
  have "\<exists>r. handle_drift_dispatch d b = Inr (None, on_core (emit_ladder_transition OBSERVE r d) ?b)"
    unfolding handle_drift_dispatch_def Let_def tag_adapter_cancel_reason_def
    using assms by (auto simp: p c climb_ladder_def l dispatch_level_def on_core_def Let_def)
  moreover have "quiet ?b (on_core (emit_ladder_transition OBSERVE r d) ?b)" for r
    by (intro quiet_on_core gentle.observer_traces traces_refl) simp
  ultimately show ?thesis using quiet_trans [OF quiet_detected] by blast
qed

lemma info_report_quiet:
  assumes "is_report d" "drift_severity d = INFO"
  shows "\<exists>b'. handle_drift d b = Inr (None, b') \<and> quiet b b'"
proof -
  have "drift_kind (attributed d) = LOOPING_REASONING" "drift_severity (attributed d) = INFO" "\<not> suppressed_by_user_steer (attributed d)"
    using assms by (simp_all add: is_report_def attributed_def)
  note q = info_dispatch_quiet [OF this]
  have g: "\<exists>b'. guarded_dispatch key (attributed d) b1 = Inr (None, b') \<and> quiet b1 b'" for key b1
  proof -
    obtain b2 where "handle_drift_dispatch (attributed d) b1 = Inr (None, b2)" "quiet b1 b2" using q by blast
    then show ?thesis using quiet_trans [OF _ quiet_release] by (simp add: guarded_dispatch_def)
  qed
  have "drift_kind d \<noteq> PLAN_DIVERGENCE" using assms(1) by (simp add: is_report_def)
  then show ?thesis
    using g [of None b] g [of "Some slot" "b\<lparr>inflight_refine_keys := insert slot (inflight_refine_keys b)\<rparr>" for slot]
      quiet_detected [of b] quiet_detected [of "b\<lparr>emitted_redundant := emitted_redundant b + 1\<rparr>"]
    unfolding handle_drift_def Let_def attributed_def [symmetric] drop_redundant_def by (auto simp del: attributed_simps)
qed

section \<open>Around the handler\<close>

lemma quiet_note_tool: "quiet b (on_core (note_tool_observation cap a task tool args result) b)"
  by (simp add: quiet_def on_core_def note_tool_observation_def stamp_last_observed_def on_sess_def tick_def cancel_requests_def Let_def)

lemma annotate_cases:
  assumes "annotate a result t = (r, t')"
  shows "undisturbed (wt_desk t) (wt_desk t')"
    "r = Returned None \<or> (\<exists>d text. is_active_steering (cfg (watch_world t)) \<and> request_context (cfg (watch_world t)) \<and> result = JDict d \<and>
       r = Returned (Some (JDict (dict_update d [(''goldfive_observer_note'', JStr text)]))))"
proof -
  let ?w = "watch_world t"
  obtain x w where m: "maybe_annotate_tool_result a result ?w = (x, w)" by (cases "maybe_annotate_tool_result a result ?w")
  have "\<exists>st. w = on_sess (\<lambda>s. s\<lparr>state := st\<rparr>) ?w"
  proof (cases "w = ?w")
    case True
    have "?w = on_sess (\<lambda>s. s\<lparr>state := state (sess ?w)\<rparr>) ?w" by (simp add: on_sess_def)
    with True show ?thesis by metis
  next
    case False
    then show ?thesis using m by (auto simp: maybe_annotate_tool_result_def Let_def split: json.splits if_splits option.splits sum.splits)
  qed
  then have "plugin_calls w = plugin_calls ?w" "session_plan (sess w) = session_plan (sess ?w)" by (auto simp: on_sess_def)
  then show "undisturbed (wt_desk t) (wt_desk t')"
    using assms m by (auto simp: annotate_def undisturbed_def quiet_def cancel_requests_def on_watch_world_def on_core_def)
  show "r = Returned None \<or> (\<exists>d text. is_active_steering (cfg ?w) \<and> request_context (cfg ?w) \<and> result = JDict d \<and>
       r = Returned (Some (JDict (dict_update d [(''goldfive_observer_note'', JStr text)]))))"
    using assms m by (auto simp: annotate_def maybe_annotate_tool_result_def Let_def on_sess_def
        split: json.splits if_splits option.splits sum.splits)
qed

lemma note_tool_cfg [simp]: "cfg (note_tool_observation cap a task tool args result w) = cfg w"
  by (simp add: note_tool_observation_def stamp_last_observed_def on_sess_def tick_def Let_def)

lemma tool_observed_frame:
  assumes "tool_observed h uid c result t = (ds, t1)"
  shows "ds = fst (observe_tool_call h uid (watched_call t c) (tracker t))" "waiting (wt_desk t1) = waiting (wt_desk t)"
    "quiet (obs (wt_desk t)) (obs (wt_desk t1))" "cfg (watch_world t1) = cfg (watch_world t)" "pol (obs (wt_desk t1)) = pol (obs (wt_desk t))"
proof -
  have c: "wt_desk (count_tool_call i n t) = wt_desk t" for i n t by (simp add: count_tool_call_def split_beta Let_def)
  have "\<exists>cap a task tool args. wt_desk t1 = (wt_desk t)\<lparr>obs := on_core (note_tool_observation cap a task tool args result) (obs (wt_desk t))\<rparr>"
    using assms by (auto simp: tool_observed_def Let_def split_beta on_watch_world_def c split: if_splits) ((rule exI)+, rule refl)+
  then obtain cap a task tool args where
    k: "wt_desk t1 = (wt_desk t)\<lparr>obs := on_core (note_tool_observation cap a task tool args result) (obs (wt_desk t))\<rparr>" by blast
  show "ds = fst (observe_tool_call h uid (watched_call t c) (tracker t))" using assms by (auto simp: tool_observed_def Let_def split_beta)
  show "waiting (wt_desk t1) = waiting (wt_desk t)" "quiet (obs (wt_desk t)) (obs (wt_desk t1))" "cfg (watch_world t1) = cfg (watch_world t)"
    "pol (obs (wt_desk t1)) = pol (obs (wt_desk t))"
    by (simp_all add: k quiet_note_tool) (simp_all add: on_core_def)
qed


definition sample_watch :: watch where
  "sample_watch = \<lparr>wt_desk = sample_desk done_world, tracker = sample_tracker, invocation_stats = (\<lambda>_. None), tool_observations_max = 16\<rparr>"


lemma observe_reports: "d \<in> set (fst (observe_tool_call h uid c tr)) \<Longrightarrow> is_report d"
  using classify_reports by (auto simp: observe_tool_call_def Let_def)

lemma detect_effects:
  assumes "staffed UNIV k" "facts_ok d"
  shows "\<exists>k'. detect d k = Inr k' \<and> cfg (desk_core k') = cfg (desk_core k) \<and>
    (\<not> is_active_steering (cfg (desk_core k)) \<longrightarrow>
       control_channel (obs k') = control_channel (obs k) \<and> pending_nudges (obs k') = pending_nudges (obs k) \<and>
       cancel_requests (desk_core k') = cancel_requests (desk_core k))"
proof -
  obtain k' where k': "detect d k = Inr k'" using detect_total [OF assms] by blast
  then have h: "handling UNIV k k'" using assms(2) by (auto intro: Detects)
  obtain ms where "sways (\<lambda>_. True) (\<lambda>_. True) True (forget (obs k)) (forget (obs k')) ms"
    using handling_ok(1) [OF h regime_any assms(1)] by blast
  then show ?thesis using k' sways_unforget(1) handling_ok(1) [OF h regime_passive assms(1)] passive_sways by blast
qed

text \<open>
  Tool results are only ever annotated. On any desk that handlers have left usable, the callback after a tool
  call ends or waits for the planner, without an exception. A result it hands back is
  the tool's own dictionary with one reserved key added, and only while steering is active and notes travel with
  requests. Without active steering it hands nothing back, sends and queues nothing and cancels nothing.
\<close>

theorem tool_results_only_annotated:
  assumes "staffed UNIV (wt_desk t)"
  shows "\<exists>r t'. after_tool_callback h uid c result t = Inr (r, t') \<and>
    (r \<in> {Suspended, Returned None} \<or>
     (\<exists>d text. is_active_steering (cfg (watch_world t)) \<and> request_context (cfg (watch_world t)) \<and> result = JDict d \<and>
        r = Returned (Some (JDict (dict_update d [(''goldfive_observer_note'', JStr text)]))))) \<and>
    (\<not> is_active_steering (cfg (watch_world t)) \<longrightarrow>
       control_channel (obs (wt_desk t')) = control_channel (obs (wt_desk t)) \<and>
       pending_nudges (obs (wt_desk t')) = pending_nudges (obs (wt_desk t)) \<and>
       cancel_requests (watch_world t') = cancel_requests (watch_world t))"
proof -
  obtain ds t1 where o: "tool_observed h uid c result t = (ds, t1)" by (cases "tool_observed h uid c result t")
  note f = tool_observed_frame [OF o]
  show ?thesis
  proof (cases ds)
    case Nil
    then show ?thesis using f(3) by (simp add: after_tool_callback_def o quiet_def)
  next
    case (Cons d ds')
    have st: "staffed UNIV (wt_desk t1)" using assms f by (auto simp: staffed_def quiet_def plan_held_def)
    have "is_report d" using observe_reports f(1) Cons by (metis list.set_intros(1))
    then have "facts_ok d" by (simp add: is_report_def)
    from detect_effects [OF st this] obtain k where k: "detect d (wt_desk t1) = Inr k" "cfg (desk_core k) = cfg (watch_world t)"
      "\<not> is_active_steering (cfg (watch_world t)) \<Longrightarrow> control_channel (obs k) = control_channel (obs (wt_desk t)) \<and>
         pending_nudges (obs k) = pending_nudges (obs (wt_desk t)) \<and> cancel_requests (desk_core k) = cancel_requests (watch_world t)"
      using f(3,4) by (auto simp: quiet_def)
    obtain r t' where a: "annotate (tc_agent c) result (t1\<lparr>wt_desk := k\<rparr>) = (r, t')"
      by (cases "annotate (tc_agent c) result (t1\<lparr>wt_desk := k\<rparr>)")
    have "after_tool_callback h uid c result t =
        Inr (if length (waiting (wt_desk t1)) < length (waiting k) then (Suspended, t1\<lparr>wt_desk := k\<rparr>) else (r, t'))"
      by (simp add: after_tool_callback_def o Cons k(1) a)
    then show ?thesis using annotate_cases [OF a] k(2,3) by (cases "length (waiting (wt_desk t1)) < length (waiting k)") (auto simp: undisturbed_def quiet_def)
  qed
qed

theorem tool_results_only_annotated_witness:
  "\<exists>r t'. after_tool_callback (\<lambda>_. ''h'') ''u'' (sample_tool_call ''grep'') (JDict []) sample_watch = Inr (r, t')"
proof -
  have "staffed UNIV (wt_desk sample_watch)" by (simp add: sample_watch_def staffed_def plan_held_def)
  from tool_results_only_annotated [OF this, of "\<lambda>_. ''h''" "''u''" "sample_tool_call ''grep''" "JDict []"] show ?thesis by blast
qed

end
