(* ===== verification/Run_Control.thy ===== *)
theory Run_Control
  imports Drift_Handling
begin

text \<open>
  \<open>src/goldfive/executors/_control.py\<close>: what the executors do with a control message. \<open>dispatch_control\<close> handles one
  message and says what the run loop has to apply; \<open>drain_controls\<close> empties the inbox; \<open>abort_expired_pause\<close> ends a run
  whose pause nobody answered. A run is the desk of \<open>Drift_Handling\<close> with the session fields that only control messages and
  reporting tools touch: the approval waiters (an \<open>asyncio.Event\<close> is its flag), their metadata, and two switches.

  A rewind walks the tasks it collected in the iteration order of a Python set, which depends on the hash seed of the
  process: it is the parameter \<open>shuffle\<close>, of which \<open>reorders\<close> says that it keeps the elements. Numbers
  in a payload are integers; \<open>float(x)\<close> of a text is the parameter \<open>parse_float\<close>.
\<close>

section \<open>float(x)\<close>

fun bit_length :: "nat \<Rightarrow> nat" where
  "bit_length n = (if n = 0 then 0 else Suc (bit_length (n div 2)))"

declare bit_length.simps [simp del]

text \<open>An integer beyond 53 bits is rounded to the nearest double, ties to even.\<close>

definition round_double :: "int \<Rightarrow> int" where
  "round_double n =
     (let m = nat \<bar>n\<bar>; e = bit_length m - 53; q = m div 2 ^ e; r = m mod 2 ^ e;
          q' = (if 2 ^ e < 2 * r \<or> (2 * r = 2 ^ e \<and> odd q) then q + 1 else q)
      in sgn n * int (q' * 2 ^ e))"

definition float_of_int :: "int \<Rightarrow> py_error + pyfloat" where
  "float_of_int n =
     (if 2 ^ 1024 - 2 ^ 970 \<le> \<bar>n\<bar> then Inl (OverflowError ''int too large to convert to float'')
      else Inr (Fin (round_double n * float_one)))"

fun py_float :: "(string \<Rightarrow> pyfloat option) \<Rightarrow> json \<Rightarrow> py_error + pyfloat" where
  "py_float parse_float (JInt n) = float_of_int n"
| "py_float parse_float (JBool b) = float_of_int (if b then 1 else 0)"
| "py_float parse_float (JStr s) =
     (case parse_float s of Some v \<Rightarrow> Inr v
      | None \<Rightarrow> Inl (ValueError (''could not convert string to float: '' @ repr_str s)))"
| "py_float parse_float v = Inl (TypeError ''float() argument must be a string or a real number'')"

fun positive_float :: "pyfloat \<Rightarrow> bool" where
  "positive_float (Fin n) \<longleftrightarrow> 0 < n"
| "positive_float PosInf \<longleftrightarrow> True"
| "positive_float NegInf \<longleftrightarrow> False"
| "positive_float NaN \<longleftrightarrow> False"

section \<open>The run\<close>

record run_state =
  seat :: desk
  pending_approvals :: "string \<rightharpoonup> bool"
  pending_approvals_meta :: "string \<rightharpoonup> (string, json) dict"
  divergence_flag :: bool
  intercept_transfer :: bool

abbreviation run_world :: "run_state \<Rightarrow> world" where
  "run_world s \<equiv> desk_core (seat s)"

definition with_core :: "world \<Rightarrow> desk \<Rightarrow> desk" where
  "with_core w k = k\<lparr>obs := (obs k)\<lparr>core := w\<rparr>\<rparr>"

definition with_world :: "world \<Rightarrow> run_state \<Rightarrow> run_state" where
  "with_world w s = s\<lparr>seat := with_core w (seat s)\<rparr>"

lemma with_core_simps [simp]:
  "desk_core (with_core w k) = w" "seated (with_core w k) = seated k" "waiting (with_core w k) = waiting k"
  "control_channel (obs (with_core w k)) = control_channel (obs k)" "with_core (desk_core k) k = k"
  "with_core v (with_core w k) = with_core v k"
  by (simp_all add: with_core_def seated_def)

lemma with_world_simps [simp]:
  "run_world (with_world w s) = w" "seated (seat (with_world w s)) = seated (seat s)"
  "control_channel (obs (seat (with_world w s))) = control_channel (obs (seat s))"
  "pending_approvals (with_world w s) = pending_approvals s" "pending_approvals_meta (with_world w s) = pending_approvals_meta s"
  "divergence_flag (with_world w s) = divergence_flag s" "intercept_transfer (with_world w s) = intercept_transfer s"
  "with_world (run_world s) s = s" "with_world v (with_world w s) = with_world v s" "waiting (seat (with_world w s)) = waiting (seat s)"
  by (simp_all add: with_world_def)

section \<open>Outcomes and acks\<close>

record ControlOutcome =
  oc_ack :: ControlAck
  oc_cancel_run :: bool
  oc_steer :: "ControlMessage option"
  oc_goldfive_steer :: "ControlMessage option"
  oc_goldfive_pause :: "ControlMessage option"
  oc_request_pause :: bool
  oc_request_resume :: bool
  oc_rewind :: string
  oc_cancel_reason :: string
  oc_cancel_prefix :: string

text \<open>\<open>ControlOutcome(ack=a)\<close> with the dataclass defaults.\<close>

definition mk_outcome :: "ControlAck \<Rightarrow> ControlOutcome" where
  "mk_outcome a =
     \<lparr>oc_ack = a, oc_cancel_run = False, oc_steer = None, oc_goldfive_steer = None, oc_goldfive_pause = None,
      oc_request_pause = False, oc_request_resume = False, oc_rewind = [], oc_cancel_reason = [], oc_cancel_prefix = []\<rparr>"

definition now_ms :: "world \<Rightarrow> int" where
  "now_ms w = wall_clock (cfg w) (ticks w) div 1000000"

definition build_ack :: "ControlMessage \<Rightarrow> AckResult \<Rightarrow> string \<Rightarrow> run_state \<Rightarrow> ControlOutcome \<times> run_state" where
  "build_ack m r detail s =
     (mk_outcome \<lparr>control_id = msg_id m, ack_result = r, ack_detail = detail, acked_at_ms = now_ms (run_world s)\<rparr>,
      with_world (tick (run_world s)) s)"

fun kind_value :: "ControlKind \<Rightarrow> string" where
  "kind_value CK_PAUSE = ''PAUSE''"
| "kind_value CK_RESUME = ''RESUME''"
| "kind_value CK_CANCEL = ''CANCEL''"
| "kind_value CK_REWIND_TO = ''REWIND_TO''"
| "kind_value CK_STEER = ''STEER''"
| "kind_value CK_APPROVE = ''APPROVE''"
| "kind_value CK_REJECT = ''REJECT''"
| "kind_value CK_STATUS_QUERY = ''STATUS_QUERY''"
| "kind_value CK_INTERCEPT_TRANSFER = ''INTERCEPT_TRANSFER''"
| "kind_value CK_INJECT_MESSAGE = ''INJECT_MESSAGE''"
| "kind_value CK_GOLDFIVE_STEER = ''GOLDFIVE_STEER''"
| "kind_value CK_GOLDFIVE_PAUSE_ESCALATE = ''GOLDFIVE_PAUSE_ESCALATE''"

definition ids_with :: "TaskStatus list \<Rightarrow> plan \<Rightarrow> string list" where
  "ids_with ss p = map task_id (filter (\<lambda>t. status t \<in> set ss) (tasks p))"

definition build_status_snapshot :: "session \<Rightarrow> string \<Rightarrow> string" where
  "build_status_snapshot s cid =
     (let completed = (case session_plan s of None \<Rightarrow> [] | Some p \<Rightarrow> ids_with [COMPLETED] p);
          pending = (case session_plan s of None \<Rightarrow> [] | Some p \<Rightarrow> ids_with [PENDING, RUNNING, BLOCKED] p);
          total = (case session_plan s of None \<Rightarrow> 0 | Some p \<Rightarrow> length (tasks p));
          joined = join '','' pending
      in ''status_query control_id='' @ cid @ '' current_task='' @ current_task_id s @
         '' completed='' @ show_nat (length completed) @ ''/'' @ show_nat total @
         '' pending='' @ (if joined = [] then ''-'' else joined))"

section \<open>Rewinding\<close>

definition children :: "(string, task) dict \<Rightarrow> TaskEdge list \<Rightarrow> string \<Rightarrow> string list" where
  "children by_id es i =
     map to_task_id (filter (\<lambda>e. from_task_id e = i \<and> map_of by_id (from_task_id e) \<noteq> None \<and> map_of by_id (to_task_id e) \<noteq> None) es)"

lemma children_targets: "set (children by_id es i) \<subseteq> to_task_id ` set es"
  by (auto simp: children_def)

text \<open>The stack is a list whose head is the top; a child pushed later lies above one pushed before.\<close>

function affected_loop :: "(string, task) dict \<Rightarrow> TaskEdge list \<Rightarrow> string list \<Rightarrow> string list \<Rightarrow> string list" where
  "affected_loop by_id es [] affected = affected"
| "affected_loop by_id es (i # stack) affected =
     (if i \<in> set affected then affected_loop by_id es stack affected
      else affected_loop by_id es
             (rev (filter (\<lambda>c. c \<notin> set (i # affected)) (children by_id es i)) @ stack) (i # affected))"
  by pat_completeness auto
termination
proof (relation "measures [\<lambda>(by_id, es, stack, affected). card ((set stack \<union> to_task_id ` set es) - set affected),
      \<lambda>(by_id, es, stack, affected). length stack]", goal_cases)
  case (2 by_id es i stack affected)
  have "card ((set stack \<union> to_task_id ` set es) - set affected) \<le> card ((set (i # stack) \<union> to_task_id ` set es) - set affected)"
    by (rule card_mono) auto
  then show ?case by (auto simp: le_less)
next
  case (3 by_id es i stack affected)
  let ?new = "rev (filter (\<lambda>c. c \<notin> set (i # affected)) (children by_id es i)) @ stack"
  have "set ?new \<subseteq> to_task_id ` set es \<union> set stack" using children_targets [of by_id es i] by auto
  then have "(set ?new \<union> to_task_id ` set es) - set (i # affected) \<subset> (set (i # stack) \<union> to_task_id ` set es) - set affected"
    using 3 by (intro psubsetI) (simp, blast, simp, blast)
  then have "card ((set ?new \<union> to_task_id ` set es) - set (i # affected)) < card ((set (i # stack) \<union> to_task_id ` set es) - set affected)"
    by (intro psubset_card_mono) simp_all
  then show ?case by simp
qed simp

declare affected_loop.simps [simp del]

text \<open>What \<open>session.completed_results.pop(tid, None)\<close> and its two siblings forget.\<close>

definition forget_results :: "string \<Rightarrow> session \<Rightarrow> session" where
  "forget_results i s =
     s\<lparr>completed_results := (completed_results s)(i := None), completed_outputs := (completed_outputs s)(i := None),
       task_progress := (task_progress s)(i := None)\<rparr>"

fun rewind_fold ::
  "(string, task) dict \<Rightarrow> string list \<Rightarrow> plan \<Rightarrow> session \<Rightarrow> py_error + (task \<times> TaskStatus) list \<times> plan \<times> session" where
  "rewind_fold by_id [] p s = Inr ([], p, s)"
| "rewind_fold by_id (i # ids) p s =
     (case map_of by_id i of
        None \<Rightarrow> Inl (KeyError (repr_str i))
      | Some prev \<Rightarrow>
          if status prev = PENDING then rewind_fold by_id ids p (forget_results i s)
          else
            ebind (with_task_status p i PENDING) (\<lambda>p'.
            let t = (case find (\<lambda>t. task_id t = i) (tasks p') of Some t \<Rightarrow> t | None \<Rightarrow> prev)
            in ebind (rewind_fold by_id ids p' (forget_results i s)) (\<lambda>(trs, q, s').
               Inr ((t, status prev) # trs, q, s'))))"

definition rewind_plan ::
  "(string list \<Rightarrow> string list) \<Rightarrow> string \<Rightarrow> world \<Rightarrow> py_error + (task \<times> TaskStatus) list option \<times> world" where
  "rewind_plan shuffle target w =
     (case session_plan (sess w) of
        None \<Rightarrow> Inr (None, w)
      | Some p \<Rightarrow>
          (let by_id = tasks_by_id p
           in if map_of by_id target = None then Inr (None, w)
              else
                ebind (rewind_fold by_id (shuffle (affected_loop by_id (edges p) [target] [])) p (sess w)) (\<lambda>(trs, q, s).
                if trs = [] then Inr (Some trs, w\<lparr>sess := s\<rparr>)
                else ebind (set_session_plan True (strict_ownership (cfg w)) s (Some q)) (\<lambda>s. Inr (Some trs, w\<lparr>sess := s\<rparr>)))))"

definition emit_rewound :: "(task \<times> TaskStatus) list \<Rightarrow> world \<Rightarrow> world" where
  "emit_rewound trs w = foldl (\<lambda>w (t, prev). emit_task_transitioned t prev PENDING ''control_rewind'' w) w trs"

section \<open>Approvals\<close>

definition resolve_approval :: "string \<Rightarrow> string \<Rightarrow> string \<Rightarrow> run_state \<Rightarrow> bool \<times> run_state" where
  "resolve_approval target decision detail s =
     (case pending_approvals s target of
        None \<Rightarrow> (False, s)
      | Some _ \<Rightarrow>
          (let meta = (case pending_approvals_meta s target of Some m \<Rightarrow> m | None \<Rightarrow> []);
               meta = AList.update ''detail'' (JStr detail) (AList.update ''decision'' (JStr decision) meta);
               s = s\<lparr>pending_approvals_meta := (pending_approvals_meta s)(target \<mapsto> meta)\<rparr>;
               evt = (if decision = ''approve'' then ApprovalGranted target detail else ApprovalRejected target detail);
               s = with_world (emit_new evt (run_world s)) s
           in (True, s\<lparr>pending_approvals := (pending_approvals s)(target \<mapsto> True)\<rparr>)))"

section \<open>Dispatch\<close>

definition payload_str :: "ControlMessage \<Rightarrow> string \<Rightarrow> string" where
  "payload_str m k = py_str (jget (msg_payload m) k (JStr []))"

definition dispatch_cancel :: "ControlMessage \<Rightarrow> run_state \<Rightarrow> ControlOutcome \<times> run_state" where
  "dispatch_cancel m s =
     (let reason = payload_str m ''reason'';
          ann = str_or_empty (jget (msg_payload m) ''annotation_id'' (JStr []));
          (oc, s) = build_ack m ACK_SUCCESS ''cancel acknowledged'' s
      in (oc\<lparr>oc_cancel_run := True, oc_cancel_reason := (if reason \<noteq> [] then reason else ''cancelled by control''),
             oc_cancel_prefix := ''user_cancel:'' @ (if ann \<noteq> [] then ann else msg_id m)\<rparr>, s))"

definition dispatch_rewind ::
  "(string list \<Rightarrow> string list) \<Rightarrow> ControlMessage \<Rightarrow> run_state \<Rightarrow> py_error + ControlOutcome \<times> run_state" where
  "dispatch_rewind shuffle m s =
     (let target = payload_str m ''task_id''
      in if target = [] then Inr (build_ack m ACK_FAILURE ''rewind_to requires payload.task_id'' s)
         else ebind (rewind_plan shuffle target (run_world s)) (\<lambda>(trs, w).
           case trs of
             None \<Rightarrow> Inr (build_ack m ACK_FAILURE (''rewind_to: unknown task_id='' @ repr_str target) s)
           | Some trs \<Rightarrow>
               (let (oc, s) = build_ack m ACK_SUCCESS (''rewound to '' @ target) (with_world (emit_rewound trs w) s)
                in Inr (oc\<lparr>oc_rewind := target\<rparr>, s))))"

definition dispatch_intercept :: "ControlMessage \<Rightarrow> run_state \<Rightarrow> ControlOutcome \<times> run_state" where
  "dispatch_intercept m s =
     (let flag = truthy (jget (msg_payload m) ''enabled'' (JBool True))
      in build_ack m ACK_SUCCESS (''intercept_transfer='' @ (if flag then ''on'' else ''off'')) (s\<lparr>intercept_transfer := flag\<rparr>))"

definition dispatch_decision :: "string \<Rightarrow> ControlMessage \<Rightarrow> run_state \<Rightarrow> ControlOutcome \<times> run_state" where
  "dispatch_decision decision m s =
     (let target = payload_str m ''target_id''; detail = payload_str m ''detail''
      in if target = [] then build_ack m ACK_FAILURE (decision @ '' requires payload.target_id'') s
         else let (resolved, s) = resolve_approval target decision detail s
              in if \<not> resolved then build_ack m ACK_FAILURE (''no pending approval for target_id='' @ repr_str target) s
                 else build_ack m ACK_SUCCESS (decision @ '' dispatched to '' @ target) s)"

definition dispatch_control ::
  "(string list \<Rightarrow> string list) \<Rightarrow> ControlMessage \<Rightarrow> run_state \<Rightarrow> py_error + ControlOutcome \<times> run_state" where
  "dispatch_control shuffle m s =
     (case msg_kind m of
        CK_CANCEL \<Rightarrow> Inr (dispatch_cancel m s)
      | CK_PAUSE \<Rightarrow> Inr (let (oc, s) = build_ack m ACK_SUCCESS ''paused'' s in (oc\<lparr>oc_request_pause := True\<rparr>, s))
      | CK_RESUME \<Rightarrow> Inr (let (oc, s) = build_ack m ACK_SUCCESS ''resumed'' s in (oc\<lparr>oc_request_resume := True\<rparr>, s))
      | CK_STEER \<Rightarrow> Inr (let (oc, s) = build_ack m ACK_SUCCESS ''steer queued'' s in (oc\<lparr>oc_steer := Some m\<rparr>, s))
      | CK_GOLDFIVE_STEER \<Rightarrow>
          Inr (let (oc, s) = build_ack m ACK_SUCCESS ''goldfive_steer queued'' s in (oc\<lparr>oc_goldfive_steer := Some m\<rparr>, s))
      | CK_GOLDFIVE_PAUSE_ESCALATE \<Rightarrow>
          Inr (let (oc, s) = build_ack m ACK_SUCCESS ''goldfive_pause_escalate queued'' s
               in (oc\<lparr>oc_goldfive_pause := Some m, oc_request_pause := True\<rparr>, s))
      | CK_REWIND_TO \<Rightarrow> dispatch_rewind shuffle m s
      | CK_STATUS_QUERY \<Rightarrow> Inr (build_ack m ACK_SUCCESS (build_status_snapshot (sess (run_world s)) (msg_id m)) s)
      | CK_INTERCEPT_TRANSFER \<Rightarrow> Inr (dispatch_intercept m s)
      | CK_APPROVE \<Rightarrow> Inr (dispatch_decision ''approve'' m s)
      | CK_REJECT \<Rightarrow> Inr (dispatch_decision ''reject'' m s)
      | CK_INJECT_MESSAGE \<Rightarrow>
          Inr (build_ack m ACK_UNSUPPORTED (''unsupported control kind: '' @ repr_str (kind_value (msg_kind m))) s))"

section \<open>Draining the inbox\<close>

definition on_channel :: "(ControlChannel \<Rightarrow> ControlChannel) \<Rightarrow> run_state \<Rightarrow> run_state" where
  "on_channel f s = s\<lparr>seat := (seat s)\<lparr>obs := (obs (seat s))\<lparr>control_channel := map_option f (control_channel (obs (seat s)))\<rparr>\<rparr>\<rparr>"

fun drain_loop ::
  "(string list \<Rightarrow> string list) \<Rightarrow> ControlMessage list \<Rightarrow> run_state \<Rightarrow> py_error + ControlOutcome list \<times> run_state" where
  "drain_loop shuffle [] s = Inr ([], s)"
| "drain_loop shuffle (m # ms) s =
     ebind (dispatch_control shuffle m (on_channel (\<lambda>c. c\<lparr>inbox := ms\<rparr>) s)) (\<lambda>(oc, s).
     ebind (drain_loop shuffle ms (on_channel (ack (oc_ack oc)) s)) (\<lambda>(ocs, s). Inr (oc # ocs, s)))"

definition drain_controls :: "(string list \<Rightarrow> string list) \<Rightarrow> run_state \<Rightarrow> py_error + ControlOutcome list \<times> run_state" where
  "drain_controls shuffle s =
     (case control_channel (obs (seat s)) of None \<Rightarrow> Inr ([], s) | Some c \<Rightarrow> drain_loop shuffle (inbox c) s)"

section \<open>Pauses that nobody answers\<close>

definition payload_of :: "ControlMessage option \<Rightarrow> (string \<times> json) list" where
  "payload_of m = (case m of None \<Rightarrow> [] | Some m \<Rightarrow> msg_payload m)"

definition pause_deadline_s :: "(string \<Rightarrow> pyfloat option) \<Rightarrow> ControlMessage option \<Rightarrow> py_error + pyfloat option" where
  "pause_deadline_s parse_float m =
     (case py_float parse_float (jget (payload_of m) ''deadline_s'' JNull) of
        Inr v \<Rightarrow> Inr (if positive_float v then Some v else None)
      | Inl (TypeError _) \<Rightarrow> Inr None
      | Inl (ValueError _) \<Rightarrow> Inr None
      | Inl e \<Rightarrow> Inl e)"

definition live_task_ids :: "session \<Rightarrow> string list" where
  "live_task_ids s =
     (case session_plan s of
        None \<Rightarrow> []
      | Some p \<Rightarrow> map task_id (filter (\<lambda>t. task_id t \<noteq> [] \<and> status t \<notin> TERMINAL_TASK_STATUSES) (tasks p)))"

definition expired_cancel :: "string \<Rightarrow> string \<Rightarrow> string \<Rightarrow> world \<Rightarrow> world" where
  "expired_cancel reason kind i w =
     (case transition i CANCELLED reason (''run_aborted:pause_escalate_deadline:'' @ kind) ''other'' w of Inl _ \<Rightarrow> w | Inr w \<Rightarrow> w)"

text \<open>The result is the detail of the \<open>_ControlCancelled\<close> that is always raised; \<open>shown\<close> is the deadline as \<open>:g\<close> prints it.\<close>

definition abort_expired_pause :: "ControlMessage option \<Rightarrow> string \<Rightarrow> world \<Rightarrow> string \<times> world" where
  "abort_expired_pause m shown w =
     (let kind = str_or_empty (jget (payload_of m) ''drift_kind'' (JStr []));
          kind = (if kind = [] then ''unknown'' else kind);
          level = str_or_empty (jget (payload_of m) ''ladder_level'' (JStr []));
          level = (if level = [] then ''pause_escalate'' else level);
          reason = ''pause escalation deadline expired after '' @ shown @ ''s with no operator action (drift_kind='' @ kind @
            '', ladder_level='' @ level @ '')''
      in (reason, fold (expired_cancel reason kind) (live_task_ids (sess w)) w))"


section \<open>Which tasks a rewind takes back\<close>

text \<open>The tasks that can be reached from the target along edges between tasks of the plan, the target among them.\<close>

inductive downstream :: "plan \<Rightarrow> string \<Rightarrow> string \<Rightarrow> bool" for p :: plan and target :: string where
  downstream_self: "plan_find p target = Some t \<Longrightarrow> downstream p target target"
| downstream_next: "downstream p target j \<Longrightarrow> e \<in> set (edges p) \<Longrightarrow> from_task_id e = j \<Longrightarrow> to_task_id e = i \<Longrightarrow>
    plan_find p i = Some t \<Longrightarrow> downstream p target i"

definition reorders :: "(string list \<Rightarrow> string list) \<Rightarrow> bool" where
  "reorders shuffle \<longleftrightarrow> (\<forall>xs. distinct xs \<longrightarrow> distinct (shuffle xs) \<and> set (shuffle xs) = set xs)"

lemma live_from_sources:
  assumes "S \<inter> Collect L = S' \<inter> Collect L"
  shows "live_from es L S V = live_from es L S' V"
  by (intro ext iffI; erule live_from_mono) (use assms in \<open>auto intro: live_start\<close>)

lemma affected_loop_spec:
  assumes "distinct affected" "\<forall>i\<in>set stack. map_of by_id i \<noteq> None"
  shows "distinct (affected_loop by_id es stack affected) \<and>
    set (affected_loop by_id es stack affected) =
      set affected \<union> {i. live_from es (\<lambda>i. map_of by_id i \<noteq> None) (set stack) (set affected) i}"
  using assms
proof (induction by_id es stack affected rule: affected_loop.induct)
  case (2 by_id es i stack affected)
  let ?L = "\<lambda>i. map_of by_id i \<noteq> None"
  show ?case
  proof (cases "i \<in> set affected")
    case True
    with 2 show ?thesis by (simp add: live_from_visited affected_loop.simps)
  next
    case False
    let ?new = "rev (filter (\<lambda>c. c \<notin> set (i # affected)) (children by_id es i)) @ stack"
    have L: "?L i" using "2.prems"(2) by simp
    have new: "\<forall>c\<in>set ?new. ?L c" using "2.prems"(2) by (auto simp: children_def)
    have "set ?new \<inter> Collect ?L = (set stack \<union> {g\<in>set (succs es i). g \<notin> insert i (set affected)}) \<inter> Collect ?L"
      using L by (auto simp: children_def succs_def)
    from live_from_sources [OF this] have
      "live_from es ?L (set (i # stack)) (set affected) x \<longleftrightarrow> x = i \<or> live_from es ?L (set ?new) (set (i # affected)) x" for x
      using live_from_step [where L = ?L, OF L False, of es "set stack" x] by simp
    then show ?thesis using "2.IH"(2) [OF False _ new] "2.prems"(1) False by (auto simp: affected_loop.simps)
  qed
qed (auto simp: live_from_none affected_loop.simps)

lemma downstream_iff:
  assumes "distinct (map task_id (tasks p))"
  shows "live_from (edges p) (\<lambda>i. map_of (tasks_by_id p) i \<noteq> None) {target} {} i \<longleftrightarrow> downstream p target i" (is "?l \<longleftrightarrow> _")
proof
  assume ?l
  then show "downstream p target i"
    by (induction rule: live_from.induct) (auto simp: set_succs tasks_by_id_lookup [OF assms] intro: downstream.intros)
next
  assume "downstream p target i"
  then show ?l
  proof (induction rule: downstream.induct)
    case (downstream_self t)
    then show ?case by (intro live_start) (auto simp: tasks_by_id_lookup [OF assms])
  next
    case (downstream_next j e i t)
    then show ?case by (intro live_next [OF downstream_next.IH]) (auto simp: set_succs tasks_by_id_lookup [OF assms])
  qed
qed

lemma affected_exact:
  assumes "distinct (map task_id (tasks p))" "map_of (tasks_by_id p) target \<noteq> None"
  shows "distinct (affected_loop (tasks_by_id p) (edges p) [target] [])"
    "set (affected_loop (tasks_by_id p) (edges p) [target] []) = Collect (downstream p target)"
proof -
  have "live_from (edges p) (\<lambda>i. map_of (tasks_by_id p) i \<noteq> None) {target} {} = downstream p target"
    using downstream_iff [OF assms(1)] by blast
  then show "distinct (affected_loop (tasks_by_id p) (edges p) [target] [])"
    "set (affected_loop (tasks_by_id p) (edges p) [target] []) = Collect (downstream p target)"
    using affected_loop_spec [of "[]" "[target]" "tasks_by_id p" "edges p"] assms(2)
    by (simp_all del: not_None_eq)
qed

lemma downstream_known: "downstream p target i \<Longrightarrow> \<exists>t. plan_find p i = Some t"
  by (erule downstream.cases) auto

section \<open>The plan after a rewind\<close>

definition reset_in :: "string set \<Rightarrow> task \<Rightarrow> task" where
  "reset_in I t = (if task_id t \<in> I then t\<lparr>status := PENDING\<rparr> else t)"

definition reset_tasks :: "string set \<Rightarrow> plan \<Rightarrow> plan" where
  "reset_tasks I p = p\<lparr>tasks := map (reset_in I) (tasks p)\<rparr>"

definition taken_back :: "plan \<Rightarrow> string list \<Rightarrow> string list" where
  "taken_back p ids = filter (\<lambda>i. case plan_find p i of Some t \<Rightarrow> status t \<noteq> PENDING | None \<Rightarrow> False) ids"

definition rewound_pair :: "plan \<Rightarrow> string \<Rightarrow> task \<times> TaskStatus" where
  "rewound_pair p i = (let t = the (plan_find p i) in (t\<lparr>status := PENDING\<rparr>, status t))"

lemma reset_in_id [simp]: "task_id (reset_in I t) = task_id t"
  by (simp add: reset_in_def)

lemma replace_first_distinct:
  "distinct (map task_id ts) \<Longrightarrow> i \<in> task_id ` set ts \<Longrightarrow>
   replace_first i f ts = Some (map (\<lambda>t. if task_id t = i then f t else t) ts)"
proof (induction ts)
  case (Cons t ts)
  have "map (\<lambda>t. if task_id t = task_id t' then f t else t) ts = ts" if "task_id t' \<notin> task_id ` set ts" for t'
  proof (rule map_idI)
    fix x
    assume "x \<in> set ts"
    then have "task_id x \<noteq> task_id t'" using that by (metis imageI)
    then show "(if task_id x = task_id t' then f x else x) = x" by simp
  qed
  with Cons show ?case by (auto simp: image_iff)
qed simp

lemma find_reset: "find (\<lambda>t. task_id t = i) (map (reset_in I) ts) = map_option (reset_in I) (find (\<lambda>t. task_id t = i) ts)"
  by (induction ts) auto

lemma reset_find: "plan_find (reset_tasks I p) i = map_option (reset_in I) (plan_find p i)"
  by (simp add: plan_find_def reset_tasks_def find_reset)

lemma plan_find_same: "distinct (map task_id (tasks p)) \<Longrightarrow> u \<in> set (tasks p) \<Longrightarrow> plan_find p (task_id u) = Some v \<Longrightarrow> u = v"
  using plan_find_in_set [of p u] plan_find_SomeD [of p "task_id u" v] by (metis option.inject)

lemma reset_one:
  assumes "distinct (map task_id (tasks p))" "plan_find p i = Some t"
  shows "with_task_status (reset_tasks I p) i PENDING = Inr (reset_tasks (insert i I) p)"
proof -
  have "map (\<lambda>t. if task_id t = i then t\<lparr>status := PENDING\<rparr> else t) (map (reset_in I) (tasks p)) = map (reset_in (insert i I)) (tasks p)"
    by (auto simp: reset_in_def)
  moreover have "i \<in> task_id ` set (map (reset_in I) (tasks p))" using plan_find_SomeD [OF assms(2)] by (auto simp: image_image)
  moreover have "distinct (map task_id (map (reset_in I) (tasks p)))" using assms(1) by (simp add: comp_def)
  ultimately show ?thesis
    by (simp add: with_task_status_def replace_task_def reset_tasks_def replace_first_distinct)
qed

lemma reset_pending:
  assumes "distinct (map task_id (tasks p))" "plan_find p i = Some t" "status t = PENDING"
  shows "reset_tasks (insert i I) p = reset_tasks I p"
proof -
  have "reset_in (insert i I) u = reset_in I u" if u: "u \<in> set (tasks p)" for u
  proof (cases "task_id u = i")
    case True
    then have "u = t" using plan_find_same [OF assms(1) u] assms(2) by blast
    then show ?thesis using assms(3) by (simp add: reset_in_def)
  qed (simp add: reset_in_def)
  then show ?thesis by (simp add: reset_tasks_def)
qed

lemma reset_none [simp]: "reset_tasks {} p = p"
proof -
  have "reset_in {} = (\<lambda>t. t)" by (simp add: reset_in_def fun_eq_iff)
  then show ?thesis by (simp add: reset_tasks_def)
qed

lemma rewind_fold_spec:
  assumes "distinct (map task_id (tasks p))" "distinct ids" "\<forall>i\<in>set ids. plan_find p i \<noteq> None" "set ids \<inter> I = {}"
  shows "rewind_fold (tasks_by_id p) ids (reset_tasks I p) s =
    Inr (map (rewound_pair p) (taken_back p ids), reset_tasks (set ids \<union> I) p, fold forget_results ids s)"
  using assms(2-4)
proof (induction ids arbitrary: I s)
  case (Cons i ids)
  then obtain t where t: "plan_find p i = Some t" by auto
  note by_id = tasks_by_id_lookup [OF assms(1), of i]
  have IH: "rewind_fold (tasks_by_id p) ids (reset_tasks (insert i I) p) s' =
      Inr (map (rewound_pair p) (taken_back p ids), reset_tasks (set (i # ids) \<union> I) p, fold forget_results ids s')" for s'
    using Cons.IH [of "insert i I" s'] Cons.prems by simp
  show ?case
  proof (cases "status t = PENDING")
    case True
    then show ?thesis using IH [of "forget_results i s"]
      by (simp add: by_id t taken_back_def reset_pending [OF assms(1) t True])
  next
    case False
    have "find (\<lambda>t. task_id t = i) (tasks (reset_tasks (insert i I) p)) = Some (t\<lparr>status := PENDING\<rparr>)"
      using t plan_find_SomeD [OF t] by (simp add: reset_tasks_def find_reset plan_find_def reset_in_def split: if_splits)
    with False show ?thesis using IH [of "forget_results i s"]
      by (simp add: by_id t reset_one [OF assms(1) t] taken_back_def rewound_pair_def)
  qed
qed (simp add: taken_back_def)

lemma forget_fold_plan [simp]: "session_plan (fold forget_results ids s) = session_plan s" "next_seq (fold forget_results ids s) = next_seq s"
  "last_goal_drift_check_ts (fold forget_results ids s) = last_goal_drift_check_ts s" "state (fold forget_results ids s) = state s"
  by (induction ids arbitrary: s) (simp_all add: forget_results_def)

lemma forget_fold_results:
  "completed_results (fold forget_results ids s) i = (if i \<in> set ids then None else completed_results s i)"
  by (induction ids arbitrary: s) (auto simp: forget_results_def)

lemma same_plan: "session_plan s = Some p \<Longrightarrow> s\<lparr>session_plan := Some p\<rparr> = (s :: session)"
  by (cases s) simp

lemma rewind_plan_spec:
  assumes "session_plan (sess w) = Some p" "distinct (map task_id (tasks p))" "plan_find p target = Some t" "reorders shuffle"
  shows "\<exists>ids w'. rewind_plan shuffle target w = Inr (Some (map (rewound_pair p) (taken_back p ids)), w') \<and>
    distinct ids \<and> set ids = Collect (downstream p target) \<and>
    w' = w\<lparr>sess := (fold forget_results ids (sess w))\<lparr>session_plan := Some (reset_tasks (set ids) p)\<rparr>\<rparr>"
proof -
  let ?ids = "shuffle (affected_loop (tasks_by_id p) (edges p) [target] [])"
  have by_id: "map_of (tasks_by_id p) target = Some t" using assms(2,3) by (simp add: tasks_by_id_lookup)
  have ids: "distinct ?ids" "set ?ids = Collect (downstream p target)"
    using assms(4) affected_exact [OF assms(2)] by_id by (simp_all add: reorders_def)
  have "\<forall>i\<in>set ?ids. plan_find p i \<noteq> None" using ids(2) downstream_known by auto
  from rewind_fold_spec [OF assms(2) ids(1) this, of "{}" "sess w"] have
    r: "rewind_fold (tasks_by_id p) ?ids p (sess w) =
      Inr (map (rewound_pair p) (taken_back p ?ids), reset_tasks (set ?ids) p, fold forget_results ?ids (sess w))" by simp
  have same: "reset_tasks (set ?ids) p = p" if "taken_back p ?ids = []"
  proof -
    have "reset_in (set ?ids) u = u" if u: "u \<in> set (tasks p)" for u
    proof (cases "task_id u \<in> set ?ids")
      case True
      then obtain v where v: "plan_find p (task_id u) = Some v" using ids(2) downstream_known by blast
      then have "u = v" using plan_find_same [OF assms(2) u] by blast
      moreover have "status v = PENDING" using \<open>taken_back p ?ids = []\<close> True v by (auto simp: taken_back_def filter_empty_conv)
      ultimately show ?thesis by (simp add: reset_in_def)
    qed (simp add: reset_in_def)
    then show ?thesis by (simp add: reset_tasks_def map_idI)
  qed
  have keep: "(fold forget_results ?ids (sess w))\<lparr>session_plan := Some p\<rparr> = fold forget_results ?ids (sess w)"
    using assms(1) by (intro same_plan) simp
  show ?thesis
    by (rule exI [of _ ?ids], rule exI [of _ "w\<lparr>sess := (fold forget_results ?ids (sess w))\<lparr>session_plan := Some (reset_tasks (set ?ids) p)\<rparr>\<rparr>"])
      (cases "taken_back p ?ids = []"; simp add: rewind_plan_def assms(1) by_id Let_def r set_session_plan_def ids same [unfolded ids(2)] keep)
qed


lemma emit_rewound_frame:
  "session_plan (sess (emit_rewound trs w)) = session_plan (sess w)" "cfg (emit_rewound trs w) = cfg w"
  "completed_results (sess (emit_rewound trs w)) = completed_results (sess w)"
  by (induction trs arbitrary: w)
    (auto simp: emit_rewound_def emit_task_transitioned_def stamp_progress_def emit_new_def next_sequence_def on_sess_def tick_def
      Let_def split_beta)

lemma extends_emit_rewound: "extends w (emit_rewound trs w) (map (\<lambda>(t, prev). (task_id t, prev, PENDING)) trs)"
proof (induction trs arbitrary: w)
  case (Cons tp trs)
  obtain t prev where tp: "tp = (t, prev)" by (cases tp)
  have "extends w (emit_task_transitioned t prev PENDING ''control_rewind'' w) [(task_id t, prev, PENDING)]"
    by (rule extends_emit_transitioned [OF extends_refl refl])
  from extends_trans [OF this Cons.IH] show ?case by (simp add: tp emit_rewound_def)
qed (simp add: emit_rewound_def extends_refl)

lemma build_ack_simps [simp]:
  "run_world (snd (build_ack m r d s)) = tick (run_world s)" "ack_result (oc_ack (fst (build_ack m r d s))) = r"
  "control_id (oc_ack (fst (build_ack m r d s))) = msg_id m" "ack_detail (oc_ack (fst (build_ack m r d s))) = d"
  "control_channel (obs (seat (snd (build_ack m r d s)))) = control_channel (obs (seat s))"
  "pending_approvals (snd (build_ack m r d s)) = pending_approvals s"
  "pending_approvals_meta (snd (build_ack m r d s)) = pending_approvals_meta s"
  by (simp_all add: build_ack_def mk_outcome_def)

lemma tick_simps [simp]: "sess (tick w) = sess w" "cfg (tick w) = cfg w" "log (tick w) = log w"
  by (simp_all add: tick_def)

lemma extends_log: "extends w w' cs \<Longrightarrow> \<exists>es. log w' = log w @ es \<and> (has_sinks (cfg w) \<longrightarrow> transitions es = cs)"
  by (auto simp: extends_def)

text \<open>What an outcome asks of the run loop, read off the message.\<close>

definition honours :: "ControlMessage \<Rightarrow> ControlOutcome \<Rightarrow> bool" where
  "honours m oc \<longleftrightarrow>
     control_id (oc_ack oc) = msg_id m \<and>
     oc_cancel_run oc = (msg_kind m = CK_CANCEL) \<and>
     oc_request_pause oc = (msg_kind m \<in> {CK_PAUSE, CK_GOLDFIVE_PAUSE_ESCALATE}) \<and>
     oc_request_resume oc = (msg_kind m = CK_RESUME) \<and>
     oc_steer oc = (if msg_kind m = CK_STEER then Some m else None) \<and>
     oc_goldfive_steer oc = (if msg_kind m = CK_GOLDFIVE_STEER then Some m else None) \<and>
     oc_goldfive_pause oc = (if msg_kind m = CK_GOLDFIVE_PAUSE_ESCALATE then Some m else None) \<and>
     (oc_rewind oc \<noteq> [] \<longrightarrow> msg_kind m = CK_REWIND_TO \<and> oc_rewind oc = payload_str m ''task_id'' \<and> ack_result (oc_ack oc) = ACK_SUCCESS) \<and>
     (ack_result (oc_ack oc) = ACK_UNSUPPORTED) = (msg_kind m = CK_INJECT_MESSAGE)"

lemma build_ack_fields [simp]:
  "oc_cancel_run (fst (build_ack m r d s)) = False" "oc_steer (fst (build_ack m r d s)) = None"
  "oc_goldfive_steer (fst (build_ack m r d s)) = None" "oc_goldfive_pause (fst (build_ack m r d s)) = None"
  "oc_request_pause (fst (build_ack m r d s)) = False" "oc_request_resume (fst (build_ack m r d s)) = False"
  "oc_rewind (fst (build_ack m r d s)) = []"
  by (simp_all add: build_ack_def mk_outcome_def)

lemma dispatch_rewind_spec:
  assumes "msg_kind m = CK_REWIND_TO" "payload_str m ''task_id'' = target" "reorders shuffle"
    and p: "session_plan (sess (run_world s)) = Some p" "distinct (map task_id (tasks p))" "plan_find p target = Some t"
  shows "\<exists>oc s' ids es. dispatch_control shuffle m s = Inr (oc, s') \<and> ack_result (oc_ack oc) = ACK_SUCCESS \<and>
    honours m oc \<and> oc_rewind oc = target \<and> distinct ids \<and> set ids = Collect (downstream p target) \<and>
    session_plan (sess (run_world s')) = Some (reset_tasks (set ids) p) \<and>
    completed_results (sess (run_world s')) = completed_results (fold forget_results ids (sess (run_world s))) \<and>
    log (run_world s') = log (run_world s) @ es \<and>
    (has_sinks (cfg (run_world s)) \<longrightarrow> transitions es = map (\<lambda>i. (i, status (the (plan_find p i)), PENDING)) (taken_back p ids)) \<and>
    control_channel (obs (seat s')) = control_channel (obs (seat s)) \<and> cfg (run_world s') = cfg (run_world s)"
proof -
  let ?w = "run_world s"
  from rewind_plan_spec [OF p assms(3)] obtain ids w' where
    r: "rewind_plan shuffle target ?w = Inr (Some (map (rewound_pair p) (taken_back p ids)), w')"
    "distinct ids" "set ids = Collect (downstream p target)"
    "w' = ?w\<lparr>sess := (fold forget_results ids (sess ?w))\<lparr>session_plan := Some (reset_tasks (set ids) p)\<rparr>\<rparr>" by blast
  let ?trs = "map (rewound_pair p) (taken_back p ids)"
  have "task_id (the (plan_find p i)) = i" if "i \<in> set (taken_back p ids)" for i
    using that by (auto simp: taken_back_def split: option.splits dest: plan_find_SomeD)
  then have cs: "map (\<lambda>(t, prev). (task_id t, prev, PENDING)) ?trs = map (\<lambda>i. (i, status (the (plan_find p i)), PENDING)) (taken_back p ids)"
    by (simp add: rewound_pair_def Let_def)
  from extends_log [OF extends_emit_rewound [of w' ?trs, unfolded cs]] obtain es where es: "log (emit_rewound ?trs w') = log w' @ es"
    "has_sinks (cfg w') \<longrightarrow> transitions es = map (\<lambda>i. (i, status (the (plan_find p i)), PENDING)) (taken_back p ids)" by blast
  define s1 where "s1 = with_world (emit_rewound ?trs w') s"
  let ?a = "build_ack m ACK_SUCCESS (''rewound to '' @ target) s1"
  have "target \<noteq> []" using plan_find_SomeD [OF p(3)] by blast
  then have d: "dispatch_control shuffle m s = Inr ((fst ?a)\<lparr>oc_rewind := target\<rparr>, snd ?a)"
    by (simp add: dispatch_control_def assms(1,2) dispatch_rewind_def r(1) Let_def split_beta s1_def)
  have s1: "run_world s1 = emit_rewound ?trs w'" "control_channel (obs (seat s1)) = control_channel (obs (seat s))" by (simp_all add: s1_def)
  show ?thesis
    by (rule exI [of _ "(fst ?a)\<lparr>oc_rewind := target\<rparr>"], rule exI [of _ "snd ?a"], rule exI [of _ ids], rule exI [of _ es])
      (use es in \<open>simp add: d s1 r(2,3) assms(1,2) emit_rewound_frame honours_def, simp add: r(3,4)\<close>)
qed

lemma taken_back_changes:
  assumes "set ids = Collect (downstream p target)"
  shows "set (map (\<lambda>i. (i, status (the (plan_find p i)), PENDING)) (taken_back p ids)) =
    {(i, status u, PENDING) |i u. downstream p target i \<and> plan_find p i = Some u \<and> status u \<noteq> PENDING}"
proof -
  have "set (taken_back p ids) = {i. downstream p target i \<and> (\<exists>u. plan_find p i = Some u \<and> status u \<noteq> PENDING)}"
    unfolding taken_back_def set_filter assms by (auto split: option.split)
  then show ?thesis unfolding set_map by auto
qed

section \<open>Cancelling what is left\<close>

text \<open>\<open>swept D p q\<close>: from \<open>p\<close> to \<open>q\<close> live tasks were at most cancelled, and those of \<open>D\<close> are over.\<close>

definition swept :: "string set \<Rightarrow> plan \<Rightarrow> plan \<Rightarrow> bool" where
  "swept D p q \<longleftrightarrow> edges q = edges p \<and> map task_id (tasks q) = map task_id (tasks p) \<and>
     (\<forall>j u. plan_find p j = Some u \<longrightarrow> (\<exists>v. plan_find q j = Some v \<and> (j \<in> D \<longrightarrow> status v \<in> TERMINAL_TASK_STATUSES) \<and>
        (v = u \<or> status u \<notin> TERMINAL_TASK_STATUSES \<and> v = u\<lparr>status := CANCELLED\<rparr>)))"

lemma swept_step:
  assumes "swept D p q" "distinct (map task_id (tasks p))" "session_plan (sess w) = Some q"
  shows "\<exists>r. session_plan (sess (expired_cancel reason kind i w)) = Some r \<and> swept (insert i D) p r"
proof (cases "\<exists>t. plan_find q i = Some t \<and> status t \<notin> TERMINAL_TASK_STATUSES")
  case True
  then obtain t where t: "plan_find q i = Some t" "status t \<notin> TERMINAL_TASK_STATUSES" by blast
  have "distinct (map task_id (tasks q))" using assms(1,2) by (simp add: swept_def)
  from mark_cancelled_result [OF assms(3) this t] obtain w' r where
    r: "mark_task_cancelled i (''run_aborted:pause_escalate_deadline:'' @ kind) ''other'' w = Inr w'" "session_plan (sess w') = Some r"
    "fallout q r i CANCELLED {j. doomed q i j \<and> j \<noteq> i}" by blast
  have "swept (insert i D) p r"
    unfolding swept_def
  proof (intro conjI allI impI)
    show "edges r = edges p" "map task_id (tasks r) = map task_id (tasks p)" using r(3) assms(1) by (simp_all add: fallout_def swept_def)
    fix j u
    assume "plan_find p j = Some u"
    then obtain v where v: "plan_find q j = Some v" "j \<in> D \<longrightarrow> status v \<in> TERMINAL_TASK_STATUSES"
      "v = u \<or> status u \<notin> TERMINAL_TASK_STATUSES \<and> v = u\<lparr>status := CANCELLED\<rparr>" using assms(1) unfolding swept_def by blast
    have live: "status v \<notin> TERMINAL_TASK_STATUSES" if "j = i \<or> doomed q i j"
      using that t v(1) doomed_live [of q i j] by auto
    have "plan_find r j = Some (if j = i \<or> doomed q i j then v\<lparr>status := CANCELLED\<rparr> else v)"
      using r(3) v(1) by (auto simp: fallout_def)
    then show "\<exists>v. plan_find r j = Some v \<and> (j \<in> insert i D \<longrightarrow> status v \<in> TERMINAL_TASK_STATUSES) \<and>
        (v = u \<or> status u \<notin> TERMINAL_TASK_STATUSES \<and> v = u\<lparr>status := CANCELLED\<rparr>)"
      using v(2,3) live by auto
  qed
  then show ?thesis using r(1,2) by (simp add: expired_cancel_def)
next
  case False
  then have "mark_task_cancelled i x y w = Inr w" for x y
    by (auto simp: mark_task_cancelled_def find_task_def assms(3) split: option.split)
  moreover have "swept (insert i D) p q"
    unfolding swept_def
  proof (intro conjI allI impI)
    show "edges q = edges p" "map task_id (tasks q) = map task_id (tasks p)" using assms(1) by (simp_all add: swept_def)
    fix j u
    assume "plan_find p j = Some u"
    then obtain v where v: "plan_find q j = Some v" "j \<in> D \<longrightarrow> status v \<in> TERMINAL_TASK_STATUSES"
      "v = u \<or> status u \<notin> TERMINAL_TASK_STATUSES \<and> v = u\<lparr>status := CANCELLED\<rparr>" using assms(1) unfolding swept_def by blast
    then show "\<exists>v. plan_find q j = Some v \<and> (j \<in> insert i D \<longrightarrow> status v \<in> TERMINAL_TASK_STATUSES) \<and>
        (v = u \<or> status u \<notin> TERMINAL_TASK_STATUSES \<and> v = u\<lparr>status := CANCELLED\<rparr>)" using False by blast
  qed
  ultimately show ?thesis using assms(3) by (simp add: expired_cancel_def)
qed

lemma swept_fold:
  assumes "swept D p q" "distinct (map task_id (tasks p))" "session_plan (sess w) = Some q"
  shows "\<exists>r. session_plan (sess (fold (expired_cancel reason kind) ids w)) = Some r \<and> swept (set ids \<union> D) p r"
  using assms(1,3)
proof (induction ids arbitrary: D q w)
  case (Cons i ids)
  from swept_step [OF Cons.prems(1) assms(2) Cons.prems(2), of reason kind i] obtain r where
    "session_plan (sess (expired_cancel reason kind i w)) = Some r" "swept (insert i D) p r" by blast
  from Cons.IH [OF this(2,1)] show ?case by simp
qed simp

section \<open>Every message is answered\<close>

definition unmoved :: "run_state \<Rightarrow> run_state \<Rightarrow> bool" where
  "unmoved s s' \<longleftrightarrow> control_channel (obs (seat s')) = control_channel (obs (seat s)) \<and>
     (plan_ids_ok (run_world s) \<longrightarrow> plan_ids_ok (run_world s'))"

lemma plan_ids_ok_cong: "session_plan (sess w') = session_plan (sess w) \<Longrightarrow> plan_ids_ok w \<Longrightarrow> plan_ids_ok w'"
  by (simp add: plan_ids_ok_def)

lemma emit_new_plan [simp]: "session_plan (sess (emit_new p w)) = session_plan (sess w)" "cfg (emit_new p w) = cfg w"
  by (simp_all add: emit_new_def next_sequence_def Let_def)

lemma unmoved_ack: "unmoved s s1 \<Longrightarrow> unmoved s (snd (build_ack m r d s1))"
  by (auto simp: unmoved_def elim: plan_ids_ok_cong [rotated])

lemma unmoved_refl: "unmoved s s"
  by (simp add: unmoved_def)

lemma resolve_unmoved: "unmoved s (snd (resolve_approval target decision detail s))"
  by (auto simp: resolve_approval_def unmoved_def Let_def elim: plan_ids_ok_cong [rotated] split: option.split)

lemma decision_ok:
  assumes "msg_kind m = (if decision = ''approve'' then CK_APPROVE else CK_REJECT)"
  shows "honours m (fst (dispatch_decision decision m s))" "unmoved s (snd (dispatch_decision decision m s))"
  using assms resolve_unmoved [of s] unmoved_refl
  by (auto simp: dispatch_decision_def honours_def Let_def split_beta intro!: unmoved_ack)

lemma unknown_target:
  "session_plan (sess w) = None \<or> session_plan (sess w) = Some p \<and> map_of (tasks_by_id p) target = None \<Longrightarrow>
   rewind_plan shuffle target w = Inr (None, w)"
  by (auto simp: rewind_plan_def Let_def)

lemma replies:
  "\<exists>r. dispatch_control shuffle m s = Inr r \<and> honours m (fst r) \<and> unmoved s (snd r) \<Longrightarrow>
   \<exists>oc s'. dispatch_control shuffle m s = Inr (oc, s') \<and> honours m oc \<and> unmoved s s'"
  by (metis prod.collapse)

lemma rewind_ok:
  assumes "plan_ids_ok (run_world s)" "reorders shuffle" "msg_kind m = CK_REWIND_TO"
  shows "\<exists>oc s'. dispatch_control shuffle m s = Inr (oc, s') \<and> honours m oc \<and> unmoved s s'"
proof (cases "payload_str m ''task_id'' = []")
  case True
  then show ?thesis
    by (intro replies) (simp add: dispatch_control_def dispatch_rewind_def assms(3) honours_def unmoved_ack unmoved_refl)
next
  case False
  let ?t = "payload_str m ''task_id''"
  show ?thesis
  proof (cases "\<exists>p t. session_plan (sess (run_world s)) = Some p \<and> plan_find p ?t = Some t")
    case True
    then obtain p t where p: "session_plan (sess (run_world s)) = Some p" "plan_find p ?t = Some t" by blast
    have d: "distinct (map task_id (tasks p))" using assms(1) p(1) by (simp add: plan_ids_ok_def)
    from dispatch_rewind_spec [OF assms(3) refl assms(2) p(1) d p(2)] obtain oc s' ids es where
      r: "dispatch_control shuffle m s = Inr (oc, s')" "honours m oc" "session_plan (sess (run_world s')) = Some (reset_tasks (set ids) p)"
      "control_channel (obs (seat s')) = control_channel (obs (seat s))"
      by (elim exE conjE)
    have "plan_ids_ok (run_world s')" using d r(3) by (simp add: plan_ids_ok_def reset_tasks_def comp_def)
    then show ?thesis using r(1,2,4) by (auto simp: unmoved_def)
  next
    case False
    then have "session_plan (sess (run_world s)) = None \<or>
        (\<exists>p. session_plan (sess (run_world s)) = Some p \<and> map_of (tasks_by_id p) ?t = None)"
      using assms(1) tasks_by_id_lookup by (cases "session_plan (sess (run_world s))") (auto simp: plan_ids_ok_def)
    then have "rewind_plan shuffle ?t (run_world s) = Inr (None, run_world s)" using unknown_target by blast
    with \<open>?t \<noteq> []\<close> show ?thesis
      by (intro replies) (simp add: dispatch_control_def dispatch_rewind_def assms(3) honours_def unmoved_ack unmoved_refl)
  qed
qed

lemma dispatch_ok:
  assumes "plan_ids_ok (run_world s)" "reorders shuffle"
  shows "\<exists>oc s'. dispatch_control shuffle m s = Inr (oc, s') \<and> honours m oc \<and> unmoved s s'"
proof (cases "msg_kind m = CK_REWIND_TO")
  case False
  have "unmoved s (s\<lparr>intercept_transfer := b\<rparr>)" for b by (simp add: unmoved_def)
  note quiet = unmoved_ack [OF this] unmoved_ack [OF unmoved_refl]
  show ?thesis
    by (intro replies, cases "msg_kind m")
      (use False decision_ok [of m "''approve''" s] decision_ok [of m "''reject''" s] quiet in
        \<open>simp_all add: dispatch_control_def dispatch_cancel_def dispatch_intercept_def honours_def Let_def split_beta\<close>)
qed (rule rewind_ok [OF assms])

lemma on_channel_simps [simp]:
  "run_world (on_channel f s) = run_world s" "control_channel (obs (seat (on_channel f s))) = map_option f (control_channel (obs (seat s)))"
  by (simp_all add: on_channel_def)

lemma drain_loop_ok:
  assumes "plan_ids_ok (run_world s)" "reorders shuffle" "control_channel (obs (seat s)) = Some (c\<lparr>inbox := ms\<rparr>)"
  shows "\<exists>ocs s'. drain_loop shuffle ms s = Inr (ocs, s') \<and> list_all2 honours ms ocs \<and> plan_ids_ok (run_world s') \<and>
    control_channel (obs (seat s')) = Some (c\<lparr>inbox := [], outbox := outbox c @ map (\<lambda>oc. Some (oc_ack oc)) ocs\<rparr>)"
  using assms(1,3)
proof (induction ms arbitrary: s c)
  case (Cons m ms)
  let ?s = "on_channel (\<lambda>c. c\<lparr>inbox := ms\<rparr>) s"
  from dispatch_ok [of ?s shuffle m] Cons.prems(1) assms(2) obtain oc s1 where
    d: "dispatch_control shuffle m ?s = Inr (oc, s1)" "honours m oc" "unmoved ?s s1" by auto
  let ?c = "c\<lparr>outbox := outbox c @ [Some (oc_ack oc)]\<rparr>"
  have ch: "control_channel (obs (seat (on_channel (ack (oc_ack oc)) s1))) = Some (?c\<lparr>inbox := ms\<rparr>)"
    using d(3) Cons.prems(2) by (simp add: unmoved_def ack_def)
  have "plan_ids_ok (run_world (on_channel (ack (oc_ack oc)) s1))" using d(3) Cons.prems(1) by (simp add: unmoved_def)
  from Cons.IH [OF this ch] show ?case using d(1,2) by auto
qed auto

lemma drained:
  assumes "control_channel (obs (seat s)) = Some c" "plan_ids_ok (run_world s)" "reorders shuffle"
  shows "\<exists>ocs s'. drain_controls shuffle s = Inr (ocs, s') \<and> list_all2 honours (inbox c) ocs \<and>
    control_channel (obs (seat s')) = Some (c\<lparr>inbox := [], outbox := outbox c @ map (\<lambda>oc. Some (oc_ack oc)) ocs\<rparr>)"
proof -
  have "control_channel (obs (seat s)) = Some (c\<lparr>inbox := inbox c\<rparr>)" using assms(1) by simp
  from drain_loop_ok [OF assms(2,3) this] show ?thesis by (auto simp: drain_controls_def assms(1))
qed

section \<open>A task behind a dead end\<close>

text \<open>An edge from a task that is over without being completed and that no task supersedes.\<close>

definition dead_end :: "plan \<Rightarrow> string \<Rightarrow> string \<Rightarrow> bool" where
  "dead_end p u i \<longleftrightarrow>
     (\<exists>e\<in>set (edges p). from_task_id e = u \<and> to_task_id e = i) \<and> i \<noteq> [] \<and>
     (\<exists>v. plan_find p u = Some v \<and> status v \<in> TERMINAL_TASK_STATUSES - {COMPLETED}) \<and> (\<forall>x\<in>set (tasks p). supersedes x \<noteq> u)"

lemma dead_end_step:
  assumes "dead_end p u i" "lifecycle_step p q" "ids_ok p"
  shows "dead_end q u i"
proof -
  from assms(1) obtain v where v: "plan_find p u = Some v" "status v \<in> TERMINAL_TASK_STATUSES - {COMPLETED}" by (auto simp: dead_end_def)
  with assms(2) have "plan_find q u = Some v" by (fastforce simp: lifecycle_step_def task_step_def)
  moreover have "supersedes x \<noteq> u" if x: "x \<in> set (tasks q)" for x
  proof -
    have ids: "map task_id (tasks q) = map task_id (tasks p)" using assms(2) by (simp add: lifecycle_step_def)
    have "task_id x \<in> task_id ` set (tasks p)" using x ids by (metis imageI set_map)
    then obtain y where y: "y \<in> set (tasks p)" "task_id y = task_id x" by force
    then have "plan_find p (task_id x) = Some y" using plan_find_in_set [of p y] assms(3) by (force simp: ids_ok_def)
    with assms(2) obtain y' where y': "plan_find q (task_id x) = Some y'" "task_step y y'" by (auto simp: lifecycle_step_def)
    have "distinct (map task_id (tasks q))" using ids assms(3) by (simp add: ids_ok_def)
    then have "x = y'" using plan_find_same x y'(1) by blast
    then have "supersedes x = supersedes y" using y'(2) by (metis task_step_def task.select_convs(10) task.surjective task.update_convs(5))
    then show ?thesis using assms(1) y(1) by (simp add: dead_end_def)
  qed
  ultimately show ?thesis using assms(1,2) v(2) by (auto simp: dead_end_def lifecycle_step_def)
qed

lemma dead_end_never_ready:
  assumes "dead_end p u i" "distinct (map task_id (tasks p))"
  shows "\<not> task_upstream_ready p i"
proof -
  from assms(1) obtain e v where e: "e \<in> set (edges p)" "from_task_id e = u" "to_task_id e = i" "i \<noteq> []"
    "plan_find p u = Some v" "status v \<noteq> COMPLETED" by (auto simp: dead_end_def)
  have "fst ` set (replacement_of p) \<subseteq> supersedes ` set (tasks p)" unfolding replacement_of_def Let_def keys_dict_of by auto
  moreover have "\<forall>x\<in>set (tasks p). supersedes x \<noteq> u" using assms(1) unfolding dead_end_def by blast
  then have "u \<notin> supersedes ` set (tasks p)" by auto
  ultimately have "map_of (replacement_of p) u = None" by (auto simp: map_of_eq_None_iff)
  then have "effective_upstream p u = Some v" using e by (simp add: effective_upstream_def tasks_by_id_lookup [OF assms(2)])
  then show ?thesis using e by (auto simp: task_upstream_ready_iff)
qed

lemma dead_end_reset:
  assumes "dead_end p u i" "u \<notin> I"
  shows "dead_end (reset_tasks I p) u i"
proof -
  have "supersedes (reset_in I x) = supersedes x" for x by (simp add: reset_in_def)
  moreover have "edges (reset_tasks I p) = edges p" "tasks (reset_tasks I p) = map (reset_in I) (tasks p)" by (simp_all add: reset_tasks_def)
  moreover have "reset_in I v = v" if "plan_find p u = Some v" for v
    using that assms(2) by (auto simp: reset_in_def dest: plan_find_SomeD)
  ultimately show ?thesis using assms(1) by (auto simp: dead_end_def reset_find)
qed

section \<open>Samples\<close>

definition idle_run :: "world \<Rightarrow> run_state" where
  "idle_run w = \<lparr>seat = sample_desk w, pending_approvals = Map.empty, pending_approvals_meta = Map.empty, divergence_flag = False,
     intercept_transfer = False\<rparr>"

definition operator_msg :: "ControlKind \<Rightarrow> (string \<times> json) list \<Rightarrow> ControlMessage" where
  "operator_msg k pl = \<lparr>msg_kind = k, msg_id = ''m1'', msg_payload = pl, issued_at_ms = 0\<rparr>"

lemma idle_run_simps [simp]:
  "seat (idle_run w) = sample_desk w" "pending_approvals (idle_run w) = Map.empty" "pending_approvals_meta (idle_run w) = Map.empty"
  by (simp_all add: idle_run_def)

lemma operator_msg_simps [simp]:
  "msg_kind (operator_msg k pl) = k" "msg_payload (operator_msg k pl) = pl" "msg_id (operator_msg k pl) = ''m1''"
  by (simp_all add: operator_msg_def)

lemma reorders_samples [simp]: "reorders (\<lambda>xs. xs)" "reorders rev"
  by (simp_all add: reorders_def)

definition stranded_plan :: plan where
  "stranded_plan = (plan_empty ''p'' ''r'')\<lparr>tasks := [(mk_task ''a'' ''A'')\<lparr>status := FAILED\<rparr>, (mk_task ''b'' ''B'')\<lparr>status := CANCELLED\<rparr>],
     edges := [mk_edge ''a'' ''b'']\<rparr>"

definition stranded_world :: world where
  "stranded_world = sample_world\<lparr>sess := (sess sample_world)\<lparr>session_plan := Some stranded_plan\<rparr>\<rparr>"

lemma stranded_simps [simp]:
  "session_plan (sess stranded_world) = Some stranded_plan" "ids_ok stranded_plan"
  "plan_find stranded_plan ''b'' = Some ((mk_task ''b'' ''B'')\<lparr>status := CANCELLED\<rparr>)"
  by (simp_all add: stranded_world_def stranded_plan_def ids_ok_def mk_task_def plan_find_def)

section \<open>Properties\<close>

text \<open>
  C10: a rewind takes back exactly the target and what depends on it. On a plan with distinct ids, a \<open>REWIND_TO\<close> that names
  one of its tasks is acknowledged with success; in the new plan exactly the tasks reachable from the target are
  \<open>PENDING\<close> and have lost their results, every other task and all else of the plan is as before, and with a sink there is
  exactly one transition per task that was not already \<open>PENDING\<close>, whatever order the set of tasks is walked in.
\<close>

theorem rewind_exact:
  assumes "msg_kind m = CK_REWIND_TO" "payload_str m ''task_id'' = target" "reorders shuffle"
    and "session_plan (sess (run_world s)) = Some p" "distinct (map task_id (tasks p))" "plan_find p target = Some t"
  shows "\<exists>oc s' es. dispatch_control shuffle m s = Inr (oc, s') \<and> ack_result (oc_ack oc) = ACK_SUCCESS \<and> oc_rewind oc = target \<and>
    session_plan (sess (run_world s')) =
      Some (p\<lparr>tasks := map (\<lambda>t. if downstream p target (task_id t) then t\<lparr>status := PENDING\<rparr> else t) (tasks p)\<rparr>) \<and>
    (\<forall>i. completed_results (sess (run_world s')) i =
       (if downstream p target i then None else completed_results (sess (run_world s)) i)) \<and>
    log (run_world s') = log (run_world s) @ es \<and>
    (has_sinks (cfg (run_world s)) \<longrightarrow> distinct (map fst (transitions es)) \<and>
       set (transitions es) = {(i, status u, PENDING) |i u. downstream p target i \<and> plan_find p i = Some u \<and> status u \<noteq> PENDING})"
proof -
  from dispatch_rewind_spec [OF assms] obtain oc s' ids es where
    r: "dispatch_control shuffle m s = Inr (oc, s')" "ack_result (oc_ack oc) = ACK_SUCCESS" "oc_rewind oc = target"
    "distinct ids" "set ids = Collect (downstream p target)" "session_plan (sess (run_world s')) = Some (reset_tasks (set ids) p)"
    "completed_results (sess (run_world s')) = completed_results (fold forget_results ids (sess (run_world s)))"
    "log (run_world s') = log (run_world s) @ es"
    "has_sinks (cfg (run_world s)) \<longrightarrow> transitions es = map (\<lambda>i. (i, status (the (plan_find p i)), PENDING)) (taken_back p ids)"
    by (elim exE conjE)
  have tasks: "reset_tasks (set ids) p = p\<lparr>tasks := map (\<lambda>t. if downstream p target (task_id t) then t\<lparr>status := PENDING\<rparr> else t) (tasks p)\<rparr>"
    by (simp add: reset_tasks_def reset_in_def r(5))
  have "distinct (taken_back p ids)" using r(4) by (simp add: taken_back_def)
  moreover have "set (map (\<lambda>i. (i, status (the (plan_find p i)), PENDING)) (taken_back p ids)) =
      {(i, status u, PENDING) |i u. downstream p target i \<and> plan_find p i = Some u \<and> status u \<noteq> PENDING}"
    by (rule taken_back_changes [OF r(5)])
  ultimately have "has_sinks (cfg (run_world s)) \<longrightarrow> distinct (map fst (transitions es)) \<and>
      set (transitions es) = {(i, status u, PENDING) |i u. downstream p target i \<and> plan_find p i = Some u \<and> status u \<noteq> PENDING}"
    using r(9) by (simp add: comp_def)
  then show ?thesis using r(1-3,6-8) tasks forget_fold_results [of ids "sess (run_world s)"] r(5)
    by (intro exI [of _ oc] exI [of _ s'] exI [of _ es]) simp
qed

theorem rewind_exact_witness:
  "\<exists>oc s' q. dispatch_control rev (operator_msg CK_REWIND_TO [(''task_id'', JStr ''a'')]) (idle_run sample_world) = Inr (oc, s') \<and>
     session_plan (sess (run_world s')) = Some q \<and> map status (tasks q) = [PENDING, PENDING]"
proof -
  let ?m = "operator_msg CK_REWIND_TO [(''task_id'', JStr ''a'')]"
  have t: "payload_str ?m ''task_id'' = ''a''" by (simp add: payload_str_def jget_def)
  have a: "downstream sample_plan ''a'' ''a''" using sample_find(1) by (rule downstream_self)
  have b: "downstream sample_plan ''a'' ''b''"
    by (rule downstream_next [OF a, of "mk_edge ''a'' ''b''" _ "(mk_task ''b'' ''B'')\<lparr>status := RUNNING\<rparr>"])
      (simp_all, simp_all add: sample_plan_def mk_edge_def)
  have "tasks sample_plan = [mk_task ''a'' ''A'', (mk_task ''b'' ''B'')\<lparr>status := RUNNING\<rparr>]" by (simp add: sample_plan_def)
  with rewind_exact [OF _ t reorders_samples(2), of "idle_run sample_world" sample_plan "mk_task ''a'' ''A''"] a b sample_find(1)
  show ?thesis by (fastforce simp: mk_task_def)
qed

text \<open>
  A rewind does not make its target runnable. When an upstream task of the target ended without completing, no task
  supersedes it and it is not itself rewound, the rewind is still acknowledged as \<open>rewound to\<close> the target; the target is
  \<open>PENDING\<close> again, and no sequence of task transitions will ever make it ready.
\<close>

theorem rewind_strands_task:
  assumes "msg_kind m = CK_REWIND_TO" "payload_str m ''task_id'' = target" "reorders shuffle"
    and "session_plan (sess (run_world s)) = Some p" "ids_ok p" "plan_find p target = Some t"
    and "dead_end p u target" "\<not> downstream p target u"
  shows "\<exists>oc s' q t'. dispatch_control shuffle m s = Inr (oc, s') \<and> ack_result (oc_ack oc) = ACK_SUCCESS \<and>
    session_plan (sess (run_world s')) = Some q \<and> plan_find q target = Some t' \<and> status t' = PENDING \<and>
    (\<forall>r. lifecycle_step q r \<longrightarrow> \<not> task_upstream_ready r target)"
proof -
  have d: "distinct (map task_id (tasks p))" using assms(5) by (simp add: ids_ok_def)
  from dispatch_rewind_spec [OF assms(1-4) d assms(6)] obtain oc s' ids where
    r: "dispatch_control shuffle m s = Inr (oc, s')" "ack_result (oc_ack oc) = ACK_SUCCESS" "set ids = Collect (downstream p target)"
    "session_plan (sess (run_world s')) = Some (reset_tasks (set ids) p)"
    by (elim exE conjE)
  let ?q = "reset_tasks (set ids) p"
  have "task_id t = target" using plan_find_SomeD [OF assms(6)] by blast
  moreover have "downstream p target target" using assms(6) by (rule downstream_self)
  ultimately have t: "plan_find ?q target = Some (t\<lparr>status := PENDING\<rparr>)" using assms(6) r(3) by (simp add: reset_find reset_in_def)
  have q: "ids_ok ?q" using assms(5) by (simp add: ids_ok_def reset_tasks_def comp_def image_image)
  have dead: "dead_end ?q u target" using dead_end_reset [OF assms(7)] r(3) assms(8) by simp
  have "\<not> task_upstream_ready x target" if "lifecycle_step ?q x" for x
  proof -
    have "distinct (map task_id (tasks x))" using that q by (simp add: lifecycle_step_def ids_ok_def)
    then show ?thesis using dead_end_never_ready dead_end_step [OF dead that q] by blast
  qed
  then show ?thesis using r t by (intro exI [of _ oc] exI [of _ s'] exI [of _ ?q] exI [of _ "t\<lparr>status := PENDING\<rparr>"]) simp
qed

lemma stranded_dead_end: "dead_end stranded_plan ''a'' ''b''" "\<not> downstream stranded_plan ''b'' ''a''"
proof -
  show "dead_end stranded_plan ''a'' ''b''" by (simp add: dead_end_def stranded_plan_def mk_edge_def plan_find_def mk_task_def)
  have "i = ''b''" if "downstream stranded_plan ''b'' i" for i
    using that by induction (auto simp: stranded_plan_def mk_edge_def)
  then show "\<not> downstream stranded_plan ''b'' ''a''" by auto
qed

theorem rewind_strands_task_witness:
  "\<exists>oc s' q. dispatch_control rev (operator_msg CK_REWIND_TO [(''task_id'', JStr ''b'')]) (idle_run stranded_world) = Inr (oc, s') \<and>
     ack_result (oc_ack oc) = ACK_SUCCESS \<and> session_plan (sess (run_world s')) = Some q \<and> \<not> task_upstream_ready q ''b''"
proof -
  let ?m = "operator_msg CK_REWIND_TO [(''task_id'', JStr ''b'')]"
  have t: "payload_str ?m ''task_id'' = ''b''" by (simp add: payload_str_def jget_def)
  from rewind_strands_task [OF _ t reorders_samples(2) _ stranded_simps(2,3) stranded_dead_end, of "idle_run stranded_world"]
  show ?thesis using lifecycle_step_refl by fastforce
qed

text \<open>
  C23: every control message is answered, once and in order. Draining a channel whose plan has distinct ids never raises; it
  empties the inbox and appends one ack per message, each carrying the id of its message, to what
  the bridge had not read yet; and each outcome asks of the run loop what the kind of its message says: only a \<open>CANCEL\<close>
  stops the run, only \<open>PAUSE\<close> and \<open>GOLDFIVE_PAUSE_ESCALATE\<close> pause it, and only a rewind that was accepted restarts at a task.
\<close>

theorem drain_answers_every_message:
  assumes "control_channel (obs (seat s)) = Some c" "plan_ids_ok (run_world s)" "reorders shuffle"
  shows "\<exists>ocs s'. drain_controls shuffle s = Inr (ocs, s') \<and> list_all2 honours (inbox c) ocs \<and>
    control_channel (obs (seat s')) = Some (c\<lparr>inbox := [], outbox := outbox c @ map (\<lambda>oc. Some (oc_ack oc)) ocs\<rparr>)"
  using drained [OF assms] by blast

theorem drain_answers_every_message_witness:
  "\<exists>oc s'. drain_controls rev (on_channel (send pause_msg) (idle_run sample_world)) = Inr ([oc], s') \<and> oc_request_pause oc \<and>
     control_channel (obs (seat s')) = Some (channel_init\<lparr>outbox := [Some (oc_ack oc)]\<rparr>)"
proof -
  let ?s = "on_channel (send pause_msg) (idle_run sample_world)"
  have "control_channel (obs (seat ?s)) = Some (send pause_msg channel_init)" by simp
  from drain_answers_every_message [OF this _ reorders_samples(2)] obtain ocs s' where
    d: "drain_controls rev ?s = Inr (ocs, s')" "list_all2 honours [pause_msg] ocs"
    "control_channel (obs (seat s')) = Some (channel_init\<lparr>outbox := map (\<lambda>oc. Some (oc_ack oc)) ocs\<rparr>)"
    by (auto simp: send_def channel_init_def)
  from d(2) obtain oc where "ocs = [oc]" "honours pause_msg oc" by (auto simp: list_all2_Cons1)
  then show ?thesis using d by (auto simp: honours_def pause_msg_def)
qed


lemma sample_waiting_run:
  obtains k where "detect sample_drift (sample_desk done_world) = Inr k" "staffed UNIV k" "length (waiting k) = 1"
    "is_active_steering (cfg (desk_core k))" "control_channel (obs k) \<noteq> None" "pol (obs k) = sample_policy"
proof -
  obtain k where k: "detect sample_drift (sample_desk done_world) = Inr k" "idle (sample_desk done_world)" by (rule sample_desk_run)
  have st: "staffed UNIV (sample_desk done_world)" and f: "facts_ok sample_drift"
    using idle_staffed [OF k(2)] by (simp_all add: sample_drift_def)
  have "handling UNIV (sample_desk done_world) k" using Detects [of sample_drift UNIV, OF _ f k(1)] by simp
  note h = handling_ok [OF this regime_any st]
  from h(1) obtain ms where ms: "sways (\<lambda>_. True) (\<lambda>_. True) True (forget (sample_observer done_world)) (forget (obs k)) ms" by auto
  have "control_channel (obs k) \<noteq> None" using ms by (auto simp: sways_def)
  moreover have "is_active_steering (cfg (desk_core k))"
    using sways_unforget(1) [OF ms] by (simp add: sample_world_def sample_config_def)
  moreover have "map fr_attempt (waiting k) = [''3'']" using sample_waiting k(1) by simp
  then have "length (waiting k) = 1" using length_map [of fr_attempt "waiting k"] by simp
  ultimately show ?thesis using that k(1) h(2) sways_unforget(2) [OF ms] by simp
qed


text \<open>
  C21: an expired pause ends every task. When nobody answers an escalation within its deadline, every task of the plan that was
  still live is \<open>CANCELLED\<close>, those that were over are untouched, and ids and edges stay as they were.
\<close>

theorem abort_ends_every_task:
  assumes "session_plan (sess w) = Some p" "distinct (map task_id (tasks p))"
  shows "\<exists>q. session_plan (sess (snd (abort_expired_pause m shown w))) = Some q \<and> edges q = edges p \<and>
    map task_id (tasks q) = map task_id (tasks p) \<and>
    (\<forall>j u. plan_find p j = Some u \<longrightarrow>
       plan_find q j = Some (if status u \<in> TERMINAL_TASK_STATUSES then u else u\<lparr>status := CANCELLED\<rparr>))"
proof -
  have "swept {} p p" by (simp add: swept_def)
  from swept_fold [OF this assms(2,1)] obtain q where
    q: "session_plan (sess (snd (abort_expired_pause m shown w))) = Some q" "swept (set (live_task_ids (sess w))) p q"
    by (fastforce simp: abort_expired_pause_def Let_def)
  have "plan_find q j = Some (if status u \<in> TERMINAL_TASK_STATUSES then u else u\<lparr>status := CANCELLED\<rparr>)" if u: "plan_find p j = Some u" for j u
  proof -
    have "j \<in> set (live_task_ids (sess w))" if "status u \<notin> TERMINAL_TASK_STATUSES"
      using plan_find_SomeD [OF u] that by (auto simp: live_task_ids_def assms(1))
    then show ?thesis using q(2) u unfolding swept_def by fastforce
  qed
  then show ?thesis using q by (simp add: swept_def)
qed

theorem abort_ends_every_task_witness:
  "\<exists>q. session_plan (sess (snd (abort_expired_pause None ''600'' sample_world))) = Some q \<and>
     map_option status (plan_find q ''a'') = Some CANCELLED \<and> map_option status (plan_find q ''b'') = Some CANCELLED"
  using abort_ends_every_task [OF sample_ok(1,2), of None "''600''"] sample_find by (fastforce simp: mk_task_def)

end
