(* ===== verification/Reporting.thy ===== *)
theory Reporting
  imports Run_Control
begin

text \<open>
  The reporting tools, through which agents drive their tasks: \<open>src/goldfive/reporting/\<close> (\<open>handlers.py\<close>, \<open>_internal.py\<close>,
  \<open>rendering.py\<close>, \<open>schemas.py\<close>) and their dispatcher \<open>src/goldfive/adapters/_tool_invocation.py\<close>. A handler gets the
  decoded arguments of a tool call and returns the JSON the model reads, or waits for a human decision.

  An argument is a JSON value or a float; floats inside lists and dictionaries do not occur. Reading and printing
  floats are the parameters \<open>parse_float\<close> and \<open>float_repr\<close>. The barrier \<open>_await_plan_stable\<close> does nothing here, since a
  revision is one atomic step.
\<close>

section \<open>Arguments\<close>

datatype arg = Arg json | FloatArg pyfloat

record tool_env =
  parse_float :: "string \<Rightarrow> pyfloat option"
  float_repr :: "pyfloat \<Rightarrow> string"
  approval_default_timeout_ms :: int

type_synonym args = "(string, arg) dict"

fun arg_text :: "tool_env \<Rightarrow> arg \<Rightarrow> string" where
  "arg_text ev (Arg v) = py_str v"
| "arg_text ev (FloatArg f) = float_repr ev f"

fun arg_truthy :: "arg \<Rightarrow> bool" where
  "arg_truthy (Arg v) = truthy v"
| "arg_truthy (FloatArg f) = (f \<noteq> Fin 0)"

definition str_arg :: "tool_env \<Rightarrow> args \<Rightarrow> string \<Rightarrow> string" where
  "str_arg ev args k =
     (case map_of args k of None \<Rightarrow> [] | Some (Arg JNull) \<Rightarrow> [] | Some v \<Rightarrow> arg_text ev v)"

definition or_default :: "'a \<Rightarrow> py_error + 'a \<Rightarrow> py_error + 'a" where
  "or_default d r = (case r of Inl (TypeError _) \<Rightarrow> Inr d | Inl (ValueError _) \<Rightarrow> Inr d | _ \<Rightarrow> r)"

definition float_arg :: "tool_env \<Rightarrow> args \<Rightarrow> string \<Rightarrow> py_error + pyfloat" where
  "float_arg ev args k =
     (case map_of args k of
        None \<Rightarrow> Inr (Fin 0)
      | Some (FloatArg f) \<Rightarrow> Inr f
      | Some (Arg v) \<Rightarrow> or_default (Fin 0) (py_float (parse_float ev) v))"

definition bool_arg :: "args \<Rightarrow> string \<Rightarrow> bool \<Rightarrow> bool" where
  "bool_arg args k dflt =
     (case map_of args k of
        None \<Rightarrow> dflt
      | Some (Arg JNull) \<Rightarrow> dflt
      | Some (Arg (JStr s)) \<Rightarrow> lower s \<in> {''true'', ''1'', ''yes''}
      | Some v \<Rightarrow> arg_truthy v)"

text \<open>\<open>int(f)\<close> truncates towards zero.\<close>

fun int_of_float :: "pyfloat \<Rightarrow> py_error + int" where
  "int_of_float (Fin n) = Inr (sgn n * (\<bar>n\<bar> div float_one))"
| "int_of_float NaN = Inl (ValueError ''cannot convert float NaN to integer'')"
| "int_of_float _ = Inl (OverflowError ''cannot convert float infinity to integer'')"

definition int_arg :: "args \<Rightarrow> string \<Rightarrow> int \<Rightarrow> py_error + int" where
  "int_arg args k dflt =
     (case map_of args k of
        None \<Rightarrow> Inr dflt
      | Some (FloatArg f) \<Rightarrow> or_default dflt (int_of_float f)
      | Some (Arg v) \<Rightarrow> or_default dflt (py_int v))"

section \<open>Tools\<close>

datatype tool =
    TaskStartedTool | TaskProgressTool | TaskCompletedTool | TaskFailedTool | TaskBlockedTool | NewWorkTool
  | PlanDivergenceTool | AwaitingApprovalTool | DeclareSkippedTool | DeclareNotNeededTool

fun tool_name :: "tool \<Rightarrow> string" where
  "tool_name TaskStartedTool = ''report_task_started''"
| "tool_name TaskProgressTool = ''report_task_progress''"
| "tool_name TaskCompletedTool = ''report_task_completed''"
| "tool_name TaskFailedTool = ''report_task_failed''"
| "tool_name TaskBlockedTool = ''report_task_blocked''"
| "tool_name NewWorkTool = ''report_new_work_discovered''"
| "tool_name PlanDivergenceTool = ''report_plan_divergence''"
| "tool_name AwaitingApprovalTool = ''report_awaiting_approval''"
| "tool_name DeclareSkippedTool = ''declare_task_skipped''"
| "tool_name DeclareNotNeededTool = ''declare_task_not_needed''"

definition BUILTIN_REPORTING_TOOLS :: "tool list" where
  "BUILTIN_REPORTING_TOOLS =
     [TaskStartedTool, TaskProgressTool, TaskCompletedTool, TaskFailedTool, TaskBlockedTool, NewWorkTool,
      PlanDivergenceTool, AwaitingApprovalTool, DeclareSkippedTool, DeclareNotNeededTool]"

definition DRIFT_SELF_REPORTING_TOOL_NAMES :: "string set" where
  "DRIFT_SELF_REPORTING_TOOL_NAMES = {''report_plan_divergence'', ''declare_task_skipped'', ''declare_task_not_needed''}"

definition LIFECYCLE_REPORTING_TOOLS :: "tool list" where
  "LIFECYCLE_REPORTING_TOOLS = filter (\<lambda>t. tool_name t \<notin> DRIFT_SELF_REPORTING_TOOL_NAMES) BUILTIN_REPORTING_TOOLS"

definition DRIFT_SELF_REPORTING_TOOLS :: "tool list" where
  "DRIFT_SELF_REPORTING_TOOLS = filter (\<lambda>t. tool_name t \<in> DRIFT_SELF_REPORTING_TOOL_NAMES) BUILTIN_REPORTING_TOOLS"

datatype self_reporting = SelfReporting bool | SelfReportingOf "string list"

definition select_reporting_tools :: "self_reporting \<Rightarrow> tool list" where
  "select_reporting_tools flag =
     (case flag of
        SelfReporting True \<Rightarrow> BUILTIN_REPORTING_TOOLS
      | SelfReporting False \<Rightarrow> LIFECYCLE_REPORTING_TOOLS
      | SelfReportingOf names \<Rightarrow>
          (let requested = filter (\<lambda>n. n \<noteq> []) (map strip names)
           in if requested = [] then LIFECYCLE_REPORTING_TOOLS
              else LIFECYCLE_REPORTING_TOOLS @ filter (\<lambda>t. tool_name t \<in> set requested) DRIFT_SELF_REPORTING_TOOLS))"

fun target_status :: "tool \<Rightarrow> TaskStatus option" where
  "target_status TaskStartedTool = Some RUNNING"
| "target_status TaskProgressTool = Some RUNNING"
| "target_status TaskCompletedTool = Some COMPLETED"
| "target_status TaskFailedTool = Some FAILED"
| "target_status TaskBlockedTool = Some BLOCKED"
| "target_status AwaitingApprovalTool = Some BLOCKED"
| "target_status _ = None"

fun valid_sources :: "tool \<Rightarrow> TaskStatus set option" where
  "valid_sources TaskStartedTool = Some {PENDING, BLOCKED}"
| "valid_sources TaskProgressTool = Some {RUNNING}"
| "valid_sources TaskCompletedTool = Some {PENDING, RUNNING, BLOCKED}"
| "valid_sources TaskFailedTool = Some {PENDING, RUNNING, BLOCKED}"
| "valid_sources TaskBlockedTool = Some {PENDING, RUNNING}"
| "valid_sources AwaitingApprovalTool = Some {PENDING, RUNNING, BLOCKED}"
| "valid_sources _ = None"

datatype verdict = Idempotent | Invalid | Transition

definition classify_transition :: "tool \<Rightarrow> TaskStatus \<Rightarrow> verdict" where
  "classify_transition t s =
     (if target_status t = Some s then Idempotent
      else case valid_sources t of Some S \<Rightarrow> if s \<in> S then Transition else Invalid | None \<Rightarrow> Invalid)"

text \<open>The \<open>required\<close> list of each schema; every required property is declared as a string.\<close>

fun required_fields :: "tool \<Rightarrow> string list" where
  "required_fields TaskCompletedTool = [''summary'']"
| "required_fields TaskFailedTool = [''reason'']"
| "required_fields TaskBlockedTool = [''blocker'']"
| "required_fields NewWorkTool = [''parent_task_id'', ''title'', ''description'']"
| "required_fields PlanDivergenceTool = [''note'']"
| "required_fields AwaitingApprovalTool = [''prompt'']"
| "required_fields DeclareSkippedTool = [''reason'']"
| "required_fields DeclareNotNeededTool = [''reason'']"
| "required_fields _ = []"

section \<open>Responses\<close>

definition ACK :: json where "ACK = JDict [(''acknowledged'', JBool True)]"

text \<open>\<open>{str(t.id): t for t in plan.tasks}\<close>, with the empty id.\<close>

definition by_any_id :: "plan \<Rightarrow> (string, task) dict" where
  "by_any_id p = dict_of (map (\<lambda>t. (task_id t, t)) (tasks p))"

definition next_pending :: "plan \<Rightarrow> task option" where
  "next_pending p =
     (let by_id = by_any_id p;
          incoming = (\<lambda>i. map from_task_id (filter (\<lambda>e. to_task_id e = i \<and> from_task_id e \<noteq> []) (edges p)))
      in find (\<lambda>t. status t = PENDING \<and> task_id t \<noteq> [] \<and>
            list_all (\<lambda>j. case map_of by_id j of None \<Rightarrow> False | Some u \<Rightarrow> status u \<in> TERMINAL_TASK_STATUSES) (incoming (task_id t)))
           (tasks p))"

definition bare_agent_name :: "string \<Rightarrow> string" where
  "bare_agent_name name = (let s = strip name in rev (takeWhile (\<lambda>c. c \<noteq> CHR ''.'') (rev s)))"

definition build_plan_state :: "plan option \<Rightarrow> json" where
  "build_plan_state p =
     (case p of
        None \<Rightarrow> JDict [(''completed_task_ids'', JList []), (''next_pending'', JNull)]
      | Some p \<Rightarrow>
          JDict [(''completed_task_ids'',
                   JList (map JStr (sort (map task_id (filter (\<lambda>t. status t = COMPLETED \<and> task_id t \<noteq> []) (tasks p)))))),
                 (''next_pending'',
                   (case next_pending p of
                      None \<Rightarrow> JNull
                    | Some t \<Rightarrow> JDict [(''id'', JStr (task_id t)), (''title'', JStr (title t)),
                                  (''assigned_to'', JStr (bare_agent_name (assignee_agent_id t))),
                                  (''predecessors_completed'', JBool True)]))])"

definition plan_state_entry :: "world \<Rightarrow> (string \<times> json) list" where
  "plan_state_entry w = (if is_active_steering (cfg w) then [(''plan_state'', build_plan_state (session_plan (sess w)))] else [])"

definition directive_ack :: "string \<Rightarrow> TaskStatus \<Rightarrow> world \<Rightarrow> json" where
  "directive_ack tid s w =
     JDict ([(''acknowledged'', JBool True), (''task'', JDict [(''id'', JStr tid), (''status'', JStr (status_value s))])]
            @ plan_state_entry w)"

definition idempotent_response :: "TaskStatus \<Rightarrow> string \<Rightarrow> world \<Rightarrow> json" where
  "idempotent_response s tid w =
     JDict ([(''acknowledged'', JBool True), (''idempotent'', JBool True), (''current_status'', JStr (status_value s)),
             (''task'', JDict [(''id'', JStr tid), (''status'', JStr (status_value s))])] @ plan_state_entry w)"

definition invalid_transition_response :: "tool \<Rightarrow> TaskStatus \<Rightarrow> TaskStatus \<Rightarrow> string \<Rightarrow> json" where
  "invalid_transition_response t s attempted tid =
     JDict [(''acknowledged'', JBool False), (''error'', JStr ''invalid_transition''), (''tool'', JStr (tool_name t)),
            (''task_id'', JStr tid), (''current_status'', JStr (status_value s)), (''attempted'', JStr (status_value attempted)),
            (''message'', JStr (''Cannot '' @ repr_str (tool_name t) @ '' task '' @ repr_str tid @ '' from '' @ status_value s @
               '' to '' @ status_value attempted @
               ''. The task is already in a terminal or otherwise-incompatible state; do not retry.''))]"

definition missing_task_id_response :: "tool \<Rightarrow> json" where
  "missing_task_id_response t =
     JDict [(''acknowledged'', JBool False), (''error'', JStr ''missing_task_id''), (''tool'', JStr (tool_name t)),
            (''message'', JStr (''Tool '' @ repr_str (tool_name t) @ '' requires a task_id; call it with the id of the task you'' @
               [char_of (39::nat)] @ ''re reporting on, or ensure the adapter has pinned goldfive.current_task_id on session state.''))]"

definition missing_required_field_response :: "tool \<Rightarrow> string \<Rightarrow> string \<Rightarrow> json" where
  "missing_required_field_response t field reason =
     JDict [(''acknowledged'', JBool False), (''error'', JStr ''missing_required_field''), (''tool'', JStr (tool_name t)),
            (''field'', JStr field), (''reason'', JStr reason), (''expected'', JDict [(''type'', JStr ''string'')]),
            (''required'', JList (map JStr (required_fields t))),
            (''message'', JStr (''Tool '' @ repr_str (tool_name t) @ '' requires field '' @ repr_str field @
               '' to be a non-empty value; received '' @ reason @
               ''. Call the tool again with all required fields populated.''))]"

fun validate_fields :: "tool \<Rightarrow> args \<Rightarrow> string list \<Rightarrow> json option" where
  "validate_fields t args [] = None"
| "validate_fields t args (f # fs) =
     (case map_of args f of
        None \<Rightarrow> Some (missing_required_field_response t f ''missing'')
      | Some (Arg JNull) \<Rightarrow> Some (missing_required_field_response t f ''null'')
      | Some (Arg (JStr s)) \<Rightarrow>
          if strip s = [] then Some (missing_required_field_response t f ''empty'') else validate_fields t args fs
      | Some _ \<Rightarrow> validate_fields t args fs)"

definition validate_required :: "tool \<Rightarrow> args \<Rightarrow> json option" where
  "validate_required t args = validate_fields t args (required_fields t)"

section \<open>Which task a report is about\<close>

definition resolve_task_id_with_source :: "tool_env \<Rightarrow> args \<Rightarrow> session \<Rightarrow> string \<times> string" where
  "resolve_task_id_with_source ev args s =
     (let explicit = strip (str_arg ev args ''task_id''); pinned = strip (pin_current_task (state s))
      in if explicit \<noteq> [] then (explicit, ''llm_report'')
         else if pinned \<noteq> [] then (pinned, ''handler_default'') else ([], []))"

definition replacements :: "plan \<Rightarrow> (string, string) dict" where
  "replacements p =
     dict_of (map (\<lambda>t. (strip (supersedes t), strip (task_id t)))
       (filter (\<lambda>t. strip (supersedes t) \<noteq> [] \<and> strip (task_id t) \<noteq> [] \<and> supersedes_kind t \<noteq> CORRECT) (tasks p)))"

text \<open>The walk is capped at eight hops by the source.\<close>

fun follow_chain :: "(string, task) dict \<Rightarrow> (string, string) dict \<Rightarrow> nat \<Rightarrow> string list \<Rightarrow> string \<Rightarrow> string" where
  "follow_chain by_id repl 0 visited cur = cur"
| "follow_chain by_id repl (Suc n) visited cur =
     (case map_of by_id cur of
        None \<Rightarrow> cur
      | Some t \<Rightarrow>
          if status t \<notin> TERMINAL_TASK_STATUSES then cur
          else (case map_of repl cur of
                  None \<Rightarrow> cur
                | Some nxt \<Rightarrow> if nxt = [] \<or> nxt \<in> set visited then cur
                              else follow_chain by_id repl n (nxt # visited) nxt))"

definition resolve_effective_task_id :: "plan option \<Rightarrow> string \<Rightarrow> string" where
  "resolve_effective_task_id p tid =
     (if tid = [] then tid
      else case p of None \<Rightarrow> tid | Some p \<Rightarrow> follow_chain (by_any_id p) (replacements p) 8 [tid] tid)"

definition read_pin_revision :: "gstate \<Rightarrow> int option" where
  "read_pin_revision st = (if st KEY_CURRENT_TASK_REVISION = None then None else Some (read_current_task_revision st))"

definition read_plan_revision :: "plan option \<Rightarrow> int" where
  "read_plan_revision p = (case p of None \<Rightarrow> 0 | Some p \<Rightarrow> max 0 (revision_index p))"

definition supersession_successor :: "plan option \<Rightarrow> string \<Rightarrow> string \<times> SupersessionKind" where
  "supersession_successor p tid =
     (if tid = [] then ([], UNSPECIFIED)
      else case p of
             None \<Rightarrow> ([], UNSPECIFIED)
           | Some p \<Rightarrow>
               (case find (\<lambda>t. strip (supersedes t) = tid) (tasks p) of
                  None \<Rightarrow> ([], UNSPECIFIED)
                | Some t \<Rightarrow> (strip (task_id t), supersedes_kind t)))"

datatype freshness = Match | StaleReplace | StaleCorrect | StaleAmbiguous

definition classify_pin_freshness :: "plan option \<Rightarrow> string \<Rightarrow> int \<Rightarrow> int \<Rightarrow> freshness \<times> string" where
  "classify_pin_freshness p tid pin_revision current_revision =
     (if current_revision \<le> pin_revision then (Match, [])
      else
        (let (successor, k) = supersession_successor p tid
         in if successor \<noteq> [] \<and> k = REPLACE then (StaleReplace, successor)
            else if successor \<noteq> [] \<and> k = CORRECT then (StaleCorrect, successor)
            else if successor \<noteq> [] \<and> k = UNSPECIFIED then (StaleReplace, successor)
            else (StaleAmbiguous, [])))"

text \<open>An emit helper that takes a sequence number only when there is a sink.\<close>

definition emit_if_sinks :: "payload \<Rightarrow> world \<Rightarrow> world" where
  "emit_if_sinks p w = (if has_sinks (cfg w) then emit_new p w else w)"

datatype route = Routed string bool | Refused json

definition classify_and_route_pin :: "string \<Rightarrow> TaskStatus \<Rightarrow> world \<Rightarrow> route \<times> world" where
  "classify_and_route_pin tid attempted w =
     (let p = session_plan (sess w); live_id = resolve_effective_task_id p tid
      in case read_pin_revision (state (sess w)) of
           None \<Rightarrow> (Routed live_id (live_id \<noteq> tid), w)
         | Some pin_rev \<Rightarrow>
             (let cur_rev = read_plan_revision p; (fresh, successor) = classify_pin_freshness p tid pin_rev cur_rev
              in case fresh of
                   Match \<Rightarrow> (Routed live_id (live_id \<noteq> tid), w)
                 | StaleReplace \<Rightarrow> (Routed (if successor \<noteq> [] then successor else tid) (successor \<noteq> [] \<and> successor \<noteq> tid), w)
                 | _ \<Rightarrow>
                     (Refused ACK,
                      emit_if_sinks
                        (TaskTransitionRefused tid (case find_task w tid of Some t \<Rightarrow> status t | None \<Rightarrow> PENDING) attempted
                           (if fresh = StaleCorrect then ''stale_pin_correct_supersedes'' else ''stale_pin_no_supersedes'')
                           pin_rev cur_rev) w)))"

section \<open>The shared front of the task handlers\<close>

text \<open>
  From the resolved id to the point where the steerer is driven: either the reply that ends the call, or the id to drive
  with its source and the task found. \<open>decide\<close> is the handler's reading of the current status.
\<close>

datatype gate_result = Stopped json | Passed string string "task option"

definition gate :: "tool \<Rightarrow> (TaskStatus \<Rightarrow> verdict) \<Rightarrow> TaskStatus \<Rightarrow> string \<times> string \<Rightarrow> world \<Rightarrow> gate_result \<times> world" where
  "gate u decide attempted chosen w =
     (let (tid, source) = chosen
      in if tid = [] then (Stopped (missing_task_id_response u), w)
         else
           (let (r, w) = classify_and_route_pin tid attempted w
            in case r of
                 Refused reply \<Rightarrow> (Stopped reply, w)
               | Routed tid rerouted \<Rightarrow>
                   (let source = (if rerouted then ''supersedes_reroute'' else source)
                    in case find_task w tid of
                         None \<Rightarrow> (Passed tid source None, w)
                       | Some t \<Rightarrow>
                           (case decide (status t) of
                              Idempotent \<Rightarrow> (Stopped (idempotent_response (status t) tid w), w)
                            | Invalid \<Rightarrow> (Stopped (invalid_transition_response u (status t) attempted tid), w)
                            | Transition \<Rightarrow> (Passed tid source (Some t), w)))))"

definition rotate_after_terminal :: "task \<Rightarrow> world \<Rightarrow> py_error + world" where
  "rotate_after_terminal t w =
     (let pinned = strip (pin_current_task (state (sess w)))
      in if pinned \<noteq> [] \<and> pinned \<noteq> task_id t then Inr w
         else ebind (rotate_current_task_id (state (sess w)) (session_plan (sess w)) (assignee_agent_id t)) (\<lambda>(i, st).
              Inr (on_sess (\<lambda>s. s\<lparr>state := st\<rparr>) w)))"

definition clear_correction_on_started :: "task option \<Rightarrow> world \<Rightarrow> world" where
  "clear_correction_on_started t w =
     (case t of
        None \<Rightarrow> w
      | Some t \<Rightarrow>
          (let assignee = strip (assignee_agent_id t); tid = strip (task_id t)
           in if assignee = [] \<or> tid = [] then w
              else on_sess (\<lambda>s. s\<lparr>state := snd (clear_correction (state s) assignee tid)\<rparr>) w))"

section \<open>The task handlers\<close>

definition handle_task_started :: "tool_env \<Rightarrow> args \<Rightarrow> world \<Rightarrow> py_error + json \<times> world" where
  "handle_task_started ev args w =
     (let (g, w) = gate TaskStartedTool (classify_transition TaskStartedTool) RUNNING (resolve_task_id_with_source ev args (sess w)) w
      in case g of
           Stopped reply \<Rightarrow> Inr (reply, w)
         | Passed tid source t \<Rightarrow>
             ebind (mark_task_running tid (str_arg ev args ''detail'') source w) (\<lambda>w.
             let w = clear_correction_on_started t w
             in Inr (directive_ack tid RUNNING w, w)))"

definition handle_task_progress :: "tool_env \<Rightarrow> args \<Rightarrow> world \<Rightarrow> py_error + json \<times> world" where
  "handle_task_progress ev args w =
     ebind (float_arg ev args ''fraction'') (\<lambda>fraction.
     let (g, w) = gate TaskProgressTool (\<lambda>s. if s = RUNNING then Transition else Invalid) RUNNING
                    (resolve_task_id_with_source ev args (sess w)) w
     in case g of
          Stopped reply \<Rightarrow> Inr (reply, w)
        | Passed tid source t \<Rightarrow>
            ebind (mark_task_progress tid fraction (str_arg ev args ''detail'') w) (\<lambda>w. Inr (directive_ack tid RUNNING w, w)))"

definition artifacts_arg :: "args \<Rightarrow> (string \<times> string) list" where
  "artifacts_arg args = (case map_of args ''artifacts'' of Some (Arg (JDict d)) \<Rightarrow> map (\<lambda>(k, v). (k, py_str v)) d | _ \<Rightarrow> [])"

definition rotate_found :: "task option \<Rightarrow> world \<Rightarrow> py_error + world" where
  "rotate_found t w = (case t of None \<Rightarrow> Inr w | Some t \<Rightarrow> rotate_after_terminal t w)"

definition handle_task_completed :: "tool_env \<Rightarrow> args \<Rightarrow> world \<Rightarrow> py_error + json \<times> world" where
  "handle_task_completed ev args w =
     (case validate_required TaskCompletedTool args of
        Some err \<Rightarrow> Inr (err, w)
      | None \<Rightarrow>
          (let (g, w) = gate TaskCompletedTool (classify_transition TaskCompletedTool) COMPLETED
                          (resolve_task_id_with_source ev args (sess w)) w
           in case g of
                Stopped reply \<Rightarrow> Inr (reply, w)
              | Passed tid source t \<Rightarrow>
                  ebind (mark_task_completed tid (str_arg ev args ''summary'') (artifacts_arg args) source w) (\<lambda>w.
                  ebind (rotate_found t w) (\<lambda>w. Inr (directive_ack tid COMPLETED w, w)))))"

definition handle_task_failed :: "tool_env \<Rightarrow> args \<Rightarrow> world \<Rightarrow> py_error + json \<times> world" where
  "handle_task_failed ev args w =
     (case validate_required TaskFailedTool args of
        Some err \<Rightarrow> Inr (err, w)
      | None \<Rightarrow>
          (let (g, w) = gate TaskFailedTool (classify_transition TaskFailedTool) FAILED
                          (resolve_task_id_with_source ev args (sess w)) w
           in case g of
                Stopped reply \<Rightarrow> Inr (reply, w)
              | Passed tid source t \<Rightarrow>
                  ebind (mark_task_failed tid (str_arg ev args ''reason'') (bool_arg args ''recoverable'' True) source True w) (\<lambda>w.
                  ebind (rotate_found t w) (\<lambda>w. Inr (directive_ack tid FAILED w, w)))))"

definition handle_task_blocked :: "tool_env \<Rightarrow> args \<Rightarrow> world \<Rightarrow> py_error + json \<times> world" where
  "handle_task_blocked ev args w =
     (case validate_required TaskBlockedTool args of
        Some err \<Rightarrow> Inr (err, w)
      | None \<Rightarrow>
          (let (g, w) = gate TaskBlockedTool (classify_transition TaskBlockedTool) BLOCKED
                          (resolve_task_id_with_source ev args (sess w)) w
           in case g of
                Stopped reply \<Rightarrow> Inr (reply, w)
              | Passed tid source t \<Rightarrow>
                  ebind (mark_task_blocked tid (str_arg ev args ''blocker'') (str_arg ev args ''needed'') source w) (\<lambda>w.
                  Inr (directive_ack tid BLOCKED w, w))))"


section \<open>Discoveries and declarations\<close>

text \<open>\<open>json.dumps\<close> of a text, as it is with \<open>ensure_ascii\<close>.\<close>

definition json_char :: "char \<Rightarrow> string" where
  "json_char c =
     (let n = (of_char c :: nat); bs = char_of (92::nat) in
      if n = 34 \<or> n = 92 then [bs, c]
      else if n = 10 then [bs, CHR ''n'']
      else if n = 13 then [bs, CHR ''r'']
      else if n = 9 then [bs, CHR ''t'']
      else if n = 8 then [bs, CHR ''b'']
      else if n = 12 then [bs, CHR ''f'']
      else if n < 32 \<or> 128 \<le> n then [bs, CHR ''u'', CHR ''0'', CHR ''0'', digit_char (n div 16), digit_char (n mod 16)]
      else [c])"

definition json_quote :: "string \<Rightarrow> string" where
  "json_quote s = (let q = [char_of (34::nat)] in q @ concat (map json_char s) @ q)"

definition discovery_json :: "string \<Rightarrow> string \<Rightarrow> string \<Rightarrow> string" where
  "discovery_json parent ttl desc =
     ''{'' @ json_quote ''description'' @ '': '' @ json_quote desc @ '', '' @ json_quote ''parent_task_id'' @ '': '' @ json_quote parent @
     '', '' @ json_quote ''title'' @ '': '' @ json_quote ttl @ ''}''"

definition handle_new_work_discovered :: "tool_env \<Rightarrow> args \<Rightarrow> world \<Rightarrow> json \<times> world" where
  "handle_new_work_discovered ev args w =
     (case validate_required NewWorkTool args of
        Some err \<Rightarrow> (err, w)
      | None \<Rightarrow>
          (let parent = str_arg ev args ''parent_task_id''; ttl = str_arg ev args ''title'';
               desc = str_arg ev args ''description''; assignee = str_arg ev args ''assignee''
           in (ACK, report_new_work_discovered parent ttl desc assignee (discovery_json parent ttl desc) w)))"

definition handle_plan_divergence :: "args \<Rightarrow> run_state \<Rightarrow> json \<times> run_state" where
  "handle_plan_divergence args s =
     (case validate_required PlanDivergenceTool args of
        Some err \<Rightarrow> (err, s)
      | None \<Rightarrow> (ACK, s\<lparr>divergence_flag := True\<rparr>))"

definition DECLARATIONS_KEY :: string where "DECLARATIONS_KEY = ''goldfive.task_declarations''"

fun declared :: "json option \<Rightarrow> (string \<times> json) list" where
  "declared (Some (JDict d)) = d"
| "declared _ = []"

definition record_declaration :: "string \<Rightarrow> string \<Rightarrow> string \<Rightarrow> session \<Rightarrow> bool \<times> session" where
  "record_declaration k tid reason s =
     (let d = declared (state s DECLARATIONS_KEY); key = k @ '':'' @ tid
      in if map_of d key \<noteq> None then (False, s)
         else (True, s\<lparr>state := (state s)(DECLARATIONS_KEY \<mapsto>
                 JDict (AList.update key (JDict [(''kind'', JStr k), (''task_id'', JStr tid), (''reason'', JStr reason),
                   (''recorded_at_seq'', JInt (int (next_seq s)))]) d))\<rparr>))"

definition handle_declaration :: "tool_env \<Rightarrow> string \<Rightarrow> tool \<Rightarrow> args \<Rightarrow> world \<Rightarrow> json \<times> world" where
  "handle_declaration ev k u args w =
     (case validate_required u args of
        Some err \<Rightarrow> (err, w)
      | None \<Rightarrow>
          (let (tid, source) = resolve_task_id_with_source ev args (sess w); reason = str_arg ev args ''reason''
           in if tid = [] then (missing_task_id_response u, w)
              else
                (let (is_new, s) = record_declaration k tid reason (sess w); w = w\<lparr>sess := s\<rparr>
                 in if is_new then (ACK, emit_if_sinks (TaskDeclarationReceived k tid reason) w)
                    else (JDict [(''acknowledged'', JBool True), (''idempotent'', JBool True)], w))))"

section \<open>Waiting for a human\<close>

record approval_wait =
  wait_task :: string
  wait_timeout_ms :: int

datatype reply = Replied json | Parked approval_wait

definition approval_reply :: "string \<Rightarrow> string \<Rightarrow> json" where
  "approval_reply decision detail =
     JDict [(''acknowledged'', JBool True), (''decision'', JStr decision), (''detail'', JStr detail)]"

definition DEFAULT_APPROVAL_TIMEOUT_MS :: int where "DEFAULT_APPROVAL_TIMEOUT_MS = 600000"

definition effective_timeout_ms :: "tool_env \<Rightarrow> int \<Rightarrow> int" where
  "effective_timeout_ms ev timeout_ms =
     (if 0 < timeout_ms then timeout_ms
      else if 0 < approval_default_timeout_ms ev then approval_default_timeout_ms ev else DEFAULT_APPROVAL_TIMEOUT_MS)"

text \<open>What the handler returns once its event is set.\<close>

definition decided_reply :: "string \<Rightarrow> run_state \<Rightarrow> json" where
  "decided_reply tid s =
     (let meta = (case pending_approvals_meta s tid of Some m \<Rightarrow> m | None \<Rightarrow> []);
          decision = py_str (jget meta ''decision'' (JStr []))
      in approval_reply (if decision \<noteq> [] then decision else ''approve'') (py_str (jget meta ''detail'' (JStr []))))"

definition register_waiter :: "string \<Rightarrow> string \<Rightarrow> run_state \<Rightarrow> run_state" where
  "register_waiter tid prompt s =
     (let s = (if pending_approvals s tid = None then s\<lparr>pending_approvals := (pending_approvals s)(tid \<mapsto> False)\<rparr> else s);
          meta = (case pending_approvals_meta s tid of
                    Some m \<Rightarrow> m
                  | None \<Rightarrow> [(''kind'', JStr ''task''), (''prompt'', JStr prompt), (''task_id'', JStr tid)])
      in s\<lparr>pending_approvals_meta := (pending_approvals_meta s)(tid \<mapsto> AList.update ''prompt'' (JStr prompt) meta)\<rparr>)"

definition unavailable_detail :: string where
  "unavailable_detail =
     ''no approval controller is attached to this run; the request cannot be received or answered by a human''"

text \<open>
  The wait is on the session's event: one that is set already lets the handler go on at once, otherwise the call is parked.
\<close>

definition await_decision :: "tool_env \<Rightarrow> string \<Rightarrow> string \<Rightarrow> string \<Rightarrow> int \<Rightarrow> run_state \<Rightarrow> py_error + reply \<times> run_state" where
  "await_decision ev tid source prompt timeout_ms s =
     (if control_channel (obs (seat s)) = None then Inr (Replied (approval_reply ''unavailable'' unavailable_detail), s)
      else
        (let s = register_waiter tid prompt s
         in ebind (mark_task_blocked tid ''awaiting_approval'' prompt source (run_world s)) (\<lambda>w.
            let s = with_world (emit_if_sinks (ApprovalRequested tid ''task'' prompt tid) w) s
            in if pending_approvals s tid = Some True then Inr (Replied (decided_reply tid s), s)
               else Inr (Parked \<lparr>wait_task = tid, wait_timeout_ms = effective_timeout_ms ev timeout_ms\<rparr>, s))))"

definition handle_awaiting_approval :: "tool_env \<Rightarrow> args \<Rightarrow> run_state \<Rightarrow> py_error + reply \<times> run_state" where
  "handle_awaiting_approval ev args s =
     (case validate_required AwaitingApprovalTool args of
        Some err \<Rightarrow> Inr (Replied err, s)
      | None \<Rightarrow>
          (let (tid, source) = resolve_task_id_with_source ev args (sess (run_world s)); prompt = str_arg ev args ''prompt''
           in ebind (int_arg args ''timeout_ms'' 0) (\<lambda>timeout_ms.
              if tid = [] then Inr (Replied (missing_task_id_response AwaitingApprovalTool), s)
              else
                (case find_task (run_world s) tid of
                   Some t \<Rightarrow>
                     if status t \<in> TERMINAL_TASK_STATUSES
                     then Inr (Replied (invalid_transition_response AwaitingApprovalTool (status t) BLOCKED tid), s)
                     else await_decision ev tid source prompt timeout_ms s
                 | None \<Rightarrow> await_decision ev tid source prompt timeout_ms s))))"

text \<open>The event of a parked call is set, or its time is up.\<close>

definition wake_approval :: "approval_wait \<Rightarrow> run_state \<Rightarrow> json option" where
  "wake_approval a s = (if pending_approvals s (wait_task a) = Some True then Some (decided_reply (wait_task a) s) else None)"

definition emit_approval_timeout_drift :: "string \<Rightarrow> int \<Rightarrow> world \<Rightarrow> world" where
  "emit_approval_timeout_drift tid ms w =
     (let (d, w) = new_drift HUMAN_INTERVENTION_REQUIRED WARNING
            (''approval request for task '' @ repr_str tid @ '' received no APPROVE/REJECT within '' @ show_int ms @
             ''ms; task remains BLOCKED pending a decision'') tid w
      in emit_drift_detected (d\<lparr>authored_by := ''goldfive''\<rparr>) [] [] w)"

definition expire_approval :: "approval_wait \<Rightarrow> run_state \<Rightarrow> json \<times> run_state" where
  "expire_approval a s =
     (approval_reply ''timeout'' (''no decision after '' @ show_int (wait_timeout_ms a) @ ''ms''),
      with_world (emit_approval_timeout_drift (wait_task a) (wait_timeout_ms a) (run_world s)) s)"

section \<open>Dispatch\<close>

definition in_world :: "(world \<Rightarrow> py_error + json \<times> world) \<Rightarrow> run_state \<Rightarrow> py_error + reply \<times> run_state" where
  "in_world h s = ebind (h (run_world s)) (\<lambda>(r, w). Inr (Replied r, with_world w s))"

fun handle_tool :: "tool_env \<Rightarrow> tool \<Rightarrow> args \<Rightarrow> run_state \<Rightarrow> py_error + reply \<times> run_state" where
  "handle_tool ev TaskStartedTool args s = in_world (handle_task_started ev args) s"
| "handle_tool ev TaskProgressTool args s = in_world (handle_task_progress ev args) s"
| "handle_tool ev TaskCompletedTool args s = in_world (handle_task_completed ev args) s"
| "handle_tool ev TaskFailedTool args s = in_world (handle_task_failed ev args) s"
| "handle_tool ev TaskBlockedTool args s = in_world (handle_task_blocked ev args) s"
| "handle_tool ev NewWorkTool args s = in_world (\<lambda>w. Inr (handle_new_work_discovered ev args w)) s"
| "handle_tool ev PlanDivergenceTool args s = (let (r, s) = handle_plan_divergence args s in Inr (Replied r, s))"
| "handle_tool ev AwaitingApprovalTool args s = handle_awaiting_approval ev args s"
| "handle_tool ev DeclareSkippedTool args s = in_world (\<lambda>w. Inr (handle_declaration ev ''skipped'' DeclareSkippedTool args w)) s"
| "handle_tool ev DeclareNotNeededTool args s =
     in_world (\<lambda>w. Inr (handle_declaration ev ''not_needed'' DeclareNotNeededTool args w)) s"

definition find_tool :: "tool list \<Rightarrow> string \<Rightarrow> tool option" where
  "find_tool tools name = find (\<lambda>t. tool_name t = name) tools"

definition resolve_state_task_id :: "gstate \<Rightarrow> string" where
  "resolve_state_task_id st =
     (case st KEY_CURRENT_TASK_ID of None \<Rightarrow> [] | Some JNull \<Rightarrow> [] | Some v \<Rightarrow> strip (py_str v))"

definition PLAN_LEVEL_TOOLS :: "string set" where
  "PLAN_LEVEL_TOOLS = {''report_plan_divergence''}"

definition dispatch_missing_task_id :: "string \<Rightarrow> json" where
  "dispatch_missing_task_id name =
     JDict [(''acknowledged'', JBool False), (''error'', JStr ''missing_task_id''), (''tool'', JStr name),
            (''message'', JStr (''Tool '' @ repr_str name @ '' requires a task_id; call it with the id of the task you'' @
               [char_of (39::nat)] @ ''re reporting on.''))]"

definition dispatch_unknown_task_id :: "string \<Rightarrow> string \<Rightarrow> json" where
  "dispatch_unknown_task_id name tid =
     JDict [(''acknowledged'', JBool False), (''error'', JStr ''unknown_task_id''), (''tool'', JStr name), (''task_id'', JStr tid),
            (''message'', JStr (''Task with id '' @ repr_str tid @
               '' does not exist in the current plan. Re-check the current plan via session state and use an id that appears in it.''))]"

definition explicit_task_id :: "tool_env \<Rightarrow> args \<Rightarrow> string" where
  "explicit_task_id ev args =
     (case map_of args ''task_id'' of None \<Rightarrow> [] | Some v \<Rightarrow> if arg_truthy v then strip (arg_text ev v) else [])"

definition invoke_tool :: "tool_env \<Rightarrow> tool list \<Rightarrow> string \<Rightarrow> args \<Rightarrow> run_state \<Rightarrow> py_error + reply \<times> run_state" where
  "invoke_tool ev tools name args s =
     (case find_tool tools name of
        None \<Rightarrow> Inl (KeyError (''unknown reporting tool: '' @ repr_str name))
      | Some u \<Rightarrow>
          (let explicit = explicit_task_id ev args;
               fallback = resolve_state_task_id (state (sess (run_world s)));
               use_pin = (explicit = [] \<and> fallback \<noteq> []);
               tid = (if use_pin then fallback else explicit);
               args = (if use_pin then AList.update ''task_id'' (Arg (JStr fallback)) args else args)
           in if name \<in> PLAN_LEVEL_TOOLS then handle_tool ev u args s
              else if tid = [] then Inr (Replied (dispatch_missing_task_id name), s)
              else case session_plan (sess (run_world s)) of
                     None \<Rightarrow> handle_tool ev u args s
                   | Some p \<Rightarrow>
                       if find (\<lambda>t. task_id t = tid) (tasks p) = None
                       then Inr (Replied (dispatch_unknown_task_id name tid), s)
                       else handle_tool ev u args s))"


section \<open>What a run does to the plan\<close>

lemma emit_if_sinks_frame [simp]:
  "session_plan (sess (emit_if_sinks p w)) = session_plan (sess w)" "cfg (emit_if_sinks p w) = cfg w"
  "state (sess (emit_if_sinks p w)) = state (sess w)"
  by (simp_all add: emit_if_sinks_def emit_new_def next_sequence_def Let_def)

definition quiet :: "world \<Rightarrow> world \<Rightarrow> bool" where
  "quiet w w' \<longleftrightarrow> extends w w' [] \<and> session_plan (sess w') = session_plan (sess w)"

lemma quiet_refl [simp]: "quiet w w"
  by (simp add: quiet_def extends_refl)

lemma quiet_chain: "quiet w w1 \<Longrightarrow> quiet w1 w2 \<Longrightarrow> quiet w w2"
  using extends_trans [of w w1 "[]" w2 "[]"] by (simp add: quiet_def)

lemma quiet_emit: "\<not> is_transition p \<Longrightarrow> quiet w (emit_if_sinks p w)"
  by (auto simp: quiet_def emit_if_sinks_def intro: extends_refl evolve_intros)

lemma quiet_on_sess:
  "next_seq (f (sess w)) = next_seq (sess w) \<Longrightarrow> session_plan (f (sess w)) = session_plan (sess w) \<Longrightarrow>
   last_goal_drift_check_ts (f (sess w)) = last_goal_drift_check_ts (sess w) \<Longrightarrow> quiet w (on_sess f w)"
  by (auto simp: quiet_def on_sess_def pace_def intro!: extends_same)

lemma route_quiet: "quiet w (snd (classify_and_route_pin tid a w))"
  by (auto simp: classify_and_route_pin_def Let_def quiet_emit split: option.split prod.split freshness.split)

lemma gate_quiet: "quiet w (snd (gate u d a c w))"
  using route_quiet [of w "fst c" a]
  by (auto simp: gate_def Let_def split_beta split: route.split option.split verdict.split)

lemma rotate_quiet: "rotate_found t w = Inr w' \<Longrightarrow> quiet w w'"
  by (auto simp: rotate_found_def rotate_after_terminal_def Let_def ebind_Inr_iff quiet_on_sess split: option.splits if_splits)

lemma clear_started_quiet: "quiet w (clear_correction_on_started t w)"
  by (simp add: clear_correction_on_started_def quiet_on_sess Let_def split: option.split)

text \<open>A report that passes the gate is about the task that the gate found, in a status the tool may leave.\<close>

lemma gate_passed:
  assumes "gate u d a c w = (Passed i source t, w1)"
  shows "find_task w1 i = t" "\<And>x. t = Some x \<Longrightarrow> d (status x) = Transition"
  using assms by (auto simp: gate_def Let_def split: prod.splits route.splits option.splits verdict.splits if_splits)

definition report_change :: "tool \<Rightarrow> world \<Rightarrow> change list \<Rightarrow> bool" where
  "report_change u w cs \<longleftrightarrow> cs = [] \<or>
     (\<exists>p t S s is. session_plan (sess w) = Some p \<and> plan_find p (task_id t) = Some t \<and>
        valid_sources u = Some S \<and> status t \<in> S \<and> target_status u = Some s \<and>
        cs = (task_id t, status t, s) # cancelled_changes p is \<and>
        (if u = TaskFailedTool then set is \<subseteq> {j. doomed p (task_id t) j \<and> j \<noteq> task_id t} else is = []))"

definition reports :: "tool \<Rightarrow> world \<Rightarrow> world \<Rightarrow> bool" where
  "reports u w w' \<longleftrightarrow> (\<exists>cs. evolves w w' cs \<and> report_change u w cs)"

lemma reports_quiet: "quiet w w' \<Longrightarrow> reports u w w'"
  using evolves_quiet [OF evolves_refl] by (auto simp: reports_def quiet_def report_change_def intro!: exI [of _ "[]"])

lemma reports_then: "reports u w w1 \<Longrightarrow> quiet w1 w2 \<Longrightarrow> reports u w w2"
  using evolves_quiet by (fastforce simp: reports_def quiet_def)

lemma reports_after:
  assumes "quiet w w1" "reports u w1 w2"
  shows "reports u w w2"
proof -
  from assms(2) obtain cs where cs: "evolves w1 w2 cs" "report_change u w1 cs" by (auto simp: reports_def)
  have "evolves w w1 []" using assms(1) evolves_quiet [OF evolves_refl] by (simp add: quiet_def)
  moreover have "report_change u w cs" using cs(2) assms(1) by (simp add: report_change_def quiet_def)
  ultimately show ?thesis using evolves_trans [of w w1 "[]" w2 cs] cs(1) by (auto simp: reports_def)
qed

definition movable :: "tool \<Rightarrow> string \<Rightarrow> world \<Rightarrow> bool" where
  "movable u i w \<longleftrightarrow>
     (\<forall>t. find_task w i = Some t \<longrightarrow> status t \<in> TERMINAL_TASK_STATUSES \<or> (\<exists>S. valid_sources u = Some S \<and> status t \<in> S))"

lemma gate_movable: "gate u (classify_transition u) a c w = (Passed i source t, w1) \<Longrightarrow> movable u i w1"
  using gate_passed [of u "classify_transition u" a c w i source t w1]
  by (auto simp: movable_def classify_transition_def split: option.splits if_splits)

lemma moved:
  assumes "movable u i w" "target_status u = Some s" "evolves w w' (change_of w i s)"
  shows "reports u w w'"
proof (cases rule: change_ofE [of w i s])
  case noop
  with assms(3) show ?thesis by (auto simp: reports_def report_change_def)
next
  case (move t p q)
  from move(3) have p: "session_plan (sess w) = Some p" "plan_find p i = Some t" "task_id t = i"
    using head_id by (auto simp: head_ok_def)
  from assms(1) move obtain S where "valid_sources u = Some S" "status t \<in> S" by (auto simp: movable_def)
  with assms(2) p have "report_change u w [(i, status t, s)]" unfolding report_change_def
    by (intro disjI2 exI [of _ p] exI [of _ t] exI [of _ S] exI [of _ s] exI [of _ "[]"]) (auto simp: cancelled_changes_def)
  with assms(3) move(4) show ?thesis by (auto simp: reports_def)
qed

lemma failed_reports:
  assumes "movable TaskFailedTool i w" "plan_ids_ok w" "mark_task_failed i reason rec source disp w = Inr w'"
  shows "reports TaskFailedTool w w'"
proof (cases rule: change_ofE [of w i FAILED])
  case noop
  with assms(3) have "w' = w" by (auto simp: mark_task_failed_def)
  then show ?thesis by (simp add: reports_quiet)
next
  case (move t p q)
  from move(3) have p: "session_plan (sess w) = Some p" "plan_find p i = Some t" "task_id t = i"
    using head_id by (auto simp: head_ok_def)
  from assms(1) move have S: "status t \<in> {PENDING, RUNNING, BLOCKED}" by (auto simp: movable_def)
  from mark_task_failed_evolves [OF move(1,3) assms(2), of reason rec source disp] assms(3) obtain xs where
    "evolves w w' ((i, status t, FAILED) # cancelled_changes p xs)" "set xs = {j. \<not> rec \<and> doomed p i j \<and> j \<noteq> i}" by auto
  with p S show ?thesis unfolding reports_def report_change_def
    by (intro exI [of _ "(i, status t, FAILED) # cancelled_changes p xs"] conjI disjI2 exI [of _ p] exI [of _ t] exI [of _ xs]) auto
qed

lemma history_evolves:
  assumes "plan_held w" "evolves w w' cs"
  shows "history_step w w'"
proof (cases "session_plan (sess w)")
  case None
  then show ?thesis using assms(2) by (simp add: evolves_def history_step_def plan_held_def)
next
  case (Some p)
  with assms(2) obtain q where q: "session_plan (sess w') = Some q" "lifecycle_step p q"
    using apply_changes_step by (auto simp: evolves_def)
  then show ?thesis using lifecycle_keeps [of p q] assms(1) Some by (auto simp: history_step_def plan_held_def)
qed

lemma history_steps: "plan_held w \<Longrightarrow> steps_to w (Inr w') \<Longrightarrow> history_step w w'"
  using history_evolves by (auto simp: steps_to_def)

lemma held_ids: "plan_held w \<Longrightarrow> plan_ids_ok w"
  by (simp add: plan_held_def plan_ids_ok_def ids_ok_def)

lemma history_then: "history_step w w1 \<Longrightarrow> session_plan (sess w2) = session_plan (sess w1) \<Longrightarrow> history_step w w2"
  by (simp add: history_step_def plan_held_def)

lemma history_behind: "session_plan (sess w1) = session_plan (sess w) \<Longrightarrow> history_step w1 w2 \<Longrightarrow> history_step w w2"
  by (simp add: history_step_def)

lemma held_after: "session_plan (sess w1) = session_plan (sess w) \<Longrightarrow> plan_held w \<Longrightarrow> plan_held w1"
  by (simp add: plan_held_def)

fun refused :: "json \<Rightarrow> bool" where
  "refused (JDict ((k, JBool False) # d)) \<longleftrightarrow> k = ''acknowledged''"
| "refused _ \<longleftrightarrow> False"

lemma not_refused [simp]: "\<not> refused (directive_ack i s w)" "\<not> refused ACK" "\<not> refused (approval_reply d x)"
  by (simp_all add: directive_ack_def ACK_def approval_reply_def)

lemma refusals [simp]:
  "refused (missing_required_field_response u f x)" "refused (missing_task_id_response u)"
  "refused (invalid_transition_response u st st' i)"
  by (simp_all add: missing_required_field_response_def missing_task_id_response_def invalid_transition_response_def)

lemma validate_refused: "validate_required u args = Some j \<Longrightarrow> refused j"
proof -
  have "validate_fields u as fs = Some j \<Longrightarrow> refused j" for as fs
    by (induction u as fs rule: validate_fields.induct) (auto split: option.splits arg.splits json.splits if_splits)
  then show "validate_required u args = Some j \<Longrightarrow> refused j" by (simp add: validate_required_def)
qed

definition answered :: "tool \<Rightarrow> json \<Rightarrow> world \<Rightarrow> world \<Rightarrow> bool" where
  "answered u r w w' \<longleftrightarrow> reports u w w' \<and> (refused r \<longrightarrow> quiet w w')"

lemma answered_quiet: "quiet w w' \<Longrightarrow> answered u r w w'"
  by (simp add: answered_def reports_quiet)

lemma answered_after: "quiet w w1 \<Longrightarrow> answered u r w1 w2 \<Longrightarrow> answered u r w w2"
  by (auto simp: answered_def intro: reports_after quiet_chain)

lemma gated_answer:
  assumes "(let (g, w1) = gate u d a c w in case g of Stopped reply \<Rightarrow> Inr (reply, w1) | Passed i source t \<Rightarrow> body i source t w1) = Inr (r, w')"
    and "\<And>i source t w1. gate u d a c w = (Passed i source t, w1) \<Longrightarrow> body i source t w1 = Inr (r, w') \<Longrightarrow> answered u r w1 w'"
  shows "answered u r w w'"
proof -
  obtain g w1 where g: "gate u d a c w = (g, w1)" by (cases "gate u d a c w")
  have quiet: "quiet w w1" using gate_quiet [of w u d a c] by (simp add: g)
  show ?thesis
  proof (cases g)
    case Stopped
    with assms(1) g quiet show ?thesis by (auto intro: answered_quiet)
  next
    case (Passed i source t)
    with assms g show ?thesis by (auto intro: answered_after [OF quiet])
  qed
qed

lemma gated_ids: "gate u d a c w = (g, w1) \<Longrightarrow> plan_ids_ok w \<Longrightarrow> plan_ids_ok w1"
  using gate_quiet [of w u d a c] plan_ids_ok_cong by (auto simp: quiet_def)

lemma driven:
  assumes "gate u (classify_transition u) a c w = (Passed i source t, w1)" "target_status u = Some s"
    "\<exists>w2. m = Inr w2 \<and> evolves w1 w2 (change_of w1 i s)"
    "ebind m f = Inr (r, w')" "\<And>w2. f w2 = Inr (r, w') \<Longrightarrow> \<not> refused r \<and> quiet w2 w'"
  shows "answered u r w1 w'"
proof -
  from assms(3) obtain w2 where w2: "m = Inr w2" "evolves w1 w2 (change_of w1 i s)" by blast
  with assms(4,5) have after: "\<not> refused r" "quiet w2 w'" by auto
  from reports_then [OF moved [OF gate_movable [OF assms(1)] assms(2) w2(2)] after(2)] after(1)
  show ?thesis by (simp add: answered_def)
qed

lemma validated_answer:
  "(case validate_required u args of Some err \<Rightarrow> Inr (err, w) | None \<Rightarrow> h) = Inr (r, w') \<Longrightarrow>
   (h = Inr (r, w') \<Longrightarrow> answered v r w w') \<Longrightarrow> answered v r w w'"
  by (auto intro: answered_quiet split: option.splits)

lemma started_answer: "handle_task_started ev args w = Inr (r, w') \<Longrightarrow> answered TaskStartedTool r w w'"
  unfolding handle_task_started_def
  by (elim gated_answer driven, simp, rule mark_task_running_evolves, assumption) (auto simp: Let_def clear_started_quiet)

lemma completed_answer: "handle_task_completed ev args w = Inr (r, w') \<Longrightarrow> answered TaskCompletedTool r w w'"
  unfolding handle_task_completed_def
  by (elim validated_answer gated_answer driven, simp, rule mark_task_completed_evolves, assumption)
    (auto simp: ebind_Inr_iff rotate_quiet)

lemma blocked_answer: "handle_task_blocked ev args w = Inr (r, w') \<Longrightarrow> answered TaskBlockedTool r w w'"
  unfolding handle_task_blocked_def
  by (elim validated_answer gated_answer driven, simp, rule mark_task_blocked_evolves, assumption) auto

lemma failed_answer:
  assumes "plan_ids_ok w" shows "handle_task_failed ev args w = Inr (r, w') \<Longrightarrow> answered TaskFailedTool r w w'"
  unfolding handle_task_failed_def
proof (elim validated_answer gated_answer)
  fix i source t w1
  assume g: "gate TaskFailedTool (classify_transition TaskFailedTool) FAILED (resolve_task_id_with_source ev args (sess w)) w =
      (Passed i source t, w1)"
    and b: "ebind (mark_task_failed i (str_arg ev args ''reason'') (bool_arg args ''recoverable'' True) source True w1)
      (\<lambda>w. ebind (rotate_found t w) (\<lambda>w. Inr (directive_ack i FAILED w, w))) = Inr (r, w')"
  from b obtain w2 where w2: "mark_task_failed i (str_arg ev args ''reason'') (bool_arg args ''recoverable'' True) source True w1 = Inr w2"
    "quiet w2 w'" "\<not> refused r" by (auto simp: ebind_Inr_iff rotate_quiet)
  from reports_then [OF failed_reports [OF gate_movable [OF g] gated_ids [OF g assms] w2(1)] w2(2)] w2(3)
  show "answered TaskFailedTool r w1 w'" by (simp add: answered_def)
qed

lemma progress_answer: "handle_task_progress ev args w = Inr (r, w') \<Longrightarrow> answered TaskProgressTool r w w'"
  unfolding handle_task_progress_def ebind_Inr_iff
proof (elim exE conjE gated_answer)
  fix f i source t w1
  assume b: "ebind (mark_task_progress i f (str_arg ev args ''detail'') w1) (\<lambda>w. Inr (directive_ack i RUNNING w, w)) = Inr (r, w')"
  from mark_task_progress_evolves [of i f "str_arg ev args ''detail''" w1] b
  show "answered TaskProgressTool r w1 w'" by (auto simp: answered_def reports_def report_change_def)
qed

lemma declaration_answer: "handle_declaration ev k u args w = (r, w') \<Longrightarrow> answered u r w w'"
  by (intro answered_quiet)
    (auto simp: handle_declaration_def record_declaration_def Let_def quiet_emit on_sess_def [symmetric]
      intro!: quiet_on_sess quiet_chain [OF quiet_on_sess quiet_emit] split: option.splits prod.splits if_splits)

lemma register_waiter_simps [simp]:
  "run_world (register_waiter tid prompt s) = run_world s" "seat (register_waiter tid prompt s) = seat s"
  by (simp_all add: register_waiter_def Let_def)

fun reply_refused :: "reply \<Rightarrow> bool" where
  "reply_refused (Replied j) = refused j"
| "reply_refused (Parked a) = False"

definition settled :: "tool \<Rightarrow> reply \<Rightarrow> run_state \<Rightarrow> run_state \<Rightarrow> bool" where
  "settled u r s s' \<longleftrightarrow> reports u (run_world s) (run_world s') \<and> (reply_refused r \<longrightarrow> quiet (run_world s) (run_world s'))"

lemma settled_same: "run_world s' = run_world s \<Longrightarrow> settled u r s s'"
  by (simp add: settled_def reports_quiet)

lemma awaited:
  assumes "await_decision ev tid source prompt ms s = Inr (r, s')" "movable AwaitingApprovalTool tid (run_world s)"
  shows "settled AwaitingApprovalTool r s s'"
proof (cases "control_channel (obs (seat s)) = None")
  case True
  with assms(1) show ?thesis by (auto simp: await_decision_def settled_same)
next
  case False
  obtain w where w: "mark_task_blocked tid ''awaiting_approval'' prompt source (run_world s) = Inr w"
    "evolves (run_world s) w (change_of (run_world s) tid BLOCKED)" using mark_task_blocked_evolves by blast
  have "reports AwaitingApprovalTool (run_world s) w" using moved [OF assms(2) _ w(2)] by simp
  from reports_then [OF this quiet_emit, of "ApprovalRequested tid ''task'' prompt tid"] False assms(1) w(1) show ?thesis
    by (auto simp: await_decision_def settled_def decided_reply_def Let_def split: if_splits)
qed

lemma live_movable: "find_task w i = None \<or> (\<exists>t. find_task w i = Some t \<and> status t \<notin> TERMINAL_TASK_STATUSES) \<Longrightarrow> movable AwaitingApprovalTool i w"
  by (auto simp: movable_def TERMINAL_TASK_STATUSES_def) (metis TaskStatus.exhaust)

lemma awaiting_settled:
  assumes "handle_awaiting_approval ev args s = Inr (r, s')"
  shows "settled AwaitingApprovalTool r s s'"
proof (cases "validate_required AwaitingApprovalTool args")
  case None
  obtain i source where i: "resolve_task_id_with_source ev args (sess (run_world s)) = (i, source)" by fastforce
  let ?prompt = "str_arg ev args ''prompt''"
  from assms None i obtain ms where ms:
    "(if i = [] then Inr (Replied (missing_task_id_response AwaitingApprovalTool), s)
      else case find_task (run_world s) i of
        None \<Rightarrow> await_decision ev i source ?prompt ms s
      | Some t \<Rightarrow> if status t \<in> TERMINAL_TASK_STATUSES
          then Inr (Replied (invalid_transition_response AwaitingApprovalTool (status t) BLOCKED i), s)
          else await_decision ev i source ?prompt ms s) = Inr (r, s')"
    by (auto simp: handle_awaiting_approval_def ebind_Inr_iff Let_def cong: option.case_cong if_cong)
  show ?thesis
  proof (cases "s' = s")
    case True
    then show ?thesis by (simp add: settled_same)
  next
    case False
    with ms have "await_decision ev i source ?prompt ms s = Inr (r, s')"
      "find_task (run_world s) i = None \<or> (\<exists>t. find_task (run_world s) i = Some t \<and> status t \<notin> TERMINAL_TASK_STATUSES)"
      by (auto split: option.splits if_splits)
    then show ?thesis by (rule awaited [OF _ live_movable])
  qed
qed (use assms in \<open>auto simp: handle_awaiting_approval_def settled_same\<close>)

lemma in_world_settled:
  "in_world h s = Inr (r, s') \<Longrightarrow> (\<And>j w. h (run_world s) = Inr (j, w) \<Longrightarrow> answered u j (run_world s) w) \<Longrightarrow> settled u r s s'"
  by (auto simp: in_world_def ebind_Inr_iff settled_def answered_def)

lemma divergence_settled: "handle_plan_divergence args s = (j, s') \<Longrightarrow> settled PlanDivergenceTool r s s'"
  by (auto simp: handle_plan_divergence_def split: option.splits intro!: settled_same)

lemma tool_settled:
  assumes "plan_ids_ok (run_world s)" "handle_tool ev u args s = Inr (r, s')" "u \<noteq> NewWorkTool"
  shows "settled u r s s'"
  using assms
  by (cases u) (auto intro: in_world_settled started_answer progress_answer completed_answer failed_answer blocked_answer
      declaration_answer awaiting_settled divergence_settled split: prod.splits)

lemma tool_names_distinct: "tool_name u = tool_name v \<longleftrightarrow> u = v"
  by (cases u; cases v) simp_all

lemma find_tool_name: "find_tool tools name = Some u \<Longrightarrow> tool_name u = name"
  by (auto simp: find_tool_def find_Some_iff)

text \<open>The dispatcher answers a call itself or passes it on, with the pinned task filled in.\<close>

lemma invoke_cases:
  assumes "invoke_tool ev tools name args s = Inr (r, s')"
  obtains (answered_here) j where "r = Replied j" "refused j" "s' = s"
  | (handled) u args' where "find_tool tools name = Some u" "handle_tool ev u args' s = Inr (r, s')"
  using assms
  by (auto simp: invoke_tool_def Let_def dispatch_missing_task_id_def dispatch_unknown_task_id_def
      split: option.splits if_splits)

section \<open>Runs\<close>

text \<open>
  What happens between two looks of the run loop: an agent calls a tool, an operator's message is dispatched, a wait runs
  out, a drift handler starts or gets its planner's answer.
\<close>

datatype run_event = Invoked string args | Ordered ControlMessage | TimedOut approval_wait | AtDesk desk_op

fun run_do :: "tool_env \<Rightarrow> tool list \<Rightarrow> (string list \<Rightarrow> string list) \<Rightarrow> run_event \<Rightarrow> run_state \<Rightarrow> run_state" where
  "run_do ev tools shuffle (Invoked name args) s = (case invoke_tool ev tools name args s of Inl _ \<Rightarrow> s | Inr (_, s') \<Rightarrow> s')"
| "run_do ev tools shuffle (Ordered m) s = (case dispatch_control shuffle m s of Inl _ \<Rightarrow> s | Inr (_, s') \<Rightarrow> s')"
| "run_do ev tools shuffle (TimedOut a) s = snd (expire_approval a s)"
| "run_do ev tools shuffle (AtDesk x) s = s\<lparr>seat := desk_do x (seat s)\<rparr>"

text \<open>A rewind is the one message that takes terminal tasks back.\<close>

fun forward :: "run_event \<Rightarrow> bool" where
  "forward (Ordered m) \<longleftrightarrow> msg_kind m \<noteq> CK_REWIND_TO"
| "forward (AtDesk x) \<longleftrightarrow> desk_op_ok x"
| "forward _ \<longleftrightarrow> True"

lemma tool_seat:
  assumes "handle_tool ev u args s = Inr (r, s')"
  shows "seated (seat s') = seated (seat s)"
  using assms
  by (cases u) (auto simp: in_world_def ebind_Inr_iff handle_plan_divergence_def handle_awaiting_approval_def await_decision_def Let_def
      split: option.splits prod.splits if_splits)

lemma tool_history:
  assumes "plan_held (run_world s)" "handle_tool ev u args s = Inr (r, s')"
  shows "history_step (run_world s) (run_world s')"
proof (cases "u = NewWorkTool")
  case True
  have "history_step w (report_new_work_discovered a b c d e w)" if "plan_held w" for a b c d e w
    using installs.step_keeps [where x = "Discover a b c d e" and s = w] that by simp
  with True assms show ?thesis
    by (auto simp: in_world_def handle_new_work_discovered_def Let_def split: option.splits intro: history_same)
next
  case False
  from tool_settled [OF held_ids [OF assms(1)] assms(2) False] assms(1) show ?thesis
    by (auto simp: settled_def reports_def intro: history_evolves)
qed

lemma control_quiet:
  assumes "dispatch_control shuffle m s = Inr (oc, s')" "msg_kind m \<noteq> CK_REWIND_TO"
  shows "session_plan (sess (run_world s')) = session_plan (sess (run_world s))" "seated (seat s') = seated (seat s)"
  using assms
  by (cases "msg_kind m"; simp add: dispatch_control_def dispatch_cancel_def dispatch_intercept_def dispatch_decision_def
      resolve_approval_def build_ack_def Let_def split: option.splits if_splits prod.splits; auto)+

lemma expired_plan [simp]: "session_plan (sess (run_world (snd (expire_approval a s)))) = session_plan (sess (run_world s))"
  "seated (seat (snd (expire_approval a s))) = seated (seat s)"
  by (simp_all add: expire_approval_def emit_approval_timeout_drift_def new_drift_def Let_def frame_simps)

lemma invoked_history:
  assumes "plan_held (run_world s)" "invoke_tool ev tools name args s = Inr (r, s')"
  shows "history_step (run_world s) (run_world s')" "seated (seat s') = seated (seat s)"
proof -
  from assms(2) have "history_step (run_world s) (run_world s') \<and> seated (seat s') = seated (seat s)"
  proof (cases rule: invoke_cases)
    case (handled u args')
    from tool_history [OF assms(1) handled(2)] tool_seat [OF handled(2)] show ?thesis by blast
  qed (use assms(1) in \<open>simp add: history_same\<close>)
  then show "history_step (run_world s) (run_world s')" "seated (seat s') = seated (seat s)" by simp_all
qed

interpretation runs: plan_history "run_do ev tools shuffle" run_world forward "\<lambda>s. seated (seat s)" for ev tools shuffle
proof
  fix x s
  assume x: "forward x" "seated (seat s)" "plan_held (run_world s)"
  have "history_step (run_world s) (run_world (run_do ev tools shuffle x s)) \<and> seated (seat (run_do ev tools shuffle x s))"
  proof (cases x)
    case (Invoked name args)
    with x show ?thesis using invoked_history [of s ev tools name args] by (auto simp: history_same split: sum.split)
  next
    case (Ordered m)
    with x show ?thesis using control_quiet [of shuffle m s] by (auto simp: history_same split: sum.split)
  next
    case (AtDesk y)
    with x show ?thesis using handlers.step_keeps [of y "seat s"] handlers.step_good [of y "seat s"] by simp
  qed (use x in \<open>simp add: history_same\<close>)
  then show "history_step (run_world s) (run_world (run_do ev tools shuffle x s))" "seated (seat (run_do ev tools shuffle x s))"
    by simp_all
qed

section \<open>Decisions\<close>

fun decides :: "string \<Rightarrow> run_event \<Rightarrow> bool" where
  "decides i (Ordered m) \<longleftrightarrow> (msg_kind m = CK_APPROVE \<or> msg_kind m = CK_REJECT) \<and> payload_str m ''target_id'' = i"
| "decides i _ \<longleftrightarrow> False"

text \<open>What the handler of a waiting call reads is only written by a decision on its task.\<close>

definition verdict_on :: "string \<Rightarrow> run_state \<Rightarrow> bool option \<times> json" where
  "verdict_on i s = (pending_approvals s i, decided_reply i s)"

lemma verdict_cong:
  "pending_approvals s' = pending_approvals s \<Longrightarrow> pending_approvals_meta s' = pending_approvals_meta s \<Longrightarrow> verdict_on i s' = verdict_on i s"
  by (simp add: verdict_on_def decided_reply_def)

lemma decided_reply_world [simp]: "decided_reply i (with_world w s) = decided_reply i s"
  by (simp add: decided_reply_def)

lemma verdict_register: "pending_approvals s i = Some b \<Longrightarrow> verdict_on i (register_waiter j prompt s) = verdict_on i s"
  by (auto simp: verdict_on_def decided_reply_def register_waiter_def Let_def jget_def update_conv' split: option.split)

lemma verdict_tool:
  assumes "handle_tool ev u args s = Inr (r, s')" "pending_approvals s i = Some b"
  shows "verdict_on i s' = verdict_on i s"
  using assms verdict_register [OF assms(2)]
  by (cases u) (auto simp: in_world_def ebind_Inr_iff handle_plan_divergence_def handle_awaiting_approval_def await_decision_def Let_def
      verdict_cong [of "with_world w s" s for w s]
      split: option.splits prod.splits if_splits intro: verdict_cong)

lemma verdict_control:
  assumes "dispatch_control shuffle m s = Inr (oc, s')" "\<not> decides i (Ordered m)"
  shows "verdict_on i s' = verdict_on i s"
proof -
  have "pending_approvals s' i = pending_approvals s i \<and> pending_approvals_meta s' i = pending_approvals_meta s i"
    using assms
    by (cases "msg_kind m"; simp add: dispatch_control_def dispatch_cancel_def dispatch_intercept_def dispatch_decision_def dispatch_rewind_def
        resolve_approval_def build_ack_def Let_def ebind_Inr_iff split: option.splits if_splits prod.splits; auto)
  then show ?thesis by (simp add: verdict_on_def decided_reply_def)
qed

lemma verdict_run:
  assumes "\<not> decides i e" "pending_approvals s i = Some b"
  shows "verdict_on i (run_do ev tools shuffle e s) = verdict_on i s"
proof (cases e)
  case (Invoked name args)
  have "verdict_on i s' = verdict_on i s" if "invoke_tool ev tools name args s = Inr (r, s')" for r s'
    using that by (cases rule: invoke_cases) (use verdict_tool assms(2) in \<open>auto\<close>)
  with Invoked show ?thesis by (auto split: sum.split)
next
  case (Ordered m)
  with assms(1) show ?thesis using verdict_control [of shuffle m s] by (auto split: sum.split)
next
  case (TimedOut a)
  then show ?thesis by (auto simp: expire_approval_def intro: verdict_cong)
next
  case (AtDesk x)
  then show ?thesis by (auto intro: verdict_cong)
qed

lemma verdict_runs:
  "list_all (\<lambda>e. \<not> decides i e) es \<Longrightarrow> pending_approvals s i = Some b \<Longrightarrow> verdict_on i (fold (run_do ev tools shuffle) es s) = verdict_on i s"
proof (induction es arbitrary: s)
  case (Cons e es)
  from Cons.prems verdict_run [of i e s b ev tools shuffle] have one: "verdict_on i (run_do ev tools shuffle e s) = verdict_on i s" by simp
  with Cons.prems(2) have "pending_approvals (run_do ev tools shuffle e s) i = Some b" by (simp add: verdict_on_def)
  with Cons one show ?case by simp
qed simp

lemma awaited_parks:
  assumes "await_decision ev tid source prompt ms s = Inr (Parked a, s')"
  shows "wait_task a = tid" "pending_approvals s' tid = Some False"
  using assms
  by (auto simp: await_decision_def Let_def ebind_Inr_iff register_waiter_def split: if_splits)

lemma parked:
  assumes "handle_tool ev AwaitingApprovalTool args s = Inr (Parked a, s')"
  shows "wait_task a \<noteq> []" "pending_approvals s' (wait_task a) = Some False"
  using assms awaited_parks
  by (auto simp: handle_awaiting_approval_def Let_def ebind_Inr_iff split: option.splits prod.splits if_splits)

lemma awaited_decided:
  assumes "await_decision ev tid source prompt ms s = Inr (r, s')" "pending_approvals s tid = Some True"
    "control_channel (obs (seat s)) \<noteq> None"
  shows "r = Replied (decided_reply tid s)"
  using assms verdict_register [OF assms(2), of tid prompt]
  by (auto simp: await_decision_def Let_def ebind_Inr_iff verdict_on_def decided_reply_def split: if_splits)

definition decision_msg :: "ControlMessage \<Rightarrow> string \<Rightarrow> bool \<Rightarrow> bool" where
  "decision_msg m i yes \<longleftrightarrow> msg_kind m = (if yes then CK_APPROVE else CK_REJECT) \<and> payload_str m ''target_id'' = i"

definition decision_word :: "bool \<Rightarrow> string" where
  "decision_word yes = (if yes then ''approve'' else ''reject'')"

lemma decided:
  assumes "decision_msg m i yes" "i \<noteq> []" "pending_approvals s i = Some b"
  shows "\<exists>oc s'. dispatch_control shuffle m s = Inr (oc, s') \<and> ack_result (oc_ack oc) = ACK_SUCCESS \<and>
    session_plan (sess (run_world s')) = session_plan (sess (run_world s)) \<and> control_channel (obs (seat s')) = control_channel (obs (seat s)) \<and>
    verdict_on i s' = (Some True, approval_reply (decision_word yes) (payload_str m ''detail''))"
  using assms
  by (cases yes) (simp_all add: decision_msg_def decision_word_def dispatch_control_def dispatch_decision_def resolve_approval_def
      verdict_on_def decided_reply_def build_ack_def mk_outcome_def jget_def update_conv' Let_def split: option.split)

section \<open>Samples\<close>

definition sample_env :: tool_env where
  "sample_env = \<lparr>parse_float = (\<lambda>_. None), float_repr = (\<lambda>_. ''0.0''), approval_default_timeout_ms = 0\<rparr>"

definition ask :: "string \<Rightarrow> args" where
  "ask i = [(''task_id'', Arg (JStr i)), (''prompt'', Arg (JStr ''ship?''))]"

lemma asked:
  assumes "strip i = i" "i \<noteq> []" "control_channel (obs (seat s)) \<noteq> None" "find_task (run_world s) i = Some t"
    "status t \<notin> TERMINAL_TASK_STATUSES"
  shows "\<exists>s'. handle_tool ev AwaitingApprovalTool (ask i) s = Inr
     (if pending_approvals s i = Some True then Replied (decided_reply i s)
      else Parked \<lparr>wait_task = i, wait_timeout_ms = effective_timeout_ms ev 0\<rparr>, s') \<and>
    find_task (run_world s') i = Some (t\<lparr>status := BLOCKED\<rparr>) \<and> control_channel (obs (seat s')) = control_channel (obs (seat s))"
proof -
  obtain w where w: "mark_task_blocked i ''awaiting_approval'' ''ship?'' ''llm_report'' (run_world s) = Inr w"
    "evolves (run_world s) w (change_of (run_world s) i BLOCKED)" using mark_task_blocked_evolves by blast
  have strip: "strip ''ship?'' \<noteq> []" by code_simp
  from assms(4,5) obtain p q where h: "head_ok (run_world s) i t BLOCKED p q" by (rule find_task_head)
  have "session_plan (sess w) = Some q"
    using w(2) h assms(4,5) by (simp add: evolves_def change_of_def head_ok_def)
  with h have "find_task w i = Some (t\<lparr>status := BLOCKED\<rparr>)"
    using with_task_status_find [of p i BLOCKED q i] by (simp add: head_ok_def find_task_def)
  then show ?thesis
    using assms w(1) strip verdict_register [of s i True i "''ship?''"]
    by (auto simp: handle_awaiting_approval_def validate_required_def ask_def resolve_task_id_with_source_def str_arg_def int_arg_def
        await_decision_def find_task_def verdict_on_def register_waiter_def Let_def)
qed

definition approve_a :: ControlMessage where
  "approve_a = operator_msg CK_APPROVE [(''target_id'', JStr ''a''), (''detail'', JStr ''go'')]"

lemma approve_a_ok: "decision_msg approve_a ''a'' True" "payload_str approve_a ''detail'' = ''go''"
  by (simp_all add: approve_a_def decision_msg_def payload_str_def jget_def)

lemma asked_sample:
  obtains s1 where "handle_tool sample_env AwaitingApprovalTool (ask ''a'') (idle_run sample_world) =
      Inr (Parked \<lparr>wait_task = ''a'', wait_timeout_ms = 600000\<rparr>, s1)"
    "find_task (run_world s1) ''a'' = Some ((mk_task ''a'' ''A'')\<lparr>status := BLOCKED\<rparr>)" "control_channel (obs (seat s1)) = Some channel_init"
proof -
  have "find_task sample_world ''a'' = Some (mk_task ''a'' ''A'')" using sample_find by (simp add: find_task_def sample_ok)
  moreover have "strip ''a'' = ''a''" by code_simp
  ultimately show ?thesis
    using asked [of "''a''" "idle_run sample_world" "mk_task ''a'' ''A''" sample_env] that
    by (auto simp: mk_task_def TERMINAL_TASK_STATUSES_def effective_timeout_ms_def sample_env_def DEFAULT_APPROVAL_TIMEOUT_MS_def)
qed

section \<open>Deviations\<close>

text \<open>
  The hand-off in an acknowledgement says \<open>predecessors_completed\<close> of a task whose predecessors are merely over. Behind a
  failed one that nothing replaces the task is not ready and never will be.
\<close>

lemma hand_off_behind_failure:
  assumes "next_pending p = Some t" "dead_end p u (task_id t)" "distinct (map task_id (tasks p))"
  shows "\<not> task_upstream_ready p (task_id t)"
    "\<exists>c. build_plan_state (Some p) = JDict [c, (''next_pending'', JDict [(''id'', JStr (task_id t)), (''title'', JStr (title t)),
       (''assigned_to'', JStr (bare_agent_name (assignee_agent_id t))), (''predecessors_completed'', JBool True)])]"
  using dead_end_never_ready [OF assms(2,3)] assms(1) by (simp_all add: build_plan_state_def)

lemma hand_off_sample:
  "map_option task_id (next_pending ((plan_empty ''p'' ''r'')\<lparr>tasks := [(mk_task ''a'' ''A'')\<lparr>status := FAILED\<rparr>, mk_task ''b'' ''B''],
     edges := [mk_edge ''a'' ''b'']\<rparr>)) = Some ''b''"
  "dead_end ((plan_empty ''p'' ''r'')\<lparr>tasks := [(mk_task ''a'' ''A'')\<lparr>status := FAILED\<rparr>, mk_task ''b'' ''B''],
     edges := [mk_edge ''a'' ''b'']\<rparr>) ''a'' ''b''"
  by (simp_all add: next_pending_def by_any_id_def dict_of_def mk_task_def mk_edge_def plan_empty_def TERMINAL_TASK_STATUSES_def
      dead_end_def plan_find_def Let_def)

text \<open>The discovery of new work takes no task id, but the dispatcher refuses it when nothing is pinned.\<close>

lemma new_work_needs_pin:
  assumes "resolve_state_task_id (state (sess (run_world s))) = []" "map_of args ''task_id'' = None"
  shows "invoke_tool ev BUILTIN_REPORTING_TOOLS ''report_new_work_discovered'' args s =
    Inr (Replied (dispatch_missing_task_id ''report_new_work_discovered''), s)"
  using assms
  by (simp add: invoke_tool_def find_tool_def BUILTIN_REPORTING_TOOLS_def explicit_task_id_def PLAN_LEVEL_TOOLS_def Let_def)

text \<open>The dispatcher writes the pin into the arguments, so the handler takes a default for the model's own report.\<close>

lemma pin_reads_as_report:
  assumes "explicit_task_id ev args = []" "resolve_state_task_id (state (sess (run_world s))) = i" "i \<noteq> []" "strip i = i"
  shows "snd (resolve_task_id_with_source ev (AList.update ''task_id'' (Arg (JStr i)) args) (sess (run_world s))) = ''llm_report''"
  using assms by (simp add: resolve_task_id_with_source_def str_arg_def update_conv')

section \<open>Properties\<close>

text \<open>The lifecycle, tool by tool: the statuses a report may find and the one it leads to. Progress stays in \<open>RUNNING\<close>.\<close>

definition lifecycle_moves :: "(string \<times> TaskStatus \<times> TaskStatus) set" where
  "lifecycle_moves =
     {(''report_task_started'', PENDING, RUNNING), (''report_task_started'', BLOCKED, RUNNING), (''report_task_progress'', RUNNING, RUNNING),
      (''report_task_completed'', PENDING, COMPLETED), (''report_task_completed'', RUNNING, COMPLETED), (''report_task_completed'', BLOCKED, COMPLETED),
      (''report_task_failed'', PENDING, FAILED), (''report_task_failed'', RUNNING, FAILED), (''report_task_failed'', BLOCKED, FAILED),
      (''report_task_blocked'', PENDING, BLOCKED), (''report_task_blocked'', RUNNING, BLOCKED),
      (''report_awaiting_approval'', PENDING, BLOCKED), (''report_awaiting_approval'', RUNNING, BLOCKED), (''report_awaiting_approval'', BLOCKED, BLOCKED)}"

definition reported_move :: "string \<Rightarrow> plan option \<Rightarrow> change list \<Rightarrow> bool" where
  "reported_move name p cs \<longleftrightarrow> cs = [] \<or>
     (\<exists>q t b is. p = Some q \<and> plan_find q (task_id t) = Some t \<and> (name, status t, b) \<in> lifecycle_moves \<and>
        cs = (task_id t, status t, b) # cancelled_changes q is \<and>
        set is \<subseteq> {j. b = FAILED \<and> doomed q (task_id t) j \<and> j \<noteq> task_id t})"

lemma report_moves: "report_change u w cs \<Longrightarrow> reported_move (tool_name u) (session_plan (sess w)) cs"
  by (cases u) (fastforce simp: report_change_def reported_move_def lifecycle_moves_def)+

text \<open>
  C9: a report is a legal move of one task or nothing. Whatever an agent passes to a reporting tool other than the discovery of
  new work, the call changes the plan by at most one reported transition: of one task of the plan, from a status that the
  lifecycle allows for this tool to the one it leads to, followed, for a failure only, by the cancellation of tasks
  that cannot run without it; when the run has sinks the transition events are exactly these; and a call that is answered with
  \<open>acknowledged: False\<close> has left the plan alone.
\<close>

theorem reports_follow_lifecycle:
  assumes "plan_ids_ok (run_world s)" "invoke_tool ev tools name args s = Inr (r, s')" "name \<noteq> tool_name NewWorkTool"
  shows "\<exists>cs. evolves (run_world s) (run_world s') cs \<and> reported_move name (session_plan (sess (run_world s))) cs \<and>
    (reply_refused r \<longrightarrow> session_plan (sess (run_world s')) = session_plan (sess (run_world s)))"
  using assms(2)
proof (cases rule: invoke_cases)
  case (answered_here j)
  then show ?thesis by (auto simp: reported_move_def intro!: exI [of _ "[]"] evolves_refl)
next
  case (handled u args')
  then have u: "tool_name u = name" "u \<noteq> NewWorkTool" using find_tool_name [OF handled(1)] assms(3) by auto
  from tool_settled [OF assms(1) handled(2) u(2)] u(1) show ?thesis
    by (auto simp: settled_def reports_def quiet_def dest: report_moves)
qed

theorem reports_follow_lifecycle_witness:
  "\<exists>r s' cs. invoke_tool sample_env BUILTIN_REPORTING_TOOLS (tool_name AwaitingApprovalTool) (ask ''a'') (idle_run sample_world) = Inr (r, s') \<and>
     evolves sample_world (run_world s') cs \<and> reported_move (tool_name AwaitingApprovalTool) (Some sample_plan) cs"
proof -
  have "find_task sample_world ''a'' = Some (mk_task ''a'' ''A'')" using sample_find by (simp add: find_task_def sample_ok)
  moreover have "strip ''a'' = ''a''" by code_simp
  ultimately obtain r s' where
    h: "handle_tool sample_env AwaitingApprovalTool (ask ''a'') (idle_run sample_world) = Inr (r, s')"
    using asked [of "''a''" "idle_run sample_world" "mk_task ''a'' ''A''" sample_env] by (auto simp: mk_task_def TERMINAL_TASK_STATUSES_def)
  have "invoke_tool sample_env BUILTIN_REPORTING_TOOLS (tool_name AwaitingApprovalTool) (ask ''a'') (idle_run sample_world) = Inr (r, s')"
    using h \<open>strip ''a'' = ''a''\<close>
    by (simp add: invoke_tool_def find_tool_def BUILTIN_REPORTING_TOOLS_def explicit_task_id_def PLAN_LEVEL_TOOLS_def Let_def
        ask_def sample_ok sample_plan_def mk_task_def)
  with reports_follow_lifecycle [OF _ this] show ?thesis by (fastforce simp: sample_ok)
qed



text \<open>
  A decision outlives its request. The handler never takes its waiter back, so once a request on a task has been decided,
  a later request on the same task, whatever it asks and whatever has happened since, is not put before anyone: unless it is
  refused outright, it is answered at once with the old decision and the old detail.
\<close>

theorem decision_outlives_request:
  assumes "handle_tool ev AwaitingApprovalTool args s = Inr (Parked a, s1)" "decision_msg m (wait_task a) yes"
    and "dispatch_control shuffle m s1 = Inr (oc, s2)"
    and "list_all (\<lambda>e. \<not> decides (wait_task a) e) es" "s3 = fold (run_do ev tools shuffle) es s2"
    and "fst (resolve_task_id_with_source ev args' (sess (run_world s3))) = wait_task a"
    and "control_channel (obs (seat s3)) \<noteq> None" "handle_tool ev AwaitingApprovalTool args' s3 = Inr (r, s4)"
  shows "\<exists>j. r = Replied j \<and> (refused j \<or> j = approval_reply (decision_word yes) (payload_str m ''detail''))"
proof -
  let ?i = "wait_task a" and ?v = "(Some True, approval_reply (decision_word yes) (payload_str m ''detail''))"
  note p = parked [OF assms(1)]
  from decided [OF assms(2) p, of shuffle] assms(3) have "verdict_on ?i s2 = ?v" by auto
  moreover from this have "verdict_on ?i s3 = verdict_on ?i s2"
    using verdict_runs [OF assms(4)] by (simp add: assms(5) verdict_on_def)
  ultimately have v: "pending_approvals s3 ?i = Some True"
    "decided_reply ?i s3 = approval_reply (decision_word yes) (payload_str m ''detail'')" by (simp_all add: verdict_on_def)
  note again = awaited_decided [OF _ v(1) assms(7)]
  obtain source where src: "resolve_task_id_with_source ev args' (sess (run_world s3)) = (?i, source)"
    using assms(6) by (metis prod.collapse)
  show ?thesis
  proof (cases "validate_required AwaitingApprovalTool args'")
    case (Some j)
    with assms(8) validate_refused [OF Some] show ?thesis by (auto simp: handle_awaiting_approval_def)
  next
    case None
    with assms(8) src obtain ms where "(case find_task (run_world s3) ?i of
        None \<Rightarrow> await_decision ev ?i source (str_arg ev args' ''prompt'') ms s3
      | Some t \<Rightarrow> if status t \<in> TERMINAL_TASK_STATUSES
          then Inr (Replied (invalid_transition_response AwaitingApprovalTool (status t) BLOCKED ?i), s3)
          else await_decision ev ?i source (str_arg ev args' ''prompt'') ms s3) = Inr (r, s4)"
      using p(1) by (auto simp: handle_awaiting_approval_def ebind_Inr_iff Let_def cong: option.case_cong if_cong)
    with again v(2) show ?thesis by (fastforce split: option.splits if_splits)
  qed
qed

theorem decision_outlives_request_witness:
  "\<exists>a s1 oc s2 s4. handle_tool sample_env AwaitingApprovalTool (ask ''a'') (idle_run sample_world) = Inr (Parked a, s1) \<and>
     dispatch_control rev approve_a s1 = Inr (oc, s2) \<and>
     handle_tool sample_env AwaitingApprovalTool (ask ''a'') s2 = Inr (Replied (approval_reply ''approve'' ''go''), s4)"
proof -
  let ?a = "\<lparr>wait_task = ''a'', wait_timeout_ms = 600000\<rparr>"
  obtain s1 where s1: "handle_tool sample_env AwaitingApprovalTool (ask ''a'') (idle_run sample_world) = Inr (Parked ?a, s1)"
    "find_task (run_world s1) ''a'' = Some ((mk_task ''a'' ''A'')\<lparr>status := BLOCKED\<rparr>)" "control_channel (obs (seat s1)) = Some channel_init"
    by (rule asked_sample)
  have strip: "strip ''a'' = ''a''" by code_simp
  have m: "decision_msg approve_a (wait_task ?a) True" by (simp add: approve_a_ok)
  from decided [OF m parked [OF s1(1)], of rev] obtain oc s2 where s2: "dispatch_control rev approve_a s1 = Inr (oc, s2)"
    "session_plan (sess (run_world s2)) = session_plan (sess (run_world s1))"
    "control_channel (obs (seat s2)) = control_channel (obs (seat s1))"
    "verdict_on ''a'' s2 = (Some True, approval_reply ''approve'' ''go'')"
    by (auto simp: decision_word_def approve_a_ok)
  from s1(2) s2(2) have f: "find_task (run_world s2) ''a'' = Some ((mk_task ''a'' ''A'')\<lparr>status := BLOCKED\<rparr>)"
    by (simp add: find_task_def)
  from asked [OF strip _ _ f, of sample_env] s1(3) s2(3,4) obtain s4 where
    s4: "handle_tool sample_env AwaitingApprovalTool (ask ''a'') s2 = Inr (Replied (decided_reply ''a'' s2), s4)"
    by (auto simp: verdict_on_def TERMINAL_TASK_STATUSES_def)
  have "decided_reply ''a'' s2 = approval_reply ''approve'' ''go''" using s2(4) by (simp add: verdict_on_def)
  moreover have "\<exists>j. Replied (decided_reply ''a'' s2) = Replied j \<and>
      (refused j \<or> j = approval_reply (decision_word True) (payload_str approve_a ''detail''))"
    by (rule decision_outlives_request [OF s1(1) m s2(1), of "[]" s2 BUILTIN_REPORTING_TOOLS "ask ''a''" _ s4])
      (use s1(3) s2(3) s4 strip in \<open>simp_all add: resolve_task_id_with_source_def ask_def str_arg_def\<close>)
  ultimately show ?thesis using s1(1) s2(1) s4 by auto
qed

text \<open>
  A plan that moves on silences its agents. The session pins the running task together with the revision of the plan at
  that time. When the plan's revision has gone up since, for whatever reason, and no task supersedes this one, the report that
  this very task is complete is dropped: the agent is told \<open>acknowledged: True\<close> and nothing else, the plan does not change, and the
  task is not completed. Naming the task explicitly does not help, the report is still judged by the age of the pin.
\<close>

theorem newer_plan_silences_report:
  assumes "session_plan (sess (run_world s)) = Some p" "plan_find p i = Some t" "status t \<notin> TERMINAL_TASK_STATUSES"
    and "strip i = i" "i \<noteq> []" "\<forall>u\<in>set (tasks p). strip (supersedes u) \<noteq> i"
    and "read_pin_revision (state (sess (run_world s))) = Some n" "n < revision_index p" "strip done_text \<noteq> []"
  shows "\<exists>s'. invoke_tool ev BUILTIN_REPORTING_TOOLS ''report_task_completed''
        [(''task_id'', Arg (JStr i)), (''summary'', Arg (JStr done_text))] s = Inr (Replied ACK, s') \<and>
      session_plan (sess (run_world s')) = Some p"
proof -
  have found: "find (\<lambda>u. task_id u = i) (tasks p) \<noteq> None" using assms(2,5) by (simp add: plan_find_def)
  have none: "find (\<lambda>u. strip (supersedes u) = i) (tasks p) = None" using assms(6) by (auto simp: find_None_iff)
  show ?thesis using assms found none
    by (auto simp: invoke_tool_def find_tool_def BUILTIN_REPORTING_TOOLS_def explicit_task_id_def PLAN_LEVEL_TOOLS_def Let_def
        in_world_def handle_task_completed_def validate_required_def gate_def resolve_task_id_with_source_def str_arg_def
        classify_and_route_pin_def classify_pin_freshness_def supersession_successor_def read_plan_revision_def)
qed

definition moved_on :: run_state where
  "moved_on = idle_run (sample_world\<lparr>sess := (sess sample_world)\<lparr>session_plan := Some (sample_plan\<lparr>revision_index := 1\<rparr>),
     state := [KEY_CURRENT_TASK_ID \<mapsto> JStr ''b'', KEY_CURRENT_TASK_REVISION \<mapsto> JInt 0]\<rparr>\<rparr>)"

theorem newer_plan_silences_report_witness:
  "\<exists>s' q. invoke_tool sample_env BUILTIN_REPORTING_TOOLS ''report_task_completed''
        [(''task_id'', Arg (JStr ''b'')), (''summary'', Arg (JStr ''ok''))] moved_on = Inr (Replied ACK, s') \<and>
      session_plan (sess (run_world s')) = Some q \<and> map_option status (plan_find q ''b'') = Some RUNNING"
proof -
  have "strip ''b'' = ''b''" "strip ''ok'' \<noteq> []" by code_simp+
  moreover have "session_plan (sess (run_world moved_on)) = Some (sample_plan\<lparr>revision_index := 1\<rparr>)"
    "read_pin_revision (state (sess (run_world moved_on))) = Some 0"
    by (simp_all add: moved_on_def read_pin_revision_def read_current_task_revision_def read_key_def)
  moreover have "plan_find (sample_plan\<lparr>revision_index := 1\<rparr>) ''b'' = Some ((mk_task ''b'' ''B'')\<lparr>status := RUNNING\<rparr>)"
    using sample_find(2) by (simp add: plan_find_def)
  moreover have "\<forall>u\<in>set (tasks (sample_plan\<lparr>revision_index := 1\<rparr>)). strip (supersedes u) \<noteq> ''b''"
    by (simp add: sample_plan_def mk_task_def strip_def)
  ultimately show ?thesis
    using newer_plan_silences_report [of moved_on "sample_plan\<lparr>revision_index := 1\<rparr>" "''b''" "(mk_task ''b'' ''B'')\<lparr>status := RUNNING\<rparr>" 0 "''ok''" sample_env]
    by (auto simp: TERMINAL_TASK_STATUSES_def)
qed

end
