(* ===== verification/Drift_Classifiers.thy ===== *)
theory Drift_Classifiers
  imports Drift_Handling "HOL-Library.Sublist"
begin

text \<open>
  The classifiers of \<open>src/goldfive/drift/__init__.py\<close>, which read a drift off a tool result, a text or a stop reason, the
  envelope \<open>InvocationResult\<close> of \<open>src/goldfive/results.py\<close>, and the entry point \<open>DriftObserver.observe\<close> of
  \<open>src/goldfive/drift_observer.py\<close> that feeds them.

  An observed value is a text, a dictionary, an invocation result or a control message. An exception is known
  by its \<open>str\<close>. \<open>str.upper\<close> is given on Latin-1 text; results outside Latin-1 leave the character as it is, which no
  comparison with the ASCII constants below can see. \<open>DriftEvent.raw\<close> is kept where the program looks at it again.
\<close>

section \<open>Observed values\<close>

record InvocationResult =
  res_task_id :: string
  res_text :: string
  res_stop_reason :: string
  res_error :: "string option"
  res_text_turns :: "string list"
  res_full_text :: string

definition TURN_SEPARATOR :: string where "TURN_SEPARATOR = [char_of (10::nat), char_of (10::nat)]"

text \<open>\<open>__post_init__\<close>.\<close>

definition mk_result :: "string \<Rightarrow> string \<Rightarrow> string \<Rightarrow> string option \<Rightarrow> string list \<Rightarrow> string \<Rightarrow> InvocationResult" where
  "mk_result tid body stop err turns full =
     \<lparr>res_task_id = tid, res_text = body, res_stop_reason = stop, res_error = err, res_text_turns = turns,
      res_full_text = (if full \<noteq> [] then full else if turns \<noteq> [] then join TURN_SEPARATOR turns else body)\<rparr>"

datatype observed =
    TextSeen string
  | DictSeen "(string, json) dict"
  | ResultSeen InvocationResult
  | MessageSeen ControlMessage

section \<open>Texts\<close>

definition has_infix :: "string \<Rightarrow> string \<Rightarrow> bool" where
  "has_infix m s \<longleftrightarrow> partition_at m s \<noteq> None"

definition upper_char :: "char \<Rightarrow> string" where
  "upper_char c = (let n = (of_char c :: nat) in
     if n = 223 then ''SS''
     else if (97 \<le> n \<and> n \<le> 122) \<or> (224 \<le> n \<and> n \<le> 254 \<and> n \<noteq> 247) then [char_of (n - 32)] else [c])"

definition upper :: "string \<Rightarrow> string" where
  "upper s = concat (map upper_char s)"

text \<open>The tables write an apostrophe as a tilde.\<close>

definition apostrophes :: "string \<Rightarrow> string" where
  "apostrophes s = map (\<lambda>c. if c = CHR ''~'' then char_of (39::nat) else c) s"

definition LLM_REFUSAL_MARKERS_INFO :: "string list" where
  "LLM_REFUSAL_MARKERS_INFO =
     map apostrophes [''i may not be the best fit'', ''i think this might'', ''not particularly well suited'', ''i~m not confident'',
       ''i am not confident'']"

definition LLM_REFUSAL_MARKERS_WARNING :: "string list" where
  "LLM_REFUSAL_MARKERS_WARNING =
     map apostrophes [''i cannot'', ''i can~t'', ''i won~t'', ''i will not'', ''i~m unable'', ''i am unable'', ''i refuse'',
       ''i~m not able to'', ''i am not able to'', ''can~t help with'', ''beyond my capabilities'', ''outside my scope'',
       ''cannot proceed'', ''no viable approach'', ''unable to locate'', ''this is not something i can'', ''i was unable to'']"

definition LLM_REFUSAL_MARKERS_CRITICAL :: "string list" where
  "LLM_REFUSAL_MARKERS_CRITICAL =
     [''i must decline'', ''cannot assist with'', ''against my guidelines'', ''for safety reasons'', ''i will not proceed'']"

definition CONTEXT_PRESSURE_STOP_REASONS :: "string set" where
  "CONTEXT_PRESSURE_STOP_REASONS = {''MAX_TOKENS'', ''LENGTH'', ''MAX_OUTPUT_TOKENS'', ''TRUNCATED'', ''CONTENT_FILTER''}"

definition CONFABULATION_TRIGGER_KEYWORDS :: "string list" where
  "CONFABULATION_TRIGGER_KEYWORDS =
     [''research'', ''gather'', ''look up'', ''lookup'', ''verify'', ''review'', ''fetch'', ''search'', ''analyze the file'',
      ''analyze the document'', ''check the'', ''find information about'', ''find information on'', ''read the file'',
      ''read the document'', ''investigate'', ''consult'', ''cross-reference'', ''cross reference'']"

definition first_marker :: "string \<Rightarrow> string list \<Rightarrow> string option" where
  "first_marker s markers = (if s = [] then None else find (\<lambda>m. has_infix m (lower s)) markers)"

fun first_string :: "(string, json) dict \<Rightarrow> string list \<Rightarrow> string" where
  "first_string d [] = []"
| "first_string d (k # ks) = (case map_of d k of Some (JStr v) \<Rightarrow> if v \<noteq> [] then v else first_string d ks | _ \<Rightarrow> first_string d ks)"

fun extract_text :: "observed \<Rightarrow> string" where
  "extract_text (TextSeen s) = s"
| "extract_text (DictSeen d) = first_string d [''text'', ''content'', ''message'']"
| "extract_text (ResultSeen r) = res_text r"
| "extract_text (MessageSeen m) = []"

fun raw_of :: "observed \<Rightarrow> raw_value option" where
  "raw_of (DictSeen d) = Some (RawFacts d)"
| "raw_of (MessageSeen m) = Some (RawControl m)"
| "raw_of _ = None"

section \<open>Classifiers\<close>

definition dict_error :: "(string, json) dict \<Rightarrow> string" where
  "dict_error d =
     (let err = jget d ''error'' JNull; st = upper (str_or_empty (jget d ''status'' (JStr []))); msg = str_or_empty (jget d ''message'' (JStr []))
      in if truthy err then py_str err
         else if st \<in> {''FAILED'', ''ERROR''} then (if msg \<noteq> [] then msg else st)
         else if map_of d ''ok'' = Some (JBool False) then (if msg \<noteq> [] then msg else ''tool returned ok=false'')
         else [])"

fun error_facts :: "observed \<Rightarrow> string \<times> string \<times> string" where
  "error_facts (DictSeen d) =
     (let tool = str_or_empty (jget d ''tool'' (JStr []))
      in (dict_error d, if tool \<noteq> [] then tool else str_or_empty (jget d ''name'' (JStr [])), str_or_empty (jget d ''task_id'' (JStr []))))"
| "error_facts (ResultSeen r) = (case res_error r of None \<Rightarrow> [] | Some e \<Rightarrow> e, [], res_task_id r)"
| "error_facts _ = ([], [], [])"

definition classify_tool_error :: "string \<Rightarrow> observed \<Rightarrow> drift_event option" where
  "classify_tool_error uuid e =
     (let (err, tool, tid) = error_facts e
      in if err = [] then None
         else Some ((mk_drift uuid TOOL_ERROR WARNING)\<lparr>
           drift_detail := (if tool \<noteq> [] then ''tool '' @ repr_str tool @ '' errored: '' @ err else ''tool error: '' @ err),
           drift_task := tid, drift_raw := raw_of e\<rparr>))"

fun refusal_in :: "string \<Rightarrow> (string list \<times> DriftSeverity) list \<Rightarrow> (string \<times> DriftSeverity) option" where
  "refusal_in s [] = None"
| "refusal_in s ((markers, sev) # tiers) = (case first_marker s markers of Some m \<Rightarrow> Some (m, sev) | None \<Rightarrow> refusal_in s tiers)"

definition refusal_tiers :: "(string list \<times> DriftSeverity) list" where
  "refusal_tiers =
     [(LLM_REFUSAL_MARKERS_CRITICAL, CRITICAL), (LLM_REFUSAL_MARKERS_WARNING, WARNING), (LLM_REFUSAL_MARKERS_INFO, INFO)]"

definition classify_refusal :: "string \<Rightarrow> observed \<Rightarrow> drift_event option" where
  "classify_refusal uuid e =
     (let s = extract_text e
      in if s = [] then None
         else map_option (\<lambda>(m, sev). (mk_drift uuid AGENT_REFUSAL sev)\<lparr>
             drift_detail := ''refusal marker '' @ repr_str m @ '': '' @ repr_str (take 140 s), drift_raw := raw_of e\<rparr>)
           (refusal_in s refusal_tiers))"

definition classify_stop_reason :: "string \<Rightarrow> string \<Rightarrow> drift_event option" where
  "classify_stop_reason uuid reason =
     (let n = strip (last_segment (CHR ''.'') (upper reason))
      in if n \<in> CONTEXT_PRESSURE_STOP_REASONS
         then Some ((mk_drift uuid CONTEXT_PRESSURE WARNING)\<lparr>drift_detail := ''response truncated (stop_reason='' @ n @ '')''\<rparr>)
         else None)"

definition classify_confabulation_risk :: "string \<Rightarrow> task \<Rightarrow> int \<Rightarrow> string \<Rightarrow> drift_event option" where
  "classify_confabulation_risk uuid t tool_calls out =
     (if tool_calls \<noteq> 0 \<or> strip out = [] then None
      else
        (let haystack = lower (title t @ [char_of (10::nat)] @ description t)
         in if strip haystack = [] then None
            else case find (\<lambda>k. has_infix k haystack) CONFABULATION_TRIGGER_KEYWORDS of
                   None \<Rightarrow> None
                 | Some k \<Rightarrow> Some ((mk_drift uuid CONFABULATION_RISK INFO)\<lparr>
                     drift_detail := ''task '' @ repr_str (task_id t) @ '' description implies external data access (matched '' @
                       repr_str k @ '') but invocation produced output with zero tool calls'',
                     drift_task := task_id t, drift_agent := assignee_agent_id t\<rparr>)))"

text \<open>\<open>str(reason)\<close> unless the dictionary has neither field.\<close>

fun stop_reason_of :: "observed \<Rightarrow> string option" where
  "stop_reason_of (DictSeen d) =
     (let a = jget d ''stop_reason'' JNull; v = (if truthy a then a else jget d ''finish_reason'' JNull)
      in if v = JNull then None else Some (py_str v))"
| "stop_reason_of (ResultSeen r) = (if res_stop_reason r = [] then None else Some (res_stop_reason r))"
| "stop_reason_of _ = None"

definition first_drift :: "'a option list \<Rightarrow> 'a option" where
  "first_drift xs = (case find (\<lambda>x. x \<noteq> None) xs of None \<Rightarrow> None | Some x \<Rightarrow> x)"

definition detect_drift :: "string \<Rightarrow> observed \<Rightarrow> session \<Rightarrow> drift_event option" where
  "detect_drift uuid e s =
     (let rev = (case session_plan s of None \<Rightarrow> 0 | Some p \<Rightarrow> revision_index p)
      in map_option (\<lambda>d. if observed_revision_index d = 0 \<and> rev \<noteq> 0 then d\<lparr>observed_revision_index := rev\<rparr> else d)
           (first_drift [classify_tool_error uuid e, classify_refusal uuid e,
              case stop_reason_of e of None \<Rightarrow> None | Some r \<Rightarrow> classify_stop_reason uuid r]))"

section \<open>Observation\<close>

definition is_duplicate_steer :: "ControlMessage \<Rightarrow> session \<Rightarrow> bool" where
  "is_duplicate_steer m s \<longleftrightarrow> steer_dedupe_id m \<noteq> [] \<and> has_processed_steer_id (state s) (steer_dedupe_id m)"

definition drift_from_control :: "string \<Rightarrow> ControlMessage \<Rightarrow> session \<Rightarrow> drift_event option" where
  "drift_from_control uuid m s =
     (let pstr = (\<lambda>k. str_or_empty (jget (msg_payload m) k (JStr []))); body = pstr ''note''; author = strip (pstr ''author'');
          mk = (\<lambda>k sev detail. Some ((mk_drift uuid k sev)\<lparr>drift_detail := detail, drift_task := current_task_id s,
                  drift_raw := Some (RawControl m), authored_by := ''user''\<rparr>))
      in case msg_kind m of
           CK_STEER \<Rightarrow> mk USER_STEER WARNING (if author \<noteq> [] then ''by '' @ author @ '': '' @ body else body)
         | CK_CANCEL \<Rightarrow> mk USER_CANCEL CRITICAL (pstr ''reason'')
         | CK_PAUSE \<Rightarrow> mk USER_PAUSE INFO body
         | _ \<Rightarrow> None)"

definition drift_of :: "string \<Rightarrow> observed \<Rightarrow> session \<Rightarrow> drift_event option" where
  "drift_of uuid e s =
     (case (case e of MessageSeen m \<Rightarrow> drift_from_control uuid m s | _ \<Rightarrow> None) of
        Some d \<Rightarrow> Some d
      | None \<Rightarrow> detect_drift uuid e s)"

text \<open>The snapshot of the registered detectors goes out once per session.\<close>

definition dispatch_snapshot :: "string list \<Rightarrow> bool \<Rightarrow> world \<Rightarrow> bool \<times> world" where
  "dispatch_snapshot detectors emitted w =
     (if detectors = [] \<or> emitted then (emitted, w) else (True, emit_new (DetectorDispatchOrdered detectors ''default'') w))"

text \<open>A drift, if there is one, with the state in which it is handled.\<close>

definition observe_head :: "string list \<Rightarrow> observed \<Rightarrow> bool \<Rightarrow> world \<Rightarrow> drift_event option \<times> bool \<times> world" where
  "observe_head detectors e emitted w =
     (let w = stamp_last_observed w; (emitted, w) = dispatch_snapshot detectors emitted w
      in if (case e of MessageSeen m \<Rightarrow> is_duplicate_steer m (sess w) | _ \<Rightarrow> False) then (None, emitted, w)
         else case drift_of (uuid_hex (cfg w) (ticks w)) e (sess w) of
                None \<Rightarrow> (None, emitted, w)
              | Some d \<Rightarrow> (Some d, emitted, tick w))"

section \<open>What the classifiers say\<close>

lemma starts_with_prefix: "starts_with m s \<longleftrightarrow> prefix m s"
  by (induction m s rule: starts_with.induct) auto

lemma has_infix_iff: "has_infix m s \<longleftrightarrow> sublist m s"
proof (induction s)
  case Nil
  then show ?case by (auto simp: has_infix_def)
next
  case (Cons c s)
  then show ?case by (auto simp: has_infix_def starts_with_prefix sublist_Cons_right)
qed

lemma first_marker_None: "first_marker s ms = None \<longleftrightarrow> s = [] \<or> (\<forall>m\<in>set ms. \<not> sublist m (lower s))"
  by (auto simp: first_marker_def find_None_iff has_infix_iff)

lemma first_marker_Some: "first_marker s ms = Some m \<Longrightarrow> m \<in> set ms \<and> sublist m (lower s)"
  by (auto simp: first_marker_def has_infix_iff find_Some_iff split: if_splits)

definition text_says :: "observed \<Rightarrow> string list \<Rightarrow> bool" where
  "text_says e markers \<longleftrightarrow> extract_text e \<noteq> [] \<and> list_ex (\<lambda>m. sublist m (lower (extract_text e))) markers"

text \<open>
  C35: a refusal is as grave as its gravest phrase. An observed value gives rise to a refusal drift exactly when its text
  contains, in lower case, one of the phrases of the tables; the drift is \<open>CRITICAL\<close> exactly when a policy phrase occurs,
  whatever hedging surrounds it, \<open>INFO\<close> exactly when only hedges do, and \<open>WARNING\<close> otherwise.
\<close>

theorem refusal_severity_exact:
  "map_option drift_severity (classify_refusal uuid e) =
    (if text_says e LLM_REFUSAL_MARKERS_CRITICAL then Some CRITICAL
     else if text_says e LLM_REFUSAL_MARKERS_WARNING then Some WARNING
     else if text_says e LLM_REFUSAL_MARKERS_INFO then Some INFO else None)"
proof -
  have "text_says e ms \<longleftrightarrow> extract_text e \<noteq> [] \<and> (\<exists>m. first_marker (extract_text e) ms = Some m)" for ms
    using first_marker_None [of "extract_text e" ms] by (auto simp: text_says_def list_ex_iff)
  then show ?thesis
    by (auto simp: classify_refusal_def refusal_tiers_def Let_def mk_drift_def split: option.split)
qed

text \<open>An exception whose text is empty, as a bare \<open>TimeoutError()\<close> has, is no tool error.\<close>

lemma silent_exception_is_no_error: "classify_tool_error uuid (ResultSeen (r\<lparr>res_error := Some []\<rparr>)) = None"
  by (simp add: classify_tool_error_def)

lemma goldfive_steer_is_no_drift:
  "msg_kind m = CK_GOLDFIVE_STEER \<Longrightarrow> drift_of uuid (MessageSeen m) s = None"
  by (simp add: drift_of_def drift_from_control_def detect_drift_def classify_tool_error_def classify_refusal_def first_drift_def Let_def)

end
