(* ===== verification/Sequential_Schedule.thy ===== *)
theory Sequential_Schedule
  imports Run_Control
begin

text \<open>
  The questions the sequential executor asks of a plan: the helpers at the end of \<open>src/goldfive/executors/sequential.py\<close>.
  Which task comes next, whether a failed task has a live replacement, which failures are fatal, which pending tasks
  no path leads to any more.
\<close>

section \<open>The next task\<close>

definition deps_of :: "plan \<Rightarrow> string \<Rightarrow> string list" where
  "deps_of p i = map from_task_id (filter (\<lambda>e. to_task_id e = i) (edges p))"

definition dep_done :: "plan \<Rightarrow> string \<Rightarrow> bool" where
  "dep_done p j = (case map_of (tasks_by_id p) j of None \<Rightarrow> False | Some d \<Rightarrow> status d = COMPLETED)"

definition schedulable :: "plan \<Rightarrow> task \<Rightarrow> bool" where
  "schedulable p t \<longleftrightarrow> status t = PENDING \<and> list_all (dep_done p) (deps_of p (task_id t))"

definition pick_next_task :: "plan \<Rightarrow> py_error + task option" where
  "pick_next_task p = ebind (topological_stages p) (\<lambda>stages. Inr (find (schedulable p) (concat stages)))"

section \<open>Retry lineages\<close>

text \<open>One application of \<open>^retry(?:\d+)?_\<close>, then up to sixteen of them.\<close>

definition strip_retry :: "string \<Rightarrow> string" where
  "strip_retry s =
     (if starts_with ''retry'' s
      then (let r = dropWhile is_digit (drop 5 s) in if starts_with ''_'' r then drop 1 r else s)
      else s)"

fun lineage_loop :: "nat \<Rightarrow> string \<Rightarrow> string" where
  "lineage_loop 0 s = s"
| "lineage_loop (Suc n) s = (let r = strip_retry s in if r = s then s else lineage_loop n r)"

definition lineage_root :: "string \<Rightarrow> string" where
  "lineage_root i = (if i = [] then i else lineage_loop 16 i)"

section \<open>Replacements\<close>

fun chain_hits :: "(string, string) dict \<Rightarrow> string \<Rightarrow> nat \<Rightarrow> string list \<Rightarrow> string \<Rightarrow> bool" where
  "chain_hits chain target 0 visited cursor = False"
| "chain_hits chain target (Suc n) visited cursor =
     (if cursor = [] \<or> cursor \<in> set visited then False
      else if cursor = target then True
      else chain_hits chain target n (cursor # visited) (case map_of chain cursor of None \<Rightarrow> [] | Some c \<Rightarrow> c))"

definition supersedes_chain :: "plan \<Rightarrow> (string, string) dict" where
  "supersedes_chain p = dict_of (map (\<lambda>t. (task_id t, strip (supersedes t))) (filter (\<lambda>t. task_id t \<noteq> []) (tasks p)))"

definition same_assignee :: "task \<Rightarrow> task \<Rightarrow> bool" where
  "same_assignee f r \<longleftrightarrow>
     assignee_agent_id f = [] \<or> assignee_agent_id r = [] \<or> assignee_agent_id r = assignee_agent_id f"

definition stands_in :: "task \<Rightarrow> task \<Rightarrow> bool" where
  "stands_in f r \<longleftrightarrow> task_id r \<noteq> [] \<and> task_id r \<noteq> task_id f \<and> status r \<noteq> FAILED \<and> status r \<noteq> CANCELLED"

definition causal_replacement :: "plan \<Rightarrow> task \<Rightarrow> task \<Rightarrow> bool" where
  "causal_replacement p f r \<longleftrightarrow> stands_in f r \<and>
     chain_hits (supersedes_chain p) (task_id f) 16 []
       (case map_of (supersedes_chain p) (task_id r) of None \<Rightarrow> [] | Some c \<Rightarrow> c) \<and> same_assignee f r"

definition named_replacement :: "task \<Rightarrow> task \<Rightarrow> bool" where
  "named_replacement f r \<longleftrightarrow> stands_in f r \<and>
     (if starts_with (task_id f @ ''_'') (task_id r) then True
      else lineage_root (task_id r) = lineage_root (task_id f) \<and> status r \<in> {PENDING, RUNNING}) \<and> same_assignee f r"

definition has_live_replacement :: "plan \<Rightarrow> task \<Rightarrow> bool" where
  "has_live_replacement p f \<longleftrightarrow> list_ex (causal_replacement p f) (tasks p) \<or> list_ex (named_replacement f) (tasks p)"

definition fatally_failed_task_ids :: "plan \<Rightarrow> string list" where
  "fatally_failed_task_ids p = map task_id (filter (\<lambda>t. status t = FAILED \<and> \<not> has_live_replacement p t) (tasks p))"

definition pending_task_ids :: "plan \<Rightarrow> string list" where
  "pending_task_ids p = map task_id (filter (\<lambda>t. status t = PENDING \<and> task_id t \<noteq> []) (tasks p))"

definition has_live_pending_or_running :: "plan \<Rightarrow> bool" where
  "has_live_pending_or_running p \<longleftrightarrow> list_ex (\<lambda>t. status t \<in> {PENDING, RUNNING} \<and> task_kind t \<noteq> OUTCOME) (tasks p)"

section \<open>Tasks that nothing leads to\<close>

definition seed_broken :: "plan \<Rightarrow> string list" where
  "seed_broken p =
     map fst (filter (\<lambda>(_, t). status t \<in> {CANCELLED, FAILED, NOT_NEEDED} \<and> \<not> (status t = FAILED \<and> has_live_replacement p t))
       (tasks_by_id p))"

fun unreachable_pass :: "plan \<Rightarrow> (string, task) dict \<Rightarrow> string list \<Rightarrow> string list \<Rightarrow> string list" where
  "unreachable_pass p [] seed U = U"
| "unreachable_pass p ((i, t) # d) seed U =
     (if i \<in> set U \<or> i \<in> set seed \<or> status t \<noteq> PENDING then unreachable_pass p d seed U
      else if list_ex (\<lambda>j. j \<in> set seed \<or> j \<in> set U) (deps_of p i) then unreachable_pass p d seed (U @ [i])
      else unreachable_pass p d seed U)"

lemma unreachable_pass_grows: "set U \<subseteq> set (unreachable_pass p d seed U)"
  by (induction p d seed U rule: unreachable_pass.induct) auto

lemma unreachable_pass_known: "set (unreachable_pass p d seed U) \<subseteq> set U \<union> fst ` set d"
  by (induction p d seed U rule: unreachable_pass.induct) auto

lemma unreachable_pass_length: "length U \<le> length (unreachable_pass p d seed U)"
  by (induction p d seed U rule: unreachable_pass.induct) auto

lemma unreachable_pass_distinct: "distinct U \<Longrightarrow> distinct (unreachable_pass p d seed U)"
  by (induction p d seed U rule: unreachable_pass.induct) auto

lemma unreachable_pass_same: "length (unreachable_pass p d seed U) = length U \<Longrightarrow> unreachable_pass p d seed U = U"
proof (induction p d seed U rule: unreachable_pass.induct)
  case (2 p i t d seed U)
  have "length U < length (unreachable_pass p d seed (U @ [i]))" using unreachable_pass_length [of "U @ [i]" p d seed] by simp
  with 2 show ?case by (auto split: if_splits)
qed simp

text \<open>\<open>changed\<close> says that a pass added something.\<close>

function unreachable_loop :: "plan \<Rightarrow> string list \<Rightarrow> string list \<Rightarrow> string list" where
  "unreachable_loop p seed U =
     (let V = unreachable_pass p (tasks_by_id p) seed U
      in if length V = length U then V else unreachable_loop p seed V)"
  by pat_completeness auto

termination
proof (relation "measure (\<lambda>(p, seed, U). card (fst ` set (tasks_by_id p) - set U))")
  fix p seed U V
  assume V: "V = unreachable_pass p (tasks_by_id p) seed U" "length V \<noteq> length U"
  have "\<exists>i\<in>set V. i \<notin> set U"
  proof (rule ccontr)
    assume c: "\<not> (\<exists>i\<in>set V. i \<notin> set U)"
    have "unreachable_pass p d seed U = U" if "set (unreachable_pass p d seed U) \<subseteq> set U" for d
      using that
    proof (induction d)
      case (Cons x d)
      obtain i t where x: "x = (i, t)" by (cases x)
      show ?case
      proof (cases "i \<in> set U \<or> i \<in> set seed \<or> status t \<noteq> PENDING \<or> \<not> list_ex (\<lambda>j. j \<in> set seed \<or> j \<in> set U) (deps_of p i)")
        case True
        with Cons x show ?thesis by auto
      next
        case False
        then have "i \<in> set (unreachable_pass p (x # d) seed U)"
          using unreachable_pass_grows [of "U @ [i]" p d seed] x by auto
        with Cons.prems False show ?thesis by auto
      qed
    qed simp
    moreover have "set (unreachable_pass p (tasks_by_id p) seed U) \<subseteq> set U" using c V(1) by blast
    ultimately have "V = U" using V(1) by blast
    with V(2) show False by simp
  qed
  then obtain i where "i \<in> set V" "i \<notin> set U" by blast
  moreover from this V(1) have "i \<in> fst ` set (tasks_by_id p)" using unreachable_pass_known [of p "tasks_by_id p" seed U] by auto
  ultimately have "fst ` set (tasks_by_id p) - set V \<subset> fst ` set (tasks_by_id p) - set U"
    using V(1) unreachable_pass_grows [of U p "tasks_by_id p" seed] by auto
  then show "((p, seed, V), p, seed, U) \<in> measure (\<lambda>(p, seed, U). card (fst ` set (tasks_by_id p) - set U))"
    by (simp add: psubset_card_mono)
qed simp

declare unreachable_loop.simps [simp del]

definition unreachable_pending_task_ids :: "plan \<Rightarrow> string set" where
  "unreachable_pending_task_ids p = set (unreachable_loop p (seed_broken p) [])"

section \<open>What is picked\<close>

lemma dep_done_iff: "ids_ok p \<Longrightarrow> dep_done p j \<longleftrightarrow> (\<exists>d. plan_find p j = Some d \<and> status d = COMPLETED)"
  by (auto simp: dep_done_def ids_ok_def tasks_by_id_lookup split: option.split)

lemma picked:
  assumes "ids_ok p"
  obtains r where "pick_next_task p = Inr r" "\<And>t. r = Some t \<Longrightarrow> t \<in> set (tasks p) \<and> schedulable p t"
    "r = None \<Longrightarrow> \<forall>t\<in>set (tasks p). \<not> schedulable p t"
proof -
  obtain out sts left where out: "topological_stages p = Inr out" "map (map task_id) out = sts @ (if left = [] then [] else [left])"
    "set (concat out) \<subseteq> set (tasks p)" "set (concat sts @ left) = fst ` set (tasks_by_id p)"
    using topological_stages_spec [of p] by blast
  have "map task_id (concat out) = concat sts @ left" using arg_cong [OF out(2), of concat] by (simp add: map_concat split: if_splits)
  then have ids: "task_id ` set (concat out) = task_id ` set (tasks p)"
    using out(4) tasks_by_id_keys [of p] assms by (metis Diff_empty Diff_insert0 ids_ok_def list.set_map)
  have all: "t \<in> set (concat out)" if t: "t \<in> set (tasks p)" for t
  proof -
    from t ids obtain u where u: "u \<in> set (concat out)" "task_id u = task_id t" by (metis imageE imageI)
    with out(3) t assms have "u = t" by (auto simp: ids_ok_def distinct_map inj_on_def)
    with u(1) show ?thesis by simp
  qed
  show thesis
  proof (rule that [of "find (schedulable p) (concat out)"])
    show "pick_next_task p = Inr (find (schedulable p) (concat out))" by (simp add: pick_next_task_def out(1))
    show "t \<in> set (tasks p) \<and> schedulable p t" if "find (schedulable p) (concat out) = Some t" for t
      using find_SomeD [OF that] out(3) by auto
    show "\<forall>t\<in>set (tasks p). \<not> schedulable p t" if "find (schedulable p) (concat out) = None"
      using that all by (auto simp: find_None_conv)
  qed
qed

lemma picked_eligible: "ids_ok p \<Longrightarrow> pick_next_task p = Inr (Some t) \<Longrightarrow> t \<in> set (tasks p) \<and> schedulable p t"
  by (erule picked) auto

section \<open>What is cut off\<close>

definition gone :: "plan \<Rightarrow> string \<Rightarrow> bool" where
  "gone p j \<longleftrightarrow> (\<exists>d. map_of (tasks_by_id p) j = Some d \<and>
     (status d = CANCELLED \<or> status d = NOT_NEEDED \<or> (status d = FAILED \<and> \<not> has_live_replacement p d)))"

inductive cut_off :: "plan \<Rightarrow> string \<Rightarrow> bool" for p where
  broken: "map_of (tasks_by_id p) i = Some t \<Longrightarrow> status t = PENDING \<Longrightarrow> j \<in> set (deps_of p i) \<Longrightarrow> gone p j \<Longrightarrow> cut_off p i"
| behind: "map_of (tasks_by_id p) i = Some t \<Longrightarrow> status t = PENDING \<Longrightarrow> j \<in> set (deps_of p i) \<Longrightarrow> cut_off p j \<Longrightarrow> cut_off p i"

lemma by_id_entry: "(i, t) \<in> set (tasks_by_id p) \<longleftrightarrow> map_of (tasks_by_id p) i = Some t"
  using dict_ok_dict_of by (auto simp: tasks_by_id_def dict_ok_def intro: map_of_is_SomeI dest: map_of_SomeD)

lemma seed_gone: "j \<in> set (seed_broken p) \<longleftrightarrow> gone p j"
  by (force simp: seed_broken_def gone_def by_id_entry)

lemma unreachable_pass_sound:
  "set d \<subseteq> set (tasks_by_id p) \<Longrightarrow> \<forall>i\<in>set U. cut_off p i \<Longrightarrow> i \<in> set (unreachable_pass p d (seed_broken p) U) \<Longrightarrow> cut_off p i"
proof (induction d arbitrary: U)
  case (Cons x d)
  obtain i' t where x: "x = (i', t)" by (cases x)
  show ?case
  proof (cases "status t = PENDING \<and> list_ex (\<lambda>j. j \<in> set (seed_broken p) \<or> j \<in> set U) (deps_of p i')")
    case True
    with Cons.prems(1,2) x have "cut_off p i'"
      by (auto simp: list_ex_iff by_id_entry seed_gone intro: cut_off.intros)
    with Cons.prems(2) have "\<forall>k\<in>set (U @ [i']). cut_off p k" by simp
    with Cons.prems Cons.IH [of "U @ [i']"] Cons.IH [of U] show ?thesis by (auto simp: x split: if_splits)
  qed (use Cons x in \<open>auto split: if_splits\<close>)
qed simp

lemma unreachable_pass_closed:
  assumes "unreachable_pass p d seed U = U" "(i, t) \<in> set d" "status t = PENDING" "i \<notin> set seed"
    "j \<in> set (deps_of p i)" "j \<in> set seed \<or> j \<in> set U"
  shows "i \<in> set U"
  using assms(1,2)
proof (induction d)
  case (Cons x d)
  obtain i' t' where x: "x = (i', t')" by (cases x)
  show ?case
  proof (cases "i' \<in> set U \<or> i' \<in> set seed \<or> status t' \<noteq> PENDING \<or> \<not> list_ex (\<lambda>j. j \<in> set seed \<or> j \<in> set U) (deps_of p i')")
    case True
    then have same: "unreachable_pass p (x # d) seed U = unreachable_pass p d seed U" using x by auto
    show ?thesis
    proof (cases "(i, t) \<in> set d")
      case True
      with Cons same show ?thesis by simp
    next
      case False
      with Cons.prems(2) x have "i' = i" "t' = t" by auto
      with \<open>i' \<in> set U \<or> _\<close> assms(3-6) show ?thesis by (auto simp: list_ex_iff)
    qed
  next
    case False
    then have "i' \<in> set (unreachable_pass p (x # d) seed U)"
      using unreachable_pass_grows [of "U @ [i']" p d seed] x by auto
    with Cons.prems False show ?thesis by auto
  qed
qed simp

lemma unreachable_loop_spec:
  "\<forall>i\<in>set U. cut_off p i \<Longrightarrow> seed = seed_broken p \<Longrightarrow>
   unreachable_pass p (tasks_by_id p) seed (unreachable_loop p seed U) = unreachable_loop p seed U \<and>
   (\<forall>i\<in>set (unreachable_loop p seed U). cut_off p i)"
proof (induction p seed U rule: unreachable_loop.induct)
  case (1 p seed U)
  let ?V = "unreachable_pass p (tasks_by_id p) seed U"
  have sound: "\<forall>i\<in>set ?V. cut_off p i" using unreachable_pass_sound 1(2,3) by blast
  show ?case
  proof (cases "length ?V = length U")
    case True
    then have "?V = U" by (rule unreachable_pass_same)
    with True sound show ?thesis by (simp add: unreachable_loop.simps [of p seed U] Let_def)
  next
    case False
    with 1(1) [OF refl False sound 1(3)] show ?thesis by (simp add: unreachable_loop.simps [of p seed U] Let_def)
  qed
qed

lemma unreachable_iff: "i \<in> unreachable_pending_task_ids p \<longleftrightarrow> cut_off p i"
proof
  let ?U = "unreachable_loop p (seed_broken p) []"
  have stable: "unreachable_pass p (tasks_by_id p) (seed_broken p) ?U = ?U" and sound: "\<forall>i\<in>set ?U. cut_off p i"
    using unreachable_loop_spec [of "[]" p "seed_broken p"] by simp_all
  show "cut_off p i" if "i \<in> unreachable_pending_task_ids p" using that sound by (simp add: unreachable_pending_task_ids_def)
  have seed: "status t \<noteq> PENDING" if "j \<in> set (seed_broken p)" "map_of (tasks_by_id p) j = Some t" for j t
    using that by (auto simp: seed_broken_def by_id_entry)
  have closed: "i' \<in> set ?U" if "map_of (tasks_by_id p) i' = Some t" "status t = PENDING" "j \<in> set (deps_of p i')"
    "gone p j \<or> j \<in> set ?U" for i' t j
    using unreachable_pass_closed [OF stable _ that(2) _ that(3)] that(1,2,4) seed by (auto simp: by_id_entry seed_gone)
  show "i \<in> unreachable_pending_task_ids p" if "cut_off p i"
    using that unfolding unreachable_pending_task_ids_def by (induction rule: cut_off.induct) (auto intro: closed)
qed

lemma cut_off_blocked:
  assumes "cut_off p i" "ids_ok p"
  obtains t where "plan_find p i = Some t" "\<not> schedulable p t"
proof -
  have seed: "\<not> dep_done p j" if "gone p j" for j
    using that by (auto simp: gone_def dep_done_def)
  have pend: "\<not> dep_done p j" if "cut_off p j" for j
    using that by cases (auto simp: dep_done_def)
  from assms(1) obtain t j where t: "map_of (tasks_by_id p) i = Some t" "j \<in> set (deps_of p i)" "\<not> dep_done p j"
    by cases (use seed pend in \<open>blast+\<close>)
  then have "plan_find p i = Some t" using assms(2) by (simp add: tasks_by_id_lookup ids_ok_def)
  moreover from this have "task_id t = i" by (auto dest: plan_find_SomeD)
  ultimately show thesis using t that by (auto simp: schedulable_def list_all_iff)
qed

section \<open>Properties\<close>

definition startable :: "plan \<Rightarrow> task \<Rightarrow> bool" where
  "startable p t \<longleftrightarrow> status t = PENDING \<and>
     {e \<in> set (edges p). to_task_id e = task_id t} \<subseteq> {e. \<exists>d. plan_find p (from_task_id e) = Some d \<and> status d = COMPLETED}"

lemma schedulable_startable: "ids_ok p \<Longrightarrow> schedulable p t \<longleftrightarrow> startable p t"
  by (auto simp: startable_def schedulable_def list_all_iff deps_of_def dep_done_iff)

text \<open>
  C11: the executor finds work exactly when there is some. On a plan with distinct non-empty ids \<open>_pick_next_task\<close> never raises; it
  returns a task of the plan that is \<open>PENDING\<close> and all of whose predecessors are known and \<open>COMPLETED\<close>, and it
  returns none only when no task of the plan is such.
\<close>

theorem pick_next_task_correct:
  assumes "ids_ok p"
  shows "\<exists>r. pick_next_task p = Inr r \<and>
    (case r of None \<Rightarrow> {t \<in> set (tasks p). startable p t} = {} | Some t \<Rightarrow> t \<in> set (tasks p) \<and> startable p t)"
proof -
  from picked [OF assms] obtain r where r: "pick_next_task p = Inr r"
    "\<And>t. r = Some t \<Longrightarrow> t \<in> set (tasks p) \<and> schedulable p t" "r = None \<Longrightarrow> \<forall>t\<in>set (tasks p). \<not> schedulable p t" by blast
  then show ?thesis by (cases r) (auto simp: schedulable_startable [OF assms])
qed

definition chain_plan :: "TaskStatus \<Rightarrow> plan" where
  "chain_plan s = (plan_empty ''p'' ''r'')\<lparr>tasks := [(mk_task ''a'' ''A'')\<lparr>status := s\<rparr>, mk_task ''b'' ''B''], edges := [mk_edge ''a'' ''b'']\<rparr>"

lemma chain_plan_ok [simp]: "ids_ok (chain_plan s)" "deps_of (chain_plan s) ''b'' = [''a'']"
  by (simp_all add: chain_plan_def ids_ok_def mk_task_def deps_of_def mk_edge_def)

theorem pick_next_task_correct_witness:
  "\<exists>t. pick_next_task (chain_plan COMPLETED) = Inr (Some t) \<and> t = mk_task ''b'' ''B''"
proof -
  from pick_next_task_correct [OF chain_plan_ok(1), of COMPLETED] obtain r where
    r: "pick_next_task (chain_plan COMPLETED) = Inr r"
    "case r of None \<Rightarrow> {t \<in> set (tasks (chain_plan COMPLETED)). startable (chain_plan COMPLETED) t} = {}
     | Some t \<Rightarrow> t \<in> set (tasks (chain_plan COMPLETED)) \<and> startable (chain_plan COMPLETED) t" by blast
  have b: "startable (chain_plan COMPLETED) (mk_task ''b'' ''B'')" "mk_task ''b'' ''B'' \<in> set (tasks (chain_plan COMPLETED))"
    by (auto simp: startable_def chain_plan_def mk_task_def mk_edge_def plan_find_def)
  then have "r \<noteq> None" using r(2) by (cases r) auto
  then show ?thesis using r by (auto simp: startable_def chain_plan_def mk_task_def)
qed

text \<open>
  C12: what the sweep cancels is what is cut off. The loop to a fixed point ends and returns exactly the \<open>PENDING\<close> tasks from which
  a path of predecessors, over \<open>PENDING\<close> tasks, leads back to one that is \<open>CANCELLED\<close>, \<open>NOT_NEEDED\<close> or \<open>FAILED\<close> without a live
  replacement; and none of them could be picked.
\<close>

theorem unreachable_exact:
  assumes "ids_ok p"
  shows "unreachable_pending_task_ids p = {i. cut_off p i} \<and>
    unreachable_pending_task_ids p \<subseteq> {i. \<exists>t. plan_find p i = Some t \<and> status t = PENDING \<and> \<not> schedulable p t}"
proof -
  have "status t = PENDING" if "cut_off p i" "plan_find p i = Some t" for i t
    using that assms by cases (auto simp: tasks_by_id_lookup ids_ok_def)
  note pending = this
  have "\<exists>t. plan_find p i = Some t \<and> status t = PENDING \<and> \<not> schedulable p t" if i: "cut_off p i" for i
  proof -
    from cut_off_blocked [OF i assms] obtain t where "plan_find p i = Some t" "\<not> schedulable p t" .
    with pending [OF i] show ?thesis by blast
  qed
  moreover have "unreachable_pending_task_ids p = {i. cut_off p i}" using unreachable_iff by auto
  ultimately show ?thesis by auto
qed

theorem unreachable_exact_witness:
  "''b'' \<in> unreachable_pending_task_ids (chain_plan CANCELLED)"
proof -
  have k: "tasks_by_id (chain_plan CANCELLED) = [(''a'', (mk_task ''a'' ''A'')\<lparr>status := CANCELLED\<rparr>), (''b'', mk_task ''b'' ''B'')]"
    by (simp add: tasks_by_id_def chain_plan_def mk_task_def dict_of_def)
  have "cut_off (chain_plan CANCELLED) ''b''"
    by (rule broken [where j = "''a''" and t = "mk_task ''b'' ''B''"]) (simp_all add: k gone_def mk_task_def)
  then show ?thesis using unreachable_exact [OF chain_plan_ok(1), of CANCELLED] by simp
qed


definition versioned_plan :: plan where
  "versioned_plan = (plan_empty ''p'' ''r'')\<lparr>tasks := [(mk_task ''a'' ''A'')\<lparr>status := FAILED\<rparr>,
     (mk_task ''a_v2'' ''A'')\<lparr>status := COMPLETED, supersedes := ''a''\<rparr>, mk_task ''b'' ''B'', mk_task ''c'' ''C''], edges := [mk_edge ''a'' ''b'']\<rparr>"


text \<open>A task whose id happens to start with the failed task's id counts as its replacement, whatever it is about.\<close>

lemma prefix_hides_failure:
  "fatally_failed_task_ids ((plan_empty ''p'' ''r'')\<lparr>tasks := [(mk_task ''write'' ''W'')\<lparr>status := FAILED\<rparr>,
     (mk_task ''write_tests'' ''T'')\<lparr>status := COMPLETED\<rparr>]\<rparr>) = []"
  by (simp add: fatally_failed_task_ids_def has_live_replacement_def named_replacement_def stands_in_def same_assignee_def mk_task_def plan_empty_def)

end
