(* ===== verification/Sequential_Run.thy ===== *)
theory Sequential_Run
  imports Reporting Drift_Classifiers Sequential_Schedule
begin

text \<open>
  The run loop \<open>SequentialExecutor.run\<close> of \<open>src/goldfive/executors/sequential.py\<close> with the control helpers of
  \<open>src/goldfive/executors/_shared.py\<close> and the goal gate of \<open>src/goldfive/results.py\<close>: controls before a task, the choice of
  the task, the agent's turn raced against the control channel, the settling of its result, the verdict on the run.

  What happens while the loop waits is a script: for one iteration a \<open>round_script\<close> lists what arrives on the channel, what
  agents and background handlers do, when the loop gets to look at the channel, how the turn ends and what the planner
  answers. A list of scripts that ends before the run does leaves the run unfinished, and the loop makes no other choice. The
  clock enters as two answers: that a deadline has passed, and that a new deadline lies before the current one. Neither the loop nor an
  agent's turn is cancelled from outside.
\<close>

section \<open>Environment and scripts\<close>

record exec_config =
  max_task_invocations :: "int option"
  max_retries_per_task_lineage :: int
  fail_fast :: bool

text \<open>\<open>predicate_of\<close> is \<open>Goal.success_predicate\<close>: the text of what it raises, or its truth value.\<close>

record exec_env =
  tool_ctx :: tool_env
  tool_list :: "tool list"
  shuffle_ids :: "string list \<Rightarrow> string list"
  detectors :: "string list"
  show_seconds :: "pyfloat \<Rightarrow> string"
  exc_text :: "py_error \<Rightarrow> string"
  predicate_of :: "Goal \<Rightarrow> (session \<Rightarrow> string + bool) option"

text \<open>
  \<open>Receives\<close> is the loop's look at the channel, its flag the second answer of the clock; \<open>Collides\<close> such a look in the very step in which
  the agent's turn ends.
\<close>

datatype happening = Acts run_event | Arrives ControlMessage | Closes | Receives bool | Collides | Expires

text \<open>What happens while the planner works on the refine of an observation, and its answer.\<close>

type_synonym planner_turn = "run_event list \<times> refine_answer"

record round_script =
  while_paused :: "happening list"
  steered_before :: planner_turn
  during :: "happening list"
  ending :: "string + InvocationResult option"
  steered_during :: planner_turn
  judged :: planner_turn

record exec_state =
  live :: run_state
  dispatch_ordered :: bool
  invocations :: int
  lineage_invocations :: "string \<Rightarrow> int"
  last_plan :: "string \<times> int"

definition act :: "exec_env \<Rightarrow> run_event \<Rightarrow> run_state \<Rightarrow> run_state" where
  "act en = run_do (tool_ctx en) (tool_list en) (shuffle_ids en)"

definition on_world :: "(world \<Rightarrow> world) \<Rightarrow> exec_state \<Rightarrow> exec_state" where
  "on_world f x = x\<lparr>live := with_world (f (run_world (live x))) (live x)\<rparr>"

definition try_world :: "(world \<Rightarrow> py_error + world) \<Rightarrow> exec_state \<Rightarrow> py_error + exec_state" where
  "try_world f x = ebind (f (run_world (live x))) (\<lambda>w. Inr (on_world (\<lambda>_. w) x))"

definition current_plan :: "plan \<Rightarrow> exec_state \<Rightarrow> plan" where
  "current_plan p x = (case session_plan (sess (run_world (live x))) of Some q \<Rightarrow> q | None \<Rightarrow> p)"

section \<open>Observations\<close>

text \<open>\<open>drift.observe\<close>, awaited to its end: the exception it raises, if any, and the state.\<close>

definition with_obs :: "observer \<Rightarrow> run_state \<Rightarrow> run_state" where
  "with_obs b s = s\<lparr>seat := (seat s)\<lparr>obs := b\<rparr>\<rparr>"

definition observe_through :: "exec_env \<Rightarrow> observed \<Rightarrow> planner_turn \<Rightarrow> exec_state \<Rightarrow> py_error option \<times> exec_state" where
  "observe_through en e pt x =
     (let (d, emitted, w) = observe_head (detectors en) e (dispatch_ordered x) (run_world (live x));
          x = on_world (\<lambda>_. w) (x\<lparr>dispatch_ordered := emitted\<rparr>)
      in case d of
           None \<Rightarrow> (None, x)
         | Some d \<Rightarrow>
             (case handle_drift d (obs (seat (live x))) of
                Inl err \<Rightarrow> (Some err, x)
              | Inr (None, b) \<Rightarrow> (None, x\<lparr>live := with_obs b (live x)\<rparr>)
              | Inr (Some fr, b) \<Rightarrow>
                  (let s = fold (act en) (fst pt) (with_obs b (live x))
                   in case resume_refine fr (snd pt) (obs (seat s)) of
                        Inl err \<Rightarrow> (Some err, x\<lparr>live := s\<rparr>)
                      | Inr (_, b) \<Rightarrow> (None, x\<lparr>live := with_obs b s\<rparr>))))"

definition apply_steer :: "exec_env \<Rightarrow> ControlMessage \<Rightarrow> planner_turn \<Rightarrow> exec_state \<Rightarrow> exec_state" where
  "apply_steer en m pt x = snd (observe_through en (MessageSeen m) pt x)"

definition emit_plain_drift :: "DriftKind \<Rightarrow> DriftSeverity \<Rightarrow> string \<Rightarrow> string \<Rightarrow> world \<Rightarrow> world" where
  "emit_plain_drift k sev detail tid w =
     emit_new (DriftDetected \<lparr>dd_kind = k, dd_severity = sev, dd_detail = detail, dd_task = tid, dd_agent = [],
       dd_observed_revision = 0, dd_authored_by = [], dd_suppressed = False, dd_id = [], dd_annotation = [], dd_trigger_input = [],
       dd_condition = [], dd_lifecycle = [], dd_prev_severity = None\<rparr>) w"

section \<open>Controls before a task\<close>

text \<open>The outcomes of the drained messages: the reason and prefix of a cancel, or the steer, whether to pause, the escalation.\<close>

fun scan_outcomes ::
  "ControlOutcome list \<Rightarrow> ControlMessage option \<Rightarrow> bool \<Rightarrow> ControlMessage option \<Rightarrow>
   (string \<times> string) + ControlMessage option \<times> bool \<times> ControlMessage option" where
  "scan_outcomes [] steer paused pm = Inr (steer, paused, pm)"
| "scan_outcomes (oc # ocs) steer paused pm =
     (if oc_cancel_run oc then Inl (oc_cancel_reason oc, oc_cancel_prefix oc)
      else
        (let steer = (if oc_steer oc \<noteq> None then oc_steer oc else steer);
             pm = (if oc_request_pause oc \<and> oc_goldfive_pause oc \<noteq> None then oc_goldfive_pause oc else pm);
             paused = (paused \<or> oc_request_pause oc)
         in if oc_request_resume oc then scan_outcomes ocs steer False None else scan_outcomes ocs steer paused pm))"

datatype pre = Proceeds "ControlMessage option" | CancelsRun string | StillPaused

definition stash_prefix :: "string \<Rightarrow> run_state \<Rightarrow> run_state" where
  "stash_prefix q s = (if q = [] then s else with_obs ((obs (seat s))\<lparr>last_cancel_reason_prefix := q\<rparr>) s)"

definition or_default_reason :: "string \<Rightarrow> string" where
  "or_default_reason r = (if r \<noteq> [] then r else ''cancelled by control'')"

text \<open>
  A \<open>receive\<close> reads \<open>_closed\<close> when it starts; once it waits on the inbox, closing the channel does not wake it. \<open>hears\<close> is the first
  look, \<open>take_message\<close> the return from the wait.
\<close>

definition hears :: "run_state \<Rightarrow> bool" where
  "hears s = (case control_channel (obs (seat s)) of None \<Rightarrow> False | Some c \<Rightarrow> \<not> closed c)"

definition take_message :: "run_state \<Rightarrow> (ControlMessage \<times> run_state) option" where
  "take_message s =
     (case control_channel (obs (seat s)) of
        None \<Rightarrow> None
      | Some c \<Rightarrow> (case inbox c of [] \<Rightarrow> None | m # ms \<Rightarrow> Some (m, on_channel (\<lambda>c. c\<lparr>inbox := ms\<rparr>) s)))"

definition dispatch_acked :: "exec_env \<Rightarrow> ControlMessage \<Rightarrow> run_state \<Rightarrow> py_error + ControlOutcome \<times> run_state" where
  "dispatch_acked en m s = ebind (dispatch_control (shuffle_ids en) m s) (\<lambda>(oc, s). Inr (oc, on_channel (ack (oc_ack oc)) s))"

definition tightened ::
  "exec_env \<Rightarrow> bool \<Rightarrow> ControlOutcome \<Rightarrow> pyfloat option \<times> ControlMessage option \<Rightarrow> py_error + pyfloat option \<times> ControlMessage option" where
  "tightened en sooner oc cur =
     (case oc_goldfive_pause oc of
        None \<Rightarrow> Inr cur
      | Some g \<Rightarrow> ebind (pause_deadline_s (parse_float (tool_ctx en)) (Some g)) (\<lambda>d.
          Inr (if d \<noteq> None \<and> (fst cur = None \<or> sooner) then (d, Some g) else cur)))"

fun paused_loop ::
  "exec_env \<Rightarrow> happening list \<Rightarrow> pyfloat option \<times> ControlMessage option \<Rightarrow> ControlMessage option \<Rightarrow> run_state \<Rightarrow>
   py_error + pre \<times> run_state" where
  "paused_loop en [] cur steer s = Inr (StillPaused, s)"
| "paused_loop en (Acts e # hs) cur steer s = paused_loop en hs cur steer (act en e s)"
| "paused_loop en (Arrives m # hs) cur steer s = paused_loop en hs cur steer (on_channel (send m) s)"
| "paused_loop en (Closes # hs) cur steer s = paused_loop en hs cur steer (on_channel close s)"
| "paused_loop en (Collides # hs) cur steer s = paused_loop en hs cur steer s"
| "paused_loop en (Expires # hs) cur steer s =
     (case fst cur of
        None \<Rightarrow> paused_loop en hs cur steer s
      | Some d \<Rightarrow> (let (reason, w) = abort_expired_pause (snd cur) (show_seconds en d) (run_world s)
                   in Inr (CancelsRun reason, with_world w s)))"
| "paused_loop en (Receives sooner # hs) cur steer s =
     (case take_message s of
        None \<Rightarrow> paused_loop en hs cur steer s
      | Some (m, s) \<Rightarrow>
          ebind (dispatch_acked en m s) (\<lambda>(oc, s).
          if oc_cancel_run oc then Inr (CancelsRun (or_default_reason (oc_cancel_reason oc)), stash_prefix (oc_cancel_prefix oc) s)
          else
            (let steer = (if oc_steer oc \<noteq> None then oc_steer oc else steer);
                 steer = (if oc_goldfive_steer oc \<noteq> None then oc_goldfive_steer oc else steer)
             in ebind (tightened en sooner oc cur) (\<lambda>cur.
                if oc_request_resume oc \<or> oc_steer oc \<noteq> None \<or> oc_goldfive_steer oc \<noteq> None \<or> oc_rewind oc \<noteq> [] \<or> \<not> hears s
                then Inr (Proceeds steer, s) else paused_loop en hs cur steer s))))"

definition apply_pre_task_controls :: "exec_env \<Rightarrow> happening list \<Rightarrow> run_state \<Rightarrow> py_error + pre \<times> run_state" where
  "apply_pre_task_controls en hs s =
     (if control_channel (obs (seat s)) = None then Inr (Proceeds None, s)
      else
        ebind (drain_controls (shuffle_ids en) s) (\<lambda>(ocs, s).
        case scan_outcomes ocs None False None of
          Inl (reason, q) \<Rightarrow> Inr (CancelsRun (or_default_reason reason), stash_prefix q s)
        | Inr (steer, paused, pm) \<Rightarrow>
            ebind (pause_deadline_s (parse_float (tool_ctx en)) pm) (\<lambda>d.
            if paused \<and> hears s then paused_loop en hs (d, pm) steer s else Inr (Proceeds steer, s))))"

section \<open>The agent's turn\<close>

datatype turn_end = Result "InvocationResult option" | AdapterError string | Interrupted string | Steered ControlMessage

text \<open>The turn while the loop also listens on the channel; a channel found closed is no longer listened to.\<close>

fun attend ::
  "exec_env \<Rightarrow> happening list \<Rightarrow> bool \<Rightarrow> run_state \<Rightarrow> py_error + turn_end option \<times> run_state" where
  "attend en [] listening s = Inr (None, s)"
| "attend en (Acts e # hs) listening s = attend en hs listening (act en e s)"
| "attend en (Arrives m # hs) listening s = attend en hs listening (on_channel (send m) s)"
| "attend en (Closes # hs) listening s = attend en hs listening (on_channel close s)"
| "attend en (Expires # hs) listening s = attend en hs listening s"
| "attend en (Collides # hs) listening s =
     (if \<not> listening then attend en hs listening s
      else case take_message s of None \<Rightarrow> attend en hs listening s | Some (_, s) \<Rightarrow> Inr (None, s))"
| "attend en (Receives sooner # hs) listening s =
     (if \<not> listening then attend en hs listening s
      else case take_message s of
        None \<Rightarrow> attend en hs listening s
      | Some (m, s) \<Rightarrow>
          ebind (dispatch_acked en m s) (\<lambda>(oc, s).
          if oc_cancel_run oc
          then Inr (Some (Interrupted (or_default_reason (oc_cancel_reason oc))), stash_prefix (oc_cancel_prefix oc) s)
          else case oc_steer oc of
                 Some sm \<Rightarrow> Inr (Some (Steered sm), with_obs (write_adapter_cancel_reason ''user_steer'' (obs (seat s))) s)
               | None \<Rightarrow> attend en hs (hears s) s))"

definition invoke_with_control ::
  "exec_env \<Rightarrow> happening list \<Rightarrow> string + InvocationResult option \<Rightarrow> run_state \<Rightarrow> py_error + turn_end \<times> run_state" where
  "invoke_with_control en hs fin s =
     ebind (attend en hs (hears s) s) (\<lambda>(x, s).
     Inr (case x of Some i \<Rightarrow> i | None \<Rightarrow> (case fin of Inl exc \<Rightarrow> AdapterError exc | Inr r \<Rightarrow> Result r), s))"

definition mark_cancelled_if_live :: "string \<Rightarrow> string \<Rightarrow> world \<Rightarrow> world" where
  "mark_cancelled_if_live tid creason w =
     (case session_plan (sess w) of
        None \<Rightarrow> w
      | Some p \<Rightarrow>
          (case find (\<lambda>t. task_id t = tid) (tasks p) of
             None \<Rightarrow> w
           | Some t \<Rightarrow>
               if status t \<in> TERMINAL_TASK_STATUSES then w
               else case transition tid CANCELLED ''cancelled by control''
                           (if creason \<noteq> [] then creason else ''user_cancel:cancelled_by_control'') ''other'' w of
                      Inl _ \<Rightarrow> w | Inr w' \<Rightarrow> w'))"

definition steer_cancel_reason_prefix :: "ControlMessage \<Rightarrow> string" where
  "steer_cancel_reason_prefix m =
     (let ann = str_or_empty (jget (msg_payload m) ''annotation_id'' (JStr []))
      in ''user_steer:'' @ (if ann \<noteq> [] then ann else if msg_id m \<noteq> [] then msg_id m else ''steer''))"

section \<open>One iteration\<close>

datatype progress = Again | Ended | Aborts string | Unfinished

definition note_swap :: "plan \<Rightarrow> exec_state \<Rightarrow> exec_state" where
  "note_swap p x =
     (if (plan_id p, revision_index p) = last_plan x then x
      else (on_world (emit_new (PlanSwapSeen p (revision_trigger_event_id p))) x)\<lparr>last_plan := (plan_id p, revision_index p)\<rparr>)"

definition lineage_detail :: "exec_config \<Rightarrow> string \<Rightarrow> int \<Rightarrow> string" where
  "lineage_detail ec root n =
     ''retry-lineage cap reached: '' @ show_int n @ '' invocations already spent on lineage root '' @ [char_of (39::nat)] @ root @
     [char_of (39::nat)] @ '' (cap='' @ show_int (max_retries_per_task_lineage ec) @ '')''"

definition refuse_lineage :: "exec_config \<Rightarrow> task \<Rightarrow> exec_state \<Rightarrow> py_error + progress \<times> exec_state" where
  "refuse_lineage ec t x =
     (let root = lineage_root (task_id t)
      in ebind (try_world (transition (task_id t) FAILED (lineage_detail ec root (lineage_invocations x root)) [] ''other'') x) (\<lambda>x.
         Inr (if fail_fast ec
              then Aborts (''task '' @ task_id t @ '' skipped: retry-lineage cap ('' @ show_int (max_retries_per_task_lineage ec) @
                '') reached for lineage root '' @ [char_of (39::nat)] @ root @ [char_of (39::nat)])
              else Again, x)))"

definition tracked_status :: "plan \<Rightarrow> string \<Rightarrow> exec_state \<Rightarrow> TaskStatus" where
  "tracked_status p tid x =
     (case find (\<lambda>t. task_id t = tid) (tasks (current_plan p x)) of Some t \<Rightarrow> status t | None \<Rightarrow> PENDING)"

definition observe_result :: "exec_env \<Rightarrow> string \<Rightarrow> InvocationResult option \<Rightarrow> planner_turn \<Rightarrow> exec_state \<Rightarrow> exec_state" where
  "observe_result en tid r pt x =
     (case r of
        None \<Rightarrow> x
      | Some res \<Rightarrow>
          (let x = (case observe_through en (ResultSeen res) pt x of
                      (None, x) \<Rightarrow> x
                    | (Some err, x) \<Rightarrow>
                        on_world (emit_plain_drift CUSTOM INFO (''drift_pipeline_failed: '' @ exc_text en err) tid) x);
               out = (if res_full_text res \<noteq> [] then res_full_text res else res_text res)
           in if res_error res = None \<and> out \<noteq> []
              then on_world (on_sess (\<lambda>s. s\<lparr>completed_outputs := (completed_outputs s)(tid \<mapsto> out)\<rparr>)) x else x))"

definition auto_transition :: "string \<Rightarrow> InvocationResult option \<Rightarrow> world \<Rightarrow> py_error + world" where
  "auto_transition tid r w =
     (case r of
        Some res \<Rightarrow>
          (case res_error res of
             Some exc \<Rightarrow> transition tid FAILED exc [] ''other'' w
           | None \<Rightarrow> transition tid COMPLETED (res_text res) [] ''other'' w)
      | None \<Rightarrow> transition tid COMPLETED [] [] ''other'' w)"

definition after_failure :: "exec_config \<Rightarrow> plan \<Rightarrow> string \<Rightarrow> exec_state \<Rightarrow> progress" where
  "after_failure ec p tid x =
     (if \<not> fail_fast ec then Again
      else
        (let q = current_plan p x; replaced = (case find (\<lambda>t. task_id t = tid) (tasks q) of None \<Rightarrow> False | Some f \<Rightarrow> has_live_replacement q f)
         in if replaced \<or> \<not> is_active_steering (cfg (run_world (live x))) then Again else Aborts (''task '' @ tid @ '' failed'')))"

definition settle_result ::
  "exec_env \<Rightarrow> exec_config \<Rightarrow> plan \<Rightarrow> string \<Rightarrow> InvocationResult option \<Rightarrow> planner_turn \<Rightarrow> exec_state \<Rightarrow>
   py_error + progress \<times> exec_state" where
  "settle_result en ec p tid r pt x =
     (let x = observe_result en tid r pt x
      in ebind (if tracked_status p tid x \<in> {PENDING, RUNNING} then try_world (auto_transition tid r) x else Inr x) (\<lambda>x.
         Inr (if tracked_status p tid x = FAILED then after_failure ec p tid x else Again, x)))"

fun after_turn ::
  "exec_env \<Rightarrow> exec_config \<Rightarrow> round_script \<Rightarrow> plan \<Rightarrow> string \<Rightarrow> turn_end \<Rightarrow> exec_state \<Rightarrow> py_error + progress \<times> exec_state" where
  "after_turn en ec sc p tid (Interrupted reason) x =
     (let b = obs (seat (live x)); x = x\<lparr>live := with_obs (b\<lparr>last_cancel_reason_prefix := []\<rparr>) (live x)\<rparr>
      in Inr (Aborts (or_default_reason reason), on_world (mark_cancelled_if_live tid (last_cancel_reason_prefix b)) x))"
| "after_turn en ec sc p tid (AdapterError exc) x = Inr (Aborts (''adapter.invoke raised for task='' @ tid @ '': '' @ exc), x)"
| "after_turn en ec sc p tid (Steered m) x =
     Inr (Again, apply_steer en m (steered_during sc) (on_world (mark_cancelled_if_live tid (steer_cancel_reason_prefix m)) x))"
| "after_turn en ec sc p tid (Result r) x = settle_result en ec p tid r (judged sc) x"

definition count_invocation :: "task \<Rightarrow> exec_state \<Rightarrow> exec_state" where
  "count_invocation t x =
     (let root = lineage_root (task_id t)
      in (on_world (on_sess (\<lambda>s. s\<lparr>current_task_id := task_id t\<rparr>)) x)
           \<lparr>invocations := invocations x + 1, lineage_invocations := (lineage_invocations x)(root := lineage_invocations x root + 1)\<rparr>)"

definition invoke_task ::
  "exec_env \<Rightarrow> exec_config \<Rightarrow> round_script \<Rightarrow> plan \<Rightarrow> task \<Rightarrow> exec_state \<Rightarrow> py_error + progress \<times> exec_state" where
  "invoke_task en ec sc p t x =
     (let x = count_invocation t x
      in ebind (if status t = PENDING then try_world (transition (task_id t) RUNNING [] [] ''other'') x else Inr x) (\<lambda>x.
         ebind (invoke_with_control en (during sc) (ending sc) (live x)) (\<lambda>(fin, s).
         after_turn en ec sc p (task_id t) fin (x\<lparr>live := s\<rparr>))))"

definition take_task ::
  "exec_env \<Rightarrow> exec_config \<Rightarrow> round_script \<Rightarrow> plan \<Rightarrow> exec_state \<Rightarrow> py_error + progress \<times> exec_state" where
  "take_task en ec sc p x =
     ebind (pick_next_task (current_plan p x)) (\<lambda>t.
     case t of
       None \<Rightarrow> Inr (Ended, x)
     | Some t \<Rightarrow>
         if max_retries_per_task_lineage ec \<le> lineage_invocations x (lineage_root (task_id t)) then refuse_lineage ec t x
         else invoke_task en ec sc p t x)"

definition steer_first :: "exec_env \<Rightarrow> round_script \<Rightarrow> plan \<Rightarrow> ControlMessage option \<Rightarrow> exec_state \<Rightarrow> exec_state" where
  "steer_first en sc p steer x =
     (let x = (case steer of None \<Rightarrow> x | Some m \<Rightarrow> apply_steer en m (steered_before sc) x) in note_swap (current_plan p x) x)"

definition run_round ::
  "exec_env \<Rightarrow> exec_config \<Rightarrow> round_script \<Rightarrow> plan \<Rightarrow> exec_state \<Rightarrow> py_error + progress \<times> exec_state" where
  "run_round en ec sc p x =
     ebind (apply_pre_task_controls en (while_paused sc) (live x)) (\<lambda>(pre, s).
     let x = x\<lparr>live := s\<rparr>
     in case pre of
          StillPaused \<Rightarrow> Inr (Unfinished, x)
        | CancelsRun reason \<Rightarrow> Inr (Aborts reason, x)
        | Proceeds steer \<Rightarrow> take_task en ec sc p (steer_first en sc p steer x))"

section \<open>The verdict\<close>

record ExecutionOutcome =
  exec_success :: bool
  exec_reason :: string

definition drain_at_boundary :: "exec_env \<Rightarrow> run_event list \<Rightarrow> exec_state \<Rightarrow> exec_state" where
  "drain_at_boundary en es x = on_world finalize_signal_ledger (x\<lparr>live := fold (act en) es (live x)\<rparr>)"

definition abort_run :: "exec_env \<Rightarrow> run_event list \<Rightarrow> string \<Rightarrow> exec_state \<Rightarrow> ExecutionOutcome \<times> exec_state" where
  "abort_run en es reason x =
     (let reason = (if reason \<noteq> [] then reason else ''run aborted'')
      in (\<lparr>exec_success = False, exec_reason = reason\<rparr>, on_world (emit_new (RunAborted reason)) (drain_at_boundary en es x)))"

definition outcome_summary :: "session \<Rightarrow> string" where
  "outcome_summary s =
     (case session_plan s of
        None \<Rightarrow> ''run completed''
      | Some p \<Rightarrow> show_nat (length (filter (\<lambda>t. status t = COMPLETED) (tasks p))) @ ''/'' @ show_nat (length (tasks p)) @ '' tasks completed'')"

fun unmet_goal :: "exec_env \<Rightarrow> session \<Rightarrow> Goal list \<Rightarrow> string option" where
  "unmet_goal en s [] = None"
| "unmet_goal en s (g # gs) =
     (case predicate_of en g of
        None \<Rightarrow> unmet_goal en s gs
      | Some pred \<Rightarrow>
          (let nm = (if goal_summary g \<noteq> [] then goal_summary g else if goal_id g \<noteq> [] then goal_id g else ''<unnamed>''); q = [char_of (39::nat)]
           in case pred s of
                Inl exc \<Rightarrow> Some (''goal '' @ q @ nm @ q @ '' predicate raised: '' @ exc)
              | Inr True \<Rightarrow> unmet_goal en s gs
              | Inr False \<Rightarrow> Some (''goal '' @ q @ nm @ q @ '' unmet'')))"

definition evaluate_goal_predicates :: "exec_env \<Rightarrow> session \<Rightarrow> string option" where
  "evaluate_goal_predicates en s = unmet_goal en s (goals s)"

definition orphan_reason :: "string list \<Rightarrow> string" where
  "orphan_reason is =
     show_nat (length is) @ '' task(s) left PENDING with no eligible next task (orphaned by plan revision failure): '' @ join '', '' is"

fun cancel_orphans :: "string list \<Rightarrow> world \<Rightarrow> py_error + world" where
  "cancel_orphans [] w = Inr w"
| "cancel_orphans (i # is) w =
     ebind (transition i CANCELLED ''orphaned by plan revision failure'' ''run_aborted:orphaned by plan revision failure'' ''other'' w)
       (cancel_orphans is)"

definition judge_plan ::
  "exec_env \<Rightarrow> exec_config \<Rightarrow> run_event list \<Rightarrow> plan \<Rightarrow> exec_state \<Rightarrow> py_error + ExecutionOutcome \<times> exec_state" where
  "judge_plan en ec es p x =
     (let q = current_plan p x; fatal = fatally_failed_task_ids q; orphaned = pending_task_ids q; w = run_world (live x)
      in if fatal \<noteq> [] \<and> \<not> fail_fast ec \<and> is_active_steering (cfg w)
         then Inr (abort_run en es (''one or more tasks failed without a live replacement (fail_fast=False): '' @
                join '', '' (filter (\<lambda>i. i \<noteq> []) fatal)) x)
         else if orphaned \<noteq> []
         then ebind (try_world (cancel_orphans orphaned) x) (\<lambda>x.
              let x = on_world (\<lambda>w. emit_plain_drift PLAN_DIVERGENCE CRITICAL (orphan_reason orphaned) (current_task_id (sess w)) w) x
              in Inr (abort_run en es (orphan_reason orphaned) x))
         else case evaluate_goal_predicates en (sess w) of
                Some unmet \<Rightarrow> Inr (abort_run en es unmet x)
              | None \<Rightarrow>
                  (let x = drain_at_boundary en es x
                   in Inr (\<lparr>exec_success = True, exec_reason = []\<rparr>,
                        on_world (\<lambda>w. emit_new (RunCompleted (outcome_summary (sess w))) w) x)))"

definition finish ::
  "exec_env \<Rightarrow> exec_config \<Rightarrow> run_event list \<Rightarrow> plan \<Rightarrow> exec_state \<Rightarrow> py_error + ExecutionOutcome \<times> exec_state" where
  "finish en ec es p x =
     (let q = current_plan p x
      in ebind (pick_next_task q) (\<lambda>remaining.
         case (max_task_invocations ec, remaining) of
           (Some n, Some t) \<Rightarrow>
             if n \<le> invocations x
             then Inr (abort_run en es (''exhausted max_task_invocations='' @ show_int n @ '' with pending task '' @ task_id t) x)
             else judge_plan en ec es p x
         | _ \<Rightarrow> judge_plan en ec es p x))"

section \<open>The run\<close>

text \<open>No outcome means that the run still waits for what the scripts do not tell.\<close>

fun run_loop ::
  "exec_env \<Rightarrow> exec_config \<Rightarrow> run_event list \<Rightarrow> plan \<Rightarrow> round_script list \<Rightarrow> exec_state \<Rightarrow>
   py_error + ExecutionOutcome option \<times> exec_state" where
  "run_loop en ec es p scs x =
     (if max_task_invocations ec \<noteq> None \<and> the (max_task_invocations ec) \<le> invocations x
      then ebind (finish en ec es p x) (\<lambda>(o', x). Inr (Some o', x))
      else case scs of
        [] \<Rightarrow> Inr (None, x)
      | sc # scs \<Rightarrow>
          ebind (run_round en ec sc p x) (\<lambda>(pr, x).
          case pr of
            Again \<Rightarrow> run_loop en ec es p scs x
          | Ended \<Rightarrow> ebind (finish en ec es p x) (\<lambda>(o', x). Inr (Some o', x))
          | Aborts reason \<Rightarrow> (let (o', x) = abort_run en es reason x in Inr (Some o', x))
          | Unfinished \<Rightarrow> Inr (None, x)))"

declare run_loop.simps [simp del]

definition begin_run :: "plan \<Rightarrow> run_state \<Rightarrow> py_error + exec_state" where
  "begin_run p s =
     ebind (set_session_plan True (strict_ownership (cfg (run_world s))) (sess (run_world s)) (Some p)) (\<lambda>se.
     Inr \<lparr>live = with_world ((run_world s)\<lparr>sess := se\<rparr>) s, dispatch_ordered = False, invocations = 0, lineage_invocations = (\<lambda>_. 0),
       last_plan = (plan_id p, revision_index p)\<rparr>)"

definition run_sequential ::
  "exec_env \<Rightarrow> exec_config \<Rightarrow> run_event list \<Rightarrow> plan \<Rightarrow> round_script list \<Rightarrow> run_state \<Rightarrow>
   py_error + ExecutionOutcome option \<times> exec_state" where
  "run_sequential en ec es p scs s = ebind (begin_run p s) (run_loop en ec es p scs)"

section \<open>Frames\<close>

lemma with_obs_simps [simp]:
  "obs (seat (with_obs b s)) = b" "run_world (with_obs b s) = core b" "with_obs (obs (seat s)) s = s"
  by (simp_all add: with_obs_def)

lemma with_world_pol [simp]: "pol (obs (seat (with_world w s))) = pol (obs (seat s))"
  by (simp add: with_world_def with_core_def)

lemma tool_seat_more:
  assumes "handle_tool ev u args s = Inr (r, s')"
  shows "pol (obs (seat s')) = pol (obs (seat s))" "control_channel (obs (seat s')) = control_channel (obs (seat s))"
  using assms
  by (cases u; auto simp: in_world_def ebind_Inr_iff handle_plan_divergence_def handle_awaiting_approval_def await_decision_def
      register_waiter_def Let_def split: option.splits prod.splits if_splits)+

lemma on_world_simps [simp]:
  "run_world (live (on_world f x)) = f (run_world (live x))" "invocations (on_world f x) = invocations x"
  "lineage_invocations (on_world f x) = lineage_invocations x" "last_plan (on_world f x) = last_plan x"
  "dispatch_ordered (on_world f x) = dispatch_ordered x"
  by (simp_all add: on_world_def)

lemma finalize_plan [simp]:
  "session_plan (sess (finalize_signal_ledger w)) = session_plan (sess w)" "cfg (finalize_signal_ledger w) = cfg w"
  "goals (sess (finalize_signal_ledger w)) = goals (sess w)"
  by (auto simp: finalize_signal_ledger_def emit_signal_outcome_def emit_new_def next_sequence_def on_sess_def Let_def
      foldl_frame [of "\<lambda>w. session_plan (sess w)"] foldl_frame [of cfg] foldl_frame [of "\<lambda>w. goals (sess w)"] split: sum.split)

lemma emit_new_logs: "has_sinks (cfg w) \<Longrightarrow> \<exists>e. log (emit_new q w) = log w @ [e] \<and> ev_payload e = q"
  by (simp add: emit_new_def next_sequence_def Let_def)

lemma finish_cases:
  assumes "finish en ec es p x = Inr (oc, x')"
  obtains (judged) "judge_plan en ec es p x = Inr (oc, x')"
  | (spent) t reason where "pick_next_task (current_plan p x) = Inr (Some t)" "abort_run en es reason x = (oc, x')"
proof -
  from assms obtain r where r: "pick_next_task (current_plan p x) = Inr r"
    "(case (max_task_invocations ec, r) of
       (Some n, Some t) \<Rightarrow> if n \<le> invocations x
         then Inr (abort_run en es (''exhausted max_task_invocations='' @ show_int n @ '' with pending task '' @ task_id t) x)
         else judge_plan en ec es p x
     | _ \<Rightarrow> judge_plan en ec es p x) = Inr (oc, x')"
    by (auto simp: finish_def Let_def ebind_Inr_iff)
  show thesis
  proof (cases "judge_plan en ec es p x = Inr (oc, x')")
    case False
    with r(2) obtain t reason where "r = Some t" "abort_run en es reason x = (oc, x')"
      by (auto split: option.splits if_splits)
    with r(1) show ?thesis by (auto intro: spent)
  qed (rule judged)
qed

section \<open>The verdict, exactly\<close>

definition verdict_event :: "ExecutionOutcome \<Rightarrow> payload \<Rightarrow> bool" where
  "verdict_event oc q \<longleftrightarrow> (if exec_success oc then \<exists>t. q = RunCompleted t else q = RunAborted (exec_reason oc))"

definition announced :: "ExecutionOutcome \<Rightarrow> exec_state \<Rightarrow> bool" where
  "announced oc x \<longleftrightarrow> \<not> has_sinks (cfg (run_world (live x))) \<or>
     (\<exists>es e. log (run_world (live x)) = es @ [e] \<and> verdict_event oc (ev_payload e))"

lemma aborted: "abort_run en es reason x = (oc, x') \<Longrightarrow> \<not> exec_success oc \<and> announced oc x'"
  using emit_new_logs [of "run_world (live (drain_at_boundary en es x))" "RunAborted (if reason \<noteq> [] then reason else ''run aborted'')"]
  by (auto simp: abort_run_def announced_def verdict_event_def Let_def)

lemma judged_verdict:
  assumes "judge_plan en ec es p x = Inr (oc, x')"
  shows "announced oc x' \<and> (exec_success oc \<longleftrightarrow>
    pending_task_ids (current_plan p x) = [] \<and> evaluate_goal_predicates en (sess (run_world (live x))) = None \<and>
    (fatally_failed_task_ids (current_plan p x) = [] \<or> fail_fast ec \<or> \<not> is_active_steering (cfg (run_world (live x)))))"
proof -
  let ?q = "current_plan p x"
  consider (fatal) "fatally_failed_task_ids ?q \<noteq> [] \<and> \<not> fail_fast ec \<and> is_active_steering (cfg (run_world (live x)))"
    | (orphans) "\<not> (fatally_failed_task_ids ?q \<noteq> [] \<and> \<not> fail_fast ec \<and> is_active_steering (cfg (run_world (live x))))"
        "pending_task_ids ?q \<noteq> []"
    | (goals) "\<not> (fatally_failed_task_ids ?q \<noteq> [] \<and> \<not> fail_fast ec \<and> is_active_steering (cfg (run_world (live x))))"
        "pending_task_ids ?q = []" by blast
  then show ?thesis
  proof cases
    case fatal
    with assms show ?thesis by (auto simp: judge_plan_def Let_def dest: aborted)
  next
    case orphans
    with assms show ?thesis by (auto simp: judge_plan_def Let_def ebind_Inr_iff dest: aborted)
  next
    case goals
    let ?x = "drain_at_boundary en es x"
    show ?thesis
    proof (cases "evaluate_goal_predicates en (sess (run_world (live x)))")
      case None
      with goals assms have "oc = \<lparr>exec_success = True, exec_reason = []\<rparr>"
        "x' = on_world (\<lambda>w. emit_new (RunCompleted (outcome_summary (sess w))) w) ?x" by (auto simp: judge_plan_def Let_def)
      with goals None emit_new_logs [of "run_world (live ?x)" "RunCompleted (outcome_summary (sess (run_world (live ?x))))"]
      show ?thesis by (auto simp: announced_def verdict_event_def)
    next
      case Some
      with goals assms show ?thesis by (auto simp: judge_plan_def Let_def dest: aborted)
    qed
  qed
qed

lemma picked_pending:
  assumes "ids_ok p" "pick_next_task p = Inr (Some t)"
  shows "task_id t \<in> set (pending_task_ids p)"
  using picked_eligible [OF assms] assms(1) by (force simp: pending_task_ids_def schedulable_def ids_ok_def)

section \<open>What the loop does with messages\<close>

lemma channel_world [simp]: "run_world (on_channel f s) = run_world s"
  by (simp add: on_channel_def)

lemma channel_of_on_channel [simp]: "control_channel (obs (seat (on_channel f s))) = map_option f (control_channel (obs (seat s)))"
  by (simp add: on_channel_def)

lemma took:
  "control_channel (obs (seat s)) = Some c \<Longrightarrow> inbox c = [] \<Longrightarrow>
   take_message (on_channel (send m) s) = Some (m, on_channel (\<lambda>_. c) (on_channel (send m) s))"
  by (simp add: take_message_def send_def on_channel_def)

definition asks_steer :: "ControlMessage \<Rightarrow> ControlOutcome \<Rightarrow> bool" where
  "asks_steer m oc \<longleftrightarrow> oc_steer oc = Some m \<and> \<not> oc_cancel_run oc \<and> \<not> oc_request_pause oc \<and> \<not> oc_request_resume oc \<and>
     control_id (oc_ack oc) = msg_id m \<and> ack_result (oc_ack oc) = ACK_SUCCESS"

lemma steers_drained:
  "list_all (\<lambda>m. msg_kind m = CK_STEER) ms \<Longrightarrow> control_channel (obs (seat s)) = Some (c\<lparr>inbox := ms\<rparr>) \<Longrightarrow>
   \<exists>ocs s'. drain_loop shuffle ms s = Inr (ocs, s') \<and> list_all2 asks_steer ms ocs \<and>
     control_channel (obs (seat s')) = Some (c\<lparr>inbox := [], outbox := outbox c @ map (\<lambda>oc. Some (oc_ack oc)) ocs\<rparr>)"
proof (induction ms arbitrary: s c)
  case Nil
  then show ?case by (auto intro: exI [of _ s])
next
  case (Cons m ms)
  let ?s = "on_channel (\<lambda>c. c\<lparr>inbox := ms\<rparr>) s"
  obtain oc s1 where oc: "dispatch_control shuffle m ?s = Inr (oc, s1)" "asks_steer m oc"
    "control_channel (obs (seat s1)) = control_channel (obs (seat ?s))"
    using Cons.prems(1) by (simp add: dispatch_control_def build_ack_def mk_outcome_def asks_steer_def Let_def)
  have "control_channel (obs (seat (on_channel (ack (oc_ack oc)) s1))) = Some ((c\<lparr>outbox := outbox c @ [Some (oc_ack oc)]\<rparr>)\<lparr>inbox := ms\<rparr>)"
    using oc(3) Cons.prems(2) by (simp add: ack_def)
  from Cons.IH [OF _ this] Cons.prems(1) obtain ocs s' where
    "drain_loop shuffle ms (on_channel (ack (oc_ack oc)) s1) = Inr (ocs, s')" "list_all2 asks_steer ms ocs"
    "control_channel (obs (seat s')) = Some (c\<lparr>inbox := [], outbox := outbox c @ map (\<lambda>oc. Some (oc_ack oc)) (oc # ocs)\<rparr>)" by auto
  with oc show ?case by (intro exI [of _ "oc # ocs"] exI [of _ s']) simp
qed

lemma scan_steers:
  "list_all2 asks_steer ms ocs \<Longrightarrow> scan_outcomes ocs st False pm = Inr (if ms = [] then st else Some (last ms), False, pm)"
  by (induction ms ocs arbitrary: st rule: list_all2_induct) (auto simp: asks_steer_def)

lemma no_deadline [simp]: "pause_deadline_s pf None = Inr None"
  by (simp add: pause_deadline_s_def payload_of_def jget_def)

section \<open>What the loop counts\<close>

definition counts :: "exec_state \<Rightarrow> int \<times> (string \<Rightarrow> int)" where
  "counts x = (invocations x, lineage_invocations x)"

lemma counts_live [simp]: "counts (x\<lparr>live := s\<rparr>) = counts x" "counts (x\<lparr>dispatch_ordered := b\<rparr>) = counts x"
  "counts (x\<lparr>last_plan := l\<rparr>) = counts x" "counts (on_world f x) = counts x"
  by (simp_all add: counts_def)

lemma counts_try [simp]: "try_world f x = Inr x' \<Longrightarrow> counts x' = counts x"
  by (auto simp: try_world_def ebind_Inr_iff)

lemma counts_observe [simp]: "counts (snd (observe_through en e pt x)) = counts x"
  by (auto simp: observe_through_def Let_def split: prod.split option.split sum.split)

lemma counts_steer [simp]: "counts (apply_steer en m pt x) = counts x"
  by (simp add: apply_steer_def)

lemma counts_swap [simp]: "counts (note_swap p x) = counts x"
  by (simp add: note_swap_def)

lemma counts_result [simp]: "counts (observe_result en tid r pt x) = counts x"
proof (cases r)
  case (Some res)
  obtain er x1 where o: "observe_through en (ResultSeen res) pt x = (er, x1)" by fastforce
  then have "counts x1 = counts x" using counts_observe by (metis snd_conv)
  with o Some show ?thesis by (auto simp: observe_result_def Let_def split: option.split)
qed (simp add: observe_result_def)

lemma counts_boundary [simp]: "counts (drain_at_boundary en es x) = counts x"
  by (simp add: drain_at_boundary_def)

lemma counts_abort [simp]: "counts (snd (abort_run en es reason x)) = counts x"
  by (simp add: abort_run_def Let_def)

lemma counts_abort_Inr [simp]: "abort_run en es reason x = (oc, x') \<Longrightarrow> counts x' = counts x"
  by (metis counts_abort snd_conv)

lemma counts_judge: "judge_plan en ec es p x = Inr (oc, x') \<Longrightarrow> counts x' = counts x"
  by (auto simp: judge_plan_def Let_def ebind_Inr_iff split: if_splits option.splits)

lemma counts_finish: "finish en ec es p x = Inr (oc, x') \<Longrightarrow> counts x' = counts x"
  by (erule finish_cases) (auto dest: counts_judge)

lemma counts_settle: "settle_result en ec p tid r pt x = Inr (pr, x') \<Longrightarrow> counts x' = counts x"
  by (auto simp: settle_result_def Let_def ebind_Inr_iff split: if_splits)

lemma counts_refuse: "refuse_lineage ec t x = Inr (pr, x') \<Longrightarrow> counts x' = counts x"
  by (auto simp: refuse_lineage_def Let_def ebind_Inr_iff)

lemma counts_turn: "after_turn en ec sc p tid fin x = Inr (pr, x') \<Longrightarrow> counts x' = counts x"
  by (cases fin) (auto simp: Let_def dest: counts_settle)

lemma counts_invoke: "invoke_task en ec sc p t x = Inr (pr, x') \<Longrightarrow> counts x' = counts (count_invocation t x)"
  by (auto simp: invoke_task_def Let_def ebind_Inr_iff dest: counts_turn split: if_splits)

lemma counts_first [simp]: "counts (steer_first en sc p steer x) = counts x"
  by (simp add: steer_first_def Let_def split: option.split)

definition within_caps :: "exec_config \<Rightarrow> exec_state \<Rightarrow> bool" where
  "within_caps ec x \<longleftrightarrow> (\<forall>root. lineage_invocations x root \<le> max 0 (max_retries_per_task_lineage ec)) \<and>
     (case max_task_invocations ec of None \<Rightarrow> True | Some n \<Rightarrow> invocations x \<le> max 0 n)"

lemma caps_same: "within_caps ec x \<Longrightarrow> counts x' = counts x \<Longrightarrow> within_caps ec x'"
  by (simp add: within_caps_def counts_def cong: option.case_cong)

lemma take_caps:
  assumes "take_task en ec sc p x = Inr (pr, x')" "within_caps ec x"
    "\<not> (max_task_invocations ec \<noteq> None \<and> the (max_task_invocations ec) \<le> invocations x)"
  shows "within_caps ec x'"
proof -
  from assms(1) obtain t where t: "(case t of
        None \<Rightarrow> Inr (Ended, x)
      | Some t \<Rightarrow>
          if max_retries_per_task_lineage ec \<le> lineage_invocations x (lineage_root (task_id t)) then refuse_lineage ec t x
          else invoke_task en ec sc p t x) = Inr (pr, x')"
    unfolding take_task_def ebind_Inr_iff by blast
  consider "counts x' = counts x"
    | u where "lineage_invocations x (lineage_root (task_id u)) < max_retries_per_task_lineage ec"
      "counts x' = counts (count_invocation u x)"
    using t by (auto simp: not_le dest: counts_refuse counts_invoke split: option.splits if_splits)
  then show ?thesis
  proof cases
    case 1
    then show ?thesis by (rule caps_same [OF assms(2)])
  next
    case 2
    with assms(2,3) show ?thesis by (auto simp: within_caps_def counts_def count_invocation_def Let_def split: option.splits)
  qed
qed

lemma round_caps:
  assumes "run_round en ec sc p x = Inr (pr, x')" "within_caps ec x"
    "\<not> (max_task_invocations ec \<noteq> None \<and> the (max_task_invocations ec) \<le> invocations x)"
  shows "within_caps ec x'"
proof -
  have c: "counts (steer_first en sc p steer (x\<lparr>live := s\<rparr>)) = counts x" for steer s by simp
  from assms(1) obtain pre s where pre: "(case pre of
       StillPaused \<Rightarrow> Inr (Unfinished, x\<lparr>live := s\<rparr>)
     | CancelsRun reason \<Rightarrow> Inr (Aborts reason, x\<lparr>live := s\<rparr>)
     | Proceeds steer \<Rightarrow> take_task en ec sc p (steer_first en sc p steer (x\<lparr>live := s\<rparr>))) = Inr (pr, x')"
    unfolding run_round_def ebind_Inr_iff Let_def by (auto split: prod.splits)
  show ?thesis
  proof (cases pre)
    case (Proceeds steer)
    with pre have t: "take_task en ec sc p (steer_first en sc p steer (x\<lparr>live := s\<rparr>)) = Inr (pr, x')" by simp
    show ?thesis
      using c [of steer s] assms(3) by (intro take_caps [OF t] caps_same [OF assms(2) c]) (simp add: counts_def)
  qed (use pre caps_same [OF assms(2) counts_live(1)] in auto)
qed

lemma loop_round:
  assumes "run_loop en ec es p (sc # scs) x = Inr (r, x')"
    "\<not> (max_task_invocations ec \<noteq> None \<and> the (max_task_invocations ec) \<le> invocations x)"
  obtains pr x1 where "run_round en ec sc p x = Inr (pr, x1)"
    "(case pr of
        Again \<Rightarrow> run_loop en ec es p scs x1
      | Ended \<Rightarrow> ebind (finish en ec es p x1) (\<lambda>(o', x). Inr (Some o', x))
      | Aborts reason \<Rightarrow> (let (o', x) = abort_run en es reason x1 in Inr (Some o', x))
      | Unfinished \<Rightarrow> Inr (None, x1)) = Inr (r, x')"
proof -
  let ?F = "\<lambda>(pr, x).
        case pr of
          Again \<Rightarrow> run_loop en ec es p scs x
        | Ended \<Rightarrow> ebind (finish en ec es p x) (\<lambda>(o', x). Inr (Some o', x))
        | Aborts reason \<Rightarrow> (let (o', x) = abort_run en es reason x in Inr (Some o', x))
        | Unfinished \<Rightarrow> Inr (None, x)"
  have "ebind (run_round en ec sc p x) ?F = Inr (r, x')"
    using assms(1) by (subst (asm) run_loop.simps) (simp only: if_not_P [OF assms(2)] list.case)
  then obtain y where "run_round en ec sc p x = Inr y" "?F y = Inr (r, x')" unfolding ebind_Inr_iff by blast
  with that show thesis by (cases y) simp
qed

lemma loop_caps: "run_loop en ec es p scs x = Inr (r, x') \<Longrightarrow> within_caps ec x \<Longrightarrow> within_caps ec x'"
proof (induction scs arbitrary: x)
  case Nil
  then show ?case
    by (subst (asm) run_loop.simps) (auto simp: ebind_Inr_iff split: if_splits dest: counts_finish intro: caps_same)
next
  case (Cons sc scs)
  show ?case
  proof (cases "max_task_invocations ec \<noteq> None \<and> the (max_task_invocations ec) \<le> invocations x")
    case True
    with Cons.prems show ?thesis
      by (subst (asm) run_loop.simps) (auto simp: ebind_Inr_iff dest: counts_finish intro: caps_same)
  next
    case False
    with Cons.prems(1) obtain pr x1 where r: "run_round en ec sc p x = Inr (pr, x1)"
      "(case pr of
          Again \<Rightarrow> run_loop en ec es p scs x1
        | Ended \<Rightarrow> ebind (finish en ec es p x1) (\<lambda>(o', x). Inr (Some o', x))
        | Aborts reason \<Rightarrow> (let (o', x) = abort_run en es reason x1 in Inr (Some o', x))
        | Unfinished \<Rightarrow> Inr (None, x1)) = Inr (r, x')"
      by (rule loop_round)
    have caps: "within_caps ec x1" by (rule round_caps [OF r(1) Cons.prems(2) False])
    show ?thesis
    proof (cases pr)
      case Again
      with r(2) Cons.IH caps show ?thesis by simp
    next
      case Ended
      with r(2) obtain oc where "finish en ec es p x1 = Inr (oc, x')" by (auto simp: ebind_Inr_iff)
      then show ?thesis by (rule caps_same [OF caps counts_finish])
    next
      case (Aborts reason)
      with r(2) have "x' = snd (abort_run en es reason x1)" by (auto split: prod.splits)
      then show ?thesis using caps_same [OF caps counts_abort] by simp
    next
      case Unfinished
      with r(2) caps show ?thesis by simp
    qed
  qed
qed

section \<open>Samples\<close>

definition sample_exec_env :: exec_env where
  "sample_exec_env = \<lparr>tool_ctx = sample_env, tool_list = BUILTIN_REPORTING_TOOLS, shuffle_ids = rev, detectors = [],
     show_seconds = (\<lambda>_. ''1''), exc_text = (\<lambda>_. ''boom''), predicate_of = (\<lambda>_. None)\<rparr>"

definition sample_exec_config :: exec_config where
  "sample_exec_config = \<lparr>max_task_invocations = None, max_retries_per_task_lineage = 3, fail_fast = True\<rparr>"

definition exec_on :: "plan \<Rightarrow> exec_state" where
  "exec_on p = \<lparr>live = idle_run (sample_world\<lparr>sess := (sess sample_world)\<lparr>session_plan := Some p\<rparr>\<rparr>), dispatch_ordered = False,
     invocations = 0, lineage_invocations = (\<lambda>_. 0), last_plan = (plan_id p, revision_index p)\<rparr>"

lemma exec_on_simps [simp]:
  "current_plan p (exec_on p) = p" "session_plan (sess (run_world (live (exec_on p)))) = Some p"
  "control_channel (obs (seat (live (exec_on p)))) = Some channel_init"
  "goals (sess (run_world (live (exec_on p)))) = []" "invocations (exec_on p) = 0" "lineage_invocations (exec_on p) r = 0"
  "last_plan (exec_on p) = (plan_id p, revision_index p)"
  by (simp_all add: exec_on_def current_plan_def sample_world_def mk_session_def)

definition open_plan :: plan where
  "open_plan = (plan_empty ''p'' ''r'')\<lparr>tasks := [(mk_task ''a'' ''A'')\<lparr>status := FAILED\<rparr>, (mk_task ''b'' ''B'')\<lparr>status := BLOCKED\<rparr>]\<rparr>"

lemma open_plan_ok: "ids_ok open_plan" "pending_task_ids open_plan = []"
  by (simp_all add: open_plan_def ids_ok_def pending_task_ids_def mk_task_def)

lemma no_goals: "goals s = [] \<Longrightarrow> evaluate_goal_predicates en s = None"
  by (simp add: evaluate_goal_predicates_def)

lemma finish_total:
  assumes "ids_ok (current_plan p x)" "pending_task_ids (current_plan p x) = []"
  shows "\<exists>oc x'. finish en ec es p x = Inr (oc, x')"
proof -
  obtain r where r: "pick_next_task (current_plan p x) = Inr r" by (rule picked [OF assms(1)])
  with picked_pending [OF assms(1)] assms(2) have "r = None" by (cases r) auto
  with r have "finish en ec es p x = judge_plan en ec es p x" by (simp add: finish_def Let_def split: option.split)
  then show ?thesis using assms(2) by (auto simp: judge_plan_def Let_def split: option.split)
qed

section \<open>Properties\<close>



text \<open>
  Success is not completion. With \<open>fail_fast\<close>, the strict mode, the failures that are left when the loop ends are not looked at, and in
  no mode are \<open>BLOCKED\<close> or \<open>RUNNING\<close> tasks: as long as nothing is \<open>PENDING\<close> and there are no goal predicates the run is
  reported successful, whatever the statuses of its tasks.
\<close>

theorem success_despite_failure:
  assumes "ids_ok p" "session_plan (sess (run_world (live x))) = Some p" "pending_task_ids p = []" "fail_fast ec"
    "goals (sess (run_world (live x))) = []"
  shows "\<exists>x'. finish en ec [] p x = Inr (\<lparr>exec_success = True, exec_reason = []\<rparr>, x') \<and>
    session_plan (sess (run_world (live x'))) = Some p"
proof -
  have q: "current_plan p x = p" using assms(2) by (simp add: current_plan_def)
  obtain r where r: "pick_next_task p = Inr r" by (rule picked [OF assms(1)])
  with picked_pending [OF assms(1)] assms(3) have "r = None" by (cases r) auto
  with r have "finish en ec [] p x = judge_plan en ec [] p x" by (simp add: finish_def q Let_def split: option.split)
  then show ?thesis
    using assms(2-4) no_goals [OF assms(5)] by (simp add: judge_plan_def q Let_def drain_at_boundary_def)
qed

theorem success_despite_failure_witness:
  "\<exists>x'. finish sample_exec_env sample_exec_config [] open_plan (exec_on open_plan) = Inr (\<lparr>exec_success = True, exec_reason = []\<rparr>, x') \<and>
     map_option status (plan_find open_plan ''a'') = Some FAILED \<and> map_option status (plan_find open_plan ''b'') = Some BLOCKED \<and>
     session_plan (sess (run_world (live x'))) = Some open_plan"
  using success_despite_failure [OF open_plan_ok(1) exec_on_simps(2) open_plan_ok(2) _ exec_on_simps(4), of sample_exec_config sample_exec_env]
  by (simp add: sample_exec_config_def open_plan_def plan_find_def mk_task_def)

text \<open>
  Of several steers only the last is heard. When an operator's \<open>STEER\<close> messages wait on the channel together, the drain before the
  next task acknowledges every one of them with success and takes it off the channel, but hands only the last to the loop;
  the earlier ones are never observed.
\<close>

theorem earlier_steers_dropped:
  assumes "control_channel (obs (seat s)) = Some c" "inbox c \<noteq> []" "list_all (\<lambda>m. msg_kind m = CK_STEER) (inbox c)"
  shows "\<exists>ocs s'. apply_pre_task_controls en hs s = Inr (Proceeds (Some (last (inbox c))), s') \<and>
    list_all2 asks_steer (inbox c) ocs \<and>
    control_channel (obs (seat s')) = Some (c\<lparr>inbox := [], outbox := outbox c @ map (\<lambda>oc. Some (oc_ack oc)) ocs\<rparr>)"
proof -
  have "control_channel (obs (seat s)) = Some (c\<lparr>inbox := inbox c\<rparr>)" using assms(1) by simp
  from steers_drained [OF assms(3) this, of "shuffle_ids en"] obtain ocs s' where
    d: "drain_loop (shuffle_ids en) (inbox c) s = Inr (ocs, s')" "list_all2 asks_steer (inbox c) ocs"
    "control_channel (obs (seat s')) = Some (c\<lparr>inbox := [], outbox := outbox c @ map (\<lambda>oc. Some (oc_ack oc)) ocs\<rparr>)" by blast
  with assms scan_steers [OF d(2), of None None] show ?thesis
    by (auto simp: apply_pre_task_controls_def drain_controls_def)
qed

definition steer_saying :: "string \<Rightarrow> ControlMessage" where
  "steer_saying body = (operator_msg CK_STEER [(''note'', JStr body)])\<lparr>msg_id := body\<rparr>"

theorem earlier_steers_dropped_witness:
  "\<exists>s' a b. apply_pre_task_controls sample_exec_env [] (on_channel (send (steer_saying ''use v2'') \<circ> send (steer_saying ''add tests''))
        (idle_run sample_world)) = Inr (Proceeds (Some (steer_saying ''use v2'')), s') \<and>
     control_channel (obs (seat s')) = Some (channel_init\<lparr>outbox := [Some a, Some b]\<rparr>) \<and>
     control_id a = ''add tests'' \<and> ack_result a = ACK_SUCCESS"
proof -
  let ?s = "on_channel (send (steer_saying ''use v2'') \<circ> send (steer_saying ''add tests'')) (idle_run sample_world)"
  let ?c = "channel_init\<lparr>inbox := [steer_saying ''add tests'', steer_saying ''use v2'']\<rparr>"
  have "control_channel (obs (seat ?s)) = Some ?c" by (simp add: send_def channel_init_def)
  from earlier_steers_dropped [OF this, of sample_exec_env "[]"] obtain ocs s' where
    r: "apply_pre_task_controls sample_exec_env [] ?s = Inr (Proceeds (Some (steer_saying ''use v2'')), s')"
    "list_all2 asks_steer [steer_saying ''add tests'', steer_saying ''use v2''] ocs"
    "control_channel (obs (seat s')) = Some (channel_init\<lparr>outbox := map (\<lambda>oc. Some (oc_ack oc)) ocs\<rparr>)"
    by (auto simp: steer_saying_def channel_init_def)
  from r(2) obtain a b where "ocs = [a, b]" "asks_steer (steer_saying ''add tests'') a" by (auto simp: list_all2_Cons1)
  with r show ?thesis by (auto simp: asks_steer_def steer_saying_def)
qed

text \<open>
  C38: a pause that arrives during a task is lost. The loop takes an operator's \<open>PAUSE\<close>, or the steerer's escalation, off
  the channel while the agent works, acknowledges it with success and lets the task finish; but nothing remembers it, so the
  controls before the next task let the loop proceed at once.
\<close>

theorem pause_during_task_lost:
  assumes "control_channel (obs (seat s)) = Some c" "inbox c = []" "\<not> closed c"
    and "msg_kind m = CK_PAUSE \<or> msg_kind m = CK_GOLDFIVE_PAUSE_ESCALATE"
  shows "\<exists>s' a. invoke_with_control en [Arrives m, Receives b] (Inr r) s = Inr (Result r, s') \<and>
    control_channel (obs (seat s')) = Some (c\<lparr>outbox := outbox c @ [Some a]\<rparr>) \<and>
    control_id a = msg_id m \<and> ack_result a = ACK_SUCCESS \<and>
    apply_pre_task_controls en hs s' = Inr (Proceeds None, s')"
proof -
  let ?s1 = "on_channel (\<lambda>_. c) (on_channel (send m) s)"
  have take: "take_message (on_channel (send m) s) = Some (m, ?s1)" "hears s"
    using assms(1-3) by (simp_all add: took hears_def)
  obtain oc s2 where oc: "dispatch_control (shuffle_ids en) m ?s1 = Inr (oc, s2)" "\<not> oc_cancel_run oc" "oc_steer oc = None"
    "control_id (oc_ack oc) = msg_id m" "ack_result (oc_ack oc) = ACK_SUCCESS" "control_channel (obs (seat s2)) = Some c"
    using assms(1,4) by (auto simp: dispatch_control_def build_ack_def mk_outcome_def Let_def)
  let ?s' = "on_channel (ack (oc_ack oc)) s2"
  have "invoke_with_control en [Arrives m, Receives b] (Inr r) s = Inr (Result r, ?s')"
    using assms(1) take oc(1-3) by (simp add: invoke_with_control_def dispatch_acked_def)
  moreover have "apply_pre_task_controls en hs ?s' = Inr (Proceeds None, ?s')"
    using oc(6) assms(2) by (simp add: apply_pre_task_controls_def drain_controls_def ack_def)
  ultimately show ?thesis using oc by (intro exI [of _ ?s'] exI [of _ "oc_ack oc"]) (simp add: ack_def)
qed

theorem pause_during_task_lost_witness:
  "\<exists>s'. invoke_with_control sample_exec_env [Arrives pause_msg, Receives False] (Inr None) (idle_run sample_world) = Inr (Result None, s') \<and>
     apply_pre_task_controls sample_exec_env [] s' = Inr (Proceeds None, s')"
  using pause_during_task_lost [of "idle_run sample_world" channel_init pause_msg sample_exec_env False None "[]"]
  by (auto simp: channel_init_def pause_msg_def)

text \<open>
  C37: a message can vanish. When the loop takes a message off the channel in the step in which the agent's turn ends, whatever it asks,
  even a \<open>CANCEL\<close>, it is neither dispatched nor acknowledged, and the controls before the next task find nothing.
\<close>

theorem message_lost_at_turn_end:
  assumes "control_channel (obs (seat s)) = Some c" "inbox c = []" "\<not> closed c"
  shows "\<exists>s'. invoke_with_control en [Arrives m, Collides] (Inr r) s = Inr (Result r, s') \<and>
    control_channel (obs (seat s')) = Some c \<and> run_world s' = run_world s \<and>
    apply_pre_task_controls en hs s' = Inr (Proceeds None, s')"
proof -
  let ?s = "on_channel (\<lambda>_. c) (on_channel (send m) s)"
  have "take_message (on_channel (send m) s) = Some (m, ?s)" "hears s"
    using assms by (simp_all add: took hears_def)
  then have "invoke_with_control en [Arrives m, Collides] (Inr r) s = Inr (Result r, ?s)"
    using assms(1) by (simp add: invoke_with_control_def)
  moreover have "apply_pre_task_controls en hs ?s = Inr (Proceeds None, ?s)"
    using assms(1,2) by (simp add: apply_pre_task_controls_def drain_controls_def)
  ultimately show ?thesis using assms(1) by (intro exI [of _ ?s]) simp
qed

theorem message_lost_at_turn_end_witness:
  "\<exists>s'. invoke_with_control sample_exec_env [Arrives (operator_msg CK_CANCEL []), Collides] (Inr None) (idle_run sample_world) =
       Inr (Result None, s') \<and> control_channel (obs (seat s')) = Some channel_init"
  using message_lost_at_turn_end [of "idle_run sample_world" channel_init sample_exec_env "operator_msg CK_CANCEL []" None "[]"]
  by (auto simp: channel_init_def)

text \<open>
  A paused run that waits without a deadline is not woken by the closing of its channel, although the loop means to resume then.
\<close>

fun brings_nothing :: "happening \<Rightarrow> bool" where
  "brings_nothing (Acts e) \<longleftrightarrow> False"
| "brings_nothing (Arrives m) \<longleftrightarrow> False"
| "brings_nothing _ \<longleftrightarrow> True"

lemma closing_wedges_pause:
  "control_channel (obs (seat s)) = Some c \<Longrightarrow> inbox c = [] \<Longrightarrow> list_all brings_nothing hs \<Longrightarrow>
   \<exists>s'. paused_loop en hs (None, pm) steer s = Inr (StillPaused, s')"
proof (induction hs arbitrary: s c)
  case (Cons h hs)
  then show ?case
  proof (cases h)
    case Closes
    with Cons.prems show ?thesis by (simp, intro Cons.IH [where c = "close c"]) (simp_all add: close_def)
  qed (auto simp: take_message_def intro: Cons.IH)
qed simp



end
