(* ===== verification/Run_History.thy ===== *)
theory Run_History
  imports Sequential_Run
begin

text \<open>
  What a whole run does to the plan. \<open>carried\<close> relates the states between which a part of the loop runs: a usable state stays
  usable, the policy stays, and the plan only goes forward. It is shown for every part of the loop, for scripts in which nobody
  rewinds.
\<close>

section \<open>Usable states\<close>

definition sent_forward :: "ControlMessage \<Rightarrow> bool" where
  "sent_forward m \<longleftrightarrow> msg_kind m \<noteq> CK_REWIND_TO"

definition no_rewind :: "run_state \<Rightarrow> bool" where
  "no_rewind s \<longleftrightarrow> (\<forall>c. control_channel (obs (seat s)) = Some c \<longrightarrow> list_all sent_forward (inbox c))"

definition ready :: "run_state \<Rightarrow> bool" where
  "ready s \<longleftrightarrow> seated (seat s) \<and> plan_held (run_world s) \<and> no_rewind s"

definition carried :: "run_state \<Rightarrow> run_state \<Rightarrow> bool" where
  "carried s s' \<longleftrightarrow> (ready s \<longrightarrow> ready s' \<and> pol (obs (seat s')) = pol (obs (seat s)) \<and> history_step (run_world s) (run_world s'))"

lemma carried_refl [simp]: "carried s s"
  by (simp add: carried_def ready_def history_same)

lemma carried_trans: "carried s s1 \<Longrightarrow> carried s1 s2 \<Longrightarrow> carried s s2"
  unfolding carried_def using history_trans by metis

lemma carriedD: "carried s s' \<Longrightarrow> ready s \<Longrightarrow> ready s'"
  by (simp add: carried_def)

lemma carried_world: "(plan_held (run_world s) \<Longrightarrow> history_step (run_world s) w) \<Longrightarrow> carried s (with_world w s)"
  by (auto simp: carried_def ready_def no_rewind_def history_step_def)

lemma carried_quiet:
  assumes "session_plan (sess (run_world s')) = session_plan (sess (run_world s))" "seated (seat s') = seated (seat s)"
    and "pol (obs (seat s')) = pol (obs (seat s))" "no_rewind s \<Longrightarrow> no_rewind s'"
  shows "carried s s'"
  using assms by (auto simp: carried_def ready_def history_same plan_held_def)

section \<open>Events\<close>

interpretation onward: influence "\<lambda>_. True" cf pl k sent_forward True for cf pl k
  by unfold_locales (auto simp: sent_forward_def)

lemma sways_inbox:
  assumes "sways P sent_forward nudge (forget b) (forget b') ms" "control_channel b = Some c" "list_all sent_forward (inbox c)"
    "control_channel b' = Some c'"
  shows "list_all sent_forward (inbox c')"
  using assms by (auto simp: sways_def)

lemma sways_carried:
  assumes "sways P sent_forward nudge (forget (obs (seat s))) (forget b) ms" "seat s' = (seat s)\<lparr>obs := b, waiting := ws\<rparr>"
    "seated (seat s) \<Longrightarrow> list_all (\<lambda>f. facts_ok (fr_drift f) \<and> level_fits (pol (obs (seat s))) f) ws"
  shows "carried s s'"
proof -
  have "no_rewind s'" if "no_rewind s"
    unfolding no_rewind_def assms(2)
  proof (intro allI impI)
    fix c'
    assume c': "control_channel (obs ((seat s)\<lparr>obs := b, waiting := ws\<rparr>)) = Some c'"
    then obtain c where "control_channel (obs (seat s)) = Some c"
      using assms(1) by (cases "control_channel (obs (seat s))") (auto simp: sways_def)
    with that sways_inbox [OF assms(1), of c c'] c' show "list_all sent_forward (inbox c')" by (simp add: no_rewind_def)
  qed
  then show ?thesis
    using sways_unforget(2) [OF assms(1)] sways_history [OF assms(1)] assms(2,3)
    by (auto simp: carried_def ready_def seated_def history_step_def)
qed

lemma dispatch_carried:
  assumes "dispatch_control shuffle m s = Inr (oc, s')" "sent_forward m"
  shows "carried s s'"
proof -
  have "pol (obs (seat s')) = pol (obs (seat s))" "control_channel (obs (seat s')) = control_channel (obs (seat s))"
    using assms by (cases "msg_kind m"; simp add: sent_forward_def dispatch_control_def dispatch_cancel_def dispatch_intercept_def
        dispatch_decision_def resolve_approval_def build_ack_def Let_def split: option.splits if_splits prod.splits; auto)+
  with control_quiet [OF assms(1)] assms(2) show ?thesis by (intro carried_quiet) (auto simp: sent_forward_def no_rewind_def)
qed

lemma invoke_carried:
  assumes "invoke_tool ev tools name args s = Inr (r, s')"
  shows "carried s s'"
  using assms
proof (cases rule: invoke_cases)
  case (handled u args')
  from tool_seat_more [OF handled(2)] tool_seat [OF handled(2)] tool_history [OF _ handled(2)] show ?thesis
    by (auto simp: carried_def ready_def no_rewind_def history_step_def)
qed simp

lemma desk_carried:
  assumes "desk_op_ok y"
  shows "carried s (s\<lparr>seat := desk_do y (seat s)\<rparr>)"
proof (cases "ready s")
  case True
  show ?thesis
  proof (cases y)
    case (Detected d)
    from onward.handle_ok [of "cfg (run_world s)" "pol (obs (seat s))" "drift_kind d" d "obs (seat s)"] True assms Detected
    obtain fr b' where
      h: "handle_drift d (obs (seat s)) = Inr (fr, b')" "sways (\<lambda>_. True) sent_forward True (forget (obs (seat s))) (forget b') (opened fr)"
      "pred_option (frame_fits (cfg (run_world s)) (pol (obs (seat s))) (attributed d)) fr" by (auto simp: situated_def ready_def)
    then show ?thesis using assms Detected
      by (intro sways_carried [OF h(2), where ws = "waiting (seat s) @ (case fr of None \<Rightarrow> [] | Some f \<Rightarrow> [f])"])
        (cases fr; auto simp: detect_def seated_def frame_fits_def)+
  next
    case (Answered i ans)
    show ?thesis
    proof (cases "i < length (waiting (seat s))")
      case True
      let ?f = "waiting (seat s) ! i"
      from True \<open>ready s\<close> have "facts_ok (fr_drift ?f)" "level_fits (pol (obs (seat s))) ?f"
        by (auto simp: ready_def seated_def list_all_length)
      with onward.resume_ok [of "cfg (run_world s)" "pol (obs (seat s))" "drift_kind (fr_drift ?f)" ?f "obs (seat s)" ans] \<open>ready s\<close>
      obtain x b' ms where
        h: "resume_refine ?f ans (obs (seat s)) = Inr (x, b')"
        "sways (\<lambda>_. True) sent_forward True (forget (obs (seat s))) (forget b') ms"
        by (auto simp: situated_def ready_def)
      with True show ?thesis
        by (intro sways_carried [OF h(2), where ws = "waiting (desk_do y (seat s))"])
          (auto simp: Answered answer_def seated_def list_all_iff dest: drop_nth_set)
    qed (simp add: Answered)
  qed
qed (simp add: carried_def)

lemma act_carried:
  assumes "forward e"
  shows "carried s (act en e s)"
proof (cases e)
  case (Invoked name args)
  then show ?thesis using invoke_carried by (auto simp: act_def split: sum.split)
next
  case (Ordered m)
  with assms show ?thesis using dispatch_carried by (auto simp: act_def sent_forward_def split: sum.split)
next
  case (TimedOut a)
  have "carried s (snd (expire_approval a s))"
    by (rule carried_quiet) (simp_all add: expire_approval_def no_rewind_def emit_approval_timeout_drift_def new_drift_def Let_def frame_simps)
  with TimedOut show ?thesis by (simp add: act_def)
next
  case (AtDesk y)
  with assms show ?thesis using desk_carried by (simp add: act_def)
qed

lemma acts_carried: "list_all forward es \<Longrightarrow> carried s (fold (act en) es s)"
proof (induction es arbitrary: s)
  case (Cons e es)
  then have "carried s (act en e s)" "carried (act en e s) (fold (act en) es (act en e s))" by (simp_all add: act_carried)
  then show ?case by (simp, rule carried_trans)
qed simp

section \<open>Observations\<close>

lemma classified_facts:
  "drift_of u e se = Some d \<Longrightarrow> (\<forall>m. e \<noteq> DictSeen m) \<Longrightarrow> facts_ok d"
  by (cases e; auto simp: drift_of_def drift_from_control_def detect_drift_def first_drift_def classify_tool_error_def
      classify_refusal_def classify_stop_reason_def facts_ok_def mk_drift_def find_Some_iff nth_Cons' Let_def
      split: option.splits if_splits ControlKind.splits prod.splits)

lemma head_quiet:
  assumes "observe_head ds e b w = (d, b', w')"
  shows "session_plan (sess w') = session_plan (sess w)"
  using assms by (auto simp: observe_head_def dispatch_snapshot_def stamp_last_observed_def on_sess_def Let_def
      split: option.splits if_splits prod.splits)

lemma head_drift: "observe_head ds e b w = (Some d, b', w') \<Longrightarrow> \<exists>u se. drift_of u e se = Some d"
  by (auto simp: observe_head_def Let_def split: option.splits if_splits prod.splits)

lemma with_obs_seat: "seat (with_obs b s) = (seat s)\<lparr>obs := b, waiting := waiting (seat s)\<rparr>"
  by (simp add: with_obs_def)

lemma handle_carried:
  assumes "ready s" "facts_ok d"
  obtains fr b where "handle_drift d (obs (seat s)) = Inr (fr, b)" "carried s (with_obs b s)"
    "pred_option (\<lambda>f. facts_ok (fr_drift f) \<and> level_fits (pol (obs (seat s))) f) fr"
proof -
  from onward.handle_ok [of "cfg (run_world s)" "pol (obs (seat s))" "drift_kind d" d "obs (seat s)"] assms obtain fr b where
    h: "handle_drift d (obs (seat s)) = Inr (fr, b)" "sways (\<lambda>_. True) sent_forward True (forget (obs (seat s))) (forget b) (opened fr)"
    "pred_option (frame_fits (cfg (run_world s)) (pol (obs (seat s))) (attributed d)) fr" by (auto simp: situated_def ready_def)
  have "carried s (with_obs b s)" by (rule sways_carried [OF h(2) with_obs_seat]) (simp add: seated_def)
  with h assms(2) that show thesis by (cases fr) (auto simp: frame_fits_def)
qed

lemma resume_carried:
  assumes "ready s" "facts_ok (fr_drift f)" "level_fits (pol (obs (seat s))) f"
  shows "\<exists>r b. resume_refine f ans (obs (seat s)) = Inr (r, b) \<and> carried s (with_obs b s)"
proof -
  from onward.resume_ok [of "cfg (run_world s)" "pol (obs (seat s))" "drift_kind (fr_drift f)" f "obs (seat s)" ans] assms obtain r b ms where
    h: "resume_refine f ans (obs (seat s)) = Inr (r, b)" "sways (\<lambda>_. True) sent_forward True (forget (obs (seat s))) (forget b) ms"
    by (auto simp: situated_def ready_def)
  have "carried s (with_obs b s)" by (rule sways_carried [OF h(2) with_obs_seat]) (simp add: seated_def)
  with h show ?thesis by blast
qed

abbreviation borne :: "exec_state \<Rightarrow> exec_state \<Rightarrow> bool" where
  "borne x x' \<equiv> carried (live x) (live x')"

lemma borne_world: "(plan_held (run_world (live x)) \<Longrightarrow> history_step (run_world (live x)) (f (run_world (live x)))) \<Longrightarrow> borne x (on_world f x)"
  by (simp add: on_world_def carried_world)

lemma borne_emit [simp]: "borne x (on_world (emit_new q) x)"
  by (simp add: borne_world history_same)

lemma observe_borne:
  assumes "observe_through en e pt x = (err, x')" "\<forall>m. e \<noteq> DictSeen m" "list_all forward (fst pt)"
  shows "borne x x'"
proof (cases "ready (live x)")
  case True
  obtain d b w where h: "observe_head (detectors en) e (dispatch_ordered x) (run_world (live x)) = (d, b, w)" by (cases "observe_head (detectors en) e (dispatch_ordered x) (run_world (live x))")
  let ?s = "with_world w (live x)"
  have s: "carried (live x) ?s" by (rule carried_world) (simp add: history_same head_quiet [OF h])
  show ?thesis
  proof (cases d)
    case None
    with assms(1) h s show ?thesis by (auto simp: observe_through_def on_world_def)
  next
    case (Some d')
    with head_drift h obtain u se where "drift_of u e se = Some d'" by blast
    then have "facts_ok d'" using classified_facts assms(2) by blast
    with carriedD [OF s True] obtain fr b1 where
      fr: "handle_drift d' (obs (seat ?s)) = Inr (fr, b1)" "carried ?s (with_obs b1 ?s)"
      "pred_option (\<lambda>f. facts_ok (fr_drift f) \<and> level_fits (pol (obs (seat ?s))) f) fr" by (rule handle_carried)
    show ?thesis
    proof (cases fr)
      case None
      with assms(1) h Some fr carried_trans [OF s fr(2)] show ?thesis by (auto simp: observe_through_def on_world_def)
    next
      case (Some f)
      let ?s2 = "fold (act en) (fst pt) (with_obs b1 ?s)"
      have s2: "carried (live x) ?s2" by (rule carried_trans [OF s carried_trans [OF fr(2) acts_carried [OF assms(3)]]])
      have "pol (obs (seat ?s2)) = pol (obs (seat ?s))"
        using s2 True by (simp add: carried_def)
      with fr(3) Some carriedD [OF s2 True] resume_carried [of ?s2 f "snd pt"] obtain r b2 where
        r: "resume_refine f (snd pt) (obs (seat ?s2)) = Inr (r, b2)" "carried ?s2 (with_obs b2 ?s2)" by auto
      with assms(1) h \<open>d = Some d'\<close> Some fr carried_trans [OF s2 r(2)] show ?thesis by (auto simp: observe_through_def on_world_def)
    qed
  qed
qed (simp add: carried_def)

section \<open>Controls\<close>

fun forth :: "happening \<Rightarrow> bool" where
  "forth (Acts e) \<longleftrightarrow> forward e"
| "forth (Arrives m) \<longleftrightarrow> sent_forward m"
| "forth _ \<longleftrightarrow> True"

lemma channel_carried:
  assumes "\<And>c. list_all sent_forward (inbox c) \<Longrightarrow> list_all sent_forward (inbox (f c))"
  shows "carried s (on_channel f s)"
  using assms by (intro carried_quiet) (auto simp: on_channel_def no_rewind_def seated_def)

lemma ack_carried: "carried s (on_channel (ack a) s)"
  by (rule channel_carried) (simp add: ack_def)

lemma sent_carried: "sent_forward m \<Longrightarrow> carried s (on_channel (send m) s)"
  by (rule channel_carried) (simp add: send_def)

lemma closed_carried: "carried s (on_channel close s)"
  by (rule channel_carried) (simp add: close_def)

lemma take_carried:
  assumes "take_message s = Some (m, s')"
  shows "carried s s'" "ready s \<Longrightarrow> sent_forward m"
proof -
  from assms obtain c ms where c: "control_channel (obs (seat s)) = Some c" "inbox c = m # ms" "s' = on_channel (\<lambda>c. c\<lparr>inbox := ms\<rparr>) s"
    by (auto simp: take_message_def split: option.splits list.splits)
  then show "carried s s'" by (intro carried_quiet) (auto simp: on_channel_def no_rewind_def seated_def)
  show "ready s \<Longrightarrow> sent_forward m" using c by (auto simp: ready_def no_rewind_def)
qed

lemma acked_carried: "dispatch_acked en m s = Inr (oc, s') \<Longrightarrow> sent_forward m \<Longrightarrow> carried s s'"
  by (auto simp: dispatch_acked_def ebind_Inr_iff intro: carried_trans [OF dispatch_carried ack_carried])

lemma moved_history: "transition i st detail creason src w = Inr w' \<Longrightarrow> plan_held w \<Longrightarrow> history_step w w'"
  using installs.step_keeps [where x = "TaskCall (task_op.Transition i st detail creason src)" and s = w] by simp

lemma expired_history: "plan_held w \<Longrightarrow> history_step w (fold (expired_cancel reason kind) is w)"
proof (induction "is" arbitrary: w)
  case (Cons i "is")
  let ?r = "transition i CANCELLED reason (''run_aborted:pause_escalate_deadline:'' @ kind) ''other'' w"
  have one: "history_step w (expired_cancel reason kind i w)"
  proof (cases ?r)
    case (Inl e)
    then show ?thesis unfolding expired_cancel_def Inl using Cons.prems by (simp add: history_same)
  next
    case (Inr w')
    from moved_history [OF this Cons.prems] show ?thesis unfolding expired_cancel_def Inr by simp
  qed
  then have "plan_held (expired_cancel reason kind i w)" by (simp add: history_step_def)
  from history_trans [OF one Cons.IH [OF this]] show ?case by simp
qed (simp add: history_same)

lemma expired_carried: "abort_expired_pause m shown (run_world s) = (reason, w) \<Longrightarrow> carried s (with_world w s)"
  by (rule carried_world) (auto simp: abort_expired_pause_def Let_def expired_history)

lemma stash_carried: "carried s (stash_prefix q s)"
  by (rule carried_quiet) (simp_all add: stash_prefix_def with_obs_def seated_def no_rewind_def)

lemma paused_carried:
  "paused_loop en hs cur steer s = Inr (pr, s') \<Longrightarrow> list_all forth hs \<Longrightarrow> carried s s'"
proof (induction hs arbitrary: cur steer s)
  case (Cons h hs)
  show ?case
  proof (cases "ready s")
    case r: True
    show ?thesis
    proof (cases h)
      case (Acts e)
      with Cons.prems Cons.IH have "carried s (act en e s)" "carried (act en e s) s'" by (simp_all add: act_carried)
      then show ?thesis by (rule carried_trans)
    next
      case (Arrives m)
      with Cons.prems Cons.IH have "carried s (on_channel (send m) s)" "carried (on_channel (send m) s) s'"
        by (simp_all add: sent_carried)
      then show ?thesis by (rule carried_trans)
    next
      case Closes
      with Cons.prems Cons.IH have "carried s (on_channel close s)" "carried (on_channel close s) s'" by (simp_all add: closed_carried)
      then show ?thesis by (rule carried_trans)
    next
      case (Receives sooner)
      show ?thesis
      proof (cases "take_message s")
        case (Some y)
        obtain m s1 where y: "y = (m, s1)" by (cases y)
        with Some r take_carried [of s m s1] have t: "carried s s1" "sent_forward m" by auto
        from Receives Some y Cons.prems(1) obtain oc s2 where d: "dispatch_acked en m s1 = Inr (oc, s2)"
          by (auto simp: ebind_Inr_iff)
        have s2: "carried s s2" by (rule carried_trans [OF t(1) acked_carried [OF d t(2)]])
        have "carried s2 s'"
          using Receives Some y d Cons.prems Cons.IH stash_carried
          by (auto simp: ebind_Inr_iff Let_def split: if_splits)
        with s2 show ?thesis by (rule carried_trans)
      qed (use Receives Cons in simp)
    next
      case Expires
      with Cons show ?thesis by (auto simp: Let_def split: option.splits prod.splits dest: expired_carried)
    qed (use Cons in simp)
  qed (simp add: carried_def)
qed simp

lemma drain_carried:
  "drain_loop shuffle ms s = Inr (ocs, s') \<Longrightarrow> list_all sent_forward ms \<Longrightarrow> carried s s'"
proof (induction ms arbitrary: s ocs)
  case (Cons m ms)
  let ?s = "on_channel (\<lambda>c. c\<lparr>inbox := ms\<rparr>) s"
  from Cons.prems(1) obtain oc s1 ocs' where d: "dispatch_control shuffle m ?s = Inr (oc, s1)"
    "drain_loop shuffle ms (on_channel (ack (oc_ack oc)) s1) = Inr (ocs', s')" by (auto simp: ebind_Inr_iff)
  have "carried s ?s" by (rule channel_carried) (use Cons.prems(2) in simp)
  moreover have "carried ?s s1" by (rule dispatch_carried [OF d(1)]) (use Cons.prems(2) in simp)
  moreover have "carried (on_channel (ack (oc_ack oc)) s1) s'" by (rule Cons.IH [OF d(2)]) (use Cons.prems(2) in simp)
  ultimately show ?case using ack_carried carried_trans by blast
qed simp

lemma controls_carried:
  assumes "apply_pre_task_controls en hs s = Inr (pr, s')" "list_all forth hs"
  shows "carried s s'"
proof (cases "ready s \<and> control_channel (obs (seat s)) \<noteq> None")
  case True
  then obtain c where c: "control_channel (obs (seat s)) = Some c" "list_all sent_forward (inbox c)"
    by (auto simp: ready_def no_rewind_def)
  with assms(1) obtain ocs s1 where d: "drain_loop (shuffle_ids en) (inbox c) s = Inr (ocs, s1)"
    "(case scan_outcomes ocs None False None of
        Inl (reason, q) \<Rightarrow> Inr (CancelsRun (or_default_reason reason), stash_prefix q s1)
      | Inr (steer, paused, pm) \<Rightarrow>
          ebind (pause_deadline_s (parse_float (tool_ctx en)) pm) (\<lambda>d.
          if paused \<and> hears s1 then paused_loop en hs (d, pm) steer s1 else Inr (Proceeds steer, s1))) = Inr (pr, s')"
    by (auto simp: apply_pre_task_controls_def drain_controls_def ebind_Inr_iff)
  have "carried s1 s'"
    using d(2) assms(2) stash_carried
    by (auto simp: ebind_Inr_iff split: sum.splits prod.splits if_splits dest: paused_carried)
  with drain_carried [OF d(1) c(2)] show ?thesis by (rule carried_trans)
qed (use assms in \<open>auto simp: carried_def [of s] apply_pre_task_controls_def history_same ready_def\<close>)

lemma attend_carried:
  "attend en hs l s = Inr (fin, s') \<Longrightarrow> list_all forth hs \<Longrightarrow> carried s s'"
proof (induction hs arbitrary: l s)
  case (Cons h hs)
  show ?case
  proof (cases "ready s")
    case r: True
    show ?thesis
    proof (cases h)
      case (Acts e)
      with Cons.prems Cons.IH have "carried s (act en e s)" "carried (act en e s) s'" by (simp_all add: act_carried)
      then show ?thesis by (rule carried_trans)
    next
      case (Arrives m)
      with Cons.prems Cons.IH have "carried s (on_channel (send m) s)" "carried (on_channel (send m) s) s'"
        by (simp_all add: sent_carried)
      then show ?thesis by (rule carried_trans)
    next
      case Closes
      with Cons.prems Cons.IH have "carried s (on_channel close s)" "carried (on_channel close s) s'" by (simp_all add: closed_carried)
      then show ?thesis by (rule carried_trans)
    next
      case (Receives sooner)
      show ?thesis
      proof (cases "if l then take_message s else None")
        case (Some y)
        obtain m s1 where y: "y = (m, s1)" by (cases y)
        with Some r take_carried [of s m s1] have t: "carried s s1" "sent_forward m" by (auto split: if_splits)
        from Receives Some y Cons.prems(1) obtain oc s2 where d: "dispatch_acked en m s1 = Inr (oc, s2)"
          by (auto simp: ebind_Inr_iff split: if_splits)
        have s2: "carried s s2" by (rule carried_trans [OF t(1) acked_carried [OF d t(2)]])
        have tag: "carried v (with_obs (write_adapter_cancel_reason q (obs (seat v))) v)" for q v
          by (rule carried_quiet) (simp_all add: with_obs_def seated_def no_rewind_def write_adapter_cancel_reason_def)
        have "carried s2 s'"
          using Receives Some y d Cons.prems Cons.IH stash_carried tag
          by (auto simp: ebind_Inr_iff Let_def split: if_splits option.splits)
        with s2 show ?thesis by (rule carried_trans)
      qed (use Receives Cons in \<open>auto split: if_splits\<close>)
    next
      case Collides
      with Cons show ?thesis by (auto split: if_splits option.splits dest: take_carried(1))
    qed (use Cons in simp)
  qed (simp add: carried_def)
qed simp

section \<open>The loop\<close>

fun forward_script :: "round_script \<Rightarrow> bool" where
  "forward_script sc \<longleftrightarrow> list_all forth (while_paused sc) \<and> list_all forth (during sc) \<and>
     list_all forward (fst (steered_before sc)) \<and> list_all forward (fst (steered_during sc)) \<and> list_all forward (fst (judged sc))"

declare forward_script.simps [simp del]

lemma try_borne:
  assumes "try_world f x = Inr x'" "\<And>w w'. plan_held w \<Longrightarrow> f w = Inr w' \<Longrightarrow> history_step w w'"
  shows "borne x x'"
proof -
  from assms(1) obtain w where w: "f (run_world (live x)) = Inr w" "x' = on_world (\<lambda>_. w) x"
    by (auto simp: try_world_def ebind_Inr_iff)
  then show ?thesis using assms(2) [OF _ w(1)] by (simp add: borne_world)
qed

lemma moved_borne: "try_world (transition i st detail creason src) x = Inr x' \<Longrightarrow> borne x x'"
  by (erule try_borne) (erule (1) moved_history [rotated])

lemma cancelled_borne: "borne x (on_world (mark_cancelled_if_live i creason) x)"
proof (rule borne_world)
  assume held: "plan_held (run_world (live x))"
  let ?w = "run_world (live x)"
    and ?r = "transition i CANCELLED ''cancelled by control'' (if creason \<noteq> [] then creason else ''user_cancel:cancelled_by_control'') ''other''
      (run_world (live x))"
  have "mark_cancelled_if_live i creason ?w = ?w \<or> (\<exists>w'. ?r = Inr w' \<and> mark_cancelled_if_live i creason ?w = w')"
    unfolding mark_cancelled_if_live_def by (cases ?r) (auto split: option.split)
  then show "history_step ?w (mark_cancelled_if_live i creason ?w)"
    using held moved_history [OF _ held] by (metis history_same)
qed

lemma steer_borne: "list_all forward (fst pt) \<Longrightarrow> borne x (apply_steer en m pt x)"
  by (cases "observe_through en (MessageSeen m) pt x") (auto simp: apply_steer_def dest: observe_borne)

lemma swap_borne: "borne x (note_swap p x)"
  by (simp add: note_swap_def)

lemma plain_borne: "borne x (on_world (\<lambda>w. emit_plain_drift k sev detail (f w) w) x)"
  by (rule borne_world) (simp add: emit_plain_drift_def history_same)

lemma boundary_borne: "list_all forward es \<Longrightarrow> borne x (drain_at_boundary en es x)"
proof -
  assume es: "list_all forward es"
  let ?x = "x\<lparr>live := fold (act en) es (live x)\<rparr>"
  have "borne ?x (on_world finalize_signal_ledger ?x)" by (rule borne_world) (simp add: history_same)
  with acts_carried [OF es, of "live x" en] show ?thesis unfolding drain_at_boundary_def by (auto intro: carried_trans)
qed

lemma abort_borne:
  assumes "abort_run en es reason x = (oc, x')" "list_all forward es"
  shows "borne x x'"
proof -
  from assms(1) obtain q where "x' = on_world (emit_new q) (drain_at_boundary en es x)"
    by (auto simp: abort_run_def Let_def)
  then show ?thesis using carried_trans [OF boundary_borne [OF assms(2)] borne_emit] by simp
qed

lemma result_borne:
  assumes "list_all forward (fst pt)"
  shows "borne x (observe_result en i r pt x)"
proof (cases r)
  case (Some res)
  obtain er x1 where o: "observe_through en (ResultSeen res) pt x = (er, x1)" by fastforce
  have 1: "borne x x1" by (rule observe_borne [OF o _ assms]) simp
  define x2 where "x2 = (case er of None \<Rightarrow> x1
     | Some err \<Rightarrow> on_world (emit_plain_drift CUSTOM INFO (''drift_pipeline_failed: '' @ exc_text en err) i) x1)"
  have 2: "borne x1 x2"
    using plain_borne [where f = "\<lambda>_. i"] by (simp add: x2_def split: option.split)
  have "borne x2 (observe_result en i r pt x)"
    unfolding observe_result_def Some option.case o prod.case
    by (cases er) (auto simp: x2_def Let_def history_same on_sess_def intro: borne_world)
  with 1 2 show ?thesis by (blast intro: carried_trans)
qed (simp add: observe_result_def)

lemma settle_borne:
  assumes "settle_result en ec p i r pt x = Inr (pr, x')" "list_all forward (fst pt)"
  shows "borne x x'"
proof -
  let ?x = "observe_result en i r pt x"
  from assms(1) have "x' = ?x \<or> try_world (auto_transition i r) ?x = Inr x'"
    by (auto simp: settle_result_def Let_def ebind_Inr_iff split: if_splits)
  moreover have "borne ?x x'" if "try_world (auto_transition i r) ?x = Inr x'"
    using that by (rule try_borne) (auto simp: auto_transition_def moved_history simp del: transition.simps split: option.splits)
  ultimately show ?thesis using result_borne [OF assms(2), of x en i r] by (auto intro: carried_trans)
qed

lemma turn_borne:
  assumes "after_turn en ec sc p i fin x = Inr (pr, x')" "forward_script sc"
  shows "borne x x'"
proof (cases fin)
  case (Result r)
  with assms show ?thesis by (auto simp: forward_script.simps intro: settle_borne)
next
  case (AdapterError exc)
  with assms show ?thesis by simp
next
  case (Interrupted reason)
  let ?x = "x\<lparr>live := with_obs ((obs (seat (live x)))\<lparr>last_cancel_reason_prefix := []\<rparr>) (live x)\<rparr>"
  have "borne x ?x" by (rule carried_quiet) (simp_all add: with_obs_def seated_def no_rewind_def)
  moreover have "borne ?x x'"
    using assms(1) Interrupted cancelled_borne [of ?x i "last_cancel_reason_prefix (obs (seat (live x)))"] by (auto simp: Let_def)
  ultimately show ?thesis by (rule carried_trans)
next
  case (Steered m)
  let ?x = "on_world (mark_cancelled_if_live i (steer_cancel_reason_prefix m)) x"
  have "borne ?x x'" using assms Steered by (auto simp: forward_script.simps intro: steer_borne)
  with cancelled_borne show ?thesis by (rule carried_trans)
qed

lemma invoke_task_borne:
  assumes "invoke_task en ec sc p t x = Inr (pr, x')" "forward_script sc"
  shows "borne x x'"
proof -
  let ?x = "count_invocation t x"
  from assms(1) obtain x1 fin s1 where i:
    "(if status t = PENDING then try_world (transition (task_id t) RUNNING [] [] ''other'') ?x else Inr ?x) = Inr x1"
    "invoke_with_control en (during sc) (ending sc) (live x1) = Inr (fin, s1)"
    "after_turn en ec sc p (task_id t) fin (x1\<lparr>live := s1\<rparr>) = Inr (pr, x')"
    unfolding invoke_task_def Let_def ebind_Inr_iff by (auto split: prod.splits)
  have "borne x ?x"
    by (rule carried_quiet) (simp_all add: count_invocation_def on_world_def on_sess_def no_rewind_def Let_def)
  moreover have "borne ?x x1" using i(1) moved_borne by (auto split: if_splits simp del: transition.simps)
  moreover have "carried (live x1) s1"
    using i(2) assms(2) by (auto simp: invoke_with_control_def ebind_Inr_iff forward_script.simps intro: attend_carried)
  moreover have "carried s1 (live x')" using turn_borne [OF i(3) assms(2)] by simp
  ultimately show ?thesis by (blast intro: carried_trans)
qed

lemma refuse_borne: "refuse_lineage ec t x = Inr (pr, x') \<Longrightarrow> borne x x'"
  unfolding refuse_lineage_def Let_def ebind_Inr_iff by (auto intro: moved_borne simp del: transition.simps)

lemma round_borne:
  assumes "run_round en ec sc p x = Inr (pr, x')" "forward_script sc"
  shows "borne x x'"
proof -
  from assms(1) obtain pre s where c: "apply_pre_task_controls en (while_paused sc) (live x) = Inr (pre, s)"
    "(case pre of
       StillPaused \<Rightarrow> Inr (Unfinished, x\<lparr>live := s\<rparr>)
     | CancelsRun reason \<Rightarrow> Inr (Aborts reason, x\<lparr>live := s\<rparr>)
     | Proceeds steer \<Rightarrow> take_task en ec sc p (steer_first en sc p steer (x\<lparr>live := s\<rparr>))) = Inr (pr, x')"
    unfolding run_round_def ebind_Inr_iff Let_def by (auto split: prod.splits)
  have s: "carried (live x) s" using assms(2) by (intro controls_carried [OF c(1)]) (simp add: forward_script.simps)
  show ?thesis
  proof (cases pre)
    case (Proceeds steer)
    let ?x = "steer_first en sc p steer (x\<lparr>live := s\<rparr>)"
    have "borne (x\<lparr>live := s\<rparr>) (case steer of None \<Rightarrow> x\<lparr>live := s\<rparr> | Some m \<Rightarrow> apply_steer en m (steered_before sc) (x\<lparr>live := s\<rparr>))"
      using assms(2) steer_borne [of "steered_before sc" "x\<lparr>live := s\<rparr>" en] by (cases steer) (auto simp: forward_script.simps)
    then have f: "carried s (live ?x)"
      unfolding steer_first_def Let_def using swap_borne carried_trans by fastforce
    from c(2) Proceeds have "take_task en ec sc p ?x = Inr (pr, x')" by simp
    then obtain t where "(case t of
        None \<Rightarrow> Inr (Ended, ?x)
      | Some t \<Rightarrow>
          if max_retries_per_task_lineage ec \<le> lineage_invocations ?x (lineage_root (task_id t)) then refuse_lineage ec t ?x
          else invoke_task en ec sc p t ?x) = Inr (pr, x')"
      unfolding take_task_def ebind_Inr_iff by blast
    then have "borne ?x x'"
      using assms(2) by (auto split: option.splits if_splits intro: refuse_borne invoke_task_borne)
    with s f show ?thesis by (blast intro: carried_trans)
  qed (use c(2) s in auto)
qed

lemma orphans_history: "cancel_orphans is w = Inr w' \<Longrightarrow> plan_held w \<Longrightarrow> history_step w w'"
proof (induction "is" arbitrary: w)
  case (Cons i "is")
  then obtain w1 where "transition i CANCELLED ''orphaned by plan revision failure''
      ''run_aborted:orphaned by plan revision failure'' ''other'' w = Inr w1" "cancel_orphans is w1 = Inr w'"
    by (auto simp: ebind_Inr_iff simp del: transition.simps)
  moreover from moved_history [OF this(1) Cons.prems(2)] have "history_step w w1" .
  moreover from this have "plan_held w1" by (simp add: history_step_def)
  ultimately show ?case using Cons.IH history_trans by blast
qed (simp add: history_same)

lemma judge_borne:
  assumes "judge_plan en ec es p x = Inr (oc, x')" "list_all forward es"
  shows "borne x x'"
proof -
  have orphans: "borne x x'"
    if o: "try_world (cancel_orphans is) x = Inr x1"
      and a: "abort_run en es reason (on_world (\<lambda>w. emit_plain_drift PLAN_DIVERGENCE CRITICAL reason (current_task_id (sess w)) w) x1) = (oc, x')"
    for "is" reason x1
  proof -
    have "borne x x1" by (rule try_borne [OF o]) (blast intro: orphans_history)
    with carried_trans [OF plain_borne abort_borne [OF a assms(2)]] show ?thesis by (blast intro: carried_trans)
  qed
  have completes: "borne x (on_world (\<lambda>w. emit_new (RunCompleted (outcome_summary (sess w))) w) (drain_at_boundary en es x))"
    by (rule carried_trans [OF boundary_borne [OF assms(2)] borne_world]) (simp add: history_same)
  show ?thesis
    using assms(1) abort_borne [OF _ assms(2)] completes orphans
    unfolding judge_plan_def Let_def by (auto simp: ebind_Inr_iff split: if_splits option.splits)
qed

lemma finish_borne:
  assumes "finish en ec es p x = Inr (oc, x')" "list_all forward es"
  shows "borne x x'"
  using assms(1) by (cases rule: finish_cases) (use assms(2) judge_borne abort_borne in blast)+

lemma loop_borne:
  "run_loop en ec es p scs x = Inr (r, x') \<Longrightarrow> list_all forward es \<Longrightarrow> list_all forward_script scs \<Longrightarrow> borne x x'"
proof (induction scs arbitrary: x)
  case Nil
  then show ?case by (subst (asm) run_loop.simps) (auto simp: ebind_Inr_iff split: if_splits dest: finish_borne)
next
  case (Cons sc scs)
  show ?case
  proof (cases "max_task_invocations ec \<noteq> None \<and> the (max_task_invocations ec) \<le> invocations x")
    case True
    with Cons.prems show ?thesis by (subst (asm) run_loop.simps) (auto simp: ebind_Inr_iff dest: finish_borne)
  next
    case False
    with Cons.prems(1) obtain pr x1 where r: "run_round en ec sc p x = Inr (pr, x1)"
      "(case pr of
          Again \<Rightarrow> run_loop en ec es p scs x1
        | Ended \<Rightarrow> ebind (finish en ec es p x1) (\<lambda>(o', x). Inr (Some o', x))
        | Aborts reason \<Rightarrow> (let (o', x) = abort_run en es reason x1 in Inr (Some o', x))
        | Unfinished \<Rightarrow> Inr (None, x1)) = Inr (r, x')"
      by (rule loop_round)
    from Cons.prems have f: "forward_script sc" "list_all forward_script scs" "list_all forward es" by simp_all
    have "borne x1 x'"
      using r(2) Cons.IH f(2,3)
      by (cases pr) (auto simp: ebind_Inr_iff dest: finish_borne abort_borne split: prod.splits)
    with round_borne [OF r(1) f(1)] show ?thesis by (rule carried_trans)
  qed
qed

lemma begin_plan:
  assumes "begin_run p s = Inr x"
  obtains w where "live x = with_world w s" "session_plan (sess w) = Some p"
  using assms that by (auto simp: begin_run_def ebind_Inr_iff set_session_plan_def split: if_splits)

section \<open>The plan after a run\<close>

text \<open>A script in which an operator pauses the agent's turn in vain.\<close>

definition sample_script :: round_script where
  "sample_script = \<lparr>while_paused = [], steered_before = ([], NoRevision), during = [Arrives pause_msg, Receives False],
     ending = Inr None, steered_during = ([], NoRevision), judged = ([], NoRevision)\<rparr>"

text \<open>
  C6: a run keeps history. Whatever the agents report, whatever drifts handlers and planners react to, whenever the operator pauses,
  steers or cancels, and however the run ends or is still going on: the session has a plan with distinct non-empty task ids, whose
  revision index is not below that of the plan the run was started with, and every task of that plan that was terminal is in it
  with the same status. Only a rewind may take tasks back.
\<close>

theorem run_keeps_history:
  assumes "run_sequential en ec es p scs s = Inr (r, x)" "ids_ok p" "waiting (seat s) = []" "no_rewind s"
    and "list_all forward es" "list_all forward_script scs"
  shows "\<exists>q. session_plan (sess (run_world (live x))) = Some q \<and> ids_ok q \<and> revision_index p \<le> revision_index q \<and>
    (\<forall>t\<in>set (tasks p). status t \<in> TERMINAL_TASK_STATUSES \<longrightarrow> (\<exists>n. plan_find q (task_id t) = Some n \<and> status n = status t))"
proof -
  from assms(1) obtain x0 where x0: "begin_run p s = Inr x0" "run_loop en ec es p scs x0 = Inr (r, x)"
    by (auto simp: run_sequential_def ebind_Inr_iff)
  from begin_plan [OF x0(1)] obtain w where w: "live x0 = with_world w s" "session_plan (sess w) = Some p" .
  with assms(2-4) have "ready (live x0)" by (simp add: ready_def seated_def plan_held_def no_rewind_def)
  with loop_borne [OF x0(2) assms(5,6)] w show ?thesis
    by (auto simp: carried_def history_step_def plan_held_def keeps_history_def)
qed

theorem run_keeps_history_witness:
  "\<exists>oc x q t. run_sequential sample_exec_env sample_exec_config [] open_plan [sample_script] (idle_run sample_world) = Inr (Some oc, x) \<and>
     session_plan (sess (run_world (live x))) = Some q \<and> plan_find q ''a'' = Some t \<and> status t = FAILED"
proof -
  let ?s = "idle_run sample_world"
  obtain x0 where x0: "begin_run open_plan ?s = Inr x0" "last_plan x0 = (plan_id open_plan, revision_index open_plan)"
    by (simp add: begin_run_def set_session_plan_def sample_world_def mk_session_def)
  from begin_plan [OF x0(1)] obtain w where "live x0 = with_world w ?s" "session_plan (sess w) = Some open_plan" .
  then have q: "current_plan open_plan x0 = open_plan" "control_channel (obs (seat (live x0))) = Some channel_init"
    by (simp_all add: current_plan_def)
  obtain n where n: "pick_next_task open_plan = Inr n" by (rule picked [OF open_plan_ok(1)])
  with picked_pending [OF open_plan_ok(1)] open_plan_ok(2) have "n = None" by (cases n) auto
  with n q x0(2) have "run_round sample_exec_env sample_exec_config sample_script open_plan x0 = Inr (Ended, x0)"
    by (simp add: run_round_def sample_script_def apply_pre_task_controls_def drain_controls_def channel_init_def steer_first_def
        take_task_def note_swap_def)
  moreover have "\<exists>oc x. finish sample_exec_env sample_exec_config [] open_plan x0 = Inr (oc, x)"
    by (rule finish_total) (simp_all only: q(1) open_plan_ok)
  ultimately obtain oc x where r: "run_sequential sample_exec_env sample_exec_config [] open_plan [sample_script] ?s = Inr (Some oc, x)"
    using x0(1) by (auto simp: run_sequential_def run_loop.simps sample_exec_config_def)
  have "forward_script sample_script" by (simp add: forward_script.simps sample_script_def sent_forward_def pause_msg_def)
  with run_keeps_history [OF r open_plan_ok(1)] r show ?thesis
    by (auto simp: open_plan_def mk_task_def no_rewind_def channel_init_def TERMINAL_TASK_STATUSES_def)
qed

end
