(* ===== verification/Run_Progress.thy ===== *)
theory Run_Progress
  imports Sequential_Run
begin

text \<open>
  The run loop comes to an end. A run is undisturbed when no message reaches it, no drift handler works and no report
  announces new work; then every iteration takes one task out of \<open>PENDING\<close> for good.
\<close>

section \<open>Tasks that are still to do\<close>

definition todo :: "plan \<Rightarrow> string set" where
  "todo p = {i. \<exists>t. plan_find p i = Some t \<and> status t = PENDING}"

lemma todo_iff: "i \<in> todo p \<longleftrightarrow> map_option status (plan_find p i) = Some PENDING"
  by (auto simp: todo_def)

lemma todo_pending: "ids_ok p \<Longrightarrow> todo p = set (pending_task_ids p)"
  by (auto simp: todo_def pending_task_ids_def ids_ok_def plan_find_member dest!: plan_find_SomeD)

lemma todo_finite [simp]: "ids_ok p \<Longrightarrow> finite (todo p)"
  by (simp add: todo_pending)

definition targets_ok :: "change list \<Rightarrow> bool" where
  "targets_ok cs \<longleftrightarrow> list_all (\<lambda>(i, a, b). b \<noteq> PENDING) cs"

lemma changes_wane:
  assumes "apply_changes cs p = Some q" "targets_ok cs"
  shows "todo q \<subseteq> todo p - fst ` set cs"
proof
  fix i
  assume "i \<in> todo q"
  with apply_changes_status [OF assms(1), of i] have s: "(case last_change cs i of Some s \<Rightarrow> Some s | None \<Rightarrow> map_option status (plan_find p i)) = Some PENDING"
    by (simp add: todo_iff)
  have "last_change cs i \<noteq> Some PENDING"
    using assms(2) by (auto simp: last_change_def targets_ok_def list_all_iff dest!: map_of_SomeD)
  with s have "last_change cs i = None" "i \<in> todo p" by (auto simp: todo_iff split: option.splits)
  then show "i \<in> todo p - fst ` set cs" by (auto simp: last_change_def map_of_eq_None_iff image_image split_beta)
qed

lemma changes_ids: "apply_changes cs p = Some q \<Longrightarrow> ids_ok p \<Longrightarrow> ids_ok q"
  by (auto simp: ids_ok_def lifecycle_step_def dest!: apply_changes_step) (metis image_iff list.set_map)

text \<open>A transition succeeds, leads nothing back to \<open>PENDING\<close>, and moves its task unless that is terminal.\<close>

lemma change_of_ok: "s \<noteq> PENDING \<Longrightarrow> targets_ok (change_of w i s)"
  "find_task w i = Some t \<Longrightarrow> status t \<notin> TERMINAL_TASK_STATUSES \<Longrightarrow> i \<in> fst ` set (change_of w i s)"
  by (auto simp: change_of_def targets_ok_def split: option.split)

lemma cancelled_ok [simp]: "targets_ok (cancelled_changes p is)" "targets_ok (c # cs) \<longleftrightarrow> snd (snd c) \<noteq> PENDING \<and> targets_ok cs" "targets_ok []"
  by (auto simp: targets_ok_def cancelled_changes_def list_all_iff split_beta)

lemma transition_changes:
  assumes "plan_ids_ok w" "s \<noteq> PENDING"
  obtains w' cs where "transition i s detail creason src w = Inr w'" "evolves w w' cs" "targets_ok cs"
    "\<And>t. find_task w i = Some t \<Longrightarrow> status t \<notin> TERMINAL_TASK_STATUSES \<Longrightarrow> i \<in> fst ` set cs"
proof (cases "s = CANCELLED \<or> s = FAILED")
  case False
  have "\<exists>w'. transition i s detail creason src w = Inr w' \<and> evolves w w' (change_of w i s)"
  proof (cases s)
    case RUNNING
    show ?thesis unfolding RUNNING transition.simps by (rule mark_task_running_evolves)
  next
    case COMPLETED
    show ?thesis unfolding COMPLETED transition.simps by (rule mark_task_completed_evolves)
  next
    case BLOCKED
    show ?thesis unfolding BLOCKED transition.simps by (rule mark_task_blocked_evolves)
  next
    case NOT_NEEDED
    show ?thesis unfolding NOT_NEEDED transition.simps by (rule mark_task_not_needed_evolves)
  qed (use False assms(2) in simp_all)
  with change_of_ok assms(2) that show thesis by blast
next
  case True
  show thesis
  proof (cases rule: change_ofE [of w i s])
    case noop
    with True have "transition i s detail creason src w = Inr w" by (auto simp: mark_task_cancelled_def mark_task_failed_def)
    with noop that evolves_refl show thesis by fastforce
  next
    case (move t p q)
    from True have "\<exists>w' is. transition i s detail creason src w = Inr w' \<and> evolves w w' ((i, status t, s) # cancelled_changes p is)"
    proof
      assume s: "s = CANCELLED"
      from mark_task_cancelled_evolves [OF move(1) move(3) [unfolded s] assms(1)] show ?thesis
        unfolding s transition.simps by blast
    next
      assume s: "s = FAILED"
      from mark_task_failed_evolves [OF move(1) move(3) [unfolded s] assms(1)] show ?thesis
        unfolding s transition.simps by blast
    qed
    with assms(2) that show thesis by fastforce
  qed
qed

section \<open>Steps that add no work\<close>

definition calm :: "run_state \<Rightarrow> bool" where
  "calm s \<longleftrightarrow> (\<forall>c. control_channel (obs (seat s)) = Some c \<longrightarrow> inbox c = [])"

definition fades :: "plan option \<Rightarrow> plan option \<Rightarrow> bool" where
  "fades a b \<longleftrightarrow> (\<forall>p. a = Some p \<longrightarrow> ids_ok p \<longrightarrow> (\<exists>q. b = Some q \<and> ids_ok q \<and> todo q \<subseteq> todo p))"

definition wanes :: "run_state \<Rightarrow> run_state \<Rightarrow> bool" where
  "wanes s s' \<longleftrightarrow> fades (session_plan (sess (run_world s))) (session_plan (sess (run_world s'))) \<and> (calm s \<longrightarrow> calm s')"

lemma fades_refl [simp]: "fades a a"
  by (simp add: fades_def)

lemma fades_trans: "fades a b \<Longrightarrow> fades b c \<Longrightarrow> fades a c"
  unfolding fades_def by (metis subset_trans)

lemma wanes_refl [simp]: "wanes s s"
  by (simp add: wanes_def)

lemma wanes_trans: "wanes s s1 \<Longrightarrow> wanes s1 s2 \<Longrightarrow> wanes s s2"
  unfolding wanes_def using fades_trans by blast

lemma evolves_fades:
  assumes "evolves w w' cs" "targets_ok cs"
  shows "fades (session_plan (sess w)) (session_plan (sess w'))"
  unfolding fades_def
proof (intro allI impI)
  fix p
  assume "session_plan (sess w) = Some p" "ids_ok p"
  with assms(1) obtain q where q: "session_plan (sess w') = Some q" "apply_changes cs p = Some q" by (auto simp: evolves_def)
  with changes_wane [OF q(2) assms(2)] changes_ids [OF q(2) \<open>ids_ok p\<close>]
  show "\<exists>q. session_plan (sess w') = Some q \<and> ids_ok q \<and> todo q \<subseteq> todo p" by blast
qed

fun calm_event :: "run_event \<Rightarrow> bool" where
  "calm_event (Invoked name args) \<longleftrightarrow> name \<noteq> tool_name NewWorkTool"
| "calm_event (TimedOut a) \<longleftrightarrow> True"
| "calm_event _ \<longleftrightarrow> False"

lemma report_fades: "reports u w w' \<Longrightarrow> fades (session_plan (sess w)) (session_plan (sess w'))"
proof -
  assume "reports u w w'"
  then obtain cs where cs: "evolves w w' cs" "report_change u w cs" by (auto simp: reports_def)
  then have "targets_ok cs" by (cases u) (auto simp: report_change_def)
  with cs(1) show ?thesis by (rule evolves_fades)
qed

lemma act_wanes:
  assumes "calm_event e" "plan_ids_ok (run_world s)"
  shows "wanes s (act en e s)"
proof (cases e)
  case (Invoked name args)
  show ?thesis
  proof (cases "invoke_tool (tool_ctx en) (tool_list en) name args s")
    case (Inr y)
    obtain r s' where y: "invoke_tool (tool_ctx en) (tool_list en) name args s = Inr (r, s')" using Inr by (cases y) simp
    then have "wanes s s'"
    proof (cases rule: invoke_cases)
      case (handled u args')
      with assms(1) Invoked have "u \<noteq> NewWorkTool" by (auto dest: find_tool_name)
      from tool_settled [OF assms(2) handled(2) this] tool_seat_more(2) [OF handled(2)] show ?thesis
        by (auto simp: wanes_def settled_def calm_def dest: report_fades)
    qed simp
    with y Invoked show ?thesis by (simp add: act_def)
  qed (simp add: Invoked act_def)
next
  case (TimedOut a)
  then show ?thesis
    by (simp add: act_def wanes_def calm_def)
      (simp add: expire_approval_def)
qed (use assms in auto)

definition planned :: "run_state \<Rightarrow> bool" where
  "planned s \<longleftrightarrow> (\<exists>p. session_plan (sess (run_world s)) = Some p \<and> ids_ok p)"

lemma planned_ids: "planned s \<Longrightarrow> plan_ids_ok (run_world s)"
  by (auto simp: planned_def plan_ids_ok_def ids_ok_def)

lemma wanes_planned: "wanes s s' \<Longrightarrow> planned s \<Longrightarrow> planned s'"
  by (auto simp: wanes_def fades_def planned_def)

lemma wanes_calm: "wanes s s' \<Longrightarrow> calm s \<Longrightarrow> calm s'"
  by (simp add: wanes_def)

fun undisturbed :: "happening \<Rightarrow> bool" where
  "undisturbed (Acts e) \<longleftrightarrow> calm_event e"
| "undisturbed (Arrives m) \<longleftrightarrow> False"
| "undisturbed _ \<longleftrightarrow> True"

lemma nothing_taken: "calm s \<Longrightarrow> take_message s = None"
  by (auto simp: take_message_def calm_def split: option.split)

lemma attend_calm:
  "list_all undisturbed hs \<Longrightarrow> calm s \<Longrightarrow> planned s \<Longrightarrow> \<exists>s'. attend en hs l s = Inr (None, s') \<and> wanes s s'"
proof (induction hs arbitrary: s)
  case (Cons h hs)
  show ?case
  proof (cases h)
    case (Acts e)
    with Cons.prems have one: "wanes s (act en e s)" by (simp add: act_wanes planned_ids)
    with Cons.prems have "\<exists>s'. attend en hs l (act en e s) = Inr (None, s') \<and> wanes (act en e s) s'"
      by (intro Cons.IH) (auto intro: wanes_calm wanes_planned)
    with Acts wanes_trans [OF one] show ?thesis by auto
  next
    case Closes
    let ?s = "on_channel close s"
    have one: "wanes s ?s" by (auto simp: wanes_def calm_def close_def)
    with Cons.prems have "\<exists>s'. attend en hs l ?s = Inr (None, s') \<and> wanes ?s s'"
      by (intro Cons.IH) (auto intro: wanes_calm wanes_planned)
    with Closes wanes_trans [OF one] show ?thesis by auto
  qed (use Cons nothing_taken in auto)
qed (auto intro: exI [of _ s])

lemma controls_calm: "calm s \<Longrightarrow> apply_pre_task_controls en hs s = Inr (Proceeds None, s)"
  by (auto simp: apply_pre_task_controls_def drain_controls_def calm_def split: option.split)

section \<open>One iteration\<close>

text \<open>What is left to do in a state of the loop.\<close>

definition rank :: "exec_state \<Rightarrow> nat" where
  "rank x = (case session_plan (sess (run_world (live x))) of None \<Rightarrow> 0 | Some p \<Rightarrow> card (todo p))"

abbreviation sound :: "exec_state \<Rightarrow> bool" where
  "sound x \<equiv> calm (live x) \<and> planned (live x)"

abbreviation shrinks :: "exec_state \<Rightarrow> exec_state \<Rightarrow> bool" where
  "shrinks x x' \<equiv> wanes (live x) (live x')"

lemma shrinks_sound: "shrinks x x' \<Longrightarrow> sound x \<Longrightarrow> sound x'"
  using wanes_calm wanes_planned by blast

lemma shrinks_rank: "shrinks x x' \<Longrightarrow> planned (live x) \<Longrightarrow> rank x' \<le> rank x"
  by (auto simp: wanes_def fades_def planned_def rank_def intro!: card_mono)

lemma shrinks_plan:
  assumes "session_plan (sess w) = session_plan (sess (run_world (live x)))"
  shows "shrinks x (x\<lparr>live := with_world w (live x)\<rparr>)"
  using assms by (simp add: wanes_def calm_def)

lemma swap_shrinks: "shrinks x (note_swap p x)"
  by (simp add: note_swap_def on_world_def wanes_def calm_def)

lemma try_moves:
  assumes "sound x" "s \<noteq> PENDING"
  obtains x' where "try_world (transition i s detail creason src) x = Inr x'" "shrinks x x'"
    "\<And>p t. session_plan (sess (run_world (live x))) = Some p \<Longrightarrow> plan_find p i = Some t \<Longrightarrow> status t = PENDING \<Longrightarrow> rank x' < rank x"
proof -
  obtain w cs where w: "transition i s detail creason src (run_world (live x)) = Inr w" "evolves (run_world (live x)) w cs" "targets_ok cs"
    "\<And>t. find_task (run_world (live x)) i = Some t \<Longrightarrow> status t \<notin> TERMINAL_TASK_STATUSES \<Longrightarrow> i \<in> fst ` set cs"
    by (rule transition_changes [OF planned_ids assms(2)]) (use assms(1) in auto)
  let ?x = "on_world (\<lambda>_. w) x"
  have "try_world (transition i s detail creason src) x = Inr ?x" using w(1) by (simp add: try_world_def)
  moreover have "shrinks x ?x" using evolves_fades [OF w(2,3)] by (simp add: on_world_def wanes_def calm_def)
  moreover have "rank ?x < rank x"
    if p: "session_plan (sess (run_world (live x))) = Some p" "plan_find p i = Some t" "status t = PENDING" for p t
  proof -
    from assms(1) p have ids: "ids_ok p" by (auto simp: planned_def)
    from w(2) p obtain q where q: "session_plan (sess w) = Some q" "apply_changes cs p = Some q" by (auto simp: evolves_def)
    have "find_task (run_world (live x)) i = Some t"
      using p ids plan_find_SomeD [OF p(2)] by (auto simp: find_task_def plan_find_def ids_ok_def split: option.splits)
    with w(4) p(3) have "i \<in> fst ` set cs" by (simp add: TERMINAL_TASK_STATUSES_def)
    moreover have "i \<in> todo p" using p by (simp add: todo_def)
    ultimately have "todo q \<subset> todo p" using changes_wane [OF q(2) w(3)] by blast
    then show ?thesis using p(1) q(1) psubset_card_mono [OF todo_finite [OF ids]] by (simp add: rank_def)
  qed
  ultimately show thesis by (rule that)
qed

text \<open>A result that the classifiers pass over.\<close>

definition unremarkable :: "InvocationResult \<Rightarrow> bool" where
  "unremarkable r \<longleftrightarrow> classify_tool_error [] (ResultSeen r) = None \<and> classify_refusal [] (ResultSeen r) = None \<and>
     (case stop_reason_of (ResultSeen r) of None \<Rightarrow> True | Some a \<Rightarrow> classify_stop_reason [] a = None)"

lemma unremarkable_passes: "unremarkable r \<Longrightarrow> drift_of u (ResultSeen r) se = None"
  by (auto simp: unremarkable_def drift_of_def detect_drift_def first_drift_def classify_tool_error_def classify_refusal_def
      classify_stop_reason_def find_None_iff Let_def split: option.splits if_splits prod.splits)

lemma result_calm:
  assumes "case r of None \<Rightarrow> True | Some res \<Rightarrow> unremarkable res"
  shows "shrinks x (observe_result en i r pt x)"
proof (cases r)
  case (Some res)
  obtain d b w where h: "observe_head (detectors en) (ResultSeen res) (dispatch_ordered x) (run_world (live x)) = (d, b, w)"
    by (cases "observe_head (detectors en) (ResultSeen res) (dispatch_ordered x) (run_world (live x))")
  with assms Some have "d = None" "session_plan (sess w) = session_plan (sess (run_world (live x)))"
    by (auto simp: observe_head_def dispatch_snapshot_def stamp_last_observed_def unremarkable_passes on_sess_def Let_def
        split: if_splits prod.splits)
  with Some h show ?thesis
    by (auto simp: observe_result_def observe_through_def on_world_def on_sess_def wanes_def calm_def Let_def)
qed (simp add: observe_result_def)

fun calm_script :: "round_script \<Rightarrow> bool" where
  "calm_script sc \<longleftrightarrow> list_all undisturbed (during sc) \<and>
     (case ending sc of Inr (Some r) \<Rightarrow> unremarkable r | _ \<Rightarrow> True)"

declare calm_script.simps [simp del]

lemma settle_calm:
  assumes "sound x" "case r of None \<Rightarrow> True | Some res \<Rightarrow> unremarkable res"
  shows "\<exists>pr x'. settle_result en ec p i r pt x = Inr (pr, x') \<and> shrinks x x' \<and> pr \<noteq> Unfinished"
proof -
  let ?x = "observe_result en i r pt x"
  have one: "shrinks x ?x" by (rule result_calm [OF assms(2)])
  then have x: "sound ?x" using assms(1) by (rule shrinks_sound)
  have "\<exists>x'. (if tracked_status p i ?x \<in> {PENDING, RUNNING} then try_world (auto_transition i r) ?x else Inr ?x) = Inr x' \<and> shrinks ?x x'"
  proof (cases "tracked_status p i ?x \<in> {PENDING, RUNNING}")
    case True
    let ?e = "case r of None \<Rightarrow> None | Some res \<Rightarrow> res_error res"
    define s where "s = (if ?e = None then COMPLETED else FAILED)"
    define detail where "detail = (case ?e of Some exc \<Rightarrow> exc | None \<Rightarrow> (case r of None \<Rightarrow> [] | Some res \<Rightarrow> res_text res))"
    have s: "s \<noteq> PENDING" "auto_transition i r = transition i s detail [] ''other''"
      by (simp_all add: s_def detail_def auto_transition_def fun_eq_iff del: transition.simps split: option.split)
    obtain x' where "try_world (transition i s detail [] ''other'') ?x = Inr x'" "shrinks ?x x'" by (rule try_moves [OF x s(1)])
    with s(2) True show ?thesis by auto
  qed (auto intro: exI [of _ ?x])
  then obtain x' where "(if tracked_status p i ?x \<in> {PENDING, RUNNING} then try_world (auto_transition i r) ?x else Inr ?x) = Inr x'" "shrinks ?x x'" by blast
  with wanes_trans [OF one] show ?thesis
    by (simp add: settle_result_def Let_def after_failure_def del: if_split insert_iff)
qed

lemma count_shrinks: "shrinks x (count_invocation t x)" "session_plan (sess (run_world (live (count_invocation t x)))) = session_plan (sess (run_world (live x)))"
  by (simp_all add: count_invocation_def on_world_def on_sess_def wanes_def calm_def Let_def)

lemma invoke_calm:
  assumes "sound x" "calm_script sc" "session_plan (sess (run_world (live x))) = Some q" "plan_find q (task_id t) = Some t" "status t = PENDING"
  shows "\<exists>pr x'. invoke_task en ec sc p t x = Inr (pr, x') \<and> sound x' \<and> rank x' < rank x \<and> pr \<noteq> Unfinished"
proof -
  let ?x = "count_invocation t x"
  have x: "sound ?x" by (rule shrinks_sound [OF count_shrinks(1) assms(1)])
  obtain x1 where x1: "try_world (transition (task_id t) RUNNING [] [] ''other'') ?x = Inr x1" "shrinks ?x x1" "rank x1 < rank ?x"
    by (rule try_moves [OF x, of RUNNING "task_id t"]) (use assms(3-5) count_shrinks(2) in auto)
  have "rank ?x = rank x" by (simp add: rank_def count_shrinks(2))
  have s1: "sound x1" by (rule shrinks_sound [OF x1(2) x])
  obtain s2 where s2: "attend en (during sc) (hears (live x1)) (live x1) = Inr (None, s2)" "wanes (live x1) s2"
    using attend_calm [of "during sc" "live x1" en "hears (live x1)"] s1 assms(2) by (auto simp: calm_script.simps)
  let ?x2 = "x1\<lparr>live := s2\<rparr>"
  have x2: "sound ?x2" using shrinks_sound [of x1 ?x2] s1 s2(2) by simp
  define fin where "fin = (case ending sc of Inl exc \<Rightarrow> AdapterError exc | Inr r \<Rightarrow> Result r)"
  have "\<exists>pr x'. after_turn en ec sc p (task_id t) fin ?x2 = Inr (pr, x') \<and> shrinks ?x2 x' \<and> pr \<noteq> Unfinished"
  proof (cases "ending sc")
    case (Inr r)
    with assms(2) have "case r of None \<Rightarrow> True | Some res \<Rightarrow> unremarkable res" by (cases r) (auto simp: calm_script.simps)
    from settle_calm [OF x2 this] Inr show ?thesis by (simp add: fin_def)
  qed (simp add: fin_def)
  then obtain pr x' where x': "after_turn en ec sc p (task_id t) fin ?x2 = Inr (pr, x')" "shrinks ?x2 x'" "pr \<noteq> Unfinished" by blast
  have "rank x' < rank x"
    using shrinks_rank [OF x'(2)] shrinks_rank [of x1 ?x2] x2 s1 s2(2) x1(3) \<open>rank ?x = rank x\<close> by simp
  moreover have "invoke_task en ec sc p t x = Inr (pr, x')"
    using assms(5) x1(1) s2(1) x'(1) by (simp add: invoke_task_def invoke_with_control_def fin_def del: transition.simps)
  ultimately show ?thesis using x'(3) shrinks_sound [OF x'(2) x2] by blast
qed

lemma refuse_calm:
  assumes "sound x" "session_plan (sess (run_world (live x))) = Some q" "plan_find q (task_id t) = Some t" "status t = PENDING"
  shows "\<exists>pr x'. refuse_lineage ec t x = Inr (pr, x') \<and> sound x' \<and> rank x' < rank x \<and> pr \<noteq> Unfinished"
proof -
  let ?d = "lineage_detail ec (lineage_root (task_id t)) (lineage_invocations x (lineage_root (task_id t)))"
  obtain x' where x': "try_world (transition (task_id t) FAILED ?d [] ''other'') x = Inr x'" "shrinks x x'" "rank x' < rank x"
    by (rule try_moves [OF assms(1), of FAILED "task_id t"]) (use assms(2-4) in auto)
  with shrinks_sound [OF x'(2) assms(1)] show ?thesis by (simp add: refuse_lineage_def Let_def del: transition.simps)
qed

lemma round_calm:
  assumes "sound x" "calm_script sc"
  shows "\<exists>pr x'. run_round en ec sc p x = Inr (pr, x') \<and> sound x' \<and> pr \<noteq> Unfinished \<and> (pr = Again \<longrightarrow> rank x' < rank x)"
proof -
  let ?x = "note_swap (current_plan p x) x"
  have x: "sound ?x" by (rule shrinks_sound [OF swap_shrinks assms(1)])
  have rank: "rank ?x \<le> rank x" using shrinks_rank [OF swap_shrinks] assms(1) by blast
  from x obtain q where q: "session_plan (sess (run_world (live ?x))) = Some q" "ids_ok q" by (auto simp: planned_def)
  obtain n where n: "pick_next_task q = Inr n" "\<And>t. n = Some t \<Longrightarrow> t \<in> set (tasks q) \<and> schedulable q t"
    by (rule picked [OF q(2)]) blast
  have "\<exists>pr x'. take_task en ec sc p ?x = Inr (pr, x') \<and> sound x' \<and> pr \<noteq> Unfinished \<and> (pr = Again \<longrightarrow> rank x' < rank ?x)"
  proof (cases n)
    case None
    with n(1) q(1) x show ?thesis by (simp add: take_task_def current_plan_def)
  next
    case (Some t)
    with n(2) q(2) have t: "plan_find q (task_id t) = Some t" "status t = PENDING"
      by (auto simp: schedulable_def plan_find_member)
    show ?thesis
      using invoke_calm [OF x assms(2) q(1) t, of en ec p] refuse_calm [OF x q(1) t, of ec] Some n(1) q(1)
      by (auto simp: take_task_def current_plan_def)
  qed
  with rank assms(1) show ?thesis by (auto simp: run_round_def controls_calm steer_first_def Let_def dest: less_le_trans)
qed

section \<open>The whole run\<close>

lemma orphans_total: "plan_ids_ok w \<Longrightarrow> \<exists>w'. cancel_orphans is w = Inr w'"
proof (induction "is" arbitrary: w)
  case (Cons i "is")
  from transition_steps [OF Cons.prems, of i CANCELLED "''orphaned by plan revision failure''"
      "''run_aborted:orphaned by plan revision failure''" "''other''"] obtain w1 cs where
    w1: "transition i CANCELLED ''orphaned by plan revision failure'' ''run_aborted:orphaned by plan revision failure'' ''other'' w = Inr w1"
    "evolves w w1 cs" unfolding steps_to_def by blast
  with Cons.IH evolves_plan_ids_ok [OF w1(2) Cons.prems] show ?case by (simp del: transition.simps)
qed simp

lemma finish_returns:
  assumes "planned (live x)"
  shows "\<exists>oc x'. finish en ec es p x = Inr (oc, x')"
proof -
  from assms obtain q where q: "session_plan (sess (run_world (live x))) = Some q" "ids_ok q" by (auto simp: planned_def)
  obtain n where n: "pick_next_task q = Inr n" by (rule picked [OF q(2)])
  obtain w where "cancel_orphans (pending_task_ids q) (run_world (live x)) = Inr w"
    using orphans_total [OF planned_ids [OF assms]] by blast
  then have "\<exists>oc x'. judge_plan en ec es p x = Inr (oc, x')"
    using q(1) by (auto simp: judge_plan_def current_plan_def try_world_def Let_def split: option.split)
  with n q(1) show ?thesis by (auto simp: finish_def current_plan_def Let_def split: option.split)
qed

lemma loop_returns:
  assumes "max_task_invocations ec = None"
  shows "list_all calm_script scs \<Longrightarrow> sound x \<Longrightarrow> rank x < length scs \<Longrightarrow> \<exists>oc x'. run_loop en ec es p scs x = Inr (Some oc, x')"
proof (induction scs arbitrary: x)
  case (Cons sc scs)
  from Cons.prems round_calm [of x sc en ec p] obtain pr x1 where
    r: "run_round en ec sc p x = Inr (pr, x1)" "sound x1" "pr \<noteq> Unfinished" "pr = Again \<longrightarrow> rank x1 < rank x" by auto
  have step: "run_loop en ec es p (sc # scs) x =
      (case pr of
         Again \<Rightarrow> run_loop en ec es p scs x1
       | Ended \<Rightarrow> ebind (finish en ec es p x1) (\<lambda>(o', x). Inr (Some o', x))
       | Aborts reason \<Rightarrow> (let (o', x) = abort_run en es reason x1 in Inr (Some o', x))
       | Unfinished \<Rightarrow> Inr (None, x1))"
    using r(1) assms by (subst run_loop.simps) simp
  show ?case
  proof (cases pr)
    case Again
    with r(2,4) Cons.prems show ?thesis unfolding step by (simp add: Cons.IH)
  next
    case Ended
    with finish_returns [of x1 en ec es p] r(2) show ?thesis unfolding step by auto
  qed (use r(3) in \<open>auto simp: step split: prod.split\<close>)
qed simp

text \<open>
  C8: an undisturbed run returns. When nobody sends a message, no drift handler works, no report announces new work and the classifiers
  pass over every result, the run ends with an outcome after at most one iteration more than the plan has \<open>PENDING\<close> tasks, whatever
  the agents report and however their turns end, and raises nothing: every iteration takes a task out of \<open>PENDING\<close> for good.
\<close>

theorem run_returns:
  assumes "ids_ok p" "calm s" "max_task_invocations ec = None" "list_all calm_script scs" "length (pending_task_ids p) < length scs"
  shows "\<exists>oc x. run_sequential en ec es p scs s = Inr (Some oc, x)"
proof -
  obtain x where x: "begin_run p s = Inr x" "live x = with_world ((run_world s)\<lparr>sess := (sess (run_world s))\<lparr>session_plan := Some p\<rparr>\<rparr>) s"
    by (simp add: begin_run_def set_session_plan_def)
  then have "sound x" using assms(1,2) by (simp add: calm_def planned_def)
  moreover have "rank x < length scs"
    using assms(5) card_length [of "pending_task_ids p"] by (simp add: rank_def x(2) todo_pending [OF assms(1)])
  ultimately show ?thesis using loop_returns [OF assms(3,4)] x(1) by (simp add: run_sequential_def)
qed

definition report_script :: round_script where
  "report_script = \<lparr>while_paused = [], steered_before = ([], NoRevision),
     during = [Acts (Invoked ''report_task_blocked'' [(''task_id'', Arg (JStr ''a'')), (''blocker'', Arg (JStr ''no access''))]), Receives False],
     ending = Inr (Some (mk_result ''a'' ''all done'' [] None [] [])), steered_during = ([], NoRevision), judged = ([], NoRevision)\<rparr>"

theorem run_returns_witness:
  "\<exists>oc x. run_sequential sample_exec_env sample_exec_config [] sample_plan [report_script, report_script] (idle_run sample_world) =
     Inr (Some oc, x)"
proof -
  have "classify_refusal [] (ResultSeen (mk_result ''a'' ''all done'' [] None [] [])) = None"
    by code_simp
  then have "calm_script report_script"
    by (simp add: calm_script.simps report_script_def unremarkable_def classify_tool_error_def mk_result_def)
  moreover have "length (pending_task_ids sample_plan) = 1" "ids_ok sample_plan"
    by (simp_all add: sample_plan_def pending_task_ids_def ids_ok_def mk_task_def)
  ultimately show ?thesis
    by (intro run_returns) (simp_all add: calm_def channel_init_def sample_exec_config_def)
qed

end
