(* ===== verification/Spec2Isabelle.thy ===== *)
theory Spec2Isabelle
  imports Plan_Validate Plan_Reconciler Tool_Watch Run_History Run_Progress
begin

text \<open>
  Goldfive steers teams of language-model agents. A planner proposes a plan, a DAG of tasks; a runner and framework
  adapters let agents work; what the agents do is observed; observations become task transitions, drift reports and
  plan revisions. This development models the deterministic core that decides what may happen to a session's plan and
  to the bookkeeping around it, and proves the contracts the rest of the program relies on. Sources are under
  \<^verbatim>\<open>src/goldfive/\<close>.

  \<^bold>\<open>The parts and their theories.\<close>

  \<^item> \<open>Goldfive_Prelude\<close>: collections of rules, results as sums with \<open>ebind\<close>, ordered dictionaries as association
    lists, generic facts on lists and relations. \<open>Python_Values\<close>: JSON values of session state, truthiness,
    \<open>str.strip\<close>, \<open>lower\<close>, \<open>startswith\<close> and number formatting as Python has them.
  \<^item> \<open>Plan_Types\<close> (\<^verbatim>\<open>types.py\<close>): \<open>TaskStatus\<close>, \<open>DriftKind\<close>, \<open>DriftSeverity\<close>, the frozen \<open>Task\<close>, \<open>TaskEdge\<close> and \<open>Plan\<close>,
    the derivation helpers (\<open>with_task_status\<close>, \<open>bump_revision\<close>, \<open>fold_runtime_terminal_statuses\<close>, \<open>supersession\<close> maps),
    readiness of a task. \<open>Plan_Dag\<close>: \<open>Plan.topological_stages\<close> and the placement loop of \<open>Plan.validate\<close>.
    \<open>Plan_Validate\<close>: the eight rules of \<open>Plan.validate\<close> in source order.
  \<^item> \<open>Control_Channel\<close> (\<^verbatim>\<open>control.py\<close>): the queue pair between operator and run.
  \<^item> \<open>Session_Types\<close> (\<^verbatim>\<open>types.py\<close>, \<^verbatim>\<open>drift_observer.py\<close>): drift events, goals, the session record.
    \<open>State_Store\<close> (\<^verbatim>\<open>state_store.py\<close>): the \<open>goldfive.*\<close> keys. \<open>Drift_Conditions\<close>: the lifecycle of drift conditions in that state.
    \<open>Invocation_Registry\<close>: the process-wide registries of running, cancelled and superseded invocations.
  \<^item> \<open>Signal_Ledger\<close> (\<^verbatim>\<open>signal_ledger.py\<close>) and \<open>Observer_Notes\<close> (\<^verbatim>\<open>observer_note_queue.py\<close>): the two JSON-backed
    queues that follow a steering signal from its firing to its outcome.
  \<^item> \<open>Task_State_Machine\<close> (\<^verbatim>\<open>task_state_machine.py\<close>, \<^verbatim>\<open>steerer.py\<close>): every \<open>mark_task_*\<close>, the cancel cascade, the
    events they emit; \<open>Task_Lifecycle\<close> proves the life of a task over arbitrary sequences of these calls.
  \<^item> \<open>Corrections\<close> (\<^verbatim>\<open>_correction_injection.py\<close>): pending corrections for agents.
  \<^item> \<open>Plan_Revision\<close> and \<open>Plan_Install\<close> (\<^verbatim>\<open>plan_reviser.py\<close>, \<^verbatim>\<open>runner.py\<close>): derivation of a revision (ledger identity,
    growth, minimal steer evolution, integration of corrections) and the entry points that land it;
    \<open>Drift_Emission\<close> (\<^verbatim>\<open>drift_observer.py\<close>): reports, refine outcomes, in-flight cancellation. \<open>Install_Safety\<close>
    composes them.
  \<^item> \<open>Intervention_Ladder\<close> (\<^verbatim>\<open>drift_observer.py\<close>, \<^verbatim>\<open>steerer.py\<close>): \<open>handle_drift\<close> and everything below it, the ladder tables,
    promotion, pacing of signals, the dispatchers and the refine; \<open>Note_Composer\<close> (\<^verbatim>\<open>observer_notes.py\<close>): the note
    an agent gets. \<open>Ladder_Effects\<close> and \<open>Ladder_Safety\<close> say what a handler does outside the session's bookkeeping;
    \<open>Drift_Handling\<close> runs many handlers side by side.
  \<^item> \<open>Tool_Loops\<close> (\<^verbatim>\<open>drift/tool_loops.py\<close>): the detector of repeated tool calls; \<open>Tool_Watch\<close> (\<^verbatim>\<open>adapters/_adk_plugin.py\<close>): the
    plugin's callback after a tool call, from detection through the ladder to the annotated result.
  \<^item> \<open>Plan_Reconciler\<close> (\<^verbatim>\<open>reconciler.py\<close>): agent turns seen by callbacks become transitions and growth.
  \<^item> \<open>Run_Control\<close> (\<^verbatim>\<open>executors/_control.py\<close>): what a control message does to a run: cancel, pause, steer, rewind, approvals,
    status queries, the end of a pause nobody answers. \<open>Reporting\<close> (\<^verbatim>\<open>reporting/\<close>, \<^verbatim>\<open>adapters/_tool_invocation.py\<close>): the tools
    agents report with, from the dispatcher to the reply, and calls that wait for a human.
  \<^item> \<open>Drift_Classifiers\<close> (\<^verbatim>\<open>drift/__init__.py\<close>, \<^verbatim>\<open>drift_observer.py\<close>, \<^verbatim>\<open>results.py\<close>): from an observed value to a drift, and
    \<open>DriftObserver.observe\<close>.
  \<^item> \<open>Sequential_Schedule\<close> (\<^verbatim>\<open>executors/sequential.py\<close>): which task is next, which failures count, which tasks nothing leads to.
    \<open>Sequential_Run\<close> (\<^verbatim>\<open>executors/sequential.py\<close>, \<^verbatim>\<open>executors/_shared.py\<close>, \<^verbatim>\<open>results.py\<close>): the run loop
    \<open>SequentialExecutor.run\<close> from the first task to the verdict; it calls the parts above. \<open>Run_History\<close> shows what a whole run
    does to the plan, \<open>Run_Progress\<close> that an undisturbed run ends.
  \<^item> this theory: all of it together, an interleaving of observations, calls and run events.

  \<^bold>\<open>State.\<close> The record \<open>world\<close> of \<open>Task_State_Machine\<close> holds the session (with its JSON state dictionary), the configuration flags
  that the modelled code reads, the emitted events in order, the registries, counters for identifiers and clocks.
  Operations are functions on it; one that can raise returns \<open>py_error + _\<close>, \<open>Inl\<close> being the exception. An
  \<open>await\<close> under the plan lock is one atomic step, so an interleaving is a list of operations.
  Code outside the repository enters as parameters: hash functions and fresh identifiers are functions in the
  configuration (\<open>sha1\<close>, \<open>discovery_hash\<close>, \<open>uuid_hex\<close>), the planner is the proposed plan given to an install.
  A drift handler waits for the planner without the lock: \<open>handle_drift\<close> returns a frame there and \<open>resume_refine\<close> goes
  on with the answer, so that other steps can come between. The record \<open>observer\<close> adds to the world what the drift
  observer keeps (nudges, control channel, refines in flight); the record \<open>desk\<close> adds the frames that wait; the record
  \<open>run_state\<close> adds what a run keeps on the session (pending approvals, flags); the record \<open>exec_state\<close> adds the variables of the run
  loop. An event of a run, \<open>run_event\<close>, is a tool call, a control message, a time-out or a step at the desk.

  \<^bold>\<open>What is shown.\<close>

  \<^item> Plans: \<open>validate\<close> is equivalent to a declarative contract; a validated plan with work left always has a ready
    task; stages are the longest-path levels of the graph.
  \<^item> Tasks: terminal statuses are absorbing; the cascade cancels exactly the live tasks reachable through live
    tasks; replaying the event log gives the plan (refinement).
  \<^item> Revisions: when a revision lands, what observation mode lets through, which tasks are kept, when growth is a
    duplicate, when the fallback evolution validates.
  \<^item> Bookkeeping: ledger outcomes are final and rightly attributed, notes are delivered once and by severity,
    conditions escalate monotonically, state operations are total on the states they produce, registries refine a set
    of pairs.
  \<^item> Drift handling: without active steering no handler injects anything; goldfive's own drifts never cancel or restart
    an agent; every refine that starts ends in exactly one outcome event and holds its slot until then; a refine
    that fails pauses the run; the ladder only escalates.
  \<^item> Tool calls: the tracker's verdict is the worst severity any tier emits on the calls since the last progress; varied work
    is never disturbed; a tool's result is only ever annotated, and not at all without active steering.
  \<^item> Runs: a rewind resets exactly the target and what lies behind it; every control message is answered once; a report moves a
    task only along the lifecycle table; an approval is released by a decision with that decision; the next task is the first of
    the stages whose dependencies are complete; the tasks given up are exactly those cut off; the verdict says exactly when a run
    succeeds; a run never takes a terminal task back unless the operator rewinds; an undisturbed run returns after at most one
    iteration more than there are tasks to do; the number of invocations is bounded by the configured caps, whatever the planner
    does.
  \<^item> Composition: \<open>history_is_immutable\<close> below.
  \<^item> Deviations: theorems of kind error show behaviour the code does not intend, each on the faithful model.

  \<^bold>\<open>Interfaces.\<close> Locales state what several operations share: \<open>plan_history\<close> (every step keeps terminal tasks and the
  revision order; run-level facts proved once) is interpreted on the installs, on the
  reconciler's callbacks, on the drift handlers, on the events of a run and on the whole system; \<open>call_policy\<close> and \<open>influence\<close> (which plugin calls, control messages and nudges a drift
  may cause) on the regimes \<open>watching\<close>, \<open>advising\<close> and \<open>anything\<close>; \<open>lifecycle\<close> (what every task call keeps) on the \<open>mark_task_*\<close> calls;
  \<open>kahn_graph\<close> (a finite graph given by nodes and edges, the levels of its nodes) on the tasks of a plan; \<open>mailbox\<close> (a
  first-in first-out queue) on both directions of the control channel; \<open>json_record\<close> (a record survives its JSON form) on
  drift records, ledger entries and notes; \<open>mark_set\<close> (a set of marks per session) on the cancel and supersede registries.

  \<^bold>\<open>Loops.\<close> Every loop is a total function: worklists (\<open>cascade_loop\<close>, \<open>stage_loop\<close>, \<open>place_all\<close>) and the walks up
  the invocation tree end by a measure on what is not yet visited; there is no fuel. The run loop may go on for ever, because it waits
  for agents, operators and the planner: it is driven by a list of scripts, one for each iteration, that tell what they do, and a list that
  ends too early leaves the run unfinished. Retention caps of
  the queues (256 notes, the ledger and refine limits) are the source's constants. Python integers are \<open>int\<close>.

  \<^bold>\<open>Not modelled.\<close> Language-model prompting and repair of its JSON (\<^verbatim>\<open>planner.py\<close>, \<^verbatim>\<open>goal_deriver.py\<close>, judges), detectors on
  reasoning text and embeddings (the rest of \<^verbatim>\<open>drift/\<close>), the other adapter callbacks, the overlay mode of the sequential
  executor, the parallel executor, protobuf conversion, sinks and server: they call external services or third-party callbacks. Text rendered into prompts is left out where no state depends on it.
\<close>

section \<open>The whole plan\<close>

text \<open>
  What reaches a session's plan while a run goes on: calls of the task state machine and of the plan reviser, the
  observations the reconciler turns into transitions and growth, and the events of a run: reporting tools, control
  messages, drift handlers with the planner's answers.
\<close>

datatype system_op = Observed observation | Called plan_op | Ran run_event

fun system_step ::
  "tool_env \<Rightarrow> tool list \<Rightarrow> (string list \<Rightarrow> string list) \<Rightarrow> system_op \<Rightarrow> reconciler \<times> run_state \<Rightarrow> reconciler \<times> run_state" where
  "system_step ev tools shuffle (Observed e) (rc, s) = (let (rc', w) = observe_step e (rc, run_world s) in (rc', with_world w s))"
| "system_step ev tools shuffle (Called x) (rc, s) = (rc, with_world (plan_step x (run_world s)) s)"
| "system_step ev tools shuffle (Ran e) (rc, s) = (rc, run_do ev tools shuffle e s)"

fun no_pivot :: "system_op \<Rightarrow> bool" where
  "no_pivot (Observed e) \<longleftrightarrow> True"
| "no_pivot (Called x) \<longleftrightarrow> extends_plan x"
| "no_pivot (Ran e) \<longleftrightarrow> forward e"

interpretation system: plan_history "system_step ev tools shuffle" "\<lambda>s. run_world (snd s)" no_pivot "\<lambda>s. seated (seat (snd s))"
  for ev tools shuffle
proof
  fix x :: system_op and s :: "reconciler \<times> run_state"
  assume x: "no_pivot x" "seated (seat (snd s))" "plan_held (run_world (snd s))"
  obtain rc k where s: "s = (rc, k)" by (cases s)
  show "history_step (run_world (snd s)) (run_world (snd (system_step ev tools shuffle x s)))"
    using x observations.step_keeps [where s = "(rc, run_world k)"] installs.step_keeps [where s = "run_world k"]
      runs.step_keeps [where s = k]
    by (cases x) (auto simp: s split_beta)
  show "seated (seat (snd (system_step ev tools shuffle x s)))"
    using x runs.step_good [where s = k] by (cases x) (auto simp: s split_beta)
qed



end
